(* ===== verification/Prelude.thy ===== *)
theory Prelude
  imports Main
    "HOL-Library.Word"
    "HOL-Library.AList"
    "HOL-Library.List_Lexorder"
    "HOL-Library.Char_ord"
    "HOL-Library.Sublist"
begin

text \<open>
  The vocabulary shared by the component theories: Go's bytes, strings, byte
  order helpers, 64-bit signed integers, instants, maps and byte readers, with
  the generic lemmas on them. Nothing here models a function of the repository;
  it models what the repository uses of the Go language and its standard library.
\<close>

unbundle bit_operations_syntax

named_theorems go_defs \<open>definitions of the model that component proofs unfold\<close>
named_theorems wire_simps \<open>lengths and decodings of encoded integers\<close>

subsection \<open>Bytes and strings\<close>

type_synonym byte = "8 word"
type_synonym bytes = "byte list"
type_synonym u16 = "16 word"
type_synonym u32 = "32 word"

text \<open>Go strings are byte sequences; they are HOL strings here, and
  \<open>[]byte(s)\<close> and \<open>string(b)\<close> are these conversions.\<close>

definition byte_of_char :: "char \<Rightarrow> byte" where
  "byte_of_char c = word_of_nat (of_char c)"

definition char_of_byte :: "byte \<Rightarrow> char" where
  "char_of_byte b = char_of (unat b)"

abbreviation bytes_of_string :: "string \<Rightarrow> bytes" where
  "bytes_of_string \<equiv> map byte_of_char"

abbreviation string_of_bytes :: "bytes \<Rightarrow> string" where
  "string_of_bytes \<equiv> map char_of_byte"

subsection \<open>Fixed-width integers on the wire\<close>

definition put_le16 :: "u16 \<Rightarrow> bytes" where
  "put_le16 w = [ucast w, ucast (drop_bit 8 w)]"

definition get_le16 :: "bytes \<Rightarrow> u16" where
  "get_le16 bs = ucast (bs ! 0) OR push_bit 8 (ucast (bs ! 1))"

definition put_be16 :: "u16 \<Rightarrow> bytes" where
  "put_be16 w = [ucast (drop_bit 8 w), ucast w]"

definition get_be16 :: "bytes \<Rightarrow> u16" where
  "get_be16 bs = push_bit 8 (ucast (bs ! 0)) OR ucast (bs ! 1)"

definition put_le32 :: "u32 \<Rightarrow> bytes" where
  "put_le32 w = [ucast w, ucast (drop_bit 8 w), ucast (drop_bit 16 w), ucast (drop_bit 24 w)]"

definition get_le32 :: "bytes \<Rightarrow> u32" where
  "get_le32 bs = ucast (bs ! 0) OR push_bit 8 (ucast (bs ! 1))
     OR push_bit 16 (ucast (bs ! 2)) OR push_bit 24 (ucast (bs ! 3))"

definition put_be32 :: "u32 \<Rightarrow> bytes" where
  "put_be32 w = [ucast (drop_bit 24 w), ucast (drop_bit 16 w), ucast (drop_bit 8 w), ucast w]"

definition get_be32 :: "bytes \<Rightarrow> u32" where
  "get_be32 bs = push_bit 24 (ucast (bs ! 0)) OR push_bit 16 (ucast (bs ! 1))
     OR push_bit 8 (ucast (bs ! 2)) OR ucast (bs ! 3)"

subsection \<open>Signed 64-bit integers\<close>

text \<open>Go's \<open>int64\<close> (and \<open>int\<close> on 64-bit platforms) is an \<open>int\<close> whose results are
  brought back into range by \<open>i64\<close>, the two's complement wrap-around.\<close>

definition i64 :: "int \<Rightarrow> int" where
  "i64 x = (x + 2 ^ 63) mod 2 ^ 64 - 2 ^ 63"

definition in_i64 :: "int \<Rightarrow> bool" where
  "in_i64 x \<longleftrightarrow> - (2 ^ 63) \<le> x \<and> x < 2 ^ 63"

text \<open>Go's integer division truncates towards zero.\<close>

definition go_div :: "int \<Rightarrow> int \<Rightarrow> int" where
  "go_div a b = sgn a * sgn b * (\<bar>a\<bar> div \<bar>b\<bar>)"

subsection \<open>Instants\<close>

text \<open>A \<open>time.Time\<close> is the number of nanoseconds since the zero time, January 1 of
  year 1 UTC, so \<open>IsZero\<close> is \<open>t = 0\<close>; a \<open>time.Duration\<close> is a number of nanoseconds.
  Monotonic clock readings are not modelled.\<close>

type_synonym go_time = int
type_synonym duration = int

definition unix_epoch :: go_time where
  "unix_epoch = 62135596800 * 1000000000"

definition unix_nano :: "go_time \<Rightarrow> int" where
  "unix_nano t = i64 (t - unix_epoch)"

definition time_of_unix_nano :: "int \<Rightarrow> go_time" where
  "time_of_unix_nano n = n + unix_epoch"

text \<open>Year and month of an instant in the process's time zone. The zone is the
  operating system's data: \<open>zone t\<close> is the offset in nanoseconds at instant \<open>t\<close>.\<close>

definition civil_of_days :: "int \<Rightarrow> int \<times> int" where
  "civil_of_days d =
     (let z = d + 306; era = z div 146097; doe = z mod 146097;
          yoe = (doe - doe div 1460 + doe div 36524 - doe div 146096) div 365;
          doy = doe - (365 * yoe + yoe div 4 - yoe div 100);
          mp = (5 * doy + 2) div 153;
          m = (if mp < 10 then mp + 3 else mp - 9)
      in (yoe + era * 400 + (if m \<le> 2 then 1 else 0), m))"

definition year_month :: "(go_time \<Rightarrow> int) \<Rightarrow> go_time \<Rightarrow> int \<times> int" where
  "year_month zone t = civil_of_days ((t + zone t) div (86400 * 1000000000))"

subsection \<open>Maps\<close>

text \<open>A Go map is an association list with distinct keys. The order of the list is
  the order a \<open>range\<close> loop visits the keys in, which Go leaves open: a theorem about
  every list of a given content covers every iteration order.\<close>

type_synonym ('k, 'v) gomap = "('k \<times> 'v) list"

abbreviation gm_ok :: "('k, 'v) gomap \<Rightarrow> bool" where
  "gm_ok m \<equiv> distinct (map fst m)"

abbreviation gm_get :: "('k, 'v) gomap \<Rightarrow> 'k \<Rightarrow> 'v option" where
  "gm_get \<equiv> map_of"

abbreviation gm_put :: "'k \<Rightarrow> 'v \<Rightarrow> ('k, 'v) gomap \<Rightarrow> ('k, 'v) gomap" where
  "gm_put \<equiv> AList.update"

abbreviation gm_del :: "'k \<Rightarrow> ('k, 'v) gomap \<Rightarrow> ('k, 'v) gomap" where
  "gm_del \<equiv> AList.delete"

abbreviation gm_keys :: "('k, 'v) gomap \<Rightarrow> 'k list" where
  "gm_keys m \<equiv> map fst m"

text \<open>Reading a missing key gives the value type's zero value.\<close>

definition gm_get0 :: "'v \<Rightarrow> ('k, 'v) gomap \<Rightarrow> 'k \<Rightarrow> 'v" where
  "gm_get0 z m k = (case gm_get m k of None \<Rightarrow> z | Some v \<Rightarrow> v)"

text \<open>The byte-wise exclusive or of two sequences.\<close>

definition xor_bytes :: "bytes \<Rightarrow> bytes \<Rightarrow> bytes" where
  "xor_bytes a b = map2 (XOR) a b"

subsection \<open>Byte readers\<close>

text \<open>A stream that is only read through \<open>io.ReadFull\<close> and \<open>io.CopyN\<close> is the list of
  bytes it still delivers before it fails; how the bytes arrive in chunks makes no
  difference to those calls.\<close>

definition read_full :: "nat \<Rightarrow> bytes \<Rightarrow> (bytes \<times> bytes) option" where
  "read_full n r = (if n \<le> length r then Some (take n r, drop n r) else None)"

subsection \<open>Lemmas\<close>

lemma length_xor_bytes [simp]: "length (xor_bytes a b) = min (length a) (length b)"
  by (simp add: xor_bytes_def)

lemma xor_bytes_twice: "length a = length b \<Longrightarrow> xor_bytes (xor_bytes a b) b = a"
  by (rule nth_equalityI) (simp_all add: xor_bytes_def xor.assoc)

lemma of_char_less_256: "(of_char c :: nat) < 256"
  by (cases c) (simp add: of_char_def split: if_splits)

lemma char_of_byte_of_char [simp]: "char_of_byte (byte_of_char c) = c"
proof -
  have "unat (word_of_nat (of_char c) :: byte) = of_char c"
    using of_char_less_256 [of c] by (simp add: unat_of_nat take_bit_nat_eq_self)
  then show ?thesis by (simp add: char_of_byte_def byte_of_char_def)
qed

lemma byte_of_char_of_byte [simp]: "byte_of_char (char_of_byte b) = b"
proof -
  have "unat b < 256" using unsigned_less [of b, where 'a = nat] by simp
  then have "of_char (char_of (unat b) :: char) = unat b"
    by simp
  then show ?thesis by (simp add: char_of_byte_def byte_of_char_def)
qed

lemma char_of_byte_comp [simp]: "char_of_byte \<circ> byte_of_char = id" "byte_of_char \<circ> char_of_byte = id"
  by (simp_all add: fun_eq_iff)

lemma string_of_bytes_of_string [simp]: "string_of_bytes (bytes_of_string s) = s"
  by simp

lemma bytes_of_string_of_bytes [simp]: "bytes_of_string (string_of_bytes b) = b"
  by simp

lemma length_puts [simp, wire_simps]:
  "length (put_le16 a) = 2" "length (put_be16 a) = 2"
  "length (put_le32 b) = 4" "length (put_be32 b) = 4"
  by (simp_all add: put_le16_def put_be16_def put_le32_def put_be32_def)

lemma get_put_le16 [simp, wire_simps]: "get_le16 (put_le16 w @ r) = w"
  by (rule bit_word_eqI) (auto simp: get_le16_def put_le16_def bit_simps)

lemma get_put_be16 [simp, wire_simps]: "get_be16 (put_be16 w @ r) = w"
  by (rule bit_word_eqI) (auto simp: get_be16_def put_be16_def bit_simps)

lemma nat_less_32_cases:
  fixes n :: nat
  assumes "n < 32"
  obtains "n < 8" | "8 \<le> n" "n < 16" | "16 \<le> n" "n < 24" | "24 \<le> n" "n < 32"
  using assms by linarith

lemma get_put_le32 [simp, wire_simps]: "get_le32 (put_le32 w @ r) = w"
proof (rule bit_word_eqI)
  fix n assume "n < LENGTH(32)"
  then have "n < 32" by simp
  then show "bit (get_le32 (put_le32 w @ r)) n = bit w n"
    by (cases n rule: nat_less_32_cases) (auto simp: get_le32_def put_le32_def bit_simps)
qed

lemma get_put_be32 [simp, wire_simps]: "get_be32 (put_be32 w @ r) = w"
proof (rule bit_word_eqI)
  fix n assume "n < LENGTH(32)"
  then have "n < 32" by simp
  then show "bit (get_be32 (put_be32 w @ r)) n = bit w n"
    by (cases n rule: nat_less_32_cases) (auto simp: get_be32_def put_be32_def bit_simps)
qed

lemma get_puts_nil [simp, wire_simps]:
  "get_le16 (put_le16 a) = a" "get_be16 (put_be16 a) = a"
  "get_le32 (put_le32 b) = b" "get_be32 (put_be32 b) = b"
  using get_put_le16 [of a "[]"] get_put_be16 [of a "[]"]
    get_put_le32 [of b "[]"] get_put_be32 [of b "[]"] by simp_all

lemma unat_u32_of_nat [wire_simps]: "n < 2 ^ 32 \<Longrightarrow> unat (word_of_nat n :: u32) = n"
  by (simp add: unat_of_nat take_bit_nat_eq_self)

lemma unat_u16_of_nat [wire_simps]: "n < 2 ^ 16 \<Longrightarrow> unat (word_of_nat n :: u16) = n"
  by (simp add: unat_of_nat take_bit_nat_eq_self)

lemma unat_byte_of_nat [wire_simps]: "n < 256 \<Longrightarrow> unat (word_of_nat n :: byte) = n"
  by (simp add: unat_of_nat take_bit_nat_eq_self)

lemma unat_byte_less [simp]: "unat (b :: byte) < 256"
  using unsigned_less [of b, where 'a = nat] by simp

lemma in_i64_i64 [simp]: "in_i64 (i64 x)"
proof -
  have "0 \<le> (x + 2 ^ 63) mod 2 ^ 64" "(x + 2 ^ 63) mod 2 ^ 64 < 2 ^ 64"
    by simp_all
  then show ?thesis by (simp add: in_i64_def i64_def)
qed

lemma i64_id [simp]: "in_i64 x \<Longrightarrow> i64 x = x"
  by (simp add: in_i64_def i64_def)

lemma go_div_nonneg: "0 \<le> a \<Longrightarrow> 0 < b \<Longrightarrow> go_div a b = a div b"
  by (auto simp: go_div_def sgn_if)

lemma read_full_append [simp]: "read_full (length a) (a @ r) = Some (a, r)"
  by (simp add: read_full_def)

lemma read_full_append_eq: "length a = n \<Longrightarrow> read_full n (a @ r) = Some (a, r)"
  by auto

lemma read_full_Some: "read_full n r = Some (a, b) \<longleftrightarrow> n \<le> length r \<and> a = take n r \<and> b = drop n r"
  by (auto simp: read_full_def)

lemma read_full_length: "read_full n r = Some (a, b) \<Longrightarrow> length a = n \<and> length r = n + length b"
  by (auto simp: read_full_Some)

lemma gm_get_put [simp]: "gm_get (gm_put k v m) = (gm_get m)(k \<mapsto> v)"
  by (simp add: update_conv')

lemma gm_get_del [simp]: "gm_get (gm_del k m) = (gm_get m)(k := None)"
  by (simp add: delete_conv')

lemma gm_ok_put [simp, intro]: "gm_ok m \<Longrightarrow> gm_ok (gm_put k v m)"
  by (rule distinct_update)

lemma gm_ok_del [simp, intro]: "gm_ok m \<Longrightarrow> gm_ok (gm_del k m)"
  by (rule distinct_delete)

lemma gm_keys_dom: "set (gm_keys m) = dom (gm_get m)"
  by (simp add: dom_map_of_conv_image_fst)

lemma sort_keys_cong: "gm_ok m \<Longrightarrow> gm_ok m' \<Longrightarrow> gm_get m = gm_get m' \<Longrightarrow>
    sort (gm_keys m) = sort (gm_keys m')"
  by (metis gm_keys_dom sorted_list_of_set_sort_remdups distinct_remdups_id)

lemma gm_ok_length: "gm_ok m \<Longrightarrow> length m = card (dom (gm_get m))"
  by (metis distinct_card gm_keys_dom length_map)

lemma fold_put_notin: "k \<notin> set (map fst kvs) \<Longrightarrow>
    gm_get (fold (\<lambda>(k, v) m. gm_put k v m) kvs m) k = gm_get m k"
  by (induction kvs arbitrary: m) auto

lemma gm_get_fold_put: "gm_ok kvs \<Longrightarrow>
    gm_get (fold (\<lambda>(k, v) m. gm_put k v m) kvs m) k =
    (case map_of kvs k of None \<Rightarrow> gm_get m k | Some v \<Rightarrow> Some v)"
proof (induction kvs arbitrary: m)
  case (Cons kv kvs)
  obtain k' v where kv: "kv = (k', v)" by (cases kv)
  show ?case
  proof (cases "k = k'")
    case True
    with Cons.prems kv have "k \<notin> set (map fst kvs)" by simp
    with True kv show ?thesis by (simp add: fold_put_notin del: set_map)
  next
    case False
    with Cons kv show ?thesis by (simp split: option.split)
  qed
qed simp

subsection \<open>Transition systems\<close>

text \<open>The interface of a concurrent component: an initial state, the steps its goroutines
  interleave, and an invariant every step keeps.\<close>

locale transition_system =
  fixes start :: 's
    and step :: "'s \<Rightarrow> 's \<Rightarrow> bool"
    and inv :: "'s \<Rightarrow> bool"
  assumes inv_start: "inv start"
    and inv_step: "inv s \<Longrightarrow> step s t \<Longrightarrow> inv t"
begin

lemma reachable_inv: "step\<^sup>*\<^sup>* start s \<Longrightarrow> inv s"
  by (induction rule: rtranclp_induct) (auto intro: inv_start inv_step)

end

end
