(* ===== verification/Encoding.thy ===== *)
theory Encoding
  imports Prelude
begin

text \<open>
  What the repository uses of Go's \<open>encoding/hex\<close> and \<open>encoding/base64\<close>: the
  lower-case hex codec and the unpadded URL-safe base64 codec
  (\<open>base64.RawURLEncoding\<close>), with the round trips the secret and ad-tag
  components rest on. Both codecs are instances of the locale \<open>text_codec\<close>.
\<close>

subsection \<open>Hex\<close>

text \<open>The alphabet \<open>0123456789abcdef\<close> by position.\<close>

definition hexDigit :: "nat \<Rightarrow> char" where
  "hexDigit n = char_of (if n < 10 then 48 + n else 87 + n)"

definition fromHexChar :: "char \<Rightarrow> nat option" where
  "fromHexChar c =
     (let n = of_char c :: nat
      in if 48 \<le> n \<and> n \<le> 57 then Some (n - 48)
         else if 97 \<le> n \<and> n \<le> 102 then Some (n - 97 + 10)
         else if 65 \<le> n \<and> n \<le> 70 then Some (n - 65 + 10)
         else None)"

fun hexEncodeToString :: "bytes \<Rightarrow> string" where
  "hexEncodeToString [] = []"
| "hexEncodeToString (b # bs) =
     hexDigit (unat b div 16) # hexDigit (unat b mod 16) # hexEncodeToString bs"

fun hexDecodeString :: "string \<Rightarrow> bytes option" where
  "hexDecodeString [] = Some []"
| "hexDecodeString [c] = None"
| "hexDecodeString (a # b # s) =
     (case (fromHexChar a, fromHexChar b) of
        (Some x, Some y) \<Rightarrow> map_option ((#) (word_of_nat (16 * x + y))) (hexDecodeString s)
      | _ \<Rightarrow> None)"

subsection \<open>Base64, URL alphabet, no padding\<close>

text \<open>The alphabet \<open>A-Z\<close>, \<open>a-z\<close>, \<open>0-9\<close>, \<open>-\<close>, \<open>_\<close> by position.\<close>

definition b64Digit :: "nat \<Rightarrow> char" where
  "b64Digit n = char_of (if n < 26 then 65 + n else if n < 52 then 71 + n
     else if n < 62 then n - 4 else if n = 62 then 45 else 95)"

definition fromB64Char :: "char \<Rightarrow> nat option" where
  "fromB64Char c =
     (let n = of_char c :: nat
      in if 65 \<le> n \<and> n \<le> 90 then Some (n - 65)
         else if 97 \<le> n \<and> n \<le> 122 then Some (n - 97 + 26)
         else if 48 \<le> n \<and> n \<le> 57 then Some (n - 48 + 52)
         else if n = 45 then Some 62
         else if n = 95 then Some 63
         else None)"

fun b64EncodeToString :: "bytes \<Rightarrow> string" where
  "b64EncodeToString [] = []"
| "b64EncodeToString [a] =
     (let v = unat a * 65536
      in [b64Digit (v div 262144), b64Digit (v div 4096 mod 64)])"
| "b64EncodeToString [a, b] =
     (let v = unat a * 65536 + unat b * 256
      in [b64Digit (v div 262144), b64Digit (v div 4096 mod 64), b64Digit (v div 64 mod 64)])"
| "b64EncodeToString (a # b # c # bs) =
     (let v = unat a * 65536 + unat b * 256 + unat c
      in b64Digit (v div 262144) # b64Digit (v div 4096 mod 64)
         # b64Digit (v div 64 mod 64) # b64Digit (v mod 64) # b64EncodeToString bs)"

text \<open>The decoder works on groups of four characters. Line breaks are skipped, a
  group of one character is an error, and the unused low bits of a short last
  group are not checked (the encoding is not \<open>Strict\<close>).\<close>

fun b64DecodeQuanta :: "string \<Rightarrow> bytes option" where
  "b64DecodeQuanta [] = Some []"
| "b64DecodeQuanta [a] = None"
| "b64DecodeQuanta [a, b] =
     (case (fromB64Char a, fromB64Char b) of
        (Some w, Some x) \<Rightarrow> Some [word_of_nat ((w * 262144 + x * 4096) div 65536)]
      | _ \<Rightarrow> None)"
| "b64DecodeQuanta [a, b, c] =
     (case (fromB64Char a, fromB64Char b, fromB64Char c) of
        (Some w, Some x, Some y) \<Rightarrow>
          (let v = w * 262144 + x * 4096 + y * 64
           in Some [word_of_nat (v div 65536), word_of_nat (v div 256 mod 256)])
      | _ \<Rightarrow> None)"
| "b64DecodeQuanta (a # b # c # d # s) =
     (case (fromB64Char a, fromB64Char b, fromB64Char c, fromB64Char d) of
        (Some w, Some x, Some y, Some z) \<Rightarrow>
          (let v = w * 262144 + x * 4096 + y * 64 + z
           in map_option (\<lambda>r. word_of_nat (v div 65536) # word_of_nat (v div 256 mod 256)
                              # word_of_nat (v mod 256) # r) (b64DecodeQuanta s))
      | _ \<Rightarrow> None)"

definition b64DecodeString :: "string \<Rightarrow> bytes option" where
  "b64DecodeString s = b64DecodeQuanta (filter (\<lambda>c. c \<noteq> CHR 0x0A \<and> c \<noteq> CHR 0x0D) s)"

subsection \<open>Codec interface\<close>

text \<open>What the secret and ad-tag components rely on: encoding is inverted by decoding.
  Encoding is then injective, and so printing loses nothing.\<close>

locale text_codec =
  fixes enc :: "bytes \<Rightarrow> string"
    and dec :: "string \<Rightarrow> bytes option"
  assumes dec_enc: "dec (enc b) = Some b"
begin

lemma enc_inj: "enc a = enc b \<longleftrightarrow> a = b"
  by (metis dec_enc option.inject)

end

subsection \<open>Round trips\<close>

lemma fromHexChar_digit: "n < 16 \<Longrightarrow> fromHexChar (hexDigit n) = Some n"
  by (simp add: hexDigit_def fromHexChar_def)

lemma hex_dec_enc: "hexDecodeString (hexEncodeToString b) = Some b"
proof (induction b rule: hexEncodeToString.induct)
  case (2 b bs)
  have "unat b div 16 < 16" using unat_byte_less [of b] by linarith
  then show ?case using 2 by (simp add: fromHexChar_digit)
qed simp

lemma hexEncode_length [simp]: "length (hexEncodeToString b) = 2 * length b"
  by (induction b) auto

interpretation hex: text_codec hexEncodeToString hexDecodeString
  by unfold_locales (rule hex_dec_enc)

lemma fromB64Char_digit: "n < 64 \<Longrightarrow> fromB64Char (b64Digit n) = Some n"
  by (auto simp: b64Digit_def fromB64Char_def Let_def)

lemma b64Digit_no_newline: "n < 64 \<Longrightarrow> b64Digit n \<noteq> CHR 0x0A \<and> b64Digit n \<noteq> CHR 0x0D"
  using fromB64Char_digit [of n] by (auto simp: fromB64Char_def)

lemma regroup:
  fixes v :: nat
  shows "v div 262144 * 262144 + v div 4096 mod 64 * 4096 + v div 64 mod 64 * 64 + v mod 64 = v"
proof -
  have "v div 4096 = v div 64 div 64" "v div 262144 = v div 4096 div 64"
    using div_mult2_eq [of v 64 64] div_mult2_eq [of v 4096 64] by simp_all
  then show ?thesis
    using div_mult_mod_eq [of v 64] div_mult_mod_eq [of "v div 64" 64]
      div_mult_mod_eq [of "v div 4096" 64] by linarith
qed

lemma regroup2:
  fixes v :: nat
  assumes "v mod 64 = 0"
  shows "v div 262144 * 262144 + v div 4096 mod 64 * 4096 + v div 64 mod 64 * 64 = v"
  using regroup [of v] assms by linarith

lemma regroup1:
  fixes v :: nat
  assumes "v mod 4096 = 0"
  shows "v div 262144 * 262144 + v div 4096 mod 64 * 4096 = v"
proof -
  have "v div 262144 = v div 4096 div 64"
    using div_mult2_eq [of v 4096 64] by simp
  then show ?thesis
    using assms div_mult_mod_eq [of v 4096] div_mult_mod_eq [of "v div 4096" 64] by linarith
qed

lemma bytes_of_group:
  fixes a b c :: byte
  shows "(unat a * 65536 + unat b * 256 + unat c) div 65536 = unat a"
    and "(unat a * 65536 + unat b * 256 + unat c) div 256 mod 256 = unat b"
    and "(unat a * 65536 + unat b * 256 + unat c) mod 256 = unat c"
proof -
  have lt: "unat a < 256" "unat b < 256" "unat c < 256" by simp_all
  then show "(unat a * 65536 + unat b * 256 + unat c) div 65536 = unat a" by linarith
  have eq: "unat a * 65536 + unat b * 256 + unat c = unat c + (unat b + unat a * 256) * 256"
    by simp
  show "(unat a * 65536 + unat b * 256 + unat c) div 256 mod 256 = unat b"
    unfolding eq using lt by (simp only: div_mult_self1 div_less mod_mult_self1 mod_less) simp
  show "(unat a * 65536 + unat b * 256 + unat c) mod 256 = unat c"
    unfolding eq using lt by (simp only: mod_mult_self1 mod_less)
qed

lemma b64_quanta_enc: "b64DecodeQuanta (b64EncodeToString b) = Some b"
proof (induction b rule: b64EncodeToString.induct)
  case (2 a)
  define v where "v = unat a * 65536"
  have "v div 262144 < 64"
    using unat_byte_less [of a] unfolding v_def by linarith
  moreover have "v mod 4096 = 0" "v div 65536 = unat a"
    by (simp_all add: v_def mod_eq_0_iff_dvd)
  ultimately show ?case
    unfolding b64EncodeToString.simps Let_def v_def [symmetric]
    by (simp add: fromB64Char_digit regroup1)
next
  case (3 a b)
  define v where "v = unat a * 65536 + unat b * 256"
  have "v div 262144 < 64"
    using unat_byte_less [of a] unat_byte_less [of b] unfolding v_def by linarith
  moreover have "v mod 64 = 0"
    by (simp add: v_def mod_eq_0_iff_dvd)
  moreover have "v div 65536 = unat a" "v div 256 mod 256 = unat b"
    using bytes_of_group(1,2) [of a b 0] by (simp_all add: v_def)
  ultimately show ?case
    unfolding b64EncodeToString.simps Let_def v_def [symmetric]
    by (simp add: Let_def fromB64Char_digit regroup2)
next
  case (4 a b c bs)
  have "(unat a * 65536 + unat b * 256 + unat c) div 262144 < 64"
    using unat_byte_less [of a] unat_byte_less [of b] unat_byte_less [of c] by linarith
  then show ?case
    using 4 by (simp add: Let_def fromB64Char_digit regroup bytes_of_group)
qed simp

lemma b64Encode_alphabet: "set (b64EncodeToString b) \<subseteq> {b64Digit n |n. n < 64}"
proof (induction b rule: b64EncodeToString.induct)
  case (2 a)
  have "unat a * 65536 div 262144 < 64"
    using unat_byte_less [of a] by linarith
  then show ?case by (auto simp: Let_def)
next
  case (3 a b)
  have "(unat a * 65536 + unat b * 256) div 262144 < 64"
    using unat_byte_less [of a] unat_byte_less [of b] by linarith
  then show ?case by (auto simp: Let_def)
next
  case (4 a b c bs)
  have "(unat a * 65536 + unat b * 256 + unat c) div 262144 < 64"
    using unat_byte_less [of a] unat_byte_less [of b] unat_byte_less [of c] by linarith
  then show ?case using 4 by (auto simp: Let_def)
qed simp

lemma b64_dec_enc: "b64DecodeString (b64EncodeToString b) = Some b"
proof -
  have "filter (\<lambda>c. c \<noteq> CHR 0x0A \<and> c \<noteq> CHR 0x0D) (b64EncodeToString b) = b64EncodeToString b"
  proof (intro filter_True ballI)
    fix c assume "c \<in> set (b64EncodeToString b)"
    then obtain n where "n < 64" "c = b64Digit n" using b64Encode_alphabet [of b] by blast
    then show "c \<noteq> CHR 0x0A \<and> c \<noteq> CHR 0x0D" using b64Digit_no_newline by simp
  qed
  then show ?thesis by (simp add: b64DecodeString_def b64_quanta_enc)
qed

interpretation b64: text_codec b64EncodeToString b64DecodeString
  by unfold_locales (rule b64_dec_enc)

end
