(* ===== verification/Secret.thy ===== *)
theory Secret
  imports Encoding
begin

text \<open>
  Proxy secrets, \<open>mtglib/secret.go\<close>: a 16-byte key and a fronting host name,
  serialised as \<open>0xee | key | host\<close> in hex or unpadded URL-safe base64. The
  lemmas give the parser's result on every branch and the round trips through
  both printed forms.
\<close>

subsection \<open>Data\<close>

definition SecretKeyLength :: nat where
  "SecretKeyLength = 16"

definition secretFakeTLSFirstByte :: byte where
  "secretFakeTLSFirstByte = 0xee"

record secret =
  Key :: bytes
  Host :: string

definition secretEmptyKey :: bytes where
  "secretEmptyKey = replicate SecretKeyLength 0"

datatype secret_error =
    ErrSecretEmpty
  | IncorrectSecretFormat
  | SecretTruncated nat
  | IncorrectFirstByte byte
  | SecretIncorrectLength nat
  | HostnameEmpty string

definition empty_secret :: secret where
  "empty_secret = \<lparr>Key = secretEmptyKey, Host = []\<rparr>"

text \<open>Go's \<open>[SecretKeyLength]byte\<close> array has its length in the type.\<close>

definition wf_secret :: "secret \<Rightarrow> bool" where
  "wf_secret s \<longleftrightarrow> length (Key s) = SecretKeyLength"

subsection \<open>Operations\<close>

text \<open>Hex is tried first, base64 when the text is not hex.\<close>

definition secret_decode :: "string \<Rightarrow> bytes option" where
  "secret_decode text =
     (case hexDecodeString text of Some d \<Rightarrow> Some d | None \<Rightarrow> b64DecodeString text)"

text \<open>\<open>Set\<close> has a pointer receiver: it returns its error and the receiver it leaves
  behind, which a failing call may already have changed (the empty host name is
  found after the key was copied).\<close>

definition secret_Set :: "secret \<Rightarrow> string \<Rightarrow> secret_error option \<times> secret" where
  "secret_Set s text =
     (if text = [] then (Some ErrSecretEmpty, s)
      else case secret_decode text of
        None \<Rightarrow> (Some IncorrectSecretFormat, s)
      | Some decoded \<Rightarrow>
          if length decoded < 2 then (Some (SecretTruncated (length decoded)), s)
          else if decoded ! 0 \<noteq> secretFakeTLSFirstByte
          then (Some (IncorrectFirstByte (decoded ! 0)), s)
          else let decoded = drop 1 decoded
               in if length decoded < SecretKeyLength
                  then (Some (SecretIncorrectLength (length decoded)), s)
                  else let s' = s\<lparr>Key := take SecretKeyLength decoded,
                                  Host := string_of_bytes (drop SecretKeyLength decoded)\<rparr>
                       in if Host s' = [] then (Some (HostnameEmpty text), s') else (None, s'))"

definition secret_UnmarshalText :: "secret \<Rightarrow> bytes \<Rightarrow> secret_error option \<times> secret" where
  "secret_UnmarshalText s data = secret_Set s (string_of_bytes data)"

definition secret_Valid :: "secret \<Rightarrow> bool" where
  "secret_Valid s \<longleftrightarrow> Key s \<noteq> secretEmptyKey \<and> Host s \<noteq> []"

definition secret_makeBytes :: "secret \<Rightarrow> bytes" where
  "secret_makeBytes s = [secretFakeTLSFirstByte] @ Key s @ bytes_of_string (Host s)"

definition secret_Base64 :: "secret \<Rightarrow> string" where
  "secret_Base64 s = b64EncodeToString (secret_makeBytes s)"

definition secret_Hex :: "secret \<Rightarrow> string" where
  "secret_Hex s = hexEncodeToString (secret_makeBytes s)"

definition secret_String :: "secret \<Rightarrow> string" where
  "secret_String s = secret_Base64 s"

definition secret_MarshalText :: "secret \<Rightarrow> bytes" where
  "secret_MarshalText s = (if secret_Valid s then bytes_of_string (secret_String s) else [])"

text \<open>\<open>GenerateSecret\<close> draws the key from \<open>crypto/rand\<close>: the random bytes are an argument.\<close>

definition GenerateSecret :: "bytes \<Rightarrow> string \<Rightarrow> secret" where
  "GenerateSecret rnd hostname = \<lparr>Key = take SecretKeyLength rnd, Host = hostname\<rparr>"

text \<open>\<open>ParseSecret\<close> returns the secret together with the error of the call that fills it in.\<close>

definition ParseSecret :: "string \<Rightarrow> secret \<times> secret_error option" where
  "ParseSecret text =
     (case secret_UnmarshalText empty_secret (bytes_of_string text) of (e, s) \<Rightarrow> (s, e))"

lemmas secret_defs [go_defs] =
  secret_Set_def secret_UnmarshalText_def secret_Valid_def secret_makeBytes_def
  secret_Base64_def secret_Hex_def secret_String_def secret_MarshalText_def ParseSecret_def
  SecretKeyLength_def secretFakeTLSFirstByte_def

subsection \<open>The parser\<close>

lemma secret_makeBytes_neq_Nil [simp]: "secret_makeBytes s \<noteq> []" "[] \<noteq> secret_makeBytes s"
  by (simp_all add: secret_makeBytes_def)

lemma secret_decode_nonempty: "secret_decode text = Some (secret_makeBytes s) \<Longrightarrow> text \<noteq> []"
  by (auto simp: secret_decode_def)

lemma secret_Set_bytes:
  assumes "wf_secret s" and "Host s \<noteq> []" and "secret_decode text = Some (secret_makeBytes s)"
  shows "secret_Set s0 text = (None, s0\<lparr>Key := Key s, Host := Host s\<rparr>)"
  using assms secret_decode_nonempty [OF assms(3)] by (auto simp: go_defs wf_secret_def)

text \<open>The second character of a printed secret encodes the low bits of \<open>0xee\<close>, which
  puts it between \<open>g\<close> and \<open>v\<close>: the base64 form is never a hex string.\<close>

lemma b64_second_not_hex:
  assumes "32 \<le> n" "n < 48"
  shows "fromHexChar (b64Digit n) = None"
  using assms by (auto simp: b64Digit_def fromHexChar_def)

lemma secret_Base64_not_hex:
  assumes "wf_secret s"
  shows "hexDecodeString (secret_Base64 s) = None"
proof -
  obtain k0 k1 ks where k: "Key s = k0 # k1 # ks"
    using assms by (cases "Key s" rule: b64EncodeToString.cases)
      (auto simp: wf_secret_def SecretKeyLength_def)
  let ?v = "238 * 65536 + unat k0 * 256 + unat k1"
  have "?v div 4096 = 3808 + (unat k0 * 256 + unat k1) div 4096" by simp
  moreover have "(unat k0 * 256 + unat k1) div 4096 < 16"
    using unat_byte_less [of k0] unat_byte_less [of k1] by linarith
  moreover have "q < 16 \<Longrightarrow> (3808 + q) mod 64 = 32 + q" for q :: nat
    using mod_mult_self1 [of "32 + q" 59 64] by simp
  ultimately have "32 \<le> ?v div 4096 mod 64" "?v div 4096 mod 64 < 48"
    by simp_all
  then have "fromHexChar (b64Digit (?v div 4096 mod 64)) = None"
    by (rule b64_second_not_hex)
  then show ?thesis
    by (simp add: secret_Base64_def secret_makeBytes_def secretFakeTLSFirstByte_def k Let_def
        split: option.splits)
qed

lemma secret_decode_Base64: "wf_secret s \<Longrightarrow> secret_decode (secret_Base64 s) = Some (secret_makeBytes s)"
  by (simp add: secret_decode_def secret_Base64_not_hex) (simp add: secret_Base64_def b64.dec_enc)

lemma secret_decode_Hex: "secret_decode (secret_Hex s) = Some (secret_makeBytes s)"
  by (simp add: secret_decode_def secret_Hex_def hex.dec_enc)

text \<open>A successful parse leaves a well-formed secret with a host name, whatever was in
  the receiver, and the text is one of the two encodings of its bytes.\<close>

lemma secret_Set_ok:
  assumes "secret_Set s0 text = (None, s)"
  shows "wf_secret s \<and> Host s \<noteq> [] \<and> secret_decode text = Some (secret_makeBytes s)"
proof -
  have split: "x = x ! 0 # take n (drop (Suc 0) x) @ drop (Suc n) x" if "0 < length x"
    for x :: bytes and n using that by (cases x) auto
  obtain d where d: "secret_decode text = Some d"
    and len: "17 < length d" and hd: "d ! 0 = secretFakeTLSFirstByte"
    and s: "s = s0\<lparr>Key := take 16 (drop 1 d), Host := string_of_bytes (drop 17 d)\<rparr>"
    using assms by (auto simp: go_defs Let_def not_less split: if_splits option.splits)
  have "secret_makeBytes s = d"
    using split [of d 16, OF le_less_trans [OF _ len]] hd by (simp add: s secret_makeBytes_def)
  then show ?thesis using d len by (simp add: s wf_secret_def SecretKeyLength_def)
qed

lemma ParseSecret_Set: "ParseSecret text = (s, e) \<longleftrightarrow> secret_Set empty_secret text = (e, s)"
  by (auto simp: ParseSecret_def secret_UnmarshalText_def split: prod.splits)

subsection \<open>Properties\<close>

text \<open>Every secret with a host name is read back from both of its printed forms: parsing
  the base64 form and parsing the hex form give the secret itself and no error. The base64
  form is safe although hex is tried first, because it is never a valid hex string.\<close>

lemma ParseSecret_roundtrip:
  assumes "wf_secret s" and "Host s \<noteq> []"
  shows "ParseSecret (secret_Base64 s) = (s, None) \<and> ParseSecret (secret_Hex s) = (s, None)"
  using secret_Set_bytes [OF assms, of _ empty_secret] assms(1)
  by (simp add: ParseSecret_Set secret_decode_Base64 secret_decode_Hex)

text \<open>The parser accepts exactly the encodings of secrets: it returns a secret without an
  error if and only if the secret has a 16-byte key and a non-empty host name and the text
  decodes (as hex, or as base64 when it is not hex) to the byte \<open>0xee\<close>, the key and the
  host name.\<close>

lemma ParseSecret_accepts:
  "ParseSecret text = (s, None) \<longleftrightarrow>
     wf_secret s \<and> Host s \<noteq> [] \<and> secret_decode text = Some (secret_makeBytes s)"
  using secret_Set_ok [of empty_secret "text" s] secret_Set_bytes [of s "text" empty_secret]
  by (auto simp: ParseSecret_Set)

end
