(* ===== verification/SecretLimits.thy ===== *)
theory SecretLimits
  imports Prelude
begin

text \<open>
  Per-secret governance limits, \<open>mtglib/secret_limits.go\<close>: the quota, reset,
  expiry and disabled fields with their parsers, and the \<open>limitFields\<close> of the
  management API (\<open>mtglib/proxy_api.go\<close>). \<open>units.ParseBase2Bytes\<close> is a third-party
  package, \<open>time.Parse\<close> and the Unicode case table are large parts of Go's standard
  library that no property looks into: all three are arguments.
\<close>

subsection \<open>Data\<close>

datatype quota_reset = QuotaResetNone | QuotaResetMonthly

record secret_limits =
  QuotaBytes :: int
  QuotaReset :: quota_reset
  ExpiresAt :: go_time
  Disabled :: bool

datatype deny_reason = DenyNone | DenyDisabled | DenyExpired | DenyQuota

datatype limit_error =
    QuotaNotPositive string
  | IncorrectQuota string
  | UnknownQuotaReset string
  | InvalidExpiry string

record limit_fields =
  lf_Quota :: string
  lf_QuotaReset :: string
  lf_Expires :: string
  lf_Disabled :: bool

subsection \<open>Strings\<close>

text \<open>\<open>unicode.IsSpace\<close> as the byte sequences of its members: \<open>strings.TrimSpace\<close>
  removes them from both ends.\<close>

definition space_seqs :: "bytes list" where
  "space_seqs =
     [[9], [10], [11], [12], [13], [32], [0xC2, 0x85], [0xC2, 0xA0], [0xE1, 0x9A, 0x80]]
     @ map (\<lambda>n. [0xE2, 0x80, word_of_nat n]) [0x80..<0x8B]
     @ [[0xE2, 0x80, 0xA8], [0xE2, 0x80, 0xA9], [0xE2, 0x80, 0xAF], [0xE2, 0x81, 0x9F],
        [0xE3, 0x80, 0x80]]"

fun strip_one :: "bytes list \<Rightarrow> bytes \<Rightarrow> bytes option" where
  "strip_one [] b = None"
| "strip_one (p # ps) b =
     (if p \<noteq> [] \<and> take (length p) b = p then Some (drop (length p) b) else strip_one ps b)"

lemma strip_one_shorter: "strip_one ps b = Some r \<Longrightarrow> length r < length b"
proof (induction ps)
  case (Cons p ps)
  show ?case
  proof (cases "p \<noteq> [] \<and> take (length p) b = p")
    case True
    then have "0 < length p" "length p \<le> length b"
      by (auto, metis length_take min.cobounded1)
    moreover from True Cons.prems have "r = drop (length p) b" by simp
    ultimately show ?thesis by (simp only: length_drop)
  qed (use Cons in \<open>auto split: if_splits\<close>)
qed simp

function trim_front :: "bytes list \<Rightarrow> bytes \<Rightarrow> bytes" where
  "trim_front ps b = (case strip_one ps b of None \<Rightarrow> b | Some r \<Rightarrow> trim_front ps r)"
  by pat_completeness auto
termination
  by (relation "measure (\<lambda>(ps, b). length b)") (auto dest: strip_one_shorter)

declare trim_front.simps [simp del]

definition trimSpace :: "string \<Rightarrow> string" where
  "trimSpace s = string_of_bytes (rev (trim_front (map rev space_seqs)
     (rev (trim_front space_seqs (bytes_of_string s)))))"

definition isASCII :: "string \<Rightarrow> bool" where
  "isASCII s \<longleftrightarrow> list_all (\<lambda>c. (of_char c :: nat) < 128) s"

definition upperChar :: "char \<Rightarrow> char" where
  "upperChar c = (let n = of_char c :: nat in if 97 \<le> n \<and> n \<le> 122 then char_of (n - 32) else c)"

definition lowerChar :: "char \<Rightarrow> char" where
  "lowerChar c = (let n = of_char c :: nat in if 65 \<le> n \<and> n \<le> 90 then char_of (n + 32) else c)"

text \<open>\<open>strings.ToUpper\<close> and \<open>strings.ToLower\<close>: ASCII text is mapped byte by byte, other
  text through Go's Unicode tables, here the argument \<open>uni\<close>.\<close>

definition toUpper :: "(string \<Rightarrow> string) \<Rightarrow> string \<Rightarrow> string" where
  "toUpper uni s = (if isASCII s then map upperChar s else uni s)"

definition toLower :: "(string \<Rightarrow> string) \<Rightarrow> string \<Rightarrow> string" where
  "toLower uni s = (if isASCII s then map lowerChar s else uni s)"

text \<open>\<open>strconv.ParseInt(s, 10, 64)\<close>: an optional sign and decimal digits, in range.\<close>

definition digitValue :: "char \<Rightarrow> int option" where
  "digitValue c = (let n = of_char c :: nat in if 48 \<le> n \<and> n \<le> 57 then Some (int n - 48) else None)"

fun parseDigits :: "int \<Rightarrow> string \<Rightarrow> int option" where
  "parseDigits acc [] = Some acc"
| "parseDigits acc (c # s) =
     (case digitValue c of None \<Rightarrow> None | Some d \<Rightarrow> parseDigits (acc * 10 + d) s)"

definition parseInt64 :: "string \<Rightarrow> int option" where
  "parseInt64 s =
     (let neg = (s \<noteq> [] \<and> hd s = CHR ''-'');
          body = (if s \<noteq> [] \<and> (hd s = CHR ''-'' \<or> hd s = CHR ''+'') then tl s else s)
      in if body = [] then None
         else case parseDigits 0 body of
           None \<Rightarrow> None
         | Some n \<Rightarrow> let v = (if neg then - n else n) in if in_i64 v then Some v else None)"

text \<open>The cleaner drops blanks and tabs and turns \<open>IB\<close> into \<open>iB\<close>.\<close>

fun quotaBytesCleaner :: "string \<Rightarrow> string" where
  "quotaBytesCleaner [] = []"
| "quotaBytesCleaner [c] = (if c = CHR '' '' \<or> c = CHR 0x09 then [] else [c])"
| "quotaBytesCleaner (c # d # s) =
     (if c = CHR '' '' \<or> c = CHR 0x09 then quotaBytesCleaner (d # s)
      else if c = CHR ''I'' \<and> d = CHR ''B'' then CHR ''i'' # CHR ''B'' # quotaBytesCleaner s
      else c # quotaBytesCleaner (d # s))"

subsection \<open>Operations\<close>

definition quotaReset_String :: "quota_reset \<Rightarrow> string" where
  "quotaReset_String q = (case q of QuotaResetMonthly \<Rightarrow> ''monthly'' | _ \<Rightarrow> ''none'')"

definition zero_limits :: secret_limits where
  "zero_limits = \<lparr>QuotaBytes = 0, QuotaReset = QuotaResetNone, ExpiresAt = 0, Disabled = False\<rparr>"

definition limits_IsZero :: "secret_limits \<Rightarrow> bool" where
  "limits_IsZero l \<longleftrightarrow> QuotaBytes l = 0 \<and> QuotaReset l = QuotaResetNone \<and> ExpiresAt l = 0 \<and> \<not> Disabled l"

definition denyReason_String :: "deny_reason \<Rightarrow> string" where
  "denyReason_String d = (case d of DenyDisabled \<Rightarrow> ''disabled'' | DenyExpired \<Rightarrow> ''expired''
     | DenyQuota \<Rightarrow> ''quota_exceeded'' | _ \<Rightarrow> ''allowed'')"

definition ParseQuotaBytes ::
    "(string \<Rightarrow> string) \<Rightarrow> (string \<Rightarrow> int option) \<Rightarrow> string \<Rightarrow> limit_error + int" where
  "ParseQuotaBytes uni parseBase2Bytes s0 =
     (let s = trimSpace s0
      in if s = [] then Inr 0
         else case parseInt64 s of
           Some n \<Rightarrow> if n < 0 then Inl (QuotaNotPositive s) else Inr n
         | None \<Rightarrow>
             (case parseBase2Bytes (quotaBytesCleaner (toUpper uni s)) of
                None \<Rightarrow> Inl (IncorrectQuota s)
              | Some parsed \<Rightarrow> if parsed < 0 then Inl (QuotaNotPositive s) else Inr (i64 parsed)))"

definition ParseQuotaReset :: "(string \<Rightarrow> string) \<Rightarrow> string \<Rightarrow> limit_error + quota_reset" where
  "ParseQuotaReset uni s =
     (let k = toLower uni (trimSpace s)
      in if k = [] \<or> k = ''none'' then Inr QuotaResetNone
         else if k = ''monthly'' then Inr QuotaResetMonthly
         else Inl (UnknownQuotaReset s))"

datatype time_layout = RFC3339 | DateOnly

definition ParseExpiry :: "(time_layout \<Rightarrow> string \<Rightarrow> go_time option) \<Rightarrow> string \<Rightarrow> limit_error + go_time" where
  "ParseExpiry timeParse s0 =
     (let s = trimSpace s0
      in if s = [] then Inr 0
         else case timeParse RFC3339 s of
           Some t \<Rightarrow> Inr t
         | None \<Rightarrow> (case timeParse DateOnly s of Some t \<Rightarrow> Inr t | None \<Rightarrow> Inl (InvalidExpiry s)))"

text \<open>The parsers the API handlers share, bundled: Unicode upper and lower case, byte
  units, instants.\<close>

record parsers =
  uniUpper :: "string \<Rightarrow> string"
  uniLower :: "string \<Rightarrow> string"
  parseBase2Bytes :: "string \<Rightarrow> int option"
  timeParse :: "time_layout \<Rightarrow> string \<Rightarrow> go_time option"

definition limitFields_parse :: "parsers \<Rightarrow> limit_fields \<Rightarrow> limit_error + secret_limits" where
  "limitFields_parse ps l =
     (case ParseQuotaBytes (uniUpper ps) (parseBase2Bytes ps) (lf_Quota l) of
        Inl e \<Rightarrow> Inl e
      | Inr quota \<Rightarrow>
          (case ParseQuotaReset (uniLower ps) (lf_QuotaReset l) of
             Inl e \<Rightarrow> Inl e
           | Inr reset \<Rightarrow>
               (case ParseExpiry (timeParse ps) (lf_Expires l) of
                  Inl e \<Rightarrow> Inl e
                | Inr expires \<Rightarrow>
                    Inr \<lparr>QuotaBytes = quota, QuotaReset = reset, ExpiresAt = expires,
                         Disabled = lf_Disabled l\<rparr>)))"

subsection \<open>Lemmas\<close>

lemma limits_IsZero_iff [simp]: "limits_IsZero l \<longleftrightarrow> l = zero_limits"
  by (cases l) (auto simp: limits_IsZero_def zero_limits_def)

lemma parseInt64_range: "parseInt64 s = Some n \<Longrightarrow> in_i64 n"
  by (auto simp: parseInt64_def Let_def split: if_splits option.splits)

lemma ParseQuotaBytes_range:
  assumes "ParseQuotaBytes uni p s = Inr n"
    and "\<And>t v. p t = Some v \<Longrightarrow> in_i64 v"
  shows "0 \<le> n \<and> n < 2 ^ 63"
  using assms(1) parseInt64_range [of "trimSpace s" n] assms(2) [of "quotaBytesCleaner (toUpper uni (trimSpace s))"]
  by (auto simp: ParseQuotaBytes_def Let_def in_i64_def split: if_splits option.splits)

end
