(* ===== verification/SecretSet.thy ===== *)
theory SecretSet
  imports Secret SecretLimits
begin

text \<open>
  The immutable secret snapshot of \<open>mtglib/proxy.go\<close>: \<open>secretSet\<close>, built from the
  configuration maps by \<open>buildSecretSet\<close> and turned back into them by \<open>toConfig\<close>.
  The lemmas show that a snapshot is a canonical form of its configuration: names
  sorted and distinct, the parallel slices aligned, independent of the iteration
  order of the maps, and that rebuilding from \<open>toConfig\<close> gives the same snapshot.
\<close>

subsection \<open>Data\<close>

definition AdTagLength :: nat where
  "AdTagLength = 16"

type_synonym ad_tag = bytes

record secret_config =
  Secrets :: "(string, secret) gomap"
  SecretAdTags :: "(string, ad_tag) gomap"
  GlobalAdTag :: "ad_tag option"
  CfgLimits :: "(string, secret_limits) gomap"

record secret_set =
  ss_secrets :: "secret list"
  ss_names :: "string list"
  ss_hostnames :: "string list"
  ss_adTags :: "ad_tag option list"
  ss_globalAdTag :: "ad_tag option"
  ss_limits :: "secret_limits list"

subsection \<open>Operations\<close>

definition effectiveAdTag :: "secret_set \<Rightarrow> nat \<Rightarrow> ad_tag option" where
  "effectiveAdTag s i =
     (if i < length (ss_adTags s) \<and> ss_adTags s ! i \<noteq> None then ss_adTags s ! i
      else ss_globalAdTag s)"

definition toConfig_entry :: "secret_set \<Rightarrow> nat \<Rightarrow> secret_config \<Rightarrow> secret_config" where
  "toConfig_entry s i cfg =
     (let name = ss_names s ! i;
          cfg = cfg\<lparr>Secrets := gm_put name (ss_secrets s ! i) (Secrets cfg)\<rparr>;
          cfg = (case ss_adTags s ! i of
                   None \<Rightarrow> cfg
                 | Some t \<Rightarrow> cfg\<lparr>SecretAdTags := gm_put name t (SecretAdTags cfg)\<rparr>)
      in if i < length (ss_limits s) \<and> \<not> limits_IsZero (ss_limits s ! i)
         then cfg\<lparr>CfgLimits := gm_put name (ss_limits s ! i) (CfgLimits cfg)\<rparr> else cfg)"

definition toConfig :: "secret_set \<Rightarrow> secret_config" where
  "toConfig s = fold (toConfig_entry s) [0..<length (ss_names s)]
     \<lparr>Secrets = [], SecretAdTags = [], GlobalAdTag = ss_globalAdTag s, CfgLimits = []\<rparr>"

definition buildSecretSet ::
    "(string, secret) gomap \<Rightarrow> (string, ad_tag) gomap \<Rightarrow> ad_tag option \<Rightarrow>
     (string, secret_limits) gomap \<Rightarrow> secret_set" where
  "buildSecretSet secretsMap perSecret global limitsMap =
     (let names = sort (gm_keys secretsMap);
          secretsList = map (gm_get0 empty_secret secretsMap) names
      in \<lparr>ss_secrets = secretsList,
          ss_names = names,
          ss_hostnames = sort (remdups (map Host secretsList)),
          ss_adTags = map (gm_get perSecret) names,
          ss_globalAdTag = global,
          ss_limits = map (gm_get0 zero_limits limitsMap) names\<rparr>)"

text \<open>The alignment and order the comments of \<open>secretSet\<close> promise.\<close>

definition wf_secret_set :: "secret_set \<Rightarrow> bool" where
  "wf_secret_set s \<longleftrightarrow>
     sorted (ss_names s) \<and> distinct (ss_names s) \<and>
     length (ss_secrets s) = length (ss_names s) \<and>
     length (ss_adTags s) = length (ss_names s) \<and>
     length (ss_limits s) = length (ss_names s) \<and>
     ss_hostnames s = sort (remdups (map Host (ss_secrets s)))"

definition cfg_ok :: "secret_config \<Rightarrow> bool" where
  "cfg_ok c \<longleftrightarrow> gm_ok (Secrets c) \<and> gm_ok (SecretAdTags c) \<and> gm_ok (CfgLimits c)"

text \<open>What the loop of \<open>toConfig\<close> has collected after \<open>k\<close> names.\<close>

definition collected :: "secret_set \<Rightarrow> nat \<Rightarrow> secret_config \<Rightarrow> bool" where
  "collected s k c \<longleftrightarrow> cfg_ok c \<and> GlobalAdTag c = ss_globalAdTag s \<and>
     (\<forall>n. n \<notin> set (take k (ss_names s)) \<longrightarrow>
        gm_get (Secrets c) n = None \<and> gm_get (SecretAdTags c) n = None \<and> gm_get (CfgLimits c) n = None) \<and>
     (\<forall>i < k. gm_get (Secrets c) (ss_names s ! i) = Some (ss_secrets s ! i) \<and>
        gm_get (SecretAdTags c) (ss_names s ! i) = ss_adTags s ! i \<and>
        gm_get (CfgLimits c) (ss_names s ! i) =
          (if ss_limits s ! i = zero_limits then None else Some (ss_limits s ! i)))"

text \<open>Lookups by name, as the loops over the parallel slices perform them.\<close>

definition secret_named :: "secret_set \<Rightarrow> string \<Rightarrow> secret option" where
  "secret_named s = map_of (zip (ss_names s) (ss_secrets s))"

definition limits_named :: "secret_set \<Rightarrow> string \<Rightarrow> secret_limits option" where
  "limits_named s = map_of (zip (ss_names s) (ss_limits s))"

definition adTag_named :: "secret_set \<Rightarrow> string \<Rightarrow> ad_tag option" where
  "adTag_named s n = Option.bind (map_of (zip (ss_names s) (ss_adTags s)) n) id"

text \<open>A small snapshot the examples below use.\<close>

definition sample_set :: secret_set where
  "sample_set = buildSecretSet [(''b'', empty_secret), (''a'', empty_secret)] [(''a'', [1])] (Some [2])
     [(''b'', zero_limits\<lparr>Disabled := True\<rparr>)]"

subsection \<open>The snapshot is a canonical form\<close>

lemma buildSecretSet_sel [simp]:
  "ss_names (buildSecretSet sm ps g lm) = sort (gm_keys sm)"
  "ss_secrets (buildSecretSet sm ps g lm) = map (gm_get0 empty_secret sm) (sort (gm_keys sm))"
  "ss_adTags (buildSecretSet sm ps g lm) = map (gm_get ps) (sort (gm_keys sm))"
  "ss_limits (buildSecretSet sm ps g lm) = map (gm_get0 zero_limits lm) (sort (gm_keys sm))"
  "ss_globalAdTag (buildSecretSet sm ps g lm) = g"
  "ss_hostnames (buildSecretSet sm ps g lm) =
     sort (remdups (map (Host \<circ> gm_get0 empty_secret sm) (sort (gm_keys sm))))"
  by (simp_all add: buildSecretSet_def Let_def)

lemma wf_buildSecretSet: "gm_ok sm \<Longrightarrow> wf_secret_set (buildSecretSet sm ps g lm)"
  by (simp add: wf_secret_set_def)

lemma gm_get0_cong: "gm_get m = gm_get m' \<Longrightarrow> gm_get0 z m = gm_get0 z m'"
  by (simp add: fun_eq_iff gm_get0_def)

lemma buildSecretSet_cong:
  assumes "gm_ok sm" "gm_ok sm'" "gm_get sm = gm_get sm'" "gm_get ps = gm_get ps'"
    "gm_get0 zero_limits lm = gm_get0 zero_limits lm'"
  shows "buildSecretSet sm ps g lm = buildSecretSet sm' ps' g lm'"
  using assms sort_keys_cong [OF assms(1-3)] gm_get0_cong [OF assms(3)]
  by (simp add: buildSecretSet_def Let_def)

lemma map_of_zip_map: "map_of (zip xs (map f xs)) n = (if n \<in> set xs then Some (f n) else None)"
  by (induction xs) auto

lemma secret_named_build: "secret_named (buildSecretSet sm ps g lm) = gm_get sm"
proof
  fix n
  have "n \<notin> fst ` set sm \<longleftrightarrow> gm_get sm n = None" by (simp add: map_of_eq_None_iff)
  then show "secret_named (buildSecretSet sm ps g lm) n = gm_get sm n"
    by (cases "gm_get sm n") (auto simp: secret_named_def map_of_zip_map gm_get0_def)
qed

lemma limits_named_build: "limits_named (buildSecretSet sm ps g lm) n =
    (if n \<in> set (gm_keys sm) then Some (gm_get0 zero_limits lm n) else None)"
  by (simp add: limits_named_def map_of_zip_map)

lemma adTag_named_build: "adTag_named (buildSecretSet sm ps g lm) n =
    (if n \<in> set (gm_keys sm) then gm_get ps n else None)"
  by (simp add: adTag_named_def map_of_zip_map)

subsection \<open>toConfig inverts buildSecretSet\<close>

lemma toConfig_entry_sel:
  "gm_get (Secrets (toConfig_entry s i cfg)) = (gm_get (Secrets cfg))(ss_names s ! i \<mapsto> ss_secrets s ! i)"
  "gm_get (SecretAdTags (toConfig_entry s i cfg)) =
     (case ss_adTags s ! i of None \<Rightarrow> gm_get (SecretAdTags cfg)
      | Some t \<Rightarrow> (gm_get (SecretAdTags cfg))(ss_names s ! i \<mapsto> t))"
  "gm_get (CfgLimits (toConfig_entry s i cfg)) =
     (if i < length (ss_limits s) \<and> ss_limits s ! i \<noteq> zero_limits
      then (gm_get (CfgLimits cfg))(ss_names s ! i \<mapsto> ss_limits s ! i) else gm_get (CfgLimits cfg))"
  "GlobalAdTag (toConfig_entry s i cfg) = GlobalAdTag cfg"
  by (auto simp: toConfig_entry_def Let_def split: option.split)

lemma cfg_ok_entry: "cfg_ok c \<Longrightarrow> cfg_ok (toConfig_entry s i c)"
  by (auto simp: cfg_ok_def toConfig_entry_def Let_def split: option.split)

lemma collected_entry:
  assumes wf: "wf_secret_set s" and k: "k < length (ss_names s)" and c: "collected s k c"
  shows "collected s (Suc k) (toConfig_entry s k c)"
proof -
  have dist: "distinct (ss_names s)" and lim: "k < length (ss_limits s)"
    using wf k by (auto simp: wf_secret_set_def)
  have notin: "ss_names s ! k \<notin> set (take k (ss_names s))"
    using k dist by (auto simp: in_set_conv_nth nth_eq_iff_index_eq)
  have neq: "ss_names s ! i \<noteq> ss_names s ! k" if "i < k" for i
    using k dist that by (simp add: nth_eq_iff_index_eq)
  have none: "gm_get (SecretAdTags c) (ss_names s ! k) = None" "gm_get (CfgLimits c) (ss_names s ! k) = None"
    using c notin by (auto simp: collected_def)
  show ?thesis
    using c notin neq lim k none
    unfolding collected_def
    by (auto simp: toConfig_entry_sel cfg_ok_entry take_Suc_conv_app_nth less_Suc_eq split: option.split)
qed

lemma collected_toConfig:
  assumes "wf_secret_set s"
  shows "collected s (length (ss_names s)) (toConfig s)"
proof -
  let ?c0 = "\<lparr>Secrets = [], SecretAdTags = [], GlobalAdTag = ss_globalAdTag s, CfgLimits = []\<rparr>"
  have "collected s k (fold (toConfig_entry s) [0..<k] ?c0)" if "k \<le> length (ss_names s)" for k
    using that
  proof (induction k)
    case 0
    then show ?case by (simp add: collected_def cfg_ok_def)
  next
    case (Suc k)
    then show ?case using collected_entry [OF assms] by simp
  qed
  then show ?thesis by (simp add: toConfig_def)
qed

lemma toConfig_keys:
  assumes "wf_secret_set s"
  shows "set (gm_keys (Secrets (toConfig s))) = set (ss_names s)"
proof -
  have "gm_get (Secrets (toConfig s)) n \<noteq> None \<longleftrightarrow> n \<in> set (ss_names s)" for n
    using collected_toConfig [OF assms] by (auto simp: collected_def in_set_conv_nth)
  then show ?thesis by (auto simp: gm_keys_dom simp del: set_map)
qed

lemma toConfig_sort_keys:
  assumes "wf_secret_set s"
  shows "sort (gm_keys (Secrets (toConfig s))) = ss_names s"
  using assms toConfig_keys [OF assms] collected_toConfig [OF assms]
  by (intro sorted_distinct_set_unique)
    (simp_all add: wf_secret_set_def collected_def cfg_ok_def)

lemma map_eq_by_nth: "length ys = length xs \<Longrightarrow> (\<And>i. i < length xs \<Longrightarrow> f (xs ! i) = ys ! i) \<Longrightarrow> map f xs = ys"
  by (simp add: list_eq_iff_nth_eq)

lemma buildSecretSet_toConfig:
  assumes "wf_secret_set s"
  shows "buildSecretSet (Secrets (toConfig s)) (SecretAdTags (toConfig s)) (GlobalAdTag (toConfig s))
           (CfgLimits (toConfig s)) = s"
proof -
  note c = collected_toConfig [OF assms]
  have wf: "length (ss_secrets s) = length (ss_names s)" "length (ss_adTags s) = length (ss_names s)"
    "length (ss_limits s) = length (ss_names s)"
    "ss_hostnames s = sort (remdups (map Host (ss_secrets s)))"
    using assms by (simp_all add: wf_secret_set_def)
  have secrets: "map (gm_get0 empty_secret (Secrets (toConfig s))) (ss_names s) = ss_secrets s"
    using c wf by (intro map_eq_by_nth) (simp_all add: collected_def gm_get0_def)
  have tags: "map (gm_get (SecretAdTags (toConfig s))) (ss_names s) = ss_adTags s"
    using c wf by (intro map_eq_by_nth) (simp_all add: collected_def)
  have limits: "map (gm_get0 zero_limits (CfgLimits (toConfig s))) (ss_names s) = ss_limits s"
    using c wf by (intro map_eq_by_nth) (simp_all add: collected_def gm_get0_def)
  have global: "GlobalAdTag (toConfig s) = ss_globalAdTag s"
    using c by (simp add: collected_def)
  show ?thesis
    by (rule secret_set.equality)
      (simp_all add: toConfig_sort_keys [OF assms] secrets tags limits global wf(4) flip: map_map)
qed

subsection \<open>Properties\<close>

text \<open>The snapshot is a canonical form of the configuration: whatever order Go
  iterates the maps in, equal configurations give the same snapshot, and in it the
  names are sorted and distinct, the parallel slices are aligned and every name
  carries exactly its own secret, ad tag and limits.\<close>

lemma buildSecretSet_canonical:
  assumes "gm_ok sm" "gm_ok sm'" "gm_get sm = gm_get sm'" "gm_get ps = gm_get ps'" "gm_get lm = gm_get lm'"
  shows "buildSecretSet sm ps g lm = buildSecretSet sm' ps' g lm' \<and>
    wf_secret_set (buildSecretSet sm ps g lm) \<and>
    secret_named (buildSecretSet sm ps g lm) = gm_get sm \<and>
    (\<forall>n \<in> dom (gm_get sm).
       limits_named (buildSecretSet sm ps g lm) n = Some (gm_get0 zero_limits lm n) \<and>
       adTag_named (buildSecretSet sm ps g lm) n = gm_get ps n)"
proof (intro conjI ballI)
  show "buildSecretSet sm ps g lm = buildSecretSet sm' ps' g lm'"
    by (rule buildSecretSet_cong [OF assms(1-4) gm_get0_cong [OF assms(5)]])
  fix n assume "n \<in> dom (gm_get sm)"
  then have "n \<in> set (gm_keys sm)" by (simp add: gm_keys_dom del: set_map)
  then show "limits_named (buildSecretSet sm ps g lm) n = Some (gm_get0 zero_limits lm n)"
    "adTag_named (buildSecretSet sm ps g lm) n = gm_get ps n"
    by (simp_all only: limits_named_build adTag_named_build if_True)
qed (simp_all add: assms(1) wf_buildSecretSet secret_named_build)

text \<open>Rebuilding a snapshot from the configuration \<open>toConfig\<close> extracts from it, which
  is what every management mutation does, gives the same snapshot back.\<close>

lemma toConfig_roundtrip:
  assumes "wf_secret_set s"
  shows "buildSecretSet (Secrets (toConfig s)) (SecretAdTags (toConfig s)) (GlobalAdTag (toConfig s))
           (CfgLimits (toConfig s)) = s"
  using buildSecretSet_toConfig [OF assms] .

end
