(* ===== verification/ProxyStats.thy ===== *)
theory ProxyStats
  imports SecretLimits
begin

text \<open>
  Per-secret counters, quota periods, persistence and connection throttling:
  \<open>mtglib/proxy_stats.go\<close> and the counting wrapper of \<open>mtglib/counting_conn.go\<close>.
  Every atomic counter is an \<open>int\<close> field brought back into 64 bits by \<open>i64\<close>. The file
  system and the JSON codec of \<open>LoadUsage\<close>/\<open>FlushUsage\<close> are arguments, as is the
  clock. The lemmas show that \<open>computeFairCaps\<close> is max-min fair water filling.
\<close>

subsection \<open>Data\<close>

record secretStats =
  connections :: int
  bytesIn :: int
  bytesOut :: int
  lastSeen :: go_time
  quotaUsed :: int
  periodStart :: int

record proxyStats =
  users :: "(string, secretStats) gomap"
  startedAt :: go_time
  throttleCaps :: "(string, int) gomap"
  throttleLimit :: int
  throttleInterval :: duration
  throttleActive :: bool

record usageRecord =
  recQuotaUsed :: int
  recPeriodStart :: int

record throttleJSON =
  Active :: bool
  Limit :: int
  Caps :: "(string, int) gomap"

record userStatsJSON =
  Connections :: int
  BytesIn :: int
  BytesOut :: int
  LastSeen :: "go_time option"
  QuotaUsedJ :: int
  QuotaJ :: int
  QuotaRemaining :: "int option"
  QuotaResetJ :: string
  ExpiresAtJ :: "go_time option"
  DisabledJ :: bool

record statsResponse =
  StartedAt :: go_time
  UptimeSeconds :: int
  TotalConnections :: int
  Throttle :: "throttleJSON option"
  Users :: "(string, userStatsJSON) gomap"

datatype usage_error = ReadUsageFailed | ParseUsageFailed | WriteUsageFailed | RenameUsageFailed

datatype file_read = NotExist | ReadError | Contents bytes

text \<open>The outcome of \<open>os.WriteFile\<close>: all bytes written, or a failure that left a prefix.\<close>

datatype file_write = Written | WriteError bytes

type_synonym file_system = "string \<rightharpoonup> bytes"

subsection \<open>Counters\<close>

definition zero_stats :: secretStats where
  "zero_stats = \<lparr>connections = 0, bytesIn = 0, bytesOut = 0, lastSeen = 0, quotaUsed = 0, periodStart = 0\<rparr>"

definition rolloverIfNeeded ::
    "(go_time \<Rightarrow> int) \<Rightarrow> quota_reset \<Rightarrow> go_time \<Rightarrow> secretStats \<Rightarrow> secretStats" where
  "rolloverIfNeeded zone reset now st =
     (if reset \<noteq> QuotaResetMonthly then st
      else if periodStart st = 0 then st\<lparr>periodStart := unix_nano now\<rparr>
      else if year_month zone now \<noteq> year_month zone (time_of_unix_nano (periodStart st))
           then st\<lparr>periodStart := unix_nano now, quotaUsed := 0\<rparr>
           else st)"

definition NewProxyStats :: "go_time \<Rightarrow> proxyStats" where
  "NewProxyStats now = \<lparr>users = [], startedAt = now, throttleCaps = [], throttleLimit = 0,
     throttleInterval = 0, throttleActive = False\<rparr>"

definition getOrCreate :: "string \<Rightarrow> proxyStats \<Rightarrow> secretStats \<times> proxyStats" where
  "getOrCreate name s =
     (case gm_get (users s) name of
        Some st \<Rightarrow> (st, s)
      | None \<Rightarrow> (zero_stats, s\<lparr>users := gm_put name zero_stats (users s)\<rparr>))"

text \<open>\<open>getOrCreate\<close> returns a pointer; updating through it is this definition.\<close>

definition with_stats :: "string \<Rightarrow> (secretStats \<Rightarrow> secretStats) \<Rightarrow> proxyStats \<Rightarrow> proxyStats" where
  "with_stats name f s =
     (let (st, s) = getOrCreate name s in s\<lparr>users := gm_put name (f st) (users s)\<rparr>)"

definition PreRegister :: "string \<Rightarrow> proxyStats \<Rightarrow> proxyStats" where
  "PreRegister name s = snd (getOrCreate name s)"

definition OnConnect :: "string \<Rightarrow> proxyStats \<Rightarrow> proxyStats" where
  "OnConnect name = with_stats name (\<lambda>st. st\<lparr>connections := i64 (connections st + 1)\<rparr>)"

definition OnDisconnect :: "string \<Rightarrow> proxyStats \<Rightarrow> proxyStats" where
  "OnDisconnect name = with_stats name (\<lambda>st. st\<lparr>connections := i64 (connections st - 1)\<rparr>)"

definition AddBytesIn :: "string \<Rightarrow> int \<Rightarrow> proxyStats \<Rightarrow> proxyStats" where
  "AddBytesIn name n = with_stats name (\<lambda>st. st\<lparr>bytesIn := i64 (bytesIn st + n)\<rparr>)"

definition AddBytesOut :: "string \<Rightarrow> int \<Rightarrow> proxyStats \<Rightarrow> proxyStats" where
  "AddBytesOut name n = with_stats name (\<lambda>st. st\<lparr>bytesOut := i64 (bytesOut st + n)\<rparr>)"

definition UpdateLastSeen :: "go_time \<Rightarrow> string \<Rightarrow> proxyStats \<Rightarrow> proxyStats" where
  "UpdateLastSeen now name = with_stats name (\<lambda>st. st\<lparr>lastSeen := now\<rparr>)"

definition rollover :: "(go_time \<Rightarrow> int) \<Rightarrow> string \<Rightarrow> quota_reset \<Rightarrow> go_time \<Rightarrow> proxyStats \<Rightarrow> proxyStats" where
  "rollover zone name reset now = with_stats name (rolloverIfNeeded zone reset now)"

definition quotaUsedValue :: "string \<Rightarrow> proxyStats \<Rightarrow> int" where
  "quotaUsedValue name s = (case gm_get (users s) name of None \<Rightarrow> 0 | Some st \<Rightarrow> quotaUsed st)"

definition QuotaUsed ::
    "(go_time \<Rightarrow> int) \<Rightarrow> go_time \<Rightarrow> string \<Rightarrow> quota_reset \<Rightarrow> proxyStats \<Rightarrow> int \<times> proxyStats" where
  "QuotaUsed zone now name reset s =
     (let s = with_stats name (rolloverIfNeeded zone reset now) s in (quotaUsedValue name s, s))"

definition ResetQuota :: "go_time \<Rightarrow> string \<Rightarrow> proxyStats \<Rightarrow> proxyStats" where
  "ResetQuota now name = with_stats name (\<lambda>st. st\<lparr>quotaUsed := 0, periodStart := unix_nano now\<rparr>)"

subsection \<open>The counting connection\<close>

text \<open>\<open>countingConn\<close> keeps a pointer to the secret's counters; \<open>n\<close> is what the wrapped
  call returned, counted even when it also returned an error.\<close>

definition countingConn_Read :: "int \<Rightarrow> secretStats \<Rightarrow> secretStats" where
  "countingConn_Read n st =
     (if n > 0 then st\<lparr>bytesIn := i64 (bytesIn st + n), quotaUsed := i64 (quotaUsed st + n)\<rparr> else st)"

definition countingConn_Write :: "int \<Rightarrow> secretStats \<Rightarrow> secretStats" where
  "countingConn_Write n st =
     (if n > 0 then st\<lparr>bytesOut := i64 (bytesOut st + n), quotaUsed := i64 (quotaUsed st + n)\<rparr> else st)"

subsection \<open>Persistence\<close>

definition restore_record :: "string \<times> usageRecord \<Rightarrow> proxyStats \<Rightarrow> proxyStats" where
  "restore_record nr = with_stats (fst nr) (\<lambda>st.
     st\<lparr>quotaUsed := recQuotaUsed (snd nr), periodStart := recPeriodStart (snd nr)\<rparr>)"

definition LoadUsage ::
    "(bytes \<Rightarrow> (string, usageRecord) gomap option) \<Rightarrow> file_read \<Rightarrow> proxyStats \<Rightarrow> usage_error option \<times> proxyStats" where
  "LoadUsage unmarshal file s =
     (case file of
        NotExist \<Rightarrow> (None, s)
      | ReadError \<Rightarrow> (Some ReadUsageFailed, s)
      | Contents data \<Rightarrow>
          (case unmarshal data of
             None \<Rightarrow> (Some ParseUsageFailed, s)
           | Some records \<Rightarrow> (None, fold restore_record records s)))"

definition usage_records :: "proxyStats \<Rightarrow> (string, usageRecord) gomap" where
  "usage_records s =
     map (\<lambda>(name, st). (name, \<lparr>recQuotaUsed = quotaUsed st, recPeriodStart = periodStart st\<rparr>)) (users s)"

definition FlushUsage ::
    "((string, usageRecord) gomap \<Rightarrow> bytes) \<Rightarrow> file_write \<Rightarrow> bool \<Rightarrow> string \<Rightarrow> proxyStats \<Rightarrow> file_system \<Rightarrow>
     usage_error option \<times> file_system" where
  "FlushUsage marshal write renameOk path s fs =
     (let data = marshal (usage_records s);
          tmp = path @ ''.tmp''
      in case write of
           WriteError part \<Rightarrow> (Some WriteUsageFailed, fs(tmp \<mapsto> part))
         | Written \<Rightarrow>
             (let fs = fs(tmp \<mapsto> data) in
              if \<not> renameOk then (Some RenameUsageFailed, fs)
              else (None, fs(path := fs tmp, tmp := None))))"

definition read_path :: "string \<Rightarrow> file_system \<Rightarrow> file_read" where
  "read_path path fs = (case fs path of None \<Rightarrow> NotExist | Some b \<Rightarrow> Contents b)"

subsection \<open>Throttling\<close>

definition SetThrottle :: "int \<Rightarrow> duration \<Rightarrow> proxyStats \<Rightarrow> proxyStats" where
  "SetThrottle limit interval s =
     s\<lparr>throttleLimit := limit, throttleInterval := interval, throttleCaps := []\<rparr>"

definition CanConnect :: "string \<Rightarrow> proxyStats \<Rightarrow> bool \<times> proxyStats" where
  "CanConnect name s =
     (if throttleLimit s = 0 then (True, s)
      else case gm_get (throttleCaps s) name of
             None \<Rightarrow> (True, s)
           | Some cap \<Rightarrow> (let (st, s) = getOrCreate name s in (connections st < cap, s)))"

text \<open>One run of the inner \<open>range remaining\<close> loop: the budget left, the entries kept and
  the \<open>changed\<close> flag.\<close>

fun fair_pass :: "int \<Rightarrow> int \<Rightarrow> bool \<Rightarrow> (string, int) gomap \<Rightarrow> int \<times> (string, int) gomap \<times> bool" where
  "fair_pass fairShare budget changed [] = (budget, [], changed)"
| "fair_pass fairShare budget changed ((name, conns) # rest) =
     (if conns \<le> fairShare then fair_pass fairShare (i64 (budget - conns)) True rest
      else (let (b, kept, ch) = fair_pass fairShare budget changed rest in (b, (name, conns) # kept, ch)))"

lemma fair_pass_shrinks:
  "fair_pass fs b ch rem = (b', rem', ch') \<Longrightarrow>
     length rem' \<le> length rem \<and> (ch' \<longrightarrow> ch \<or> length rem' < length rem)"
proof (induction fs b ch rem arbitrary: b' rem' ch' rule: fair_pass.induct)
  case (2 fs b ch n c rest)
  then show ?case
    by (fastforce split: if_splits prod.splits)
qed simp

function fair_loop :: "(string, int) gomap \<Rightarrow> int \<Rightarrow> (string, int) gomap" where
  "fair_loop remaining budget =
     (if remaining = [] then []
      else let fairShare = go_div budget (int (length remaining));
               (budget', remaining', changed) = fair_pass fairShare budget False remaining
           in if changed then fair_loop remaining' budget'
              else map (\<lambda>(name, _). (name, fairShare)) remaining')"
  by pat_completeness auto
termination
proof (relation "measure (\<lambda>(remaining, _). length remaining)", goal_cases)
  case (2 remaining budget fairShare x budget' y remaining' changed)
  then have "fair_pass fairShare budget False remaining = (budget', remaining', changed)" by simp
  from fair_pass_shrinks [OF this] 2 show ?case by simp
qed simp

definition total_conns :: "(string, int) gomap \<Rightarrow> int" where
  "total_conns userConns = fold (\<lambda>(_, c) total. i64 (total + c)) userConns 0"

text \<open>A \<open>nil\<close> map reads like an empty one.\<close>

definition computeFairCaps :: "(string, int) gomap \<Rightarrow> int \<Rightarrow> (string, int) gomap" where
  "computeFairCaps userConns limit =
     (if total_conns userConns \<le> limit then [] else fair_loop userConns limit)"

definition recomputeCaps :: "proxyStats \<Rightarrow> proxyStats" where
  "recomputeCaps s =
     (let userConns = map (\<lambda>(name, st). (name, connections st)) (users s);
          caps = computeFairCaps userConns (throttleLimit s)
      in s\<lparr>throttleCaps := caps, throttleActive := (caps \<noteq> [])\<rparr>)"

subsection \<open>The stats response\<close>

text \<open>The uptime is in whole seconds; the rounding of \<open>Duration.Seconds\<close> to a
  \<open>float64\<close> is not modelled.\<close>

definition user_json :: "secretStats \<Rightarrow> userStatsJSON" where
  "user_json st = \<lparr>Connections = connections st, BytesIn = bytesIn st, BytesOut = bytesOut st,
     LastSeen = (if lastSeen st = 0 then None else Some (lastSeen st)),
     QuotaUsedJ = quotaUsed st, QuotaJ = 0, QuotaRemaining = None, QuotaResetJ = [],
     ExpiresAtJ = None, DisabledJ = False\<rparr>"

definition buildResponse :: "go_time \<Rightarrow> proxyStats \<Rightarrow> statsResponse" where
  "buildResponse now s =
     \<lparr>StartedAt = startedAt s,
      UptimeSeconds = go_div (now - startedAt s) 1000000000,
      TotalConnections = total_conns (map (\<lambda>(name, st). (name, connections st)) (users s)),
      Throttle = (if throttleLimit s > 0
                  then Some \<lparr>Active = throttleActive s, Limit = throttleLimit s, Caps = throttleCaps s\<rparr>
                  else None),
      Users = map (\<lambda>(name, st). (name, user_json st)) (users s)\<rparr>"

text \<open>The handler of \<open>POST /reload\<close>: the reloader is absent, or a function on the state
  that reports an error or success; the status code and the new state.\<close>

definition reloadHandler :: "('s \<Rightarrow> bool \<times> 's) option \<Rightarrow> string \<Rightarrow> 's \<Rightarrow> int \<times> 's" where
  "reloadHandler reload meth s =
     (if meth \<noteq> ''POST'' then (405, s)
      else case reload of
             None \<Rightarrow> (503, s)
           | Some f \<Rightarrow> (let (ok, s) = f s in if ok then (200, s) else (500, s)))"

subsection \<open>Water filling\<close>

abbreviation conns_sum :: "(string, int) gomap \<Rightarrow> int" where
  "conns_sum m \<equiv> sum_list (map snd m)"

abbreviation nonneg_conns :: "(string, int) gomap \<Rightarrow> bool" where
  "nonneg_conns m \<equiv> (\<forall>c \<in> set (map snd m). 0 \<le> c)"

text \<open>What the users get in total when each is held to \<open>l\<close> connections.\<close>

definition capped_total :: "int \<Rightarrow> (string, int) gomap \<Rightarrow> int" where
  "capped_total l m = (\<Sum>(_, c) \<leftarrow> m. min c l)"

lemma conns_sum_nonneg: "nonneg_conns m \<Longrightarrow> 0 \<le> conns_sum m"
  by (rule sum_list_nonneg) auto

lemma total_conns_step:
  "\<lbrakk>nonneg_conns m; 0 \<le> a; a + conns_sum m < 2 ^ 63\<rbrakk> \<Longrightarrow>
     fold (\<lambda>(_, c) total. i64 (total + c)) m a = a + conns_sum m"
proof (induction m arbitrary: a)
  case (Cons nc m)
  obtain n c where nc: "nc = (n, c)" by (cases nc)
  have "0 \<le> conns_sum m" using Cons.prems by (intro conns_sum_nonneg) auto
  then have "in_i64 (a + c)" using Cons.prems nc by (auto simp: in_i64_def)
  then show ?case using Cons nc by simp
qed simp

lemma total_conns_sum: "nonneg_conns m \<Longrightarrow> conns_sum m < 2 ^ 63 \<Longrightarrow> total_conns m = conns_sum m"
  using total_conns_step [of m 0] by (simp add: total_conns_def)

lemma conns_sum_partition:
  "conns_sum m = conns_sum (filter (\<lambda>(_, c). c \<le> l) m) + conns_sum (filter (\<lambda>(_, c). l < c) m)"
  by (induction m) auto

lemma fair_pass_eq:
  "\<lbrakk>nonneg_conns rem; b < 2 ^ 63; conns_sum (filter (\<lambda>(_, c). c \<le> fs) rem) \<le> b\<rbrakk> \<Longrightarrow>
     fair_pass fs b ch rem =
       (b - conns_sum (filter (\<lambda>(_, c). c \<le> fs) rem), filter (\<lambda>(_, c). fs < c) rem,
        ch \<or> (\<exists>c \<in> set (map snd rem). c \<le> fs))"
proof (induction rem arbitrary: b ch)
  case (Cons nc rem)
  obtain n c where nc: "nc = (n, c)" by (cases nc)
  show ?case
  proof (cases "c \<le> fs")
    case True
    have "0 \<le> conns_sum (filter (\<lambda>(_, c). c \<le> fs) rem)"
      using Cons.prems by (intro conns_sum_nonneg) auto
    then have "in_i64 (b - c)" using Cons.prems nc True by (auto simp: in_i64_def)
    then show ?thesis using Cons True nc by simp
  next
    case False
    then show ?thesis using Cons nc by simp
  qed
qed simp

lemma sum_filter_le:
  fixes l :: int
  shows "conns_sum (filter (\<lambda>(_, c). c \<le> l) m) \<le> int (length (filter (\<lambda>(_, c). c \<le> l) m)) * l"
  by (induction m) (auto simp: algebra_simps)

lemma length_partition:
  fixes l :: int
  shows "length m = length (filter (\<lambda>(_, c). c \<le> l) m) + length (filter (\<lambda>(_, c). l < c) m)"
  by (induction m) auto

lemma capped_total_split:
  "f \<le> l \<Longrightarrow> capped_total l m = conns_sum (filter (\<lambda>(_, c). c \<le> f) m) + capped_total l (filter (\<lambda>(_, c). f < c) m)"
  by (induction m) (auto simp: capped_total_def)

lemma capped_total_all: "\<forall>c \<in> set (map snd m). l \<le> c \<Longrightarrow> capped_total l m = int (length m) * l"
  by (induction m) (auto simp: capped_total_def algebra_simps)

text \<open>The fair share never decreases from one pass to the next.\<close>

lemma fair_share_grows:
  fixes b f :: int
  assumes "int (length m) * f \<le> b" "0 < length (filter (\<lambda>(_, c). f < c) m)"
  shows "f \<le> (b - conns_sum (filter (\<lambda>(_, c). c \<le> f) m)) div int (length (filter (\<lambda>(_, c). f < c) m))"
proof -
  have "f * int (length (filter (\<lambda>(_, c). f < c) m)) \<le> b - conns_sum (filter (\<lambda>(_, c). c \<le> f) m)"
    using sum_filter_le [of f m] assms(1) length_partition [of m f] by (simp add: algebra_simps)
  from zdiv_mono1 [OF this, of "int (length (filter (\<lambda>(_, c). f < c) m))"] show ?thesis
    using assms(2) by simp
qed

text \<open>\<open>l\<close> is a water level for budget \<open>b\<close>: holding every user to \<open>l\<close> connections fits in the
  budget and \<open>l + 1\<close> would not.\<close>

definition water_level :: "int \<Rightarrow> (string, int) gomap \<Rightarrow> int \<Rightarrow> bool" where
  "water_level l m b \<longleftrightarrow> capped_total l m \<le> b \<and> b < capped_total (l + 1) m"

definition caps_at :: "int \<Rightarrow> (string, int) gomap \<Rightarrow> (string, int) gomap" where
  "caps_at l m = map (\<lambda>(n, _). (n, l)) (filter (\<lambda>(_, c). l < c) m)"

lemma caps_at_filter: "f \<le> l \<Longrightarrow> caps_at l (filter (\<lambda>(_, c). f < c) m) = caps_at l m"
  by (induction m) (auto simp: caps_at_def)

lemma water_level_filter:
  assumes "f \<le> l" "water_level l (filter (\<lambda>(_, c). f < c) m) (b - conns_sum (filter (\<lambda>(_, c). c \<le> f) m))"
  shows "water_level l m b"
  using assms capped_total_split [of f l m] capped_total_split [of f "l + 1" m]
  by (simp add: water_level_def)

lemma level_of_share:
  assumes "rem \<noteq> []" and above: "\<forall>c \<in> set (map snd rem). b div int (length rem) < c"
  shows "water_level (b div int (length rem)) rem b"
proof -
  define k where "k = int (length rem)"
  have k: "0 < k" using assms(1) by (simp add: k_def)
  have "capped_total (b div k) rem = k * (b div k)" "capped_total (b div k + 1) rem = k * (b div k + 1)"
    using above unfolding k_def by (intro capped_total_all; fastforce)+
  then show ?thesis
    using mult_div_mod_eq [of k b] pos_mod_bound [OF k, of b] pos_mod_sign [OF k, of b]
    unfolding water_level_def k_def [symmetric] distrib_left by linarith
qed

lemma fair_loop_levels:
  "\<lbrakk>nonneg_conns rem; 0 \<le> b; b < conns_sum rem; b < 2 ^ 63\<rbrakk> \<Longrightarrow>
     \<exists>l. b div int (length rem) \<le> l \<and> fair_loop rem b = caps_at l rem \<and> water_level l rem b"
proof (induction rem b rule: fair_loop.induct)
  case (1 rem b)
  define k f where "k = int (length rem)" and "f = b div k"
  define low high where "low = filter (\<lambda>(_, c). c \<le> f) rem" and "high = filter (\<lambda>(_, c). f < c) rem"
  have "rem \<noteq> []" using "1.prems" by auto
  then have k: "0 < k" by (simp add: k_def)
  have fk: "k * f \<le> b" using k by (simp add: f_def minus_mod_eq_mult_div [symmetric])
  have share: "go_div b (int (length rem)) = f" using k "1.prems" by (simp add: go_div_nonneg f_def k_def)
  have "0 \<le> f" using k "1.prems" by (simp add: f_def pos_imp_zdiv_nonneg_iff)
  have "conns_sum low \<le> int (length low) * f" unfolding low_def by (rule sum_filter_le)
  also have "\<dots> \<le> k * f" using \<open>0 \<le> f\<close> by (intro mult_right_mono) (simp_all add: low_def k_def)
  finally have low: "conns_sum low \<le> b" using fk by linarith
  have pass: "fair_pass f b False rem = (b - conns_sum low, high, \<exists>c \<in> set (map snd rem). c \<le> f)"
    using fair_pass_eq [of rem b f False] "1.prems" low by (simp add: low_def high_def)
  have high: "high \<noteq> []" "b - conns_sum low < conns_sum high"
    using conns_sum_partition [of rem f] "1.prems" low by (auto simp: low_def high_def)
  have nonneg: "nonneg_conns high" "nonneg_conns low" using "1.prems" by (auto simp: low_def high_def)
  note low0 = conns_sum_nonneg [OF nonneg(2)]
  show ?case
  proof (cases "\<exists>c \<in> set (map snd rem). c \<le> f")
    case True
    have "\<exists>l. (b - conns_sum low) div int (length high) \<le> l \<and>
        fair_loop high (b - conns_sum low) = caps_at l high \<and> water_level l high (b - conns_sum low)"
    proof (rule "1.IH" [of f "(b - conns_sum low, high, True)" _ "(high, True)" _ True])
      show "(b - conns_sum low, high, True) = fair_pass f b False rem" using pass True by simp
    qed (use \<open>rem \<noteq> []\<close> share nonneg low low0 high "1.prems" in auto)
    then obtain l where l: "(b - conns_sum low) div int (length high) \<le> l"
        "fair_loop high (b - conns_sum low) = caps_at l high" "water_level l high (b - conns_sum low)"
      by blast
    have "f \<le> (b - conns_sum low) div int (length high)"
      using fair_share_grows [of rem f b] fk high(1) by (simp add: low_def high_def k_def)
    with l(1) have "f \<le> l" by linarith
    have "fair_loop rem b = fair_loop high (b - conns_sum low)"
      using \<open>rem \<noteq> []\<close> pass True by (subst fair_loop.simps) (simp add: share Let_def)
    with l \<open>f \<le> l\<close> show ?thesis
      by (auto simp: f_def k_def low_def high_def caps_at_filter intro: water_level_filter)
  next
    case False
    then have "high = rem" by (auto simp: high_def intro!: filter_True)
    moreover have "fair_loop rem b = map (\<lambda>(n, _). (n, f)) high"
      using \<open>rem \<noteq> []\<close> pass False by (subst fair_loop.simps) (simp add: share Let_def)
    moreover have "water_level f rem b"
      using level_of_share [of rem b] \<open>rem \<noteq> []\<close> False by (auto simp: f_def k_def not_le)
    ultimately show ?thesis
      by (intro exI [of _ f]) (simp add: f_def k_def caps_at_def high_def)
  qed
qed


subsection \<open>Updating counters\<close>

lemma users_with_stats [simp]:
  "gm_get (users (with_stats name f s)) =
     (gm_get (users s))(name \<mapsto> f (gm_get0 zero_stats (users s) name))"
  by (auto simp: with_stats_def getOrCreate_def gm_get0_def fun_eq_iff split: option.split)

lemma with_stats_frame [simp]:
  "startedAt (with_stats name f s) = startedAt s"
  "throttleCaps (with_stats name f s) = throttleCaps s"
  "throttleLimit (with_stats name f s) = throttleLimit s"
  "throttleInterval (with_stats name f s) = throttleInterval s"
  "throttleActive (with_stats name f s) = throttleActive s"
  by (simp_all add: with_stats_def getOrCreate_def split: option.split)

lemma gm_ok_with_stats [simp]: "gm_ok (users s) \<Longrightarrow> gm_ok (users (with_stats name f s))"
  by (auto simp: with_stats_def getOrCreate_def split: option.split)

lemma users_PreRegister: "gm_get (users (PreRegister name s)) =
    (gm_get (users s))(name \<mapsto> gm_get0 zero_stats (users s) name)"
  by (auto simp: PreRegister_def getOrCreate_def gm_get0_def fun_eq_iff split: option.split)

lemma fold_restore_records:
  "gm_ok rs \<Longrightarrow> gm_get (users (fold restore_record rs s)) n =
     (case gm_get rs n of None \<Rightarrow> gm_get (users s) n
      | Some r \<Rightarrow> Some ((gm_get0 zero_stats (users s) n)
          \<lparr>quotaUsed := recQuotaUsed r, periodStart := recPeriodStart r\<rparr>))"
proof (induction rs arbitrary: s)
  case (Cons nr rs)
  then have "fst nr \<notin> dom (gm_get rs)" by (simp add: gm_keys_dom [symmetric])
  with Cons show ?case
    by (cases nr) (auto simp: restore_record_def gm_get0_def split: option.split)
qed simp


lemma caps_at_nonempty: "water_level l m b \<Longrightarrow> caps_at l m \<noteq> []"
proof
  assume level: "water_level l m b" and "caps_at l m = []"
  then have "\<forall>nc \<in> set m. snd nc \<le> l" by (auto simp: caps_at_def filter_empty_conv)
  then have "capped_total (l + 1) m = capped_total l m"
    unfolding capped_total_def by (intro arg_cong [where f = sum_list] map_cong) (auto simp: min_def)
  with level show False unfolding water_level_def by linarith
qed

lemma gm_get_caps_at:
  "gm_ok m \<Longrightarrow> gm_get (caps_at l m) n =
     (case gm_get m n of None \<Rightarrow> None | Some c \<Rightarrow> if l < c then Some l else None)"
proof (induction m)
  case (Cons nc m)
  then have "gm_get m (fst nc) = None" by (simp add: map_of_eq_None_iff)
  with Cons show ?case by (cases nc) (auto simp: caps_at_def split: option.split)
qed (simp add: caps_at_def)

lemma computeFairCaps_levels:
  assumes "nonneg_conns m" "0 \<le> limit" "conns_sum m < 2 ^ 63" "limit < conns_sum m"
  shows "\<exists>l \<ge> 0. water_level l m limit \<and> computeFairCaps m limit = caps_at l m"
proof -
  obtain l where l: "limit div int (length m) \<le> l" "fair_loop m limit = caps_at l m" "water_level l m limit"
    using fair_loop_levels [of m limit] assms by auto
  have "0 \<le> limit div int (length m)" using assms(2) by (cases "m = []") (simp_all add: pos_imp_zdiv_nonneg_iff)
  with l total_conns_sum [OF assms(1,3)] assms(4) show ?thesis
    by (intro exI [of _ l]) (simp add: computeFairCaps_def)
qed

lemma gm_get_map_val: "gm_get (map (\<lambda>(n, v). (n, f v)) m) k = map_option f (gm_get m k)"
  by (induction m) auto

lemma gm_keys_map_val [simp]: "map fst (map (\<lambda>(n, v). (n, f v)) m) = map fst m"
  by (induction m) auto

lemma time_of_unix_nano [simp]: "in_i64 (t - unix_epoch) \<Longrightarrow> time_of_unix_nano (unix_nano t) = t"
  by (simp add: time_of_unix_nano_def unix_nano_def)

subsection \<open>Properties\<close>

text \<open>C8. \<open>computeFairCaps\<close> is water filling: nobody is capped while the connections fit
  the limit; otherwise there is one level such that exactly the users above it are
  capped, all at that level, holding everybody to the level fits the limit and one
  more connection per user would not. In particular the loop ends and the set of
  capped users is never empty when the limit is exceeded.\<close>

theorem computeFairCaps_water_filling:
  assumes "gm_ok userConns" "nonneg_conns userConns" "0 \<le> limit" "conns_sum userConns < 2 ^ 63"
  shows "if conns_sum userConns \<le> limit then computeFairCaps userConns limit = []
    else \<exists>l \<ge> 0. capped_total l userConns \<le> limit \<and> limit < capped_total (l + 1) userConns \<and>
           computeFairCaps userConns limit \<noteq> [] \<and>
           (\<forall>n. gm_get (computeFairCaps userConns limit) n =
              (case gm_get userConns n of None \<Rightarrow> None | Some c \<Rightarrow> if l < c then Some l else None))"
proof (cases "conns_sum userConns \<le> limit")
  case True
  then show ?thesis using total_conns_sum [OF assms(2,4)] by (simp add: computeFairCaps_def)
next
  case False
  then obtain l where "l \<ge> 0" "water_level l userConns limit" "computeFairCaps userConns limit = caps_at l userConns"
    using computeFairCaps_levels [OF assms(2,3,4)] by auto
  then show ?thesis using False caps_at_nonempty gm_get_caps_at [OF assms(1)]
    by (auto simp: water_level_def intro!: exI [of _ l])
qed

theorem computeFairCaps_water_filling_witness:
  "computeFairCaps [(''a'', 1), (''b'', 7), (''c'', 9)] 10 = [(''b'', 4), (''c'', 4)] \<and>
   (\<exists>l \<ge> 0. capped_total l [(''a'', 1), (''b'', 7), (''c'', 9)] \<le> 10)"
  using computeFairCaps_water_filling [of "[(''a'', 1), (''b'', 7), (''c'', 9)]" 10]
  by (auto simp: computeFairCaps_def total_conns_def go_div_def i64_def)

text \<open>Right after the throttle loop recomputes the caps, the gate refuses new
  connections exactly to the users above one common level; while the total fits the
  limit it refuses nobody.\<close>

lemma recomputeCaps_gate:
  assumes "gm_ok (users s)" "\<forall>(n, st) \<in> set (users s). 0 \<le> connections st"
    "(\<Sum>(n, st) \<leftarrow> users s. connections st) < 2 ^ 63" "0 < throttleLimit s"
  shows "if (\<Sum>(n, st) \<leftarrow> users s. connections st) \<le> throttleLimit s
    then \<not> throttleActive (recomputeCaps s) \<and> (\<forall>n. fst (CanConnect n (recomputeCaps s)))
    else throttleActive (recomputeCaps s) \<and>
      (\<exists>l \<ge> 0. (\<Sum>(n, st) \<leftarrow> users s. min (connections st) l) \<le> throttleLimit s \<and>
         (\<forall>n. fst (CanConnect n (recomputeCaps s)) \<longleftrightarrow> connections (gm_get0 zero_stats (users s) n) \<le> l))"
proof -
  define m where "m = map (\<lambda>(n, st). (n, connections st)) (users s)"
  have m: "conns_sum m = (\<Sum>(n, st) \<leftarrow> users s. connections st)" "gm_ok m" "nonneg_conns m"
      "capped_total l m = (\<Sum>(n, st) \<leftarrow> users s. min (connections st) l)" for l
    using assms(1,2) by (auto simp: m_def capped_total_def comp_def case_prod_beta')
  have get: "gm_get m n = map_option connections (gm_get (users s) n)" for n
    unfolding m_def by (rule gm_get_map_val)
  show ?thesis
  proof (cases "conns_sum m \<le> throttleLimit s")
    case True
    then have "computeFairCaps m (throttleLimit s) = []"
      using total_conns_sum [of m] m(3) assms(3) by (simp add: computeFairCaps_def m(1))
    with True show ?thesis by (simp add: recomputeCaps_def m_def [symmetric] m(1) CanConnect_def)
  next
    case False
    then obtain l where l: "l \<ge> 0" "water_level l m (throttleLimit s)"
        "computeFairCaps m (throttleLimit s) = caps_at l m"
      using computeFairCaps_levels [of m "throttleLimit s"] m(1,3) assms(3,4) by auto
    have "fst (CanConnect n (recomputeCaps s)) \<longleftrightarrow> connections (gm_get0 zero_stats (users s) n) \<le> l" for n
      using assms(4) l(1) m(2)
      by (auto simp: recomputeCaps_def Let_def m_def [symmetric] l(3) CanConnect_def gm_get_caps_at get gm_get0_def
          getOrCreate_def zero_stats_def split: option.split)
    with False l caps_at_nonempty [OF l(2)] show ?thesis
      by (auto simp: recomputeCaps_def Let_def m_def [symmetric] m(1) m(4) [symmetric] water_level_def intro!: exI [of _ l])
  qed
qed

text \<open>The quota gate's read of a monthly secret rolls the period over first: the usage it
  returns is the old counter when the period started in the current calendar month and
  zero otherwise, the period is then anchored in the current month, and reading again
  at the same instant changes nothing. A secret that is not monthly is never reset.\<close>

lemma QuotaUsed_rollover:
  assumes "in_i64 (now - unix_epoch)" "now \<noteq> unix_epoch" "gm_get (users s) name = Some st"
  shows "let (used, s') = QuotaUsed zone now name reset s in
    used = (if reset = QuotaResetMonthly \<and> periodStart st \<noteq> 0 \<and>
              year_month zone (time_of_unix_nano (periodStart st)) \<noteq> year_month zone now
            then 0 else quotaUsed st) \<and>
    (\<exists>st'. gm_get (users s') name = Some st' \<and> quotaUsed st' = used \<and>
       (reset = QuotaResetMonthly \<longrightarrow> periodStart st' \<noteq> 0 \<and>
          year_month zone (time_of_unix_nano (periodStart st')) = year_month zone now)) \<and>
    fst (QuotaUsed zone now name reset s') = used \<and>
    gm_get (users (snd (QuotaUsed zone now name reset s'))) = gm_get (users s')"
proof -
  have nano: "unix_nano now \<noteq> 0" "time_of_unix_nano (unix_nano now) = now"
    using assms(1,2) by (simp_all add: unix_nano_def time_of_unix_nano_def)
  then have twice: "rolloverIfNeeded zone reset now (rolloverIfNeeded zone reset now st) =
      rolloverIfNeeded zone reset now st"
    by (simp add: rolloverIfNeeded_def)
  show ?thesis
    using nano by (auto simp: QuotaUsed_def Let_def quotaUsedValue_def gm_get0_def assms(3) twice rolloverIfNeeded_def)
qed

text \<open>C26. Flushing the usage is atomic and restorable: whatever fails, the state file holds
  either its old content or the complete new one, the new one exactly when no error is
  reported; and loading a flushed file into any running state restores the used bytes
  and the period of every flushed secret, leaving the others alone. The hypotheses on
  \<open>unmarshal\<close> and \<open>marshal\<close> are the JSON codec's round trip on the flushed records.\<close>

theorem FlushUsage_LoadUsage:
  assumes "unmarshal (marshal (usage_records s)) = Some rs" "gm_ok rs" "gm_get rs = gm_get (usage_records s)"
    and flush: "FlushUsage marshal write renameOk path s fs = (err, fs')"
  shows "(err = None \<longrightarrow> fs' path = Some (marshal (usage_records s))) \<and>
    (err \<noteq> None \<longrightarrow> fs' path = fs path) \<and>
    (err = None \<longrightarrow> (\<exists>t'. LoadUsage unmarshal (read_path path fs') t = (None, t') \<and>
       (\<forall>n. gm_get (users t') n =
          (case gm_get (users s) n of None \<Rightarrow> gm_get (users t) n
           | Some st \<Rightarrow> Some ((gm_get0 zero_stats (users t) n)
               \<lparr>quotaUsed := quotaUsed st, periodStart := periodStart st\<rparr>)))))"
proof -
  have path: "fs' path = (if err = None then Some (marshal (usage_records s)) else fs path)"
    using flush by (auto simp: FlushUsage_def Let_def split: file_write.splits if_splits)
  have recs: "gm_get rs n = map_option (\<lambda>st. \<lparr>recQuotaUsed = quotaUsed st, recPeriodStart = periodStart st\<rparr>)
      (gm_get (users s) n)" for n
    unfolding assms(3) usage_records_def by (rule gm_get_map_val)
  have "LoadUsage unmarshal (read_path path fs') t = (None, fold restore_record rs t)" if "err = None"
    using that path assms(1) by (simp add: LoadUsage_def read_path_def)
  moreover have "gm_get (users (fold restore_record rs t)) n =
      (case gm_get (users s) n of None \<Rightarrow> gm_get (users t) n
       | Some st \<Rightarrow> Some ((gm_get0 zero_stats (users t) n)
           \<lparr>quotaUsed := quotaUsed st, periodStart := periodStart st\<rparr>))" for n
    by (simp add: fold_restore_records [OF assms(2)] recs split: option.split)
  ultimately show ?thesis using path by simp
qed

theorem FlushUsage_LoadUsage_witness:
  "fst (LoadUsage (\<lambda>b. if b = [1] then Some [(''a'', \<lparr>recQuotaUsed = 9, recPeriodStart = 1\<rparr>)] else None)
     (read_path ''u'' (snd (FlushUsage (\<lambda>r. [1]) Written True ''u''
        ((NewProxyStats 0)\<lparr>users := [(''a'', zero_stats\<lparr>quotaUsed := 9, periodStart := 1\<rparr>)]\<rparr>) Map.empty)))
     (NewProxyStats 0)) = None"
  using FlushUsage_LoadUsage [of "\<lambda>b. if b = [1] then Some [(''a'', \<lparr>recQuotaUsed = 9, recPeriodStart = 1\<rparr>)] else None"
      "\<lambda>r. [1]" "(NewProxyStats 0)\<lparr>users := [(''a'', zero_stats\<lparr>quotaUsed := 9, periodStart := 1\<rparr>)]\<rparr>"
      "[(''a'', \<lparr>recQuotaUsed = 9, recPeriodStart = 1\<rparr>)]" Written True "''u''" Map.empty None
      "[''u'' \<mapsto> [1]]" "NewProxyStats 0"]
  by (auto simp: usage_records_def FlushUsage_def Let_def fun_eq_iff)

end
