(* ===== verification/Proxy.thy ===== *)
theory Proxy
  imports SecretSet ProxyStats
begin

text \<open>
  The proxy's secret management, \<open>mtglib/proxy.go\<close> and the mutators of
  \<open>mtglib/proxy_api.go\<close>: the live connection registry, the limit gate, and the single
  mutation point \<open>swapSecretConfigLocked\<close> with the operations built on it. A stream
  context is its identifier; closing one adds it to \<open>closed\<close>. Every operation here
  runs under \<open>reloadMu\<close>, so it is one function on the state; the clock reading of one
  operation is one instant \<open>now\<close>. The lemmas say which streams a swap closes, that
  every mutator keeps the proxy's invariant and what each changes of the secret set.
\<close>

subsection \<open>Data\<close>

type_synonym stream = nat

record proxy =
  secrets :: secret_set
  stats :: proxyStats
  liveConns :: "(string, stream list) gomap"
  closed :: "stream list"

datatype proxy_error =
    ErrSecretInvalid
  | ErrSecretEmptyName
  | ErrSecretNotFound
  | ErrLastSecret
  | ErrReloaderNotConfigured
  | ErrReloadFailed

type_synonym zone = "go_time \<Rightarrow> int"

subsection \<open>The registry of live connections\<close>

definition registerConn :: "string \<Rightarrow> stream \<Rightarrow> proxy \<Rightarrow> proxy" where
  "registerConn name sc p =
     (let conns = gm_get0 [] (liveConns p) name
      in p\<lparr>liveConns := gm_put name (List.insert sc conns) (liveConns p)\<rparr>)"

definition unregisterConn :: "string \<Rightarrow> stream \<Rightarrow> proxy \<Rightarrow> proxy" where
  "unregisterConn name sc p =
     (case gm_get (liveConns p) name of
        None \<Rightarrow> p
      | Some conns \<Rightarrow>
          (let conns = removeAll sc conns
           in if conns = [] then p\<lparr>liveConns := gm_del name (liveConns p)\<rparr>
              else p\<lparr>liveConns := gm_put name conns (liveConns p)\<rparr>))"

definition close_streams :: "stream list \<Rightarrow> proxy \<Rightarrow> proxy" where
  "close_streams scs p = p\<lparr>closed := closed p @ scs\<rparr>"

definition keys_by_name :: "secret_set \<Rightarrow> (string, bytes) gomap" where
  "keys_by_name s = fold (\<lambda>(name, sec) m. gm_put name (Key sec) m) (zip (ss_names s) (ss_secrets s)) []"

definition closeStaleConns :: "secret_set option \<Rightarrow> secret_set \<Rightarrow> proxy \<Rightarrow> proxy" where
  "closeStaleConns oldSet newSet p =
     (let newKeys = keys_by_name newSet;
          oldKeys = (case oldSet of None \<Rightarrow> [] | Some s \<Rightarrow> keys_by_name s);
          kept = (\<lambda>name. case gm_get newKeys name of
                    None \<Rightarrow> False
                  | Some newKey \<Rightarrow> gm_get oldKeys name = Some newKey);
          stale = concat (map snd (filter (\<lambda>(name, conns). \<not> kept name) (liveConns p)))
      in close_streams stale p)"

subsection \<open>The limit gate\<close>

definition checkLimits ::
    "zone \<Rightarrow> go_time \<Rightarrow> string \<Rightarrow> secret_limits \<Rightarrow> proxyStats \<Rightarrow> (bool \<times> deny_reason) \<times> proxyStats" where
  "checkLimits zone now name lim st =
     (if Disabled lim then ((False, DenyDisabled), st)
      else if ExpiresAt lim \<noteq> 0 \<and> \<not> now < ExpiresAt lim then ((False, DenyExpired), st)
      else if QuotaBytes lim > 0 then
        (let (used, st) = QuotaUsed zone now name (QuotaReset lim) st
         in if used \<ge> QuotaBytes lim then ((False, DenyQuota), st) else ((True, DenyNone), st))
      else ((True, DenyNone), st))"

text \<open>One iteration of the loop of \<open>closeDeniedConns\<close>: the denied streams so far and the
  counters, which the gate may roll over.\<close>

definition denied_entry ::
    "zone \<Rightarrow> go_time \<Rightarrow> (string, secret_limits) gomap \<Rightarrow> string \<times> stream list \<Rightarrow>
     stream list \<times> proxyStats \<Rightarrow> stream list \<times> proxyStats" where
  "denied_entry zone now limitByName entry acc =
     (let (name, conns) = entry; (denied, st) = acc
      in case gm_get limitByName name of
           None \<Rightarrow> (denied, st)
         | Some lim \<Rightarrow>
             (let ((allowed, reason), st) = checkLimits zone now name lim st
              in if allowed \<or> reason = DenyQuota then (denied, st) else (denied @ conns, st)))"

definition closeDeniedConns :: "zone \<Rightarrow> go_time \<Rightarrow> proxy \<Rightarrow> proxy" where
  "closeDeniedConns zone now p =
     (let limitByName = fold (\<lambda>(name, lim) m. gm_put name lim m)
            (zip (ss_names (secrets p)) (ss_limits (secrets p))) [];
          (denied, st) = fold (denied_entry zone now limitByName) (liveConns p) ([], stats p)
      in close_streams denied (p\<lparr>stats := st\<rparr>))"

definition rolloverAllQuotas :: "zone \<Rightarrow> go_time \<Rightarrow> proxy \<Rightarrow> proxy" where
  "rolloverAllQuotas zone now p =
     p\<lparr>stats := fold (\<lambda>(name, lim) st.
         if QuotaReset lim = QuotaResetMonthly then rollover zone name (QuotaReset lim) now st else st)
       (zip (ss_names (secrets p)) (ss_limits (secrets p))) (stats p)\<rparr>"

subsection \<open>Swapping the snapshot\<close>

definition swapSecretConfigLocked ::
    "zone \<Rightarrow> go_time \<Rightarrow> secret_config \<Rightarrow> proxy \<Rightarrow> proxy_error option \<times> proxy" where
  "swapSecretConfigLocked zone now cfg p =
     (if Secrets cfg = [] then (Some ErrSecretInvalid, p)
      else if \<exists>(name, s) \<in> set (Secrets cfg). \<not> secret_Valid s then (Some ErrSecretInvalid, p)
      else
        let newSet = buildSecretSet (Secrets cfg) (SecretAdTags cfg) (GlobalAdTag cfg) (CfgLimits cfg);
            oldSet = secrets p;
            p = p\<lparr>secrets := newSet\<rparr>;
            p = p\<lparr>stats := fold PreRegister (ss_names newSet) (stats p)\<rparr>;
            p = closeStaleConns (Some oldSet) newSet p
        in (None, closeDeniedConns zone now p))"

definition ReloadSecrets ::
    "zone \<Rightarrow> go_time \<Rightarrow> (unit \<Rightarrow> secret_config option) option \<Rightarrow> proxy \<Rightarrow> proxy_error option \<times> proxy" where
  "ReloadSecrets zone now reloader p =
     (case reloader of
        None \<Rightarrow> (Some ErrReloaderNotConfigured, p)
      | Some f \<Rightarrow> (case f () of
                    None \<Rightarrow> (Some ErrReloadFailed, p)
                  | Some cfg \<Rightarrow> swapSecretConfigLocked zone now cfg p))"

definition ReplaceSecrets :: "zone \<Rightarrow> go_time \<Rightarrow> secret_config \<Rightarrow> proxy \<Rightarrow> proxy_error option \<times> proxy" where
  "ReplaceSecrets zone now cfg p = swapSecretConfigLocked zone now cfg p"

definition put_config ::
    "string \<Rightarrow> secret \<Rightarrow> ad_tag option \<Rightarrow> secret_limits option \<Rightarrow> secret_config \<Rightarrow> secret_config" where
  "put_config name s adTag limits cfg =
     (let cfg = cfg\<lparr>Secrets := gm_put name s (Secrets cfg)\<rparr>;
          cfg = (case adTag of
                   Some t \<Rightarrow> cfg\<lparr>SecretAdTags := gm_put name t (SecretAdTags cfg)\<rparr>
                 | None \<Rightarrow> cfg\<lparr>SecretAdTags := gm_del name (SecretAdTags cfg)\<rparr>)
      in case limits of
           Some l \<Rightarrow> (if \<not> limits_IsZero l then cfg\<lparr>CfgLimits := gm_put name l (CfgLimits cfg)\<rparr>
                      else cfg\<lparr>CfgLimits := gm_del name (CfgLimits cfg)\<rparr>)
         | None \<Rightarrow> cfg\<lparr>CfgLimits := gm_del name (CfgLimits cfg)\<rparr>)"

definition PutSecret ::
    "zone \<Rightarrow> go_time \<Rightarrow> string \<Rightarrow> secret \<Rightarrow> ad_tag option \<Rightarrow> secret_limits option \<Rightarrow> proxy \<Rightarrow>
     proxy_error option \<times> proxy" where
  "PutSecret zone now name s adTag limits p =
     (if name = [] then (Some ErrSecretEmptyName, p)
      else if \<not> secret_Valid s then (Some ErrSecretInvalid, p)
      else swapSecretConfigLocked zone now (put_config name s adTag limits (toConfig (secrets p))) p)"

definition DeleteSecret :: "zone \<Rightarrow> go_time \<Rightarrow> string \<Rightarrow> proxy \<Rightarrow> proxy_error option \<times> proxy" where
  "DeleteSecret zone now name p =
     (let cfg = toConfig (secrets p)
      in if gm_get (Secrets cfg) name = None then (Some ErrSecretNotFound, p)
         else if length (Secrets cfg) = 1 then (Some ErrLastSecret, p)
         else swapSecretConfigLocked zone now
                (cfg\<lparr>Secrets := gm_del name (Secrets cfg), SecretAdTags := gm_del name (SecretAdTags cfg)\<rparr>) p)"

definition get_GlobalAdTag :: "proxy \<Rightarrow> ad_tag option" where
  "get_GlobalAdTag p = ss_globalAdTag (secrets p)"

definition SetGlobalAdTag :: "zone \<Rightarrow> go_time \<Rightarrow> ad_tag option \<Rightarrow> proxy \<Rightarrow> proxy_error option \<times> proxy" where
  "SetGlobalAdTag zone now tag p =
     swapSecretConfigLocked zone now ((toConfig (secrets p))\<lparr>GlobalAdTag := tag\<rparr>) p"

definition hasSecret :: "string \<Rightarrow> proxy \<Rightarrow> bool" where
  "hasSecret name p = list_ex (\<lambda>n. n = name) (ss_names (secrets p))"

subsection \<open>Invariant\<close>

text \<open>The active snapshot is well formed, never empty and holds only valid secrets; the
  maps have one entry per key and the registry has no empty inner map.\<close>

definition proxy_ok :: "proxy \<Rightarrow> bool" where
  "proxy_ok p \<longleftrightarrow> wf_secret_set (secrets p) \<and> ss_names (secrets p) \<noteq> [] \<and>
     (\<forall>s \<in> set (ss_secrets (secrets p)). secret_Valid s) \<and>
     gm_ok (users (stats p)) \<and> set (ss_names (secrets p)) \<subseteq> dom (gm_get (users (stats p))) \<and>
     gm_ok (liveConns p) \<and> (\<forall>(name, conns) \<in> set (liveConns p). conns \<noteq> [])"

text \<open>A live stream of the secret called \<open>name\<close>.\<close>

definition live_under :: "proxy \<Rightarrow> string \<Rightarrow> stream \<Rightarrow> bool" where
  "live_under p name sc \<longleftrightarrow> sc \<in> set (gm_get0 [] (liveConns p) name)"

text \<open>The gate's verdict without the counters: disabled or past the deadline.\<close>

definition barred :: "go_time \<Rightarrow> secret_limits \<Rightarrow> bool" where
  "barred now lim \<longleftrightarrow> Disabled lim \<or> ExpiresAt lim \<noteq> 0 \<and> ExpiresAt lim \<le> now"

text \<open>What a swap leaves of the counters: every secret keeps its own connection and
  byte counts and its last-seen time; only a quota period may roll over.\<close>

definition same_counters :: "secretStats \<Rightarrow> secretStats \<Rightarrow> bool" where
  "same_counters u u' \<longleftrightarrow> connections u' = connections u \<and> bytesIn u' = bytesIn u \<and>
     bytesOut u' = bytesOut u \<and> lastSeen u' = lastSeen u"

definition counters_kept :: "proxyStats \<Rightarrow> proxyStats \<Rightarrow> bool" where
  "counters_kept st st' \<longleftrightarrow> dom (gm_get (users st)) \<subseteq> dom (gm_get (users st')) \<and>
     (\<forall>n. same_counters (gm_get0 zero_stats (users st) n) (gm_get0 zero_stats (users st') n))"

text \<open>The streams a change of snapshot has to close: those of a secret that is gone, was
  re-keyed, or is disabled or expired now.\<close>

definition to_close :: "go_time \<Rightarrow> secret_set \<Rightarrow> secret_set \<Rightarrow> string \<Rightarrow> bool" where
  "to_close now old new n \<longleftrightarrow> secret_named new n = None \<or>
     map_option Key (secret_named old n) \<noteq> map_option Key (secret_named new n) \<or>
     (\<exists>lim. limits_named new n = Some lim \<and> barred now lim)"

definition cfg_valid :: "secret_config \<Rightarrow> bool" where
  "cfg_valid cfg \<longleftrightarrow> Secrets cfg \<noteq> [] \<and> (\<forall>(name, s) \<in> set (Secrets cfg). secret_Valid s)"

definition build :: "secret_config \<Rightarrow> secret_set" where
  "build cfg = buildSecretSet (Secrets cfg) (SecretAdTags cfg) (GlobalAdTag cfg) (CfgLimits cfg)"

text \<open>The specification of a swap.\<close>

definition swapped :: "go_time \<Rightarrow> secret_config \<Rightarrow> proxy \<Rightarrow> proxy \<Rightarrow> bool" where
  "swapped now cfg p p' \<longleftrightarrow> secrets p' = build cfg \<and> liveConns p' = liveConns p \<and>
     counters_kept (stats p) (stats p') \<and>
     (\<forall>sc. sc \<in> set (closed p') \<longleftrightarrow> sc \<in> set (closed p) \<or>
        (\<exists>n. live_under p n sc \<and> to_close now (secrets p) (build cfg) n))"

text \<open>A running proxy the examples below use: two secrets, one live stream for each.\<close>

definition key_a :: bytes where
  "key_a = replicate 16 1"

definition key_b :: bytes where
  "key_b = replicate 16 2"

definition sample_proxy :: proxy where
  "sample_proxy =
     \<lparr>secrets = buildSecretSet [(''a'', \<lparr>Key = key_a, Host = ''h''\<rparr>), (''b'', \<lparr>Key = key_b, Host = ''h''\<rparr>)] [] None [],
      stats = PreRegister ''b'' (PreRegister ''a'' (NewProxyStats 0)),
      liveConns = [(''a'', [1]), (''b'', [2])],
      closed = []\<rparr>"

definition expiring_proxy :: proxy where
  "expiring_proxy = sample_proxy\<lparr>secrets := buildSecretSet
     [(''a'', \<lparr>Key = key_a, Host = ''h''\<rparr>), (''b'', \<lparr>Key = key_b, Host = ''h''\<rparr>)] [] None
     [(''a'', zero_limits\<lparr>ExpiresAt := 4\<rparr>)]\<rparr>"

subsection \<open>Counters\<close>

lemma counters_kept_refl [simp, intro]: "counters_kept st st"
  by (simp add: counters_kept_def same_counters_def)

lemma counters_kept_trans: "counters_kept a b \<Longrightarrow> counters_kept b c \<Longrightarrow> counters_kept a c"
  unfolding counters_kept_def same_counters_def by (intro conjI) (blast, simp)

lemma counters_kept_dom: "counters_kept a b \<Longrightarrow> dom (gm_get (users a)) \<subseteq> dom (gm_get (users b))"
  by (simp add: counters_kept_def)

lemma counters_kept_with_stats:
  "same_counters (gm_get0 zero_stats (users st) name) (f (gm_get0 zero_stats (users st) name)) \<Longrightarrow>
     counters_kept st (with_stats name f st)"
  by (auto simp: counters_kept_def gm_get0_def same_counters_def)

lemma counters_kept_rollover: "counters_kept st (with_stats name (rolloverIfNeeded zone reset now) st)"
  by (rule counters_kept_with_stats) (simp add: same_counters_def rolloverIfNeeded_def)

lemma counters_kept_PreRegister: "counters_kept st (PreRegister name st)"
  by (auto simp: counters_kept_def same_counters_def users_PreRegister gm_get0_def)

lemma gm_ok_PreRegister [simp]: "gm_ok (users st) \<Longrightarrow> gm_ok (users (PreRegister name st))"
  by (auto simp: PreRegister_def getOrCreate_def split: option.split)

lemma fold_PreRegister:
  "counters_kept st (fold PreRegister names st) \<and> set names \<subseteq> dom (gm_get (users (fold PreRegister names st))) \<and>
   (gm_ok (users st) \<longrightarrow> gm_ok (users (fold PreRegister names st)))"
proof (induction names arbitrary: st)
  case (Cons n names)
  let ?st = "PreRegister n st"
  have IH: "counters_kept ?st (fold PreRegister names ?st)"
      "set names \<subseteq> dom (gm_get (users (fold PreRegister names ?st)))"
      "gm_ok (users ?st) \<longrightarrow> gm_ok (users (fold PreRegister names ?st))"
    using Cons [of ?st] by simp_all
  have "n \<in> dom (gm_get (users ?st))" by (simp add: users_PreRegister)
  then have "n \<in> dom (gm_get (users (fold PreRegister names ?st)))"
    using counters_kept_dom [OF IH(1)] by (rule subsetD [rotated])
  then show ?case
    using IH counters_kept_trans [OF counters_kept_PreRegister IH(1)] by simp
qed simp

lemma checkLimits_stats:
  "counters_kept st (snd (checkLimits zone now name lim st)) \<and>
   (gm_ok (users st) \<longrightarrow> gm_ok (users (snd (checkLimits zone now name lim st))))"
  by (auto simp: checkLimits_def QuotaUsed_def Let_def counters_kept_rollover)

lemma checkLimits_barred:
  "fst (checkLimits zone now name lim st) = (allowed, reason) \<Longrightarrow>
     \<not> (allowed \<or> reason = DenyQuota) \<longleftrightarrow> barred now lim"
  by (auto simp: checkLimits_def barred_def QuotaUsed_def Let_def split: if_splits)

subsection \<open>Which streams are closed\<close>

lemma wf_secret_set_zip:
  "wf_secret_set s \<Longrightarrow> gm_ok (zip (ss_names s) (ss_secrets s)) \<and> gm_ok (zip (ss_names s) (ss_limits s))"
  by (simp add: wf_secret_set_def)

lemma gm_get_fold_put_f:
  "gm_ok kvs \<Longrightarrow> gm_get (fold (\<lambda>(k, v) m. gm_put k (f v) m) kvs []) k = map_option f (map_of kvs k)"
proof -
  assume ok: "gm_ok kvs"
  have "fold (\<lambda>(k, v) m. gm_put k (f v) m) kvs [] = fold (\<lambda>(k, v) m. gm_put k v m) (map (\<lambda>(k, v). (k, f v)) kvs) []"
    by (simp add: fold_map comp_def case_prod_beta')
  then show ?thesis
    using gm_get_fold_put [of "map (\<lambda>(k, v). (k, f v)) kvs" "[]" k] ok gm_get_map_val [of f kvs k]
    by (auto simp: comp_def case_prod_beta' split: option.split)
qed

lemma gm_get_keys_by_name: "wf_secret_set s \<Longrightarrow> gm_get (keys_by_name s) n = map_option Key (secret_named s n)"
  unfolding keys_by_name_def secret_named_def
  using gm_get_fold_put_f [of "zip (ss_names s) (ss_secrets s)" Key n] wf_secret_set_zip by blast

lemma in_live_entries:
  assumes "gm_ok (liveConns p)"
  shows "sc \<in> set (concat (map snd (filter (\<lambda>(name, conns). P name) (liveConns p)))) \<longleftrightarrow>
    (\<exists>n. live_under p n sc \<and> P n)"
proof
  assume "sc \<in> set (concat (map snd (filter (\<lambda>(name, conns). P name) (liveConns p))))"
  then obtain n conns where "(n, conns) \<in> set (liveConns p)" "P n" "sc \<in> set conns" by auto
  then show "\<exists>n. live_under p n sc \<and> P n"
    using assms by (auto simp: live_under_def gm_get0_def intro!: exI [of _ n])
next
  assume "\<exists>n. live_under p n sc \<and> P n"
  then obtain n where n: "live_under p n sc" "P n" by blast
  then obtain conns where "gm_get (liveConns p) n = Some conns" "sc \<in> set conns"
    by (cases "gm_get (liveConns p) n") (auto simp: live_under_def gm_get0_def)
  with n(2) show "sc \<in> set (concat (map snd (filter (\<lambda>(name, conns). P name) (liveConns p))))"
    by (auto dest!: map_of_SomeD)
qed

lemma closed_closeStaleConns:
  assumes "wf_secret_set old" "wf_secret_set new" "gm_ok (liveConns p)"
  shows "sc \<in> set (closed (closeStaleConns (Some old) new p)) \<longleftrightarrow> sc \<in> set (closed p) \<or>
    (\<exists>n. live_under p n sc \<and> (secret_named new n = None \<or>
       map_option Key (secret_named old n) \<noteq> map_option Key (secret_named new n)))"
proof -
  have "(\<not> (case gm_get (keys_by_name new) n of None \<Rightarrow> False
            | Some k \<Rightarrow> gm_get (keys_by_name old) n = Some k)) \<longleftrightarrow>
      (secret_named new n = None \<or> map_option Key (secret_named old n) \<noteq> map_option Key (secret_named new n))" for n
    by (simp add: gm_get_keys_by_name assms split: option.split)
  then show ?thesis
    by (simp add: closeStaleConns_def close_streams_def in_live_entries [OF assms(3)] del: set_concat)
qed

lemma fold_denied_entry:
  "fold (denied_entry zone now lims) entries (denied, st) = (denied', st') \<Longrightarrow>
     denied' = denied @ concat (map snd (filter (\<lambda>(name, conns).
        case gm_get lims name of None \<Rightarrow> False | Some lim \<Rightarrow> barred now lim) entries)) \<and>
     counters_kept st st' \<and> (gm_ok (users st) \<longrightarrow> gm_ok (users st'))"
proof (induction entries arbitrary: denied st)
  case (Cons e entries)
  obtain name conns where e: "e = (name, conns)" by (cases e)
  obtain d1 st1 where step: "denied_entry zone now lims e (denied, st) = (d1, st1)" by fastforce
  have "d1 = denied @ (if (case gm_get lims name of None \<Rightarrow> False | Some lim \<Rightarrow> barred now lim) then conns else []) \<and>
      counters_kept st st1 \<and> (gm_ok (users st) \<longrightarrow> gm_ok (users st1))"
  proof (cases "gm_get lims name")
    case (Some lim)
    obtain allowed reason st2 where c: "checkLimits zone now name lim st = ((allowed, reason), st2)"
      by (metis prod.exhaust)
    then show ?thesis
      using step e Some checkLimits_barred [of zone now name lim st allowed reason]
        checkLimits_stats [of st zone now name lim] by (auto simp: denied_entry_def split: if_splits)
  qed (use step e in \<open>simp add: denied_entry_def\<close>)
  then show ?case
    using Cons.IH [of d1 st1] Cons.prems step e counters_kept_trans by auto
qed simp

lemma closeDeniedConns_frame [simp]:
  "secrets (closeDeniedConns zone now p) = secrets p"
  "liveConns (closeDeniedConns zone now p) = liveConns p"
  by (simp_all add: closeDeniedConns_def close_streams_def Let_def split: prod.split)

lemma closeStaleConns_frame [simp]:
  "secrets (closeStaleConns old new p) = secrets p" "stats (closeStaleConns old new p) = stats p"
  "liveConns (closeStaleConns old new p) = liveConns p"
  by (simp_all add: closeStaleConns_def close_streams_def Let_def)

lemma closeDeniedConns_stats:
  "counters_kept (stats p) (stats (closeDeniedConns zone now p)) \<and>
   (gm_ok (users (stats p)) \<longrightarrow> gm_ok (users (stats (closeDeniedConns zone now p))))"
  using fold_denied_entry by (fastforce simp: closeDeniedConns_def close_streams_def Let_def split: prod.split)

lemma closed_closeDeniedConns:
  assumes "wf_secret_set (secrets p)" "gm_ok (liveConns p)"
  shows "sc \<in> set (closed (closeDeniedConns zone now p)) \<longleftrightarrow> sc \<in> set (closed p) \<or>
    (\<exists>n lim. live_under p n sc \<and> limits_named (secrets p) n = Some lim \<and> barred now lim)"
proof -
  let ?lims = "fold (\<lambda>(name, lim) m. gm_put name lim m) (zip (ss_names (secrets p)) (ss_limits (secrets p))) []"
  have lims: "gm_get ?lims n = limits_named (secrets p) n" for n
    using gm_get_fold_put [of "zip (ss_names (secrets p)) (ss_limits (secrets p))" "[]" n]
      wf_secret_set_zip [OF assms(1)] by (auto simp: limits_named_def split: option.split)
  obtain d st where f: "fold (denied_entry zone now ?lims) (liveConns p) ([], stats p) = (d, st)" by fastforce
  have "set d = {sc. \<exists>n. live_under p n sc \<and>
      (case limits_named (secrets p) n of None \<Rightarrow> False | Some lim \<Rightarrow> barred now lim)}"
    using fold_denied_entry [OF f] in_live_entries [OF assms(2)] by (simp add: lims set_eq_iff)
  then show ?thesis
    using f by (auto simp: closeDeniedConns_def close_streams_def split: option.splits)
qed

subsection \<open>The swap meets its specification\<close>

lemma swap_invalid: "\<not> cfg_valid cfg \<Longrightarrow> swapSecretConfigLocked zone now cfg p = (Some ErrSecretInvalid, p)"
  by (auto simp: swapSecretConfigLocked_def cfg_valid_def)

lemma swap_valid:
  assumes "cfg_valid cfg" "cfg_ok cfg" "proxy_ok p"
  obtains p' where "swapSecretConfigLocked zone now cfg p = (None, p')" "swapped now cfg p p'" "proxy_ok p'"
proof -
  define st where "st = fold PreRegister (ss_names (build cfg)) (stats p)"
  define p1 where "p1 = closeStaleConns (Some (secrets p)) (build cfg) (p\<lparr>secrets := build cfg, stats := st\<rparr>)"
  define p2 where "p2 = closeDeniedConns zone now p1"
  have ok: "wf_secret_set (secrets p)" "gm_ok (liveConns p)" "gm_ok (users (stats p))"
    using assms(3) by (simp_all add: proxy_ok_def)
  have sm: "gm_ok (Secrets cfg)" using assms(2) by (simp add: cfg_ok_def)
  have wf: "wf_secret_set (build cfg)" unfolding build_def using sm by (rule wf_buildSecretSet)
  have run: "swapSecretConfigLocked zone now cfg p = (None, p2)"
    using assms(1) by (auto simp: swapSecretConfigLocked_def cfg_valid_def p2_def p1_def st_def build_def Let_def)
  have p1: "secrets p1 = build cfg" "stats p1 = st" "liveConns p1 = liveConns p"
    by (simp_all add: p1_def)
  have st: "counters_kept (stats p) st" "set (ss_names (build cfg)) \<subseteq> dom (gm_get (users st))" "gm_ok (users st)"
    using fold_PreRegister ok(3) by (simp_all add: st_def del: set_sort)
  have st2: "counters_kept st (stats p2)" "gm_ok (users (stats p2))"
    using closeDeniedConns_stats [of p1 zone now] p1 st(3) by (simp_all add: p2_def)
  have live: "live_under p1 = live_under p" by (simp add: live_under_def p1 fun_eq_iff)
  have "sc \<in> set (closed p2) \<longleftrightarrow> sc \<in> set (closed p) \<or>
      (\<exists>n. live_under p n sc \<and> to_close now (secrets p) (build cfg) n)" for sc
  proof -
    have "sc \<in> set (closed p1) \<longleftrightarrow> sc \<in> set (closed p) \<or>
        (\<exists>n. live_under p n sc \<and> (secret_named (build cfg) n = None \<or>
           map_option Key (secret_named (secrets p) n) \<noteq> map_option Key (secret_named (build cfg) n)))"
      unfolding p1_def by (subst closed_closeStaleConns [OF ok(1) wf]) (use ok in \<open>simp_all add: live_under_def\<close>)
    then show ?thesis
      unfolding p2_def using closed_closeDeniedConns [of p1 sc zone now] p1 ok wf
      by (auto simp: live to_close_def)
  qed
  then have "swapped now cfg p p2"
    using p1 counters_kept_trans [OF st(1) st2(1)] by (simp add: swapped_def p2_def)
  moreover have "secret_Valid s" if "s \<in> set (ss_secrets (build cfg))" for s
    using that assms(1) sm by (auto simp: build_def cfg_valid_def gm_get0_def)
  then have valid: "\<forall>s \<in> set (ss_secrets (build cfg)). secret_Valid s" by blast
  have "set (ss_names (build cfg)) = set (gm_keys (Secrets cfg))" by (simp add: build_def)
  then have nonempty: "ss_names (build cfg) \<noteq> []" using assms(1) by (auto simp: cfg_valid_def)
  have p2: "secrets p2 = build cfg" "liveConns p2 = liveConns p" by (simp_all add: p2_def p1)
  have "proxy_ok p2"
    using assms(3) wf valid nonempty st2(2) subset_trans [OF st(2) counters_kept_dom [OF st2(1)]]
    unfolding proxy_ok_def p2 by blast
  ultimately show ?thesis using run that by blast
qed

subsection \<open>The mutators by name\<close>

lemma secret_named_build_cfg [simp]: "secret_named (build cfg) = gm_get (Secrets cfg)"
  by (simp add: build_def secret_named_build)

lemma limits_named_build_cfg: "limits_named (build cfg) n =
    (if gm_get (Secrets cfg) n = None then None else Some (gm_get0 zero_limits (CfgLimits cfg) n))"
  by (simp add: build_def limits_named_build map_of_eq_None_iff)

lemma adTag_named_build_cfg: "adTag_named (build cfg) n =
    (if gm_get (Secrets cfg) n = None then None else gm_get (SecretAdTags cfg) n)"
  by (simp add: build_def adTag_named_build map_of_eq_None_iff)

lemma globalAdTag_build_cfg [simp]: "ss_globalAdTag (build cfg) = GlobalAdTag cfg"
  by (simp add: build_def)

lemmas named_build = limits_named_build_cfg adTag_named_build_cfg

lemma build_toConfig: "wf_secret_set s \<Longrightarrow> build (toConfig s) = s"
  unfolding build_def by (rule buildSecretSet_toConfig)

lemma toConfig_named:
  assumes "wf_secret_set s"
  shows "gm_get (Secrets (toConfig s)) = secret_named s"
    "GlobalAdTag (toConfig s) = ss_globalAdTag s"
  using build_toConfig [OF assms] secret_named_build_cfg [of "toConfig s"] globalAdTag_build_cfg [of "toConfig s"]
  by simp_all

lemma toConfig_limits_adTag:
  assumes "wf_secret_set s"
  shows "limits_named s n = (if secret_named s n = None then None
           else Some (gm_get0 zero_limits (CfgLimits (toConfig s)) n))"
    "adTag_named s n = (if secret_named s n = None then None else gm_get (SecretAdTags (toConfig s)) n)"
  using build_toConfig [OF assms] named_build [of "toConfig s" n] toConfig_named [OF assms] by simp_all

lemma cfg_ok_toConfig: "wf_secret_set s \<Longrightarrow> cfg_ok (toConfig s)"
  using collected_toConfig [of s] by (simp add: collected_def)

lemma toConfig_valid:
  assumes "proxy_ok p"
  shows "(name, s) \<in> set (Secrets (toConfig (secrets p))) \<Longrightarrow> secret_Valid s"
    "Secrets (toConfig (secrets p)) \<noteq> []"
proof -
  have wf: "wf_secret_set (secrets p)" using assms by (simp add: proxy_ok_def)
  note ok = cfg_ok_toConfig [OF wf, unfolded cfg_ok_def]
  show "secret_Valid s" if "(name, s) \<in> set (Secrets (toConfig (secrets p)))"
  proof -
    have "secret_named (secrets p) name = Some s"
      using that ok toConfig_named(1) [OF wf] by (metis map_of_eq_Some_iff)
    then have "s \<in> set (ss_secrets (secrets p))"
      unfolding secret_named_def by (auto dest!: map_of_SomeD set_zip_rightD)
    then show ?thesis using assms by (simp add: proxy_ok_def)
  qed
  show "Secrets (toConfig (secrets p)) \<noteq> []"
    using toConfig_keys [OF wf] assms by (auto simp: proxy_ok_def)
qed

lemma put_config_sel [simp]:
  "Secrets (put_config name s adTag limits cfg) = gm_put name s (Secrets cfg)"
  "GlobalAdTag (put_config name s adTag limits cfg) = GlobalAdTag cfg"
  "gm_get (SecretAdTags (put_config name s adTag limits cfg)) = (gm_get (SecretAdTags cfg))(name := adTag)"
  "gm_get (CfgLimits (put_config name s adTag limits cfg)) =
     (gm_get (CfgLimits cfg))(name := (case limits of None \<Rightarrow> None | Some l \<Rightarrow> if l = zero_limits then None else Some l))"
  by (auto simp: put_config_def Let_def limits_IsZero_iff split: option.split)

lemma cfg_ok_put_config: "cfg_ok cfg \<Longrightarrow> cfg_ok (put_config name s adTag limits cfg)"
  by (auto simp: cfg_ok_def put_config_def Let_def split: option.split)

lemma set_gm_put_subset: "set (gm_put k v m) \<subseteq> insert (k, v) (set m)"
  by (induction m) auto

lemma set_gm_del_subset: "set (gm_del k m) \<subseteq> set m"
  by (auto simp: AList.delete_eq)

lemma PutSecret_run:
  fixes adTag :: "ad_tag option" and limits :: "secret_limits option"
  assumes "proxy_ok p" "name \<noteq> []" "secret_Valid s"
  defines "cfg \<equiv> put_config name s adTag limits (toConfig (secrets p))"
  obtains p' where "PutSecret zone now name s adTag limits p = (None, p')" "swapped now cfg p p'" "proxy_ok p'"
proof -
  have wf: "wf_secret_set (secrets p)" using assms(1) by (simp add: proxy_ok_def)
  have "cfg_valid cfg"
    using toConfig_valid [OF assms(1)] set_gm_put_subset [of name s "Secrets (toConfig (secrets p))"] assms(3)
    by (auto simp: cfg_valid_def cfg_def update_conv')
  moreover have "cfg_ok cfg" unfolding cfg_def using cfg_ok_toConfig [OF wf] by (rule cfg_ok_put_config)
  ultimately obtain p' where "swapSecretConfigLocked zone now cfg p = (None, p')" "swapped now cfg p p'" "proxy_ok p'"
    using assms(1) by (rule swap_valid)
  then show ?thesis using assms(2,3) by (intro that [of p']) (simp_all add: PutSecret_def cfg_def)
qed

lemma DeleteSecret_run:
  assumes "proxy_ok p" "secret_named (secrets p) name \<noteq> None" "length (ss_names (secrets p)) \<noteq> 1"
  defines "cfg \<equiv> (toConfig (secrets p))\<lparr>Secrets := gm_del name (Secrets (toConfig (secrets p))),
      SecretAdTags := gm_del name (SecretAdTags (toConfig (secrets p)))\<rparr>"
  obtains p' where "DeleteSecret zone now name p = (None, p')" "swapped now cfg p p'" "proxy_ok p'"
proof -
  have wf: "wf_secret_set (secrets p)" using assms(1) by (simp add: proxy_ok_def)
  let ?sm = "Secrets (toConfig (secrets p))"
  have len: "length ?sm = length (ss_names (secrets p))"
    using toConfig_sort_keys [OF wf] by (metis length_map length_sort)
  have "gm_del name ?sm \<noteq> []"
  proof
    assume "gm_del name ?sm = []"
    then have "set (gm_keys ?sm) \<subseteq> {name}" by (force simp: AList.delete_eq filter_empty_conv)
    moreover have "gm_ok ?sm" using cfg_ok_toConfig [OF wf] by (simp add: cfg_ok_def)
    ultimately have "length ?sm \<le> 1"
      using card_mono [of "{name}" "set (gm_keys ?sm)"] distinct_card [of "gm_keys ?sm"] by simp
    then show False using len assms(3) toConfig_valid(2) [OF assms(1)] by (cases ?sm) auto
  qed
  then have "cfg_valid cfg"
    using toConfig_valid [OF assms(1)] set_gm_del_subset [of name ?sm] by (auto simp: cfg_valid_def cfg_def)
  moreover have "cfg_ok cfg" using cfg_ok_toConfig [OF wf] by (simp add: cfg_ok_def cfg_def)
  ultimately obtain p' where "swapSecretConfigLocked zone now cfg p = (None, p')" "swapped now cfg p p'" "proxy_ok p'"
    using assms(1) by (rule swap_valid)
  then show ?thesis using assms(2,3) len toConfig_named [OF wf]
    by (intro that [of p']) (simp_all add: DeleteSecret_def cfg_def Let_def)
qed

lemma SetGlobalAdTag_run:
  assumes "proxy_ok p"
  obtains p' where "SetGlobalAdTag zone now tag p = (None, p')"
    "swapped now ((toConfig (secrets p))\<lparr>GlobalAdTag := tag\<rparr>) p p'" "proxy_ok p'"
proof -
  have wf: "wf_secret_set (secrets p)" using assms by (simp add: proxy_ok_def)
  have "cfg_valid ((toConfig (secrets p))\<lparr>GlobalAdTag := tag\<rparr>)"
    using toConfig_valid [OF assms] by (auto simp: cfg_valid_def)
  moreover have "cfg_ok ((toConfig (secrets p))\<lparr>GlobalAdTag := tag\<rparr>)"
    using cfg_ok_toConfig [OF wf] by (simp add: cfg_ok_def)
  ultimately show ?thesis using assms that unfolding SetGlobalAdTag_def by (rule swap_valid)
qed

lemma sample_proxy_ok: "proxy_ok sample_proxy"
proof -
  have "secret_Valid s" if "s \<in> set (ss_secrets (secrets sample_proxy))" for s
    using that by (auto simp: sample_proxy_def gm_get0_def secret_Valid_def key_a_def key_b_def secretEmptyKey_def
        SecretKeyLength_def)
  moreover have "ss_names (secrets sample_proxy) = [''a'', ''b'']" by (simp add: sample_proxy_def)
  moreover have "wf_secret_set (secrets sample_proxy)"
    unfolding sample_proxy_def by (simp add: wf_buildSecretSet)
  ultimately show ?thesis
    by (simp add: proxy_ok_def) (simp add: sample_proxy_def users_PreRegister NewProxyStats_def)
qed

subsection \<open>Properties\<close>

text \<open>C1. The single mutation point: a configuration without secrets or with an invalid one
  is refused and the running state does not change at all; any other is swapped in, the
  invariant holds again, the live registry and everybody's counters are kept, and the
  streams closed are exactly those whose secret disappeared, was re-keyed, or is now
  disabled or expired.\<close>

theorem swapSecretConfigLocked_spec:
  assumes "proxy_ok p" "cfg_ok cfg"
  shows "if Secrets cfg = [] \<or> (\<exists>(name, s) \<in> set (Secrets cfg). \<not> secret_Valid s)
    then swapSecretConfigLocked zone now cfg p = (Some ErrSecretInvalid, p)
    else \<exists>p'. swapSecretConfigLocked zone now cfg p = (None, p') \<and> proxy_ok p' \<and>
      secrets p' = build cfg \<and> liveConns p' = liveConns p \<and> counters_kept (stats p) (stats p') \<and>
      (\<forall>sc. sc \<in> set (closed p') \<longleftrightarrow> sc \<in> set (closed p) \<or>
         (\<exists>n. live_under p n sc \<and> (secret_named (build cfg) n = None \<or>
            map_option Key (secret_named (secrets p) n) \<noteq> map_option Key (secret_named (build cfg) n) \<or>
            (\<exists>lim. limits_named (build cfg) n = Some lim \<and> barred now lim))))"
proof (cases "cfg_valid cfg")
  case True
  from swap_valid [OF this assms(2,1), of zone now] obtain p'
    where "swapSecretConfigLocked zone now cfg p = (None, p')" "swapped now cfg p p'" "proxy_ok p'" .
  with True show ?thesis by (auto simp: cfg_valid_def swapped_def to_close_def)
next
  case False
  then have "Secrets cfg = [] \<or> (\<exists>(name, s) \<in> set (Secrets cfg). \<not> secret_Valid s)"
    by (auto simp: cfg_valid_def)
  with swap_invalid [OF False] show ?thesis by simp
qed

theorem swapSecretConfigLocked_spec_witness:
  "\<exists>p'. swapSecretConfigLocked (\<lambda>_. 0) 5
     \<lparr>Secrets = [(''b'', \<lparr>Key = key_b, Host = ''h''\<rparr>)], SecretAdTags = [], GlobalAdTag = None, CfgLimits = []\<rparr>
     sample_proxy = (None, p') \<and> 1 \<in> set (closed p')"
proof -
  let ?cfg = "\<lparr>Secrets = [(''b'', \<lparr>Key = key_b, Host = ''h''\<rparr>)], SecretAdTags = [], GlobalAdTag = None, CfgLimits = []\<rparr>"
  have "live_under sample_proxy ''a'' 1" by (simp add: live_under_def sample_proxy_def gm_get0_def)
  then show ?thesis
    using swapSecretConfigLocked_spec [OF sample_proxy_ok, of ?cfg "\<lambda>_. 0" 5]
    by (auto simp: cfg_ok_def secret_Valid_def key_b_def secretEmptyKey_def SecretKeyLength_def intro: exI [of _ "''a''"])
qed

text \<open>\<open>PutSecret\<close> refuses an empty name or an invalid secret without touching the state;
  otherwise exactly the named entry changes: its secret, its ad tag override and its
  limits become the given ones, every other name keeps all three, and so does the global
  tag. The streams closed are those the new snapshot has to close.\<close>

lemma PutSecret_spec:
  assumes "proxy_ok p"
  shows "if name = [] \<or> \<not> secret_Valid s
    then \<exists>e. PutSecret zone now name s adTag limits p = (Some e, p)
    else \<exists>p'. PutSecret zone now name s adTag limits p = (None, p') \<and> proxy_ok p' \<and>
      secret_named (secrets p') = (secret_named (secrets p))(name \<mapsto> s) \<and>
      adTag_named (secrets p') = (adTag_named (secrets p))(name := adTag) \<and>
      limits_named (secrets p') = (limits_named (secrets p))
        (name \<mapsto> (case limits of None \<Rightarrow> zero_limits | Some l \<Rightarrow> l)) \<and>
      get_GlobalAdTag p' = get_GlobalAdTag p \<and> counters_kept (stats p) (stats p') \<and>
      (\<forall>sc. sc \<in> set (closed p') \<longleftrightarrow> sc \<in> set (closed p) \<or>
         (\<exists>n. live_under p n sc \<and> to_close now (secrets p) (secrets p') n))"
proof (cases "name = [] \<or> \<not> secret_Valid s")
  case True
  then show ?thesis by (auto simp: PutSecret_def)
next
  case False
  then obtain p' where p': "PutSecret zone now name s adTag limits p = (None, p')" "proxy_ok p'"
      "swapped now (put_config name s adTag limits (toConfig (secrets p))) p p'"
    using PutSecret_run [OF assms] by (metis (no_types))
  have wf: "wf_secret_set (secrets p)" using assms by (simp add: proxy_ok_def)
  note new = p'(3) [unfolded swapped_def]
  have "limits_named (secrets p') = (limits_named (secrets p))
      (name \<mapsto> (case limits of None \<Rightarrow> zero_limits | Some l \<Rightarrow> l))"
    using new by (auto simp: fun_eq_iff limits_named_build_cfg toConfig_limits_adTag [OF wf] toConfig_named [OF wf]
        gm_get0_def split: option.split)
  moreover have "adTag_named (secrets p') = (adTag_named (secrets p))(name := adTag)"
    using new by (auto simp: fun_eq_iff adTag_named_build_cfg toConfig_limits_adTag [OF wf] toConfig_named [OF wf])
  ultimately show ?thesis
    using False p' new by (simp add: get_GlobalAdTag_def toConfig_named [OF wf])
qed

text \<open>\<open>DeleteSecret\<close> reports an unknown name and refuses to empty the set, both without
  touching the state; otherwise exactly that name disappears, with its ad tag and its
  limits, and every live stream of it is closed.\<close>

lemma DeleteSecret_spec:
  assumes "proxy_ok p"
  shows "if secret_named (secrets p) name = None
    then DeleteSecret zone now name p = (Some ErrSecretNotFound, p)
    else if ss_names (secrets p) = [name] then DeleteSecret zone now name p = (Some ErrLastSecret, p)
    else \<exists>p'. DeleteSecret zone now name p = (None, p') \<and> proxy_ok p' \<and>
      secret_named (secrets p') = (secret_named (secrets p))(name := None) \<and>
      adTag_named (secrets p') = (adTag_named (secrets p))(name := None) \<and>
      limits_named (secrets p') = (limits_named (secrets p))(name := None) \<and>
      (\<forall>sc. live_under p name sc \<longrightarrow> sc \<in> set (closed p'))"
proof -
  have wf: "wf_secret_set (secrets p)" using assms by (simp add: proxy_ok_def)
  note named = toConfig_named [OF wf]
  have len: "length (Secrets (toConfig (secrets p))) = length (ss_names (secrets p))"
    using toConfig_sort_keys [OF wf] by (metis length_map length_sort)
  have single: "length (ss_names (secrets p)) = 1 \<longleftrightarrow> ss_names (secrets p) = [name]"
    if "secret_named (secrets p) name \<noteq> None"
    using that by (auto simp: secret_named_def length_Suc_conv dest!: map_of_SomeD set_zip_leftD)
  consider "secret_named (secrets p) name = None"
    | "secret_named (secrets p) name \<noteq> None" "ss_names (secrets p) = [name]"
    | "secret_named (secrets p) name \<noteq> None" "ss_names (secrets p) \<noteq> [name]" by blast
  then show ?thesis
  proof cases
    case 3
    then obtain p' where p': "DeleteSecret zone now name p = (None, p')" "proxy_ok p'"
        "swapped now ((toConfig (secrets p))\<lparr>Secrets := gm_del name (Secrets (toConfig (secrets p))),
           SecretAdTags := gm_del name (SecretAdTags (toConfig (secrets p)))\<rparr>) p p'"
      using DeleteSecret_run [OF assms] single by (metis (no_types))
    have "limits_named (secrets p') = (limits_named (secrets p))(name := None)"
        "adTag_named (secrets p') = (adTag_named (secrets p))(name := None)"
      using p'(3) by (auto simp: fun_eq_iff swapped_def named_build toConfig_limits_adTag [OF wf] named)
    then show ?thesis
      using 3 p' by (auto simp: swapped_def named to_close_def)
  qed (simp_all add: DeleteSecret_def Let_def named len)
qed

text \<open>\<open>SetGlobalAdTag\<close> always succeeds on a running proxy and changes the global tag only.
  The streams it closes are those of secrets that are disabled or expired at that moment:
  changing the tag does close live connections when a secret has expired since the
  last mutation.\<close>

lemma SetGlobalAdTag_spec:
  assumes "proxy_ok p" "\<forall>(n, conns) \<in> set (liveConns p). secret_named (secrets p) n \<noteq> None"
  shows "\<exists>p'. SetGlobalAdTag zone now tag p = (None, p') \<and> proxy_ok p' \<and> get_GlobalAdTag p' = tag \<and>
    secret_named (secrets p') = secret_named (secrets p) \<and> adTag_named (secrets p') = adTag_named (secrets p) \<and>
    limits_named (secrets p') = limits_named (secrets p) \<and>
    (\<forall>sc. sc \<in> set (closed p') \<longleftrightarrow> sc \<in> set (closed p) \<or>
       (\<exists>n lim. live_under p n sc \<and> limits_named (secrets p) n = Some lim \<and> barred now lim))"
proof -
  have wf: "wf_secret_set (secrets p)" using assms(1) by (simp add: proxy_ok_def)
  note named = toConfig_named [OF wf]
  obtain p' where p': "SetGlobalAdTag zone now tag p = (None, p')" "proxy_ok p'"
      "swapped now ((toConfig (secrets p))\<lparr>GlobalAdTag := tag\<rparr>) p p'"
    using SetGlobalAdTag_run [OF assms(1)] by (metis (no_types))
  have same: "secret_named (secrets p') = secret_named (secrets p)" "adTag_named (secrets p') = adTag_named (secrets p)"
      "limits_named (secrets p') = limits_named (secrets p)"
    using p'(3) by (simp_all add: fun_eq_iff swapped_def named named_build toConfig_limits_adTag [OF wf])
  have "secret_named (secrets p) n \<noteq> None" if "live_under p n sc" for n sc
    using that assms(2) by (cases "gm_get (liveConns p) n") (auto simp: live_under_def gm_get0_def dest!: map_of_SomeD)
  then have "live_under p n sc \<and> to_close now (secrets p) (secrets p') n \<longleftrightarrow>
      live_under p n sc \<and> (\<exists>lim. limits_named (secrets p) n = Some lim \<and> barred now lim)" for n sc
    unfolding to_close_def same by blast
  then show ?thesis using p' same by (simp add: swapped_def get_GlobalAdTag_def)
qed

text \<open>C22. The limit gate: a disabled or expired secret is denied whatever its counters; any
  other is denied only for its quota, exactly when the bytes used in the current period
  reach the ceiling, and then an explicit reset, or for a monthly quota the next
  calendar month, lets it in again. The gate never changes connection or byte counts.\<close>

theorem checkLimits_gate:
  assumes "in_i64 (now - unix_epoch)" "now \<noteq> unix_epoch"
  shows "(fst (fst (checkLimits zone now name lim st)) \<longleftrightarrow> \<not> barred now lim \<and>
       \<not> (0 < QuotaBytes lim \<and> QuotaBytes lim \<le> fst (QuotaUsed zone now name (QuotaReset lim) st))) \<and>
    (\<not> barred now lim \<longrightarrow> fst (checkLimits zone now name lim (ResetQuota now name st)) = (True, DenyNone)) \<and>
    (\<not> barred now lim \<and> QuotaReset lim = QuotaResetMonthly \<and> gm_get (users st) name = Some u \<and>
       periodStart u \<noteq> 0 \<and> year_month zone (time_of_unix_nano (periodStart u)) \<noteq> year_month zone now \<longrightarrow>
       fst (checkLimits zone now name lim st) = (True, DenyNone)) \<and>
    counters_kept st (snd (checkLimits zone now name lim st))"
proof (intro conjI impI)
  have nano: "unix_nano now \<noteq> 0" "time_of_unix_nano (unix_nano now) = now"
    using assms by (simp_all add: unix_nano_def time_of_unix_nano_def)
  then show "fst (checkLimits zone now name lim (ResetQuota now name st)) = (True, DenyNone)" if "\<not> barred now lim"
    using that by (auto simp: checkLimits_def barred_def QuotaUsed_def Let_def quotaUsedValue_def ResetQuota_def
        gm_get0_def rolloverIfNeeded_def)
qed (auto simp: checkLimits_def barred_def QuotaUsed_def Let_def quotaUsedValue_def gm_get0_def
    rolloverIfNeeded_def checkLimits_stats [unfolded checkLimits_def] counters_kept_rollover [unfolded rolloverIfNeeded_def]
    split: prod.split)

theorem checkLimits_gate_witness:
  "fst (checkLimits (\<lambda>_. 0) (unix_epoch + 1) ''a'' (zero_limits\<lparr>QuotaBytes := 3\<rparr>)
     (ResetQuota (unix_epoch + 1) ''a'' (NewProxyStats 0))) = (True, DenyNone)"
  using checkLimits_gate [of "unix_epoch + 1" "\<lambda>_. 0" "''a''" "zero_limits\<lparr>QuotaBytes := 3\<rparr>" "NewProxyStats 0"]
  by (simp add: in_i64_def barred_def zero_limits_def)

end
