(* ===== verification/ProxyAPI.thy ===== *)
theory ProxyAPI
  imports Proxy
begin

text \<open>
  The management HTTP API, \<open>mtglib/proxy_api.go\<close>: the handlers, the routes and the
  bearer token. A request is its method, its decoded path segments, its
  \<open>Authorization\<close> header and its body; the JSON decoders are arguments (a decoder
  that rejects the body is \<open>None\<close>), a response is its status and its body before
  encoding. The lemmas show that a request that is not answered with 200 changes
  nothing, that every request keeps the proxy's invariant, and that the listing of
  \<open>GET /secrets\<close> restores the same secrets through \<open>PUT /secrets\<close>.
\<close>

subsection \<open>Data\<close>

record secretInfo =
  si_Name :: string
  si_Secret :: string
  si_Host :: string
  si_AdTag :: string
  si_EffectiveAdTag :: string
  si_Quota :: int
  si_QuotaUsed :: int
  si_QuotaRemaining :: "int option"
  si_QuotaReset :: string
  si_ExpiresAt :: "go_time option"
  si_Disabled :: bool

record secretEntry =
  se_Secret :: string
  se_AdTag :: string
  se_limits :: limit_fields

record putSecretsRequest =
  ps_Secrets :: "(string, secretEntry) gomap"
  ps_AdTag :: string

record postSecretRequest =
  po_Name :: string
  po_Secret :: string
  po_AdTag :: string
  po_limits :: limit_fields

record putAdTagRequest =
  pa_AdTag :: string

datatype reply =
    ReplyError
  | ReplyOK
  | ReplySecrets "secretInfo list"
  | ReplyStats statsResponse
  | ReplyAdTag "string option"

type_synonym response = "int \<times> reply"

record request =
  Method :: string
  Path :: "string list"
  Authorization :: string
  Body :: bytes

text \<open>What the handlers take from outside: the parsers of the limit fields, the JSON
  decoders, the zone, the clock and the configured file reloader.\<close>

record api_env =
  env_parsers :: parsers
  decodePutSecrets :: "bytes \<Rightarrow> putSecretsRequest option"
  decodePostSecret :: "bytes \<Rightarrow> postSecretRequest option"
  decodePutAdTag :: "bytes \<Rightarrow> putAdTagRequest option"
  env_zone :: zone
  env_now :: go_time
  env_reloader :: "(unit \<Rightarrow> secret_config option) option"

subsection \<open>Reading\<close>

definition fillLimitInfo :: "secret_limits \<Rightarrow> int \<Rightarrow> secretInfo \<Rightarrow> secretInfo" where
  "fillLimitInfo lim used info =
     (let info = (if QuotaBytes lim > 0
                  then let remaining = i64 (QuotaBytes lim - used);
                           remaining = (if remaining < 0 then 0 else remaining)
                       in info\<lparr>si_Quota := QuotaBytes lim, si_QuotaUsed := used,
                               si_QuotaRemaining := Some remaining\<rparr>
                  else info);
          info = (if QuotaReset lim \<noteq> QuotaResetNone
                  then info\<lparr>si_QuotaReset := quotaReset_String (QuotaReset lim)\<rparr> else info);
          info = (if ExpiresAt lim \<noteq> 0 then info\<lparr>si_ExpiresAt := Some (ExpiresAt lim)\<rparr> else info)
      in info\<lparr>si_Disabled := Disabled lim\<rparr>)"

definition secret_info :: "proxy \<Rightarrow> nat \<Rightarrow> secretInfo" where
  "secret_info p i =
     (let set = secrets p;
          name = ss_names set ! i;
          info = \<lparr>si_Name = name, si_Secret = secret_Base64 (ss_secrets set ! i),
                  si_Host = Host (ss_secrets set ! i), si_AdTag = [], si_EffectiveAdTag = [],
                  si_Quota = 0, si_QuotaUsed = 0, si_QuotaRemaining = None, si_QuotaReset = [],
                  si_ExpiresAt = None, si_Disabled = False\<rparr>;
          info = (case ss_adTags set ! i of None \<Rightarrow> info
                  | Some t \<Rightarrow> info\<lparr>si_AdTag := hexEncodeToString t\<rparr>);
          info = (case effectiveAdTag set i of None \<Rightarrow> info
                  | Some t \<Rightarrow> info\<lparr>si_EffectiveAdTag := hexEncodeToString t\<rparr>)
      in fillLimitInfo (ss_limits set ! i) (quotaUsedValue name (stats p)) info)"

definition SnapshotSecrets :: "proxy \<Rightarrow> secretInfo list" where
  "SnapshotSecrets p = map (secret_info p) [0..<length (ss_names (secrets p))]"

definition handleGetSecrets :: "proxy \<Rightarrow> response \<times> proxy" where
  "handleGetSecrets p = ((200, ReplySecrets (SnapshotSecrets p)), p)"

definition overlay_limits :: "secret_limits \<Rightarrow> userStatsJSON \<Rightarrow> userStatsJSON" where
  "overlay_limits lim user =
     (let user = (if QuotaBytes lim > 0
                  then let remaining = i64 (QuotaBytes lim - QuotaUsedJ user);
                           remaining = (if remaining < 0 then 0 else remaining)
                       in user\<lparr>QuotaJ := QuotaBytes lim, QuotaRemaining := Some remaining\<rparr>
                  else user);
          user = (if QuotaReset lim \<noteq> QuotaResetNone
                  then user\<lparr>QuotaResetJ := quotaReset_String (QuotaReset lim)\<rparr> else user);
          user = (if ExpiresAt lim \<noteq> 0 then user\<lparr>ExpiresAtJ := Some (ExpiresAt lim)\<rparr> else user)
      in user\<lparr>DisabledJ := Disabled lim\<rparr>)"

definition handleStats :: "go_time \<Rightarrow> proxy \<Rightarrow> response \<times> proxy" where
  "handleStats now p =
     (let resp = buildResponse now (stats p);
          overlay = (\<lambda>(name, lim) us.
            case gm_get us name of None \<Rightarrow> us | Some user \<Rightarrow> gm_put name (overlay_limits lim user) us);
          us = fold overlay (zip (ss_names (secrets p)) (ss_limits (secrets p))) (Users resp)
      in ((200, ReplyStats (resp\<lparr>Users := us\<rparr>)), p))"

definition handleGetAdTag :: "proxy \<Rightarrow> response \<times> proxy" where
  "handleGetAdTag p = ((200, ReplyAdTag (map_option hexEncodeToString (get_GlobalAdTag p))), p)"

subsection \<open>Writing\<close>

definition secretMutationStatus :: "proxy_error \<Rightarrow> int" where
  "secretMutationStatus err =
     (case err of ErrSecretNotFound \<Rightarrow> 404 | ErrLastSecret \<Rightarrow> 409 | _ \<Rightarrow> 400)"

text \<open>The answer to a mutator's result.\<close>

definition mutation_response :: "proxy_error option \<times> proxy \<Rightarrow> response \<times> proxy" where
  "mutation_response r =
     (case r of (None, p) \<Rightarrow> ((200, ReplyOK), p)
      | (Some e, p) \<Rightarrow> ((secretMutationStatus e, ReplyError), p))"

definition bad_request :: "proxy \<Rightarrow> response \<times> proxy" where
  "bad_request p = ((400, ReplyError), p)"

definition parseAdTagHex :: "string \<Rightarrow> unit + ad_tag option" where
  "parseAdTagHex s =
     (if s = [] then Inr None
      else case hexDecodeString s of
             None \<Rightarrow> Inl ()
           | Some decoded \<Rightarrow>
               if length decoded \<noteq> AdTagLength then Inl () else Inr (Some decoded))"

definition handleResetQuota :: "api_env \<Rightarrow> string \<Rightarrow> proxy \<Rightarrow> response \<times> proxy" where
  "handleResetQuota env name p =
     (if \<not> hasSecret name p then ((404, ReplyError), p)
      else ((200, ReplyOK), p\<lparr>stats := ResetQuota (env_now env) name (stats p)\<rparr>))"

text \<open>The loop of \<open>handlePutSecrets\<close> over the entries, in the map's iteration order; \<open>None\<close>
  is a malformed entry.\<close>

fun collect_entries :: "parsers \<Rightarrow> (string, secretEntry) gomap \<Rightarrow> secret_config \<Rightarrow> secret_config option" where
  "collect_entries ps [] cfg = Some cfg"
| "collect_entries ps ((name, entry) # rest) cfg =
     (case ParseSecret (se_Secret entry) of
        (_, Some e) \<Rightarrow> None
      | (secret, None) \<Rightarrow>
          let cfg = cfg\<lparr>Secrets := gm_put name secret (Secrets cfg)\<rparr>
          in case parseAdTagHex (se_AdTag entry) of
               Inl _ \<Rightarrow> None
             | Inr tag \<Rightarrow>
                 let cfg = (case tag of None \<Rightarrow> cfg
                            | Some t \<Rightarrow> cfg\<lparr>SecretAdTags := gm_put name t (SecretAdTags cfg)\<rparr>)
                 in case limitFields_parse ps (se_limits entry) of
                      Inl _ \<Rightarrow> None
                    | Inr limits \<Rightarrow>
                        collect_entries ps rest
                          (if \<not> limits_IsZero limits
                           then cfg\<lparr>CfgLimits := gm_put name limits (CfgLimits cfg)\<rparr> else cfg))"

definition handlePutSecrets :: "api_env \<Rightarrow> bytes \<Rightarrow> proxy \<Rightarrow> response \<times> proxy" where
  "handlePutSecrets env body p =
     (case decodePutSecrets env body of
        None \<Rightarrow> bad_request p
      | Some req \<Rightarrow>
          (case collect_entries (env_parsers env) (ps_Secrets req)
                  \<lparr>Secrets = [], SecretAdTags = [], GlobalAdTag = None, CfgLimits = []\<rparr> of
             None \<Rightarrow> bad_request p
           | Some cfg \<Rightarrow>
               (case parseAdTagHex (ps_AdTag req) of
                  Inl _ \<Rightarrow> bad_request p
                | Inr global \<Rightarrow>
                    mutation_response
                      (ReplaceSecrets (env_zone env) (env_now env) (cfg\<lparr>GlobalAdTag := global\<rparr>) p))))"

definition handlePostSecret :: "api_env \<Rightarrow> bytes \<Rightarrow> proxy \<Rightarrow> response \<times> proxy" where
  "handlePostSecret env body p =
     (case decodePostSecret env body of
        None \<Rightarrow> bad_request p
      | Some req \<Rightarrow>
          (case ParseSecret (po_Secret req) of
             (_, Some e) \<Rightarrow> bad_request p
           | (secret, None) \<Rightarrow>
               (case parseAdTagHex (po_AdTag req) of
                  Inl _ \<Rightarrow> bad_request p
                | Inr tag \<Rightarrow>
                    (case limitFields_parse (env_parsers env) (po_limits req) of
                       Inl _ \<Rightarrow> bad_request p
                     | Inr limits \<Rightarrow>
                         mutation_response
                           (PutSecret (env_zone env) (env_now env) (po_Name req) secret tag (Some limits) p)))))"

definition handleDeleteSecret :: "api_env \<Rightarrow> string \<Rightarrow> proxy \<Rightarrow> response \<times> proxy" where
  "handleDeleteSecret env name p = mutation_response (DeleteSecret (env_zone env) (env_now env) name p)"

definition handlePutAdTag :: "api_env \<Rightarrow> bytes \<Rightarrow> proxy \<Rightarrow> response \<times> proxy" where
  "handlePutAdTag env body p =
     (case decodePutAdTag env body of
        None \<Rightarrow> bad_request p
      | Some req \<Rightarrow>
          (case parseAdTagHex (pa_AdTag req) of
             Inl _ \<Rightarrow> bad_request p
           | Inr None \<Rightarrow> bad_request p
           | Inr (Some tag) \<Rightarrow>
               mutation_response (SetGlobalAdTag (env_zone env) (env_now env) (Some tag) p)))"

definition handleDeleteAdTag :: "api_env \<Rightarrow> proxy \<Rightarrow> response \<times> proxy" where
  "handleDeleteAdTag env p = mutation_response (SetGlobalAdTag (env_zone env) (env_now env) None p)"

text \<open>\<open>POST /reload\<close> runs \<open>ReloadSecrets\<close> when the proxy has a reloader.\<close>

definition handleReload :: "api_env \<Rightarrow> string \<Rightarrow> proxy \<Rightarrow> response \<times> proxy" where
  "handleReload env meth p =
     (let reload = (case env_reloader env of None \<Rightarrow> None
            | Some f \<Rightarrow> Some (\<lambda>p. case ReloadSecrets (env_zone env) (env_now env) (Some f) p of
                                 (e, p) \<Rightarrow> (e = None, p)));
          (code, p) = reloadHandler reload meth p
      in ((code, if code = 200 then ReplyOK else ReplyError), p))"

subsection \<open>Routes\<close>

text \<open>The patterns of \<open>buildAPIHandler\<close> under \<open>http.ServeMux\<close>: a \<open>GET\<close> pattern also serves
  \<open>HEAD\<close>, a wildcard matches one non-empty segment, a known path with another method
  is 405 and any other path 404. Path cleaning redirects are not modelled.\<close>

definition is_GET :: "string \<Rightarrow> bool" where
  "is_GET m \<longleftrightarrow> m = ''GET'' \<or> m = ''HEAD''"

definition apiMux :: "api_env \<Rightarrow> request \<Rightarrow> proxy \<Rightarrow> response \<times> proxy" where
  "apiMux env r p =
     (let m = Method r; notAllowed = ((405, ReplyError), p); notFound = ((404, ReplyError), p)
      in case Path r of
           [x] \<Rightarrow>
             (if x = ''stats'' then (if is_GET m then handleStats (env_now env) p else notAllowed)
              else if x = ''reload'' then handleReload env m p
              else if x = ''secrets'' then
                (if is_GET m then handleGetSecrets p
                 else if m = ''PUT'' then handlePutSecrets env (Body r) p
                 else if m = ''POST'' then handlePostSecret env (Body r) p else notAllowed)
              else if x = ''adtag'' then
                (if is_GET m then handleGetAdTag p
                 else if m = ''PUT'' then handlePutAdTag env (Body r) p
                 else if m = ''DELETE'' then handleDeleteAdTag env p else notAllowed)
              else notFound)
         | [x, name] \<Rightarrow>
             (if x = ''secrets'' \<and> name \<noteq> []
              then (if m = ''DELETE'' then handleDeleteSecret env name p else notAllowed) else notFound)
         | [x, name, y] \<Rightarrow>
             (if x = ''secrets'' \<and> name \<noteq> [] \<and> y = ''reset-quota''
              then (if m = ''POST'' then handleResetQuota env name p else notAllowed) else notFound)
         | _ \<Rightarrow> notFound)"

definition withAuth ::
    "string \<Rightarrow> (request \<Rightarrow> proxy \<Rightarrow> response \<times> proxy) \<Rightarrow> request \<Rightarrow> proxy \<Rightarrow> response \<times> proxy" where
  "withAuth token handler r p =
     (if token = [] then handler r p
      else if Authorization r \<noteq> ''Bearer '' @ token then ((401, ReplyError), p)
      else handler r p)"

definition buildAPIHandler :: "string \<Rightarrow> api_env \<Rightarrow> request \<Rightarrow> proxy \<Rightarrow> response \<times> proxy" where
  "buildAPIHandler token env = withAuth token (apiMux env)"

text \<open>What the outside must respect: decoded and reloaded maps are Go maps, one entry per
  key.\<close>

definition env_ok :: "api_env \<Rightarrow> bool" where
  "env_ok env \<longleftrightarrow> (\<forall>b req. decodePutSecrets env b = Some req \<longrightarrow> gm_ok (ps_Secrets req)) \<and>
     (\<forall>f cfg. env_reloader env = Some f \<longrightarrow> f () = Some cfg \<longrightarrow> cfg_ok cfg)"

text \<open>What a handler may do: a failure changes nothing and the invariant is kept.\<close>

definition safe_response :: "proxy \<Rightarrow> response \<times> proxy \<Rightarrow> bool" where
  "safe_response p r \<longleftrightarrow> proxy_ok (snd r) \<and> (fst (fst r) \<noteq> 200 \<longrightarrow> snd r = p)"

text \<open>The entry \<open>PUT /secrets\<close> takes for a listed secret, without limits.\<close>

definition no_limits :: limit_fields where
  "no_limits = \<lparr>lf_Quota = [], lf_QuotaReset = [], lf_Expires = [], lf_Disabled = False\<rparr>"

definition entry_of_info :: "secretInfo \<Rightarrow> string \<times> secretEntry" where
  "entry_of_info info = (si_Name info, \<lparr>se_Secret = si_Secret info, se_AdTag = si_AdTag info, se_limits = no_limits\<rparr>)"

text \<open>Everything the array types of Go fix about the secrets and ad tags of a snapshot.\<close>

definition arrays_ok :: "secret_set \<Rightarrow> bool" where
  "arrays_ok s \<longleftrightarrow> (\<forall>x \<in> set (ss_secrets s). wf_secret x) \<and>
     (\<forall>t \<in> set (ss_globalAdTag s # ss_adTags s). \<forall>b. t = Some b \<longrightarrow> length b = AdTagLength)"

definition adTag_text :: "ad_tag option \<Rightarrow> string" where
  "adTag_text t = (case t of None \<Rightarrow> [] | Some b \<Rightarrow> hexEncodeToString b)"

definition listed_entry :: "string \<times> secret \<times> ad_tag option \<Rightarrow> string \<times> secretEntry" where
  "listed_entry x = (case x of (n, s, t) \<Rightarrow>
     (n, \<lparr>se_Secret = secret_Base64 s, se_AdTag = adTag_text t, se_limits = no_limits\<rparr>))"

definition restore_request :: "proxy \<Rightarrow> putSecretsRequest" where
  "restore_request p = \<lparr>ps_Secrets = map entry_of_info (SnapshotSecrets p),
     ps_AdTag = (case snd (fst (handleGetAdTag p)) of ReplyAdTag (Some t) \<Rightarrow> t | _ \<Rightarrow> [])\<rparr>"

definition sample_env :: api_env where
  "sample_env = \<lparr>env_parsers = \<lparr>uniUpper = id, uniLower = id, parseBase2Bytes = (\<lambda>_. None), timeParse = (\<lambda>_ _. None)\<rparr>,
     decodePutSecrets = (\<lambda>b. if b = [1] then Some (restore_request sample_proxy) else None),
     decodePostSecret = (\<lambda>_. None), decodePutAdTag = (\<lambda>_. None),
     env_zone = (\<lambda>_. 0), env_now = 5, env_reloader = None\<rparr>"

subsection \<open>The contract of a mutator\<close>

locale mutator =
  fixes mutate :: "proxy \<Rightarrow> proxy_error option \<times> proxy"
  assumes mutate_error: "proxy_ok p \<Longrightarrow> mutate p = (Some e, p') \<Longrightarrow> p' = p"
    and mutate_ok: "proxy_ok p \<Longrightarrow> mutate p = (None, p') \<Longrightarrow> proxy_ok p'"
begin

lemma response_safe:
  assumes "proxy_ok p"
  shows "safe_response p (mutation_response (mutate p))"
proof (cases "mutate p")
  case (Pair r p')
  show ?thesis
  proof (cases r)
    case None
    then show ?thesis using Pair mutate_ok [OF assms, of p']
      by (simp add: safe_response_def mutation_response_def)
  next
    case (Some e)
    then have "p' = p" using Pair mutate_error [OF assms, of e p'] by simp
    then show ?thesis using Pair Some assms by (simp add: safe_response_def mutation_response_def)
  qed
qed

end

lemma swap_mutator:
  assumes "cfg_ok cfg"
  shows "mutator (swapSecretConfigLocked zone now cfg)"
proof
  fix p e p' assume ok: "proxy_ok p"
  note run = swap_valid [OF _ assms ok, of zone now]
  show "p' = p" if "swapSecretConfigLocked zone now cfg p = (Some e, p')"
  proof (cases "cfg_valid cfg")
    case True
    then show ?thesis by (rule run) (use that in simp)
  qed (use that in \<open>simp add: swap_invalid\<close>)
  show "proxy_ok p'" if "swapSecretConfigLocked zone now cfg p = (None, p')"
  proof (cases "cfg_valid cfg")
    case True
    then show ?thesis by (rule run) (use that in simp)
  qed (use that in \<open>simp add: swap_invalid\<close>)
qed

interpretation put: mutator "PutSecret zone now name s adTag limits" for zone now name s adTag limits
proof
  fix p e p' assume ok: "proxy_ok p"
  consider "name = [] \<or> \<not> secret_Valid s" | q where "PutSecret zone now name s adTag limits p = (None, q)" "proxy_ok q"
    using PutSecret_run [OF ok] by metis
  note cases = this
  show "p' = p" if "PutSecret zone now name s adTag limits p = (Some e, p')"
    using that by (cases rule: cases) (auto simp: PutSecret_def split: if_splits)
  show "proxy_ok p'" if "PutSecret zone now name s adTag limits p = (None, p')"
    using that by (cases rule: cases) (auto simp: PutSecret_def split: if_splits)
qed

lemma DeleteSecret_cases:
  assumes "proxy_ok p"
  obtains e where "DeleteSecret zone now name p = (Some e, p)"
  | q where "DeleteSecret zone now name p = (None, q)" "proxy_ok q"
proof -
  have wf: "wf_secret_set (secrets p)" using assms by (simp add: proxy_ok_def)
  have len: "length (Secrets (toConfig (secrets p))) = length (ss_names (secrets p))"
    using toConfig_sort_keys [OF wf] by (metis length_map length_sort)
  show ?thesis
  proof (cases "secret_named (secrets p) name = None \<or> length (ss_names (secrets p)) = 1")
    case True
    then show ?thesis using that(1)
      by (cases "secret_named (secrets p) name") (auto simp: DeleteSecret_def Let_def toConfig_named [OF wf] len)
  next
    case False
    then show ?thesis using DeleteSecret_run [OF assms] that(2) by metis
  qed
qed

interpretation del: mutator "DeleteSecret zone now name" for zone now name
proof
  fix p e p' assume ok: "proxy_ok p"
  show "p' = p" if "DeleteSecret zone now name p = (Some e, p')"
    using that by (cases rule: DeleteSecret_cases [OF ok, of zone now name]) simp_all
  show "proxy_ok p'" if "DeleteSecret zone now name p = (None, p')"
    using that by (cases rule: DeleteSecret_cases [OF ok, of zone now name]) simp_all
qed

interpretation adtag: mutator "SetGlobalAdTag zone now tag" for zone now tag
proof
  fix p e p' assume ok: "proxy_ok p"
  obtain q where q: "SetGlobalAdTag zone now tag p = (None, q)" "proxy_ok q"
    using SetGlobalAdTag_run [OF ok] by metis
  show "p' = p" if "SetGlobalAdTag zone now tag p = (Some e, p')" using that q by simp
  show "proxy_ok p'" if "SetGlobalAdTag zone now tag p = (None, p')" using that q by simp
qed

subsection \<open>Handlers\<close>

lemma cfg_ok_collect_entries:
  "collect_entries ps es cfg = Some cfg' \<Longrightarrow> cfg_ok cfg \<Longrightarrow> cfg_ok cfg'"
proof (induction ps es cfg rule: collect_entries.induct)
  case (2 ps name entry rest cfg)
  then show ?case
    by (auto simp: Let_def cfg_ok_def split: prod.splits option.splits sum.splits if_splits)
qed simp

lemma safe_bad_request [simp]: "proxy_ok p \<Longrightarrow> safe_response p (bad_request p)"
  by (simp add: safe_response_def bad_request_def)

lemma safe_unchanged [simp]: "proxy_ok p \<Longrightarrow> safe_response p (r, p)"
  by (simp add: safe_response_def)

lemma safe_handlePutSecrets:
  assumes "proxy_ok p"
  shows "safe_response p (handlePutSecrets env body p)"
proof -
  have "safe_response p (mutation_response (ReplaceSecrets z n (cfg\<lparr>GlobalAdTag := g\<rparr>) p))"
    if "collect_entries ps es \<lparr>Secrets = [], SecretAdTags = [], GlobalAdTag = None, CfgLimits = []\<rparr> = Some cfg"
    for ps es cfg g z n
    using cfg_ok_collect_entries [OF that] mutator.response_safe [OF swap_mutator assms, of "cfg\<lparr>GlobalAdTag := g\<rparr>" z n]
    by (simp add: ReplaceSecrets_def cfg_ok_def)
  then show ?thesis
    using assms by (simp add: handlePutSecrets_def split: option.split sum.split)
qed

lemma safe_handlePostSecret: "proxy_ok p \<Longrightarrow> safe_response p (handlePostSecret env body p)"
  by (simp add: handlePostSecret_def put.response_safe split: option.split sum.split prod.split)

lemma safe_handlePutAdTag: "proxy_ok p \<Longrightarrow> safe_response p (handlePutAdTag env body p)"
  by (simp add: handlePutAdTag_def adtag.response_safe split: option.split sum.split)

lemma safe_handleReload:
  assumes "proxy_ok p" "env_ok env"
  shows "safe_response p (handleReload env meth p)"
proof (cases "env_reloader env")
  case (Some f)
  show ?thesis
  proof (cases "f ()")
    case None
    then show ?thesis using assms(1) Some
      by (simp add: handleReload_def reloadHandler_def ReloadSecrets_def)
  next
    case (Some cfg)
    with \<open>env_reloader env = Some f\<close> assms(2) have "cfg_ok cfg" by (auto simp: env_ok_def)
    note safe = swap_mutator [OF this, of "env_zone env" "env_now env"]
    show ?thesis
      using assms(1) Some \<open>env_reloader env = Some f\<close> mutator.mutate_error [OF safe assms(1)]
        mutator.mutate_ok [OF safe assms(1)]
      by (auto simp: handleReload_def reloadHandler_def ReloadSecrets_def safe_response_def split: prod.splits)
  qed
qed (use assms(1) in \<open>simp add: handleReload_def reloadHandler_def\<close>)

lemma safe_handleResetQuota:
  assumes "proxy_ok p"
  shows "safe_response p (handleResetQuota env name p)"
proof -
  have "dom (gm_get (users (stats p))) \<subseteq> dom (gm_get (users (ResetQuota now name (stats p))))" for now
    by (auto simp: ResetQuota_def)
  then show ?thesis
    using assms by (auto simp: handleResetQuota_def safe_response_def proxy_ok_def ResetQuota_def)
qed

lemmas handlers_safe =
  safe_handlePutSecrets safe_handlePostSecret safe_handlePutAdTag safe_handleReload safe_handleResetQuota

lemma safe_apiMux: "proxy_ok p \<Longrightarrow> env_ok env \<Longrightarrow> safe_response p (apiMux env r p)"
  by (simp add: apiMux_def handlers_safe handleStats_def handleGetSecrets_def handleGetAdTag_def handleDeleteAdTag_def
      handleDeleteSecret_def del.response_safe adtag.response_safe Let_def split: list.split)

subsection \<open>Listing and restoring\<close>

lemma strip_one_Nil [simp]: "strip_one ss [] = None"
  by (induction ss) auto

lemma trimSpace_Nil [simp]: "trimSpace [] = []"
  by (simp add: trimSpace_def trim_front.simps)

lemma limitFields_parse_none [simp]: "limitFields_parse ps no_limits = Inr zero_limits"
  by (simp add: limitFields_parse_def no_limits_def ParseQuotaBytes_def ParseQuotaReset_def ParseExpiry_def
      toLower_def isASCII_def zero_limits_def)

lemma parseAdTagHex_text:
  "(\<And>b. t = Some b \<Longrightarrow> length b = AdTagLength) \<Longrightarrow> parseAdTagHex (adTag_text t) = Inr t"
proof (cases t)
  case (Some b)
  assume "\<And>b. t = Some b \<Longrightarrow> length b = AdTagLength"
  with Some have "length b = AdTagLength" by simp
  moreover from this have "hexEncodeToString b \<noteq> []" by (cases b) (auto simp: AdTagLength_def)
  ultimately show ?thesis using Some by (simp add: parseAdTagHex_def adTag_text_def hex.dec_enc)
qed (simp add: parseAdTagHex_def adTag_text_def)

lemma ParseSecret_Base64: "wf_secret s \<Longrightarrow> Host s \<noteq> [] \<Longrightarrow> ParseSecret (secret_Base64 s) = (s, None)"
  using secret_Set_bytes [of s "secret_Base64 s" empty_secret] secret_decode_Base64 [of s]
  by (simp add: ParseSecret_Set)

lemma collect_listed:
  assumes "distinct (map fst es)"
    and "\<And>n s t. (n, s, t) \<in> set es \<Longrightarrow> wf_secret s \<and> Host s \<noteq> [] \<and> (\<forall>b. t = Some b \<longrightarrow> length b = AdTagLength)"
  shows "\<exists>cfg'. collect_entries ps (map listed_entry es) cfg = Some cfg' \<and>
    gm_get (Secrets cfg') = gm_get (Secrets cfg) ++ map_of (map (\<lambda>(n, s, t). (n, s)) es) \<and>
    gm_get (SecretAdTags cfg') = (\<lambda>k. case map_of (map (\<lambda>(n, s, t). (n, t)) es) k of
      Some (Some t) \<Rightarrow> Some t | _ \<Rightarrow> gm_get (SecretAdTags cfg) k)"
  using assms
proof (induction es arbitrary: cfg)
  case (Cons e es)
  obtain n s t where e: "e = (n, s, t)" by (cases e)
  define cfg1 where "cfg1 = (let c = cfg\<lparr>Secrets := gm_put n s (Secrets cfg)\<rparr>
      in case t of None \<Rightarrow> c | Some t \<Rightarrow> c\<lparr>SecretAdTags := gm_put n t (SecretAdTags c)\<rparr>)"
  have s: "wf_secret s" "Host s \<noteq> []" and t: "\<And>b. t = Some b \<Longrightarrow> length b = AdTagLength"
    using Cons.prems(2) [of n s t] e by auto
  have step: "collect_entries ps (map listed_entry (e # es)) cfg = collect_entries ps (map listed_entry es) cfg1"
    by (simp add: e listed_entry_def ParseSecret_Base64 [OF s] parseAdTagHex_text [OF t] cfg1_def Let_def)
  have cfg1: "gm_get (Secrets cfg1) = (gm_get (Secrets cfg))(n \<mapsto> s)"
      "gm_get (SecretAdTags cfg1) = (case t of None \<Rightarrow> gm_get (SecretAdTags cfg) | Some b \<Rightarrow> (gm_get (SecretAdTags cfg))(n \<mapsto> b))"
    by (simp_all add: cfg1_def Let_def split: option.split)
  have fresh: "n \<notin> fst ` set es" using Cons.prems(1) e by simp
  then have none: "map_of (map (\<lambda>(n, s, t). (n, s)) es) n = None" "map_of (map (\<lambda>(n, s, t). (n, t)) es) n = None"
    by (force simp: map_of_eq_None_iff)+
  have IH: "\<exists>cfg'. collect_entries ps (map listed_entry es) cfg1 = Some cfg' \<and>
      gm_get (Secrets cfg') = gm_get (Secrets cfg1) ++ map_of (map (\<lambda>(n, s, t). (n, s)) es) \<and>
      gm_get (SecretAdTags cfg') = (\<lambda>k. case map_of (map (\<lambda>(n, s, t). (n, t)) es) k of
        Some (Some t) \<Rightarrow> Some t | _ \<Rightarrow> gm_get (SecretAdTags cfg1) k)"
  proof (rule Cons.IH)
    show "distinct (map fst es)" using Cons.prems(1) by simp
    show "wf_secret s \<and> Host s \<noteq> [] \<and> (\<forall>b. t = Some b \<longrightarrow> length b = AdTagLength)" if "(n, s, t) \<in> set es" for n s t
      using Cons.prems(2) [of n s t] that by simp
  qed
  then obtain cfg' where cfg': "collect_entries ps (map listed_entry es) cfg1 = Some cfg'"
      "gm_get (Secrets cfg') = gm_get (Secrets cfg1) ++ map_of (map (\<lambda>(n, s, t). (n, s)) es)"
      "gm_get (SecretAdTags cfg') = (\<lambda>k. case map_of (map (\<lambda>(n, s, t). (n, t)) es) k of
         Some (Some t) \<Rightarrow> Some t | _ \<Rightarrow> gm_get (SecretAdTags cfg1) k)"
    by blast
  show ?case
  proof (intro exI [of _ cfg'] conjI)
    show "collect_entries ps (map listed_entry (e # es)) cfg = Some cfg'" by (simp only: step cfg'(1))
  qed (auto simp: cfg' cfg1 e none fun_eq_iff map_add_def split: option.split)
qed auto

lemma info_entries:
  assumes "wf_secret_set (secrets p)"
  shows "map entry_of_info (SnapshotSecrets p) =
    map listed_entry (zip (ss_names (secrets p)) (zip (ss_secrets (secrets p)) (ss_adTags (secrets p))))"
proof (rule nth_equalityI)
  show "length (map entry_of_info (SnapshotSecrets p)) =
      length (map listed_entry (zip (ss_names (secrets p)) (zip (ss_secrets (secrets p)) (ss_adTags (secrets p)))))"
    using assms by (simp add: SnapshotSecrets_def wf_secret_set_def)
  fix i assume "i < length (map entry_of_info (SnapshotSecrets p))"
  then show "map entry_of_info (SnapshotSecrets p) ! i =
      map listed_entry (zip (ss_names (secrets p)) (zip (ss_secrets (secrets p)) (ss_adTags (secrets p)))) ! i"
    using assms by (simp add: SnapshotSecrets_def wf_secret_set_def entry_of_info_def secret_info_def fillLimitInfo_def
        listed_entry_def adTag_text_def Let_def split: option.split)
qed

lemma collect_snapshot:
  assumes "proxy_ok p" "arrays_ok (secrets p)"
  shows "\<exists>cfg. collect_entries ps (map entry_of_info (SnapshotSecrets p))
      \<lparr>Secrets = [], SecretAdTags = [], GlobalAdTag = None, CfgLimits = []\<rparr> = Some cfg \<and>
    gm_get (Secrets cfg) = secret_named (secrets p) \<and> gm_get (SecretAdTags cfg) = adTag_named (secrets p)"
proof -
  let ?s = "secrets p"
  let ?es = "zip (ss_names ?s) (zip (ss_secrets ?s) (ss_adTags ?s))"
  let ?init = "\<lparr>Secrets = [], SecretAdTags = [], GlobalAdTag = None, CfgLimits = []\<rparr>"
  have wf: "wf_secret_set ?s" using assms(1) by (simp add: proxy_ok_def)
  then have len: "length (ss_secrets ?s) = length (ss_names ?s)" "length (ss_adTags ?s) = length (ss_names ?s)"
    by (simp_all add: wf_secret_set_def)
  have "map (\<lambda>(n, s, t). (n, s)) ?es = zip (ss_names ?s) (ss_secrets ?s)"
      "map (\<lambda>(n, s, t). (n, t)) ?es = zip (ss_names ?s) (ss_adTags ?s)"
    using len by (auto intro!: nth_equalityI)
  then have maps: "map_of (map (\<lambda>(n, s, t). (n, s)) ?es) = secret_named ?s"
      "(\<lambda>k. case map_of (map (\<lambda>(n, s, t). (n, t)) ?es) k of
         Some (Some t) \<Rightarrow> Some t | _ \<Rightarrow> gm_get (SecretAdTags ?init) k) = adTag_named ?s"
    by (auto simp: secret_named_def adTag_named_def fun_eq_iff split: option.split)
  have "wf_secret s \<and> Host s \<noteq> [] \<and> (\<forall>b. t = Some b \<longrightarrow> length b = AdTagLength)" if "(n, s, t) \<in> set ?es" for n s t
  proof -
    have "s \<in> set (ss_secrets ?s)" "t \<in> set (ss_adTags ?s)"
      using that by (auto dest: set_zip_leftD set_zip_rightD)
    then show ?thesis using assms by (auto simp: arrays_ok_def proxy_ok_def secret_Valid_def)
  qed
  moreover have "distinct (map fst ?es)" using wf len by (simp add: wf_secret_set_def)
  ultimately show ?thesis
    using collect_listed [of ?es ps "\<lparr>Secrets = [], SecretAdTags = [], GlobalAdTag = None, CfgLimits = []\<rparr>"]
    by (auto simp: info_entries [OF wf] maps)
qed

lemma mutation_response_code: "fst (fst (mutation_response r)) \<in> {200, 400, 404, 409}"
  by (auto simp: mutation_response_def secretMutationStatus_def split: prod.split option.split proxy_error.split)

lemma mutation_response_401 [simp]: "fst (fst (mutation_response r)) \<noteq> 401"
  using mutation_response_code [of r] by auto

lemma apiMux_401: "fst (fst (apiMux env r p)) \<noteq> 401"
  by (simp add: apiMux_def Let_def handleStats_def handleReload_def reloadHandler_def handleGetSecrets_def
      handlePutSecrets_def handlePostSecret_def handleGetAdTag_def handlePutAdTag_def handleDeleteAdTag_def
      handleDeleteSecret_def handleResetQuota_def bad_request_def case_prod_beta split: list.split option.split sum.split)

subsection \<open>Properties\<close>

text \<open>C6. No management request can corrupt the proxy: whatever the method, path and body, the
  invariant holds afterwards, and a request answered with anything but 200 leaves the
  secrets, the counters, the registry and the open streams exactly as they were.\<close>

theorem API_request_safe:
  assumes "proxy_ok p" "env_ok env"
  shows "case buildAPIHandler token env r p of ((code, body), p') \<Rightarrow> proxy_ok p' \<and> (code \<noteq> 200 \<longrightarrow> p' = p)"
  using safe_apiMux [OF assms, of r] assms(1)
  by (auto simp: buildAPIHandler_def withAuth_def safe_response_def split: prod.splits)

theorem API_request_safe_witness:
  "case buildAPIHandler [] sample_env
     \<lparr>Method = ''DELETE'', Path = [''secrets'', ''zz''], Authorization = [], Body = []\<rparr> sample_proxy of
     ((code, body), p') \<Rightarrow> proxy_ok p' \<and> (code \<noteq> 200 \<longrightarrow> p' = sample_proxy)"
proof -
  have "gm_ok (ps_Secrets (restore_request sample_proxy))"
    by (simp add: restore_request_def entry_of_info_def SnapshotSecrets_def sample_proxy_def secret_info_def
        fillLimitInfo_def upt_rec Let_def split: option.split)
  then have "env_ok sample_env" by (simp add: env_ok_def sample_env_def)
  from API_request_safe [OF sample_proxy_ok this] show ?thesis .
qed

text \<open>C28. The bearer token guards every route: with a token configured, a request is answered
  401 exactly when its \<open>Authorization\<close> header is not the expected one, and such a request
  has no effect.\<close>

theorem API_auth:
  "(fst (fst (buildAPIHandler token env r p)) = 401 \<longleftrightarrow> token \<noteq> [] \<and> Authorization r \<noteq> ''Bearer '' @ token) \<and>
   (token \<noteq> [] \<and> Authorization r \<noteq> ''Bearer '' @ token \<longrightarrow> snd (buildAPIHandler token env r p) = p)"
  using apiMux_401 [of env r p] by (auto simp: buildAPIHandler_def withAuth_def)

theorem API_auth_witness:
  "snd (buildAPIHandler ''t'' sample_env
     \<lparr>Method = ''DELETE'', Path = [''adtag''], Authorization = ''Bearer x'', Body = []\<rparr> sample_proxy) = sample_proxy"
  using API_auth [of "''t''" sample_env
      "\<lparr>Method = ''DELETE'', Path = [''adtag''], Authorization = ''Bearer x'', Body = []\<rparr>" sample_proxy] by simp

text \<open>Listing and restoring: the secrets and ad tags that \<open>GET /secrets\<close> and \<open>GET /adtag\<close>
  list for one proxy, sent to any proxy through \<open>PUT /secrets\<close>, are accepted and give it
  the same secrets, the same per-secret ad tags and the same global tag.\<close>

lemma listing_restores:
  assumes "proxy_ok p" "arrays_ok (secrets p)" "proxy_ok q"
    and "decodePutSecrets env body = Some (restore_request p)"
  shows "\<exists>q'. handlePutSecrets env body q = ((200, ReplyOK), q') \<and>
    secret_named (secrets q') = secret_named (secrets p) \<and>
    adTag_named (secrets q') = adTag_named (secrets p) \<and> get_GlobalAdTag q' = get_GlobalAdTag p"
proof -
  obtain cfg where cfg: "collect_entries (env_parsers env) (map entry_of_info (SnapshotSecrets p))
        \<lparr>Secrets = [], SecretAdTags = [], GlobalAdTag = None, CfgLimits = []\<rparr> = Some cfg"
      "gm_get (Secrets cfg) = secret_named (secrets p)" "gm_get (SecretAdTags cfg) = adTag_named (secrets p)"
    using collect_snapshot [OF assms(1,2)] by blast
  define cfg' where "cfg' = cfg\<lparr>GlobalAdTag := get_GlobalAdTag p\<rparr>"
  have wf: "wf_secret_set (secrets p)" using assms(1) by (simp add: proxy_ok_def)
  have ok: "cfg_ok cfg'" using cfg_ok_collect_entries [OF cfg(1)] by (simp add: cfg_ok_def cfg'_def)
  have same: "gm_get (Secrets cfg') = gm_get (Secrets (toConfig (secrets p)))"
    by (simp add: cfg'_def cfg toConfig_named [OF wf])
  have "set (Secrets cfg') = set (Secrets (toConfig (secrets p)))"
    using ok cfg_ok_toConfig [OF wf] same by (metis cfg_ok_def map_of_inject_set)
  then have "cfg_valid cfg'" using toConfig_valid [OF assms(1)] by (auto simp: cfg_valid_def)
  from swap_valid [OF this ok assms(3), of "env_zone env" "env_now env"] obtain q'
    where run: "swapSecretConfigLocked (env_zone env) (env_now env) cfg' q = (None, q')" "swapped (env_now env) cfg' q q'" .
  then have q': "swapSecretConfigLocked (env_zone env) (env_now env) cfg' q = (None, q')" "secrets q' = build cfg'"
    by (simp_all add: swapped_def)
  have "length t = AdTagLength" if "ss_globalAdTag (secrets p) = Some t" for t
    using assms(2) that by (simp add: arrays_ok_def)
  then have "parseAdTagHex (ps_AdTag (restore_request p)) = Inr (get_GlobalAdTag p)"
    using parseAdTagHex_text [of "ss_globalAdTag (secrets p)"]
    by (simp add: restore_request_def handleGetAdTag_def get_GlobalAdTag_def adTag_text_def split: option.splits)
  moreover have "ps_Secrets (restore_request p) = map entry_of_info (SnapshotSecrets p)"
    by (simp add: restore_request_def)
  ultimately have "handlePutSecrets env body q = ((200, ReplyOK), q')"
    using cfg(1) q'(1) assms(4)
    by (simp add: handlePutSecrets_def ReplaceSecrets_def cfg'_def mutation_response_def)
  moreover have "secret_named (secrets q') = secret_named (secrets p)" "adTag_named (secrets q') = adTag_named (secrets p)"
    using toConfig_limits_adTag(2) [OF wf] by (auto simp: q'(2) cfg'_def cfg named_build fun_eq_iff)
  ultimately show ?thesis by (simp add: get_GlobalAdTag_def q'(2) cfg'_def)
qed

end
