(* ===== verification/PendingHandshakes.thy ===== *)
theory PendingHandshakes
  imports Prelude
begin

text \<open>
  The per-address limit on unauthenticated handshakes, \<open>mtglib/pending_handshakes.go\<close>.
  A release function is the number of the slot it belongs to; \<open>sync.Once\<close> is the
  slot's flag. The lemmas show that the table counts exactly the slots not yet
  released, that it forgets an address with its last slot, and that the limit holds.
\<close>

subsection \<open>Data\<close>

type_synonym addr = bytes

record pendingHandshakes =
  pending :: "(addr, u32) gomap"
  slots :: "(nat, addr \<times> bool) gomap"

datatype limit_action = NoAction | PendingHandshakeRejected | PendingHandshakeObserved

definition newPendingHandshakes :: pendingHandshakes where
  "newPendingHandshakes = \<lparr>pending = [], slots = []\<rparr>"

text \<open>\<open>netip.AddrFromSlice\<close> and \<open>Addr.Unmap\<close>.\<close>

definition addrFromSlice :: "bytes \<Rightarrow> addr option" where
  "addrFromSlice ip = (if length ip = 4 \<or> length ip = 16 then Some ip else None)"

definition unmap :: "addr \<Rightarrow> addr" where
  "unmap a = (if length a = 16 \<and> take 12 a = replicate 10 0 @ [255, 255] then drop 12 a else a)"

subsection \<open>Operations\<close>

definition acquire ::
    "bytes \<Rightarrow> u32 \<Rightarrow> bool \<Rightarrow> pendingHandshakes \<Rightarrow> (nat option \<times> limit_action \<times> bool) \<times> pendingHandshakes" where
  "acquire ip limit dryRun p =
     (if limit = 0 then ((None, NoAction, True), p)
      else case addrFromSlice ip of
        None \<Rightarrow> ((None, NoAction, True), p)
      | Some a \<Rightarrow>
          let addr = unmap a;
              overLimit = (gm_get0 0 (pending p) addr \<ge> limit)
          in if overLimit \<and> \<not> dryRun then ((None, PendingHandshakeRejected, False), p)
             else let slot = length (slots p);
                      p = p\<lparr>pending := gm_put addr (gm_get0 0 (pending p) addr + 1) (pending p),
                            slots := gm_put slot (addr, False) (slots p)\<rparr>
                  in if overLimit then ((Some slot, PendingHandshakeObserved, True), p)
                     else ((Some slot, NoAction, True), p))"

definition release :: "nat \<Rightarrow> pendingHandshakes \<Rightarrow> pendingHandshakes" where
  "release slot p =
     (case gm_get (slots p) slot of
        None \<Rightarrow> p
      | Some (addr, done) \<Rightarrow>
          if done then p
          else let p = p\<lparr>slots := gm_put slot (addr, True) (slots p)\<rparr>
               in if gm_get0 0 (pending p) addr \<le> 1
                  then p\<lparr>pending := gm_del addr (pending p)\<rparr>
                  else p\<lparr>pending := gm_put addr (gm_get0 0 (pending p) addr - 1) (pending p)\<rparr>)"

definition pendingFor :: "bytes \<Rightarrow> pendingHandshakes \<Rightarrow> u32" where
  "pendingFor ip p = (case addrFromSlice ip of None \<Rightarrow> 0 | Some a \<Rightarrow> gm_get0 0 (pending p) (unmap a))"

definition trackedIPs :: "pendingHandshakes \<Rightarrow> nat" where
  "trackedIPs p = length (pending p)"

subsection \<open>Interleavings\<close>

datatype op = Acquire bytes | Release nat

definition perform :: "u32 \<Rightarrow> bool \<Rightarrow> op \<Rightarrow> pendingHandshakes \<Rightarrow> pendingHandshakes" where
  "perform limit dryRun x p =
     (case x of Acquire ip \<Rightarrow> snd (acquire ip limit dryRun p) | Release slot \<Rightarrow> release slot p)"

definition held :: "addr \<Rightarrow> pendingHandshakes \<Rightarrow> nat" where
  "held addr p = length (filter (\<lambda>(slot, v). v = (addr, False)) (slots p))"

definition pending_inv :: "u32 \<Rightarrow> bool \<Rightarrow> pendingHandshakes \<Rightarrow> bool" where
  "pending_inv limit dryRun p \<longleftrightarrow> gm_ok (pending p) \<and> gm_keys (slots p) = [0..<length (slots p)] \<and>
     (\<forall>a. unat (gm_get0 0 (pending p) a) = held a p) \<and>
     (\<forall>a. gm_get (pending p) a \<noteq> Some 0) \<and>
     (\<not> dryRun \<longrightarrow> (\<forall>a. held a p \<le> unat limit))"

subsection \<open>The table counts the slots held\<close>

lemma gm_put_fresh: "k \<notin> set (gm_keys m) \<Longrightarrow> gm_put k v m = m @ [(k, v)]"
  by (induction m) auto

lemma held_le_slots: "held a p \<le> length (slots p)"
  by (simp add: held_def)

lemma held_acquire:
  assumes "gm_keys (slots p) = [0..<length (slots p)]"
  shows "held a (p\<lparr>pending := q, slots := gm_put (length (slots p)) (b, False) (slots p)\<rparr>) =
    held a p + (if a = b then 1 else 0)"
  using assms by (simp add: held_def gm_put_fresh del: set_map)

lemma length_filter_put:
  "gm_ok m \<Longrightarrow> map_of m k = Some v \<Longrightarrow> P (k, v) \<Longrightarrow> \<not> P (k, v') \<Longrightarrow>
     length (filter P m) = Suc (length (filter P (gm_put k v' m)))"
proof (induction m)
  case (Cons x m)
  obtain k' w where x: "x = (k', w)" by (cases x)
  show ?case
  proof (cases "k' = k")
    case True
    then show ?thesis using Cons.prems x by simp
  next
    case False
    then show ?thesis using Cons x by auto
  qed
qed simp

lemma length_filter_put_other:
  "gm_ok m \<Longrightarrow> map_of m k = Some v \<Longrightarrow> P (k, v) = P (k, v') \<Longrightarrow>
     length (filter P (gm_put k v' m)) = length (filter P m)"
  by (induction m) (auto simp: map_of_eq_None_iff split: if_splits)

lemma held_release:
  assumes "gm_ok (slots p)" "gm_get (slots p) slot = Some (b, False)"
  shows "held a p = held a (p\<lparr>slots := gm_put slot (b, True) (slots p)\<rparr>) + (if a = b then 1 else 0)"
  using length_filter_put [OF assms, of "\<lambda>(s, v). v = (a, False)" "(b, True)"]
    length_filter_put_other [OF assms, of "\<lambda>(s, v). v = (a, False)" "(b, True)"]
  by (auto simp: held_def)

lemma held_pending_upd [simp]: "held a (p\<lparr>pending := q\<rparr>) = held a p"
  by (simp add: held_def)

lemma unat_inc: "unat (w :: u32) + 1 < 2 ^ 32 \<Longrightarrow> unat (w + 1) = unat w + 1"
  by (simp add: unat_word_ariths)

lemma pending_nonzero_inc: "unat (w :: u32) + 1 < 2 ^ 32 \<Longrightarrow> w + 1 \<noteq> 0"
  using unat_inc [of w] by fastforce

lemma gm_get0_put [simp]: "gm_get0 z (gm_put k v m) k' = (if k' = k then v else gm_get0 z m k')"
  by (simp add: gm_get0_def)

lemma gm_get0_del [simp]: "gm_get0 z (gm_del k m) k' = (if k' = k then z else gm_get0 z m k')"
  by (simp add: gm_get0_def)

lemma gm_put_present: "map_of m k = Some v \<Longrightarrow> gm_keys (gm_put k v' m) = gm_keys m"
  by (induction m) auto

lemma acquire_inv:
  assumes inv: "pending_inv limit dryRun p" and room: "length (slots p) + 1 < 2 ^ 32"
  shows "pending_inv limit dryRun (snd (acquire ip limit dryRun p))"
proof (cases "addrFromSlice ip")
  case (Some a0)
  define a where "a = unmap a0"
  define n where "n = gm_get0 0 (pending p) a"
  show ?thesis
  proof (cases "limit = 0 \<or> n \<ge> limit \<and> \<not> dryRun")
    case True
    then show ?thesis using inv Some by (auto simp: acquire_def a_def n_def Let_def)
  next
    case False
    define p' where "p' = p\<lparr>pending := gm_put a (n + 1) (pending p), slots := gm_put (length (slots p)) (a, False) (slots p)\<rparr>"
    have p': "snd (acquire ip limit dryRun p) = p'"
      using False Some by (auto simp: acquire_def a_def n_def p'_def Let_def)
    have keys: "gm_keys (slots p) = [0..<length (slots p)]" using inv by (simp add: pending_inv_def)
    have n: "unat n = held a p" using inv by (simp add: pending_inv_def n_def)
    then have small: "unat n + 1 < 2 ^ 32" using held_le_slots [of a p] room by linarith
    have held: "held b p' = held b p + (if b = a then 1 else 0)" for b
      unfolding p'_def using keys by (rule held_acquire)
    have slots': "gm_keys (slots p') = [0..<length (slots p')]"
      using keys by (simp add: p'_def gm_put_fresh del: set_map)
    have "held a p + 1 \<le> unat limit" if "\<not> dryRun"
      using that False n by (simp add: word_le_nat_alt)
    then have limit: "\<not> dryRun \<longrightarrow> (\<forall>b. held b p' \<le> unat limit)"
      using inv held by (auto simp: pending_inv_def)
    have count: "unat (gm_get0 0 (pending p') b) = held b p'" for b
      using inv held [of b] n unat_inc [OF small] by (auto simp: pending_inv_def p'_def)
    have "gm_ok (pending p')" "gm_get (pending p') b \<noteq> Some 0" for b
      using inv pending_nonzero_inc [OF small] by (auto simp: pending_inv_def p'_def)
    then show ?thesis using p' slots' limit count by (simp add: pending_inv_def)
  qed
qed (use inv in \<open>auto simp: acquire_def\<close>)

lemma release_inv:
  assumes inv: "pending_inv limit dryRun p"
  shows "pending_inv limit dryRun (release slot p)"
proof (cases "\<exists>a. gm_get (slots p) slot = Some (a, False)")
  case True
  then obtain a where a: "gm_get (slots p) slot = Some (a, False)" by blast
  define n where "n = gm_get0 0 (pending p) a"
  define q where "q = p\<lparr>slots := gm_put slot (a, True) (slots p)\<rparr>"
  have keys: "gm_keys (slots p) = [0..<length (slots p)]" using inv by (simp add: pending_inv_def)
  have ok: "gm_ok (slots p)" unfolding keys by simp
  have held: "held b p = held b q + (if b = a then 1 else 0)" for b
    unfolding q_def using ok a by (rule held_release)
  have n: "unat n = held a q + 1" using inv held [of a] by (simp add: pending_inv_def n_def)
  have q: "pending q = pending p" "gm_keys (slots q) = [0..<length (slots q)]"
    using keys gm_put_present [of "slots p" slot "(a, False)" "(a, True)"] a
    by (simp_all add: q_def) (metis length_map)
  have "n \<noteq> 0" using n by auto
  then have dec: "unat (n - 1) = held a q" using n by (simp add: unat_minus_one)
  have zero: "n \<le> 1 \<longleftrightarrow> held a q = 0" using n by (simp add: word_le_nat_alt)
  have run: "release slot p = (if n \<le> 1 then q\<lparr>pending := gm_del a (pending q)\<rparr>
      else q\<lparr>pending := gm_put a (n - 1) (pending q)\<rparr>)"
    using a by (simp add: release_def n_def q_def Let_def)
  have bound: "\<not> dryRun \<longrightarrow> (\<forall>b. held b q \<le> unat limit)"
    using inv held unfolding pending_inv_def by (metis le_add1 le_trans)
  have others: "unat (gm_get0 0 (pending p) b) = held b q" if "b \<noteq> a" for b
    using inv held [of b] that by (simp add: pending_inv_def)
  have "n - 1 \<noteq> 0" if "\<not> n \<le> 1" using that dec zero by auto
  then show ?thesis
    using inv q bound others dec zero by (auto simp: run pending_inv_def simp del: map_of_eq_Some_iff)
next
  case False
  then have "release slot p = p" by (auto simp: release_def split: option.split)
  then show ?thesis using inv by simp
qed

lemma length_slots_acquire: "length (slots (snd (acquire ip limit dryRun p))) \<le> length (slots p) + 1"
proof -
  have "length (gm_put k v m) \<le> length m + 1" for k v and m :: "(nat, addr \<times> bool) gomap"
    by (induction m) auto
  then show ?thesis by (auto simp: acquire_def Let_def split: option.split)
qed

lemma length_slots_release: "length (slots (release slot p)) \<le> length (slots p)"
proof -
  have "map_of m k \<noteq> None \<Longrightarrow> length (gm_put k v m) \<le> length m" for k v and m :: "(nat, addr \<times> bool) gomap"
    by (induction m) auto
  then show ?thesis by (auto simp: release_def Let_def split: option.split)
qed

lemma perform_inv:
  assumes "pending_inv limit dryRun p" "length (slots p) + 1 < 2 ^ 32"
  shows "pending_inv limit dryRun (perform limit dryRun x p)"
    "length (slots (perform limit dryRun x p)) \<le> length (slots p) + 1"
  using acquire_inv [OF assms] release_inv [OF assms(1)] length_slots_acquire [of _ limit dryRun p]
    le_SucI [OF length_slots_release [of _ p]]
  by (auto simp: perform_def split: op.split)

lemma run_inv:
  "pending_inv limit dryRun p \<Longrightarrow> length (slots p) + length ops < 2 ^ 32 \<Longrightarrow>
     pending_inv limit dryRun (fold (perform limit dryRun) ops p)"
proof (induction ops arbitrary: p)
  case (Cons x ops)
  then have room: "length (slots p) + 1 < 2 ^ 32" by simp
  note step = perform_inv [OF Cons.prems(1) room, of x]
  show ?case using Cons.IH [OF step(1)] step(2) Cons.prems(2) by simp
qed simp

lemma new_inv: "pending_inv limit dryRun newPendingHandshakes"
  by (simp add: pending_inv_def newPendingHandshakes_def gm_get0_def held_def)

lemma dom_pending_held:
  assumes "pending_inv limit dryRun p"
  shows "gm_get (pending p) a \<noteq> None \<longleftrightarrow> 0 < held a p"
proof -
  have count: "unat (gm_get0 0 (pending p) a) = held a p" and nz: "gm_get (pending p) a \<noteq> Some 0"
    using assms by (simp_all add: pending_inv_def)
  show ?thesis
  proof (cases "gm_get (pending p) a")
    case None
    then show ?thesis using count by (simp add: gm_get0_def)
  next
    case (Some n)
    with nz count have "n \<noteq> 0" "unat n = held a p" by (simp_all add: gm_get0_def)
    then show ?thesis using Some by (metis gr0I option.simps(3) unat_eq_zero)
  qed
qed

lemma release_twice: "release slot (release slot p) = release slot p"
  by (auto simp: release_def Let_def split: option.split)

lemma trackedIPs_card:
  assumes "pending_inv limit dryRun p"
  shows "trackedIPs p = card {a. 0 < held a p}"
proof -
  have "{a. 0 < held a p} = dom (gm_get (pending p))" using dom_pending_held [OF assms] by auto
  then show ?thesis using gm_ok_length [of "pending p"] assms by (simp add: trackedIPs_def pending_inv_def)
qed

subsection \<open>Properties\<close>

text \<open>C7. In every interleaving of acquisitions and releases (the same release function may
  run any number of times) the table counts exactly the slots still held per address,
  tracks exactly the addresses that hold one, and without dry run no address ever holds
  more slots than the limit.\<close>

theorem pending_exact:
  fixes limit :: u32 and dryRun :: bool
  assumes "length ops < 2 ^ 32"
  defines "p \<equiv> fold (perform limit dryRun) ops newPendingHandshakes"
  shows "(\<forall>ip a. addrFromSlice ip = Some a \<longrightarrow> unat (pendingFor ip p) = held (unmap a) p) \<and>
    trackedIPs p = card {a. 0 < held a p} \<and> (\<not> dryRun \<longrightarrow> (\<forall>a. held a p \<le> unat limit))"
proof -
  have inv: "pending_inv limit dryRun p"
    unfolding p_def using assms(1) by (intro run_inv new_inv) (simp add: newPendingHandshakes_def)
  then show ?thesis
    using trackedIPs_card [OF inv] by (simp add: pendingFor_def pending_inv_def)
qed

theorem pending_exact_witness:
  "trackedIPs (fold (perform 1 False) [Acquire [1, 2, 3, 4], Acquire [1, 2, 3, 4], Release 0, Release 0] newPendingHandshakes)
     = card {a. 0 < held a (fold (perform 1 False)
         [Acquire [1, 2, 3, 4], Acquire [1, 2, 3, 4], Release 0, Release 0] newPendingHandshakes)}"
  using pending_exact [of "[Acquire [1, 2, 3, 4], Acquire [1, 2, 3, 4], Release 0, Release 0]" 1 False] by simp

text \<open>Who is turned away: a connection is refused exactly when the limit is on, dry run is
  off, the address parses and already holds as many slots as the limit; the mapped form
  of an IPv4 address counts as the IPv4 address. A refused connection takes no slot, an
  admitted one takes one (when the limit is on), and its release gives it back once.\<close>

lemma acquire_admission:
  assumes "pending_inv limit dryRun p" "length (slots p) + 1 < 2 ^ 32" "limit \<noteq> 0" "addrFromSlice ip = Some a"
  shows "case acquire ip limit dryRun p of ((slot, action, admitted), p') \<Rightarrow>
    (admitted \<longleftrightarrow> dryRun \<or> held (unmap a) p < unat limit) \<and>
    (\<not> admitted \<longrightarrow> slot = None \<and> action = PendingHandshakeRejected \<and> p' = p) \<and>
    (admitted \<longrightarrow> held (unmap a) p' = held (unmap a) p + 1 \<and>
       (\<exists>i. slot = Some i \<and> held (unmap a) (release i p') = held (unmap a) p \<and> release i (release i p') = release i p') \<and>
       (action = PendingHandshakeObserved \<longleftrightarrow> unat limit \<le> held (unmap a) p))"
proof -
  let ?a = "unmap a" and ?n = "gm_get0 0 (pending p) (unmap a)"
  define q where "q = p\<lparr>pending := gm_put ?a (?n + 1) (pending p), slots := gm_put (length (slots p)) (?a, False) (slots p)\<rparr>"
  have n: "unat ?n = held ?a p" and keys: "gm_keys (slots p) = [0..<length (slots p)]"
    using assms(1) by (simp_all add: pending_inv_def)
  have up: "held ?a q = held ?a p + 1" unfolding q_def using held_acquire [OF keys] by simp
  have slot: "gm_get (slots q) (length (slots p)) = Some (?a, False)" by (simp add: q_def)
  have "gm_ok (slots q)" unfolding q_def using keys by (simp add: gm_ok_put del: set_map)
  from held_release [OF this slot, of ?a] up
  have down: "held ?a (release (length (slots p)) q) = held ?a p"
    by (auto simp: release_def slot Let_def held_def)
  show ?thesis
    using assms(3,4) n up down release_twice
    by (auto simp: acquire_def Let_def q_def word_le_nat_alt)
qed

end
