(* ===== verification/Streams.thy ===== *)
theory Streams
  imports Proxy PendingHandshakes
begin

text \<open>
  The life of a connection, \<open>ServeConn\<close> and \<open>doFakeTLSHandshake\<close> of \<open>mtglib/proxy.go\<close>, as
  the steps its goroutine takes on the shared state, interleaved with the steps of
  other streams, of the management API and of the throttle loop. Every step is the
  stretch between two points where another goroutine may run. What the network, the
  TLS parser and the replay cache answer is an input of the step. The lemmas show
  that the connection counters and the registry follow the streams exactly, and how
  a stream can outlive a change of the secrets.
\<close>

subsection \<open>Data\<close>

datatype stage =
    Handshaking
  | Verified
  | Passed
  | Counted
  | Registered
  | Unregistered
  | Finished

record streamContext =
  stage :: stage
  clientIP :: bytes
  snapshot :: secret_set
  secretName :: string
  matchedSecretKey :: bytes
  adTag :: "ad_tag option"
  releasePendingHandshake :: "nat option"

text \<open>Where a change of the secrets stands, of which \<open>reloadMu\<close> allows one at a time: the new
  snapshot is stored and the stale streams are to be closed, or then the denied ones.\<close>

datatype swap_stage = NoSwap | StaleToClose secret_set secret_set | DeniedToClose

record world =
  prx :: proxy
  pend :: pendingHandshakes
  streams :: "(stream, streamContext) gomap"
  swapping :: swap_stage

text \<open>The part of the proxy options the steps read.\<close>

record serve_opts =
  pendingHandshakesPerIP :: u32
  pendingHandshakesDryRun :: bool
  zoneInfo :: zone

datatype hello =
    HelloError
  | HelloMatched nat bytes

subsection \<open>The steps of a stream\<close>

definition set_stream :: "stream \<Rightarrow> streamContext \<Rightarrow> world \<Rightarrow> world" where
  "set_stream sc c w = w\<lparr>streams := gm_put sc c (streams w)\<rparr>"

definition finishPendingHandshake :: "streamContext \<Rightarrow> world \<Rightarrow> world" where
  "finishPendingHandshake c w =
     (case releasePendingHandshake c of None \<Rightarrow> w | Some slot \<Rightarrow> w\<lparr>pend := release slot (pend w)\<rparr>)"

text \<open>From the start of \<open>ServeConn\<close> to the load of the snapshot in \<open>doFakeTLSHandshake\<close>.\<close>

definition serve_start :: "serve_opts \<Rightarrow> bytes \<Rightarrow> stream \<Rightarrow> world \<Rightarrow> world" where
  "serve_start opts ip sc w =
     (let ((slot, action, admitted), q) =
            acquire ip (pendingHandshakesPerIP opts) (pendingHandshakesDryRun opts) (pend w);
          c = \<lparr>stage = (if admitted then Handshaking else Finished), clientIP = ip,
               snapshot = secrets (prx w), secretName = [], matchedSecretKey = [], adTag = None,
               releasePendingHandshake = slot\<rparr>
      in set_stream sc c (w\<lparr>pend := q\<rparr>))"

text \<open>The rest of \<open>doFakeTLSHandshake\<close>, once the client hello is there: \<open>seen\<close> is the replay
  cache's answer and \<open>sent\<close> whether the server hello went out. A stream that is not let
  in goes to the fronting domain, releases its slot and ends.\<close>

definition doFakeTLSHandshake ::
    "serve_opts \<Rightarrow> go_time \<Rightarrow> hello \<Rightarrow> (bytes \<Rightarrow> bool) \<Rightarrow> bool \<Rightarrow> stream \<Rightarrow> streamContext \<Rightarrow> world \<Rightarrow> world" where
  "doFakeTLSHandshake opts now h seenBefore sent sc c w =
     (let set = snapshot c;
          fronted = (\<lambda>c w. set_stream sc (c\<lparr>stage := Finished\<rparr>) (finishPendingHandshake c w))
      in case h of
           HelloError \<Rightarrow> fronted c w
         | HelloMatched i sessionID \<Rightarrow>
             if seenBefore sessionID then fronted c w
             else
               let c = c\<lparr>matchedSecretKey := Key (ss_secrets set ! i), secretName := ss_names set ! i,
                         adTag := effectiveAdTag set i\<rparr>;
                   ((allowed, reason), st) =
                     checkLimits (zoneInfo opts) now (secretName c) (ss_limits set ! i) (stats (prx w));
                   w = w\<lparr>prx := (prx w)\<lparr>stats := st\<rparr>\<rparr>
               in if \<not> allowed then fronted c w
                  else if \<not> sent then set_stream sc (c\<lparr>stage := Finished\<rparr>) (finishPendingHandshake c w)
                  else set_stream sc (c\<lparr>stage := Verified\<rparr>) (finishPendingHandshake c w))"

definition serve_gate :: "stream \<Rightarrow> streamContext \<Rightarrow> world \<Rightarrow> world" where
  "serve_gate sc c w =
     (let (ok, st) = CanConnect (secretName c) (stats (prx w));
          w = w\<lparr>prx := (prx w)\<lparr>stats := st\<rparr>\<rparr>
      in set_stream sc (c\<lparr>stage := (if ok then Passed else Finished)\<rparr>) w)"

definition serve_connect :: "go_time \<Rightarrow> stream \<Rightarrow> streamContext \<Rightarrow> world \<Rightarrow> world" where
  "serve_connect now sc c w =
     set_stream sc (c\<lparr>stage := Counted\<rparr>)
       (w\<lparr>prx := (prx w)\<lparr>stats := UpdateLastSeen now (secretName c) (OnConnect (secretName c) (stats (prx w)))\<rparr>\<rparr>)"

definition serve_register :: "stream \<Rightarrow> streamContext \<Rightarrow> world \<Rightarrow> world" where
  "serve_register sc c w =
     set_stream sc (c\<lparr>stage := Registered\<rparr>) (w\<lparr>prx := registerConn (secretName c) sc (prx w)\<rparr>)"

definition serve_unregister :: "stream \<Rightarrow> streamContext \<Rightarrow> world \<Rightarrow> world" where
  "serve_unregister sc c w =
     set_stream sc (c\<lparr>stage := Unregistered\<rparr>) (w\<lparr>prx := unregisterConn (secretName c) sc (prx w)\<rparr>)"

definition serve_disconnect :: "stream \<Rightarrow> streamContext \<Rightarrow> world \<Rightarrow> world" where
  "serve_disconnect sc c w =
     set_stream sc (c\<lparr>stage := Finished\<rparr>)
       (finishPendingHandshake c
         (w\<lparr>prx := (prx w)\<lparr>stats := OnDisconnect (secretName c) (stats (prx w))\<rparr>\<rparr>))"

subsection \<open>The steps of a swap\<close>

text \<open>\<open>swapSecretConfigLocked\<close> in the pieces other goroutines see: the store of the snapshot with the
  counters it makes room for (which any reader would make as well), and the two loops.\<close>

definition swap_store :: "secret_config \<Rightarrow> world \<Rightarrow> world" where
  "swap_store cfg w =
     (let newSet = buildSecretSet (Secrets cfg) (SecretAdTags cfg) (GlobalAdTag cfg) (CfgLimits cfg); p = prx w
      in w\<lparr>prx := p\<lparr>secrets := newSet, stats := fold PreRegister (ss_names newSet) (stats p)\<rparr>,
           swapping := StaleToClose (secrets p) newSet\<rparr>)"

definition swap_stale :: "secret_set \<Rightarrow> secret_set \<Rightarrow> world \<Rightarrow> world" where
  "swap_stale oldSet newSet w = w\<lparr>prx := closeStaleConns (Some oldSet) newSet (prx w), swapping := DeniedToClose\<rparr>"

definition swap_denied :: "zone \<Rightarrow> go_time \<Rightarrow> world \<Rightarrow> world" where
  "swap_denied zone now w = w\<lparr>prx := closeDeniedConns zone now (prx w), swapping := NoSwap\<rparr>"

subsection \<open>Interleavings\<close>

inductive serve_step :: "serve_opts \<Rightarrow> world \<Rightarrow> world \<Rightarrow> bool" for opts where
  start: "gm_get (streams w) sc = None \<Longrightarrow> serve_step opts w (serve_start opts ip sc w)"
| handshake: "gm_get (streams w) sc = Some c \<Longrightarrow> stage c = Handshaking \<Longrightarrow>
    (\<And>i sid. h = HelloMatched i sid \<Longrightarrow> i < length (ss_names (snapshot c))) \<Longrightarrow>
    serve_step opts w (doFakeTLSHandshake opts now h seenBefore sent sc c w)"
| gate: "gm_get (streams w) sc = Some c \<Longrightarrow> stage c = Verified \<Longrightarrow> serve_step opts w (serve_gate sc c w)"
| connect: "gm_get (streams w) sc = Some c \<Longrightarrow> stage c = Passed \<Longrightarrow> serve_step opts w (serve_connect now sc c w)"
| reg: "gm_get (streams w) sc = Some c \<Longrightarrow> stage c = Counted \<Longrightarrow> serve_step opts w (serve_register sc c w)"
| unreg: "gm_get (streams w) sc = Some c \<Longrightarrow> stage c = Registered \<Longrightarrow> serve_step opts w (serve_unregister sc c w)"
| disconnect: "gm_get (streams w) sc = Some c \<Longrightarrow> stage c = Unregistered \<Longrightarrow> serve_step opts w (serve_disconnect sc c w)"
| store: "cfg_ok cfg \<Longrightarrow> cfg_valid cfg \<Longrightarrow> swapping w = NoSwap \<Longrightarrow> serve_step opts w (swap_store cfg w)"
| stale: "swapping w = StaleToClose oldSet newSet \<Longrightarrow> serve_step opts w (swap_stale oldSet newSet w)"
| denied: "swapping w = DeniedToClose \<Longrightarrow> serve_step opts w (swap_denied (zoneInfo opts) now w)"
| reset: "serve_step opts w (w\<lparr>prx := (prx w)\<lparr>stats := ResetQuota now n (stats (prx w))\<rparr>\<rparr>)"
| throttle: "serve_step opts w (w\<lparr>prx := (prx w)\<lparr>stats := recomputeCaps (stats (prx w))\<rparr>\<rparr>)"
| rollover: "serve_step opts w (w\<lparr>prx := rolloverAllQuotas (zoneInfo opts) now (prx w)\<rparr>)"

definition initial_world :: "proxy \<Rightarrow> world" where
  "initial_world p = \<lparr>prx = p, pend = newPendingHandshakes, streams = [], swapping = NoSwap\<rparr>"

text \<open>The streams between \<open>OnConnect\<close> and \<open>OnDisconnect\<close>, and the registered ones.\<close>

definition with_stage :: "stage set \<Rightarrow> string \<Rightarrow> world \<Rightarrow> stream set" where
  "with_stage S n w = {sc. \<exists>c. gm_get (streams w) sc = Some c \<and> stage c \<in> S \<and> secretName c = n}"

abbreviation connected :: "string \<Rightarrow> world \<Rightarrow> stream set" where
  "connected \<equiv> with_stage {Counted, Registered, Unregistered}"

abbreviation registered :: "string \<Rightarrow> world \<Rightarrow> stream set" where
  "registered \<equiv> with_stage {Registered}"

definition world_inv :: "world \<Rightarrow> bool" where
  "world_inv w \<longleftrightarrow> proxy_ok (prx w) \<and>
     (\<forall>n. connections (gm_get0 zero_stats (users (stats (prx w))) n) = i64 (int (card (connected n w)))) \<and>
     (\<forall>n. {sc. live_under (prx w) n sc} = registered n w)"

text \<open>A freshly built proxy: nothing connected yet.\<close>

definition world_ok :: "proxy \<Rightarrow> bool" where
  "world_ok p \<longleftrightarrow> proxy_ok p \<and> liveConns p = [] \<and>
     (\<forall>n. connections (gm_get0 zero_stats (users (stats p)) n) = 0)"

text \<open>An interleaving for the examples: stream 7 passes the handshake with secret \<open>a\<close>, the
  secret gets a new key, then the stream goes on to register itself.\<close>

definition fresh_proxy :: proxy where
  "fresh_proxy = sample_proxy\<lparr>liveConns := []\<rparr>"

definition sample_opts :: serve_opts where
  "sample_opts = \<lparr>pendingHandshakesPerIP = 0, pendingHandshakesDryRun = False, zoneInfo = (\<lambda>_. 0)\<rparr>"

definition rekeyed :: secret_config where
  "rekeyed = \<lparr>Secrets = [(''a'', \<lparr>Key = replicate 16 3, Host = ''h''\<rparr>), (''b'', \<lparr>Key = key_b, Host = ''h''\<rparr>)],
     SecretAdTags = [], GlobalAdTag = None, CfgLimits = []\<rparr>"

definition race_1 :: world where
  "race_1 = serve_start sample_opts [1, 2, 3, 4] 7 (initial_world fresh_proxy)"

definition stream_7 :: "world \<Rightarrow> streamContext" where
  "stream_7 w = the (gm_get (streams w) 7)"

definition race_2 :: world where
  "race_2 = doFakeTLSHandshake sample_opts 1 (HelloMatched 0 [9]) (\<lambda>_. False) True 7 (stream_7 race_1) race_1"

definition race_3 :: world where
  "race_3 = race_2\<lparr>prx := snd (swapSecretConfigLocked (\<lambda>_. 0) 2 rekeyed (prx race_2))\<rparr>"

definition race_4 :: world where
  "race_4 = serve_gate 7 (stream_7 race_3) race_3"

definition race_5 :: world where
  "race_5 = serve_connect 3 7 (stream_7 race_4) race_4"

definition race_6 :: world where
  "race_6 = serve_register 7 (stream_7 race_5) race_5"

subsection \<open>Frame lemmas\<close>

lemma with_stage_set_stream:
  "with_stage S n (set_stream sc c w) =
     (if stage c \<in> S \<and> secretName c = n then insert sc (with_stage S n w) else with_stage S n w - {sc})"
  by (auto simp: with_stage_def set_stream_def)

lemma with_stage_frame [simp]:
  "with_stage S n (w\<lparr>prx := p\<rparr>) = with_stage S n w" "with_stage S n (w\<lparr>pend := q\<rparr>) = with_stage S n w"
  "with_stage S n (w\<lparr>swapping := x\<rparr>) = with_stage S n w"
  "with_stage S n (finishPendingHandshake c w) = with_stage S n w"
  by (simp_all add: with_stage_def finishPendingHandshake_def split: option.split)

lemma prx_frame [simp]:
  "prx (set_stream sc c w) = prx w" "prx (finishPendingHandshake c w) = prx w"
  "streams (finishPendingHandshake c w) = streams w"
  by (simp_all add: set_stream_def finishPendingHandshake_def split: option.split)

lemma finite_with_stage [simp]: "finite (with_stage S n w)"
  by (rule finite_subset [of _ "set (gm_keys (streams w))"]) (auto simp: with_stage_def intro: rev_image_eqI dest!: map_of_SomeD)

lemma i64_add: "i64 (i64 x + y) = i64 (x + y)"
  unfolding i64_def by (simp add: mod_simps algebra_simps)

lemma i64_add': "i64 (y + i64 x) = i64 (y + x)"
  using i64_add [of x y] by (simp add: add.commute)

lemma i64_diff: "i64 (i64 x - y) = i64 (x - y)"
  using i64_add [of x "- y"] by simp

lemma live_under_stats [simp]: "live_under (p\<lparr>stats := st\<rparr>) = live_under p"
  by (simp add: live_under_def fun_eq_iff)

lemma live_under_register: "live_under (registerConn name sc p) n x \<longleftrightarrow> n = name \<and> x = sc \<or> live_under p n x"
  by (auto simp: live_under_def registerConn_def Let_def gm_get0_def)

lemma live_under_unregister:
  "live_under (unregisterConn name sc p) n x \<longleftrightarrow> live_under p n x \<and> \<not> (n = name \<and> x = sc)"
proof (cases "gm_get (liveConns p) name")
  case (Some conns)
  have "removeAll sc conns = [] \<longleftrightarrow> set conns \<subseteq> {sc}"
    by (auto simp: removeAll_filter_not_eq filter_empty_conv)
  with Some show ?thesis
    by (auto simp: live_under_def unregisterConn_def Let_def gm_get0_def)
qed (auto simp: live_under_def unregisterConn_def gm_get0_def)

lemma set_gm_put: "(k', v') \<in> set (gm_put k v m) \<Longrightarrow> (k', v') \<in> set m \<or> v' = v"
  using set_gm_put_subset [of k v m] by auto

lemma proxy_ok_register: "proxy_ok p \<Longrightarrow> proxy_ok (registerConn name sc p)"
  by (auto simp: proxy_ok_def registerConn_def Let_def insert_not_empty dest!: set_gm_put)
    (metis empty_iff insertI1 list.set(1) set_insert)

lemma proxy_ok_unregister: "proxy_ok p \<Longrightarrow> proxy_ok (unregisterConn name sc p)"
  using set_gm_del_subset [of name "liveConns p"]
  by (fastforce simp: proxy_ok_def unregisterConn_def Let_def split: option.split dest!: set_gm_put)

lemma proxy_ok_stats:
  assumes "proxy_ok p" "gm_ok (users st)" "dom (gm_get (users (stats p))) \<subseteq> dom (gm_get (users st))"
  shows "proxy_ok (p\<lparr>stats := st\<rparr>)"
  using assms subset_trans [of "set (ss_names (secrets p))" "dom (gm_get (users (stats p)))" "dom (gm_get (users st))"]
  unfolding proxy_ok_def by simp

lemma proxy_ok_with_stats: "proxy_ok p \<Longrightarrow> proxy_ok (p\<lparr>stats := with_stats name f (stats p)\<rparr>)"
  by (rule proxy_ok_stats) (auto simp: proxy_ok_def)

lemma conns_with_stats:
  "connections (gm_get0 zero_stats (users (with_stats name f st)) n) =
     (if n = name then connections (f (gm_get0 zero_stats (users st) name))
      else connections (gm_get0 zero_stats (users st) n))"
  by (simp add: gm_get0_def)

lemma world_inv_keeps:
  assumes "world_inv w" "proxy_ok p" "liveConns p = liveConns (prx w)" "counters_kept (stats (prx w)) (stats p)"
  shows "world_inv (w\<lparr>prx := p\<rparr>)"
  using assms by (simp add: world_inv_def counters_kept_def same_counters_def live_under_def)

lemma world_inv_stats:
  assumes "world_inv w" "counters_kept (stats (prx w)) st" "gm_ok (users st)"
  shows "world_inv (w\<lparr>prx := (prx w)\<lparr>stats := st\<rparr>\<rparr>)"
  using assms proxy_ok_stats [OF _ assms(3)] counters_kept_dom [OF assms(2)]
  by (intro world_inv_keeps) (auto simp: world_inv_def)

text \<open>Changing a stream that is in neither group before and after.\<close>

lemma world_inv_set_stream:
  assumes "world_inv w" "stage c \<notin> {Counted, Registered, Unregistered}"
    "\<And>c0. gm_get (streams w) sc = Some c0 \<Longrightarrow> stage c0 \<notin> {Counted, Registered, Unregistered}"
  shows "world_inv (set_stream sc c w)"
proof -
  have "sc \<notin> connected n w" "sc \<notin> registered n w" for n
    using assms(3) by (auto simp: with_stage_def)
  then show ?thesis
    using assms(1,2) by (simp add: world_inv_def with_stage_set_stream live_under_def)
qed

lemma world_inv_finish: "world_inv w \<Longrightarrow> world_inv (finishPendingHandshake c w)"
  by (simp add: world_inv_def)

lemma counters_kept_CanConnect: "counters_kept st (snd (CanConnect n st)) \<and> (gm_ok (users st) \<longrightarrow> gm_ok (users (snd (CanConnect n st))))"
proof -
  have "snd (getOrCreate n st) = PreRegister n st" by (simp add: PreRegister_def)
  then have "snd (CanConnect n st) \<in> {st, PreRegister n st}"
    by (auto simp: CanConnect_def case_prod_beta split: option.split)
  then show ?thesis using counters_kept_PreRegister [of st n] gm_ok_PreRegister [of st n] by auto
qed

subsection \<open>Every step keeps the invariant\<close>

lemma world_inv_pend: "world_inv w \<Longrightarrow> world_inv (w\<lparr>pend := q\<rparr>)"
  by (simp add: world_inv_def)

lemma inv_serve_start: "world_inv w \<Longrightarrow> gm_get (streams w) sc = None \<Longrightarrow> world_inv (serve_start opts ip sc w)"
  unfolding serve_start_def Let_def case_prod_beta
  by (rule world_inv_set_stream) (auto intro: world_inv_pend)

lemma inv_handshake:
  assumes "world_inv w" "gm_get (streams w) sc = Some c" "stage c = Handshaking"
  shows "world_inv (doFakeTLSHandshake opts now h seenBefore sent sc c w)"
proof (cases h)
  case HelloError
  then show ?thesis using assms
    by (auto simp: doFakeTLSHandshake_def Let_def intro!: world_inv_set_stream world_inv_finish)
next
  case (HelloMatched i sid)
  have gate: "world_inv (w\<lparr>prx := (prx w)\<lparr>stats := snd (checkLimits z n nm lim (stats (prx w)))\<rparr>\<rparr>)" for z n nm lim
    using assms(1) checkLimits_stats [of "stats (prx w)" z n nm lim]
    by (intro world_inv_stats) (auto simp: world_inv_def proxy_ok_def)
  show ?thesis
    using assms HelloMatched gate
    by (auto simp: doFakeTLSHandshake_def Let_def case_prod_beta intro!: world_inv_set_stream world_inv_finish)
qed

lemma inv_gate:
  assumes "world_inv w" "gm_get (streams w) sc = Some c" "stage c = Verified"
  shows "world_inv (serve_gate sc c w)"
proof -
  have "world_inv (w\<lparr>prx := (prx w)\<lparr>stats := snd (CanConnect (secretName c) (stats (prx w)))\<rparr>\<rparr>)"
    using assms(1) counters_kept_CanConnect [of "stats (prx w)" "secretName c"]
    by (intro world_inv_stats) (auto simp: world_inv_def proxy_ok_def)
  then show ?thesis using assms
    by (auto simp: serve_gate_def Let_def case_prod_beta intro!: world_inv_set_stream)
qed

lemma with_stage_iff: "gm_get (streams w) sc = Some c \<Longrightarrow> sc \<in> with_stage S n w \<longleftrightarrow> stage c \<in> S \<and> secretName c = n"
  by (auto simp: with_stage_def)

lemma inv_connect:
  assumes "world_inv w" "gm_get (streams w) sc = Some c" "stage c = Passed"
  shows "world_inv (serve_connect now sc c w)"
proof -
  define p where "p = (prx w)\<lparr>stats := UpdateLastSeen now (secretName c) (OnConnect (secretName c) (stats (prx w)))\<rparr>"
  have "proxy_ok ((prx w)\<lparr>stats := OnConnect (secretName c) (stats (prx w))\<rparr>)"
    using assms(1) unfolding OnConnect_def by (intro proxy_ok_with_stats) (simp add: world_inv_def)
  then have ok: "proxy_ok p"
    using proxy_ok_with_stats unfolding p_def UpdateLastSeen_def by fastforce
  have "sc \<notin> connected n w" for n using assms(2,3) by (simp add: with_stage_iff)
  then have "connections (gm_get0 zero_stats (users (stats p)) n) =
      i64 (int (card (connected n (serve_connect now sc c w))))" for n
    using assms(1) by (simp add: p_def world_inv_def serve_connect_def with_stage_set_stream UpdateLastSeen_def
        OnConnect_def conns_with_stats i64_add')
      (simp add: i64_add i64_add' add.commute)
  moreover have "registered n (serve_connect now sc c w) = registered n w" for n
    using assms(2,3) by (simp add: serve_connect_def with_stage_set_stream with_stage_iff)
  moreover have "prx (serve_connect now sc c w) = p" by (simp add: serve_connect_def p_def)
  ultimately show ?thesis using ok assms(1) by (simp add: world_inv_def p_def)
qed

lemma inv_register:
  assumes "world_inv w" "gm_get (streams w) sc = Some c" "stage c = Counted"
  shows "world_inv (serve_register sc c w)"
proof -
  have live: "live_under (prx w) n x \<longleftrightarrow> x \<in> registered n w" for n x
    using assms(1) unfolding world_inv_def by blast
  have "stats (registerConn n sc p) = stats p" for n p by (simp add: registerConn_def Let_def)
  moreover have "connected n (serve_register sc c w) = connected n w" for n
    using assms(2,3) by (auto simp: serve_register_def with_stage_set_stream with_stage_iff)
  moreover have "{x. live_under (prx (serve_register sc c w)) n x} = registered n (serve_register sc c w)" for n
    using assms(2,3) live by (auto simp: serve_register_def with_stage_set_stream live_under_register with_stage_iff)
  moreover have "prx (serve_register sc c w) = registerConn (secretName c) sc (prx w)"
    by (simp add: serve_register_def)
  ultimately show ?thesis
    using assms(1) proxy_ok_register by (simp add: world_inv_def)
qed

lemma inv_unregister:
  assumes "world_inv w" "gm_get (streams w) sc = Some c" "stage c = Registered"
  shows "world_inv (serve_unregister sc c w)"
proof -
  have live: "live_under (prx w) n x \<longleftrightarrow> x \<in> registered n w" for n x
    using assms(1) unfolding world_inv_def by blast
  have "stats (unregisterConn n sc p) = stats p" for n p
    by (simp add: unregisterConn_def Let_def split: option.split)
  moreover have "connected n (serve_unregister sc c w) = connected n w" for n
    using assms(2,3) by (auto simp: serve_unregister_def with_stage_set_stream with_stage_iff)
  moreover have "{x. live_under (prx (serve_unregister sc c w)) n x} = registered n (serve_unregister sc c w)" for n
    using assms(2,3) live by (auto simp: serve_unregister_def with_stage_set_stream live_under_unregister with_stage_iff)
  moreover have "prx (serve_unregister sc c w) = unregisterConn (secretName c) sc (prx w)"
    by (simp add: serve_unregister_def)
  ultimately show ?thesis
    using assms(1) proxy_ok_unregister by (simp add: world_inv_def)
qed

lemma inv_disconnect:
  assumes "world_inv w" "gm_get (streams w) sc = Some c" "stage c = Unregistered"
  shows "world_inv (serve_disconnect sc c w)"
proof -
  define p where "p = (prx w)\<lparr>stats := OnDisconnect (secretName c) (stats (prx w))\<rparr>"
  have ok: "proxy_ok p"
    using assms(1) unfolding p_def OnDisconnect_def by (intro proxy_ok_with_stats) (simp add: world_inv_def)
  have mem: "sc \<in> connected n w \<longleftrightarrow> n = secretName c" for n using assms(2,3) by (auto simp: with_stage_iff)
  have "int (card (connected n w - {sc})) = int (card (connected n w)) - (if n = secretName c then 1 else 0)" for n
    using mem [of n] card_Diff_singleton [of sc "connected n w"] card_gt_0_iff [of "connected n w"]
    by (auto simp: of_nat_diff)
  then have "connections (gm_get0 zero_stats (users (stats p)) n) =
      i64 (int (card (connected n (serve_disconnect sc c w))))" for n
    using assms(1) by (simp add: p_def world_inv_def serve_disconnect_def with_stage_set_stream
        OnDisconnect_def conns_with_stats i64_diff)
  moreover have "registered n (serve_disconnect sc c w) = registered n w" for n
    using assms(2,3) by (simp add: serve_disconnect_def with_stage_set_stream with_stage_iff)
  moreover have "prx (serve_disconnect sc c w) = p" by (simp add: serve_disconnect_def p_def)
  ultimately show ?thesis using ok assms(1) by (simp add: world_inv_def p_def)
qed

lemma world_inv_swapping: "world_inv w \<Longrightarrow> world_inv (w\<lparr>swapping := x\<rparr>)"
  by (simp add: world_inv_def)

lemma inv_store:
  assumes "world_inv w" "cfg_ok cfg" "cfg_valid cfg"
  shows "world_inv (swap_store cfg w)"
proof -
  let ?st = "fold PreRegister (ss_names (build cfg)) (stats (prx w))"
  let ?p = "(prx w)\<lparr>secrets := build cfg, stats := ?st\<rparr>"
  have ok: "proxy_ok (prx w)" using assms(1) by (simp add: world_inv_def)
  obtain p' where "swapped 0 cfg (prx w) p'" and ok': "proxy_ok p'" by (rule swap_valid [OF assms(3,2) ok, of "\<lambda>_. 0" 0])
  then have p': "secrets p' = build cfg" by (simp add: swapped_def)
  have st: "counters_kept (stats (prx w)) ?st" "set (ss_names (build cfg)) \<subseteq> dom (gm_get (users ?st))" "gm_ok (users ?st)"
    using fold_PreRegister ok by (simp_all add: proxy_ok_def del: set_sort)
  have "proxy_ok ?p" using ok ok' p' st(2,3) by (simp add: proxy_ok_def)
  then have "world_inv (w\<lparr>prx := ?p\<rparr>)" using assms(1) st(1) by (intro world_inv_keeps) simp_all
  then show ?thesis using world_inv_swapping by (fastforce simp: swap_store_def Let_def build_def)
qed

lemma inv_stale:
  assumes "world_inv w"
  shows "world_inv (swap_stale oldSet newSet w)"
proof -
  have "world_inv (w\<lparr>prx := closeStaleConns (Some oldSet) newSet (prx w)\<rparr>)"
    using assms by (intro world_inv_keeps) (simp_all add: world_inv_def proxy_ok_def counters_kept_def same_counters_def)
  then show ?thesis using world_inv_swapping by (fastforce simp: swap_stale_def)
qed

lemma inv_denied:
  assumes "world_inv w"
  shows "world_inv (swap_denied zone now w)"
proof -
  have ok: "proxy_ok (prx w)" using assms by (simp add: world_inv_def)
  then have st: "counters_kept (stats (prx w)) (stats (closeDeniedConns zone now (prx w)))"
      "gm_ok (users (stats (closeDeniedConns zone now (prx w))))"
    using closeDeniedConns_stats [of "prx w" zone now] by (simp_all add: proxy_ok_def)
  have "proxy_ok (closeDeniedConns zone now (prx w))"
    using ok st(2) counters_kept_dom [OF st(1)] unfolding proxy_ok_def closeDeniedConns_frame by blast
  then have "world_inv (w\<lparr>prx := closeDeniedConns zone now (prx w)\<rparr>)"
    using assms st(1) by (intro world_inv_keeps) simp_all
  then show ?thesis using world_inv_swapping by (fastforce simp: swap_denied_def)
qed

text \<open>A swap nobody interrupts is \<open>swapSecretConfigLocked\<close>.\<close>

lemma swap_uninterrupted:
  assumes "cfg_ok cfg" "cfg_valid cfg" "swapping w = NoSwap"
  shows "(serve_step opts)\<^sup>*\<^sup>* w (w\<lparr>prx := snd (swapSecretConfigLocked (zoneInfo opts) now cfg (prx w))\<rparr>)"
proof -
  let ?new = "build cfg" and ?old = "secrets (prx w)"
  have "serve_step opts w (swap_store cfg w)" using assms by (rule serve_step.store)
  moreover have "serve_step opts (swap_store cfg w) (swap_stale ?old ?new (swap_store cfg w))"
    by (rule serve_step.stale) (simp add: swap_store_def Let_def build_def)
  moreover have "serve_step opts (swap_stale ?old ?new (swap_store cfg w))
      (swap_denied (zoneInfo opts) now (swap_stale ?old ?new (swap_store cfg w)))"
    by (rule serve_step.denied) (simp add: swap_stale_def)
  moreover have "swap_denied (zoneInfo opts) now (swap_stale ?old ?new (swap_store cfg w)) =
      w\<lparr>prx := snd (swapSecretConfigLocked (zoneInfo opts) now cfg (prx w))\<rparr>"
    using assms(2,3)
    by (auto simp: swap_denied_def swap_stale_def swap_store_def swapSecretConfigLocked_def cfg_valid_def build_def Let_def)
  ultimately show ?thesis
    by (metis (no_types, lifting) rtranclp.rtrancl_into_rtrancl rtranclp.rtrancl_refl)
qed

lemma counters_kept_recomputeCaps: "counters_kept st (recomputeCaps st) \<and> users (recomputeCaps st) = users st"
  by (simp add: counters_kept_def same_counters_def recomputeCaps_def Let_def)

lemma counters_kept_ResetQuota: "counters_kept st (ResetQuota now n st)"
  unfolding ResetQuota_def by (rule counters_kept_with_stats) (simp add: same_counters_def)

lemma counters_kept_rolloverAll:
  "counters_kept st (fold (\<lambda>(name, lim) st.
       if QuotaReset lim = QuotaResetMonthly then rollover zone name (QuotaReset lim) now st else st) nls st) \<and>
   (gm_ok (users st) \<longrightarrow> gm_ok (users (fold (\<lambda>(name, lim) st.
       if QuotaReset lim = QuotaResetMonthly then rollover zone name (QuotaReset lim) now st else st) nls st)))"
proof (induction nls arbitrary: st)
  case (Cons nl nls)
  obtain n l where nl: "nl = (n, l)" by (cases nl)
  let ?st = "if QuotaReset l = QuotaResetMonthly then rollover zone n (QuotaReset l) now st else st"
  have step: "counters_kept st ?st" "gm_ok (users st) \<longrightarrow> gm_ok (users ?st)"
    by (simp_all add: rollover_def counters_kept_rollover)
  note IH = Cons [of ?st]
  show ?case
    unfolding nl fold_simps prod.case
    using counters_kept_trans [OF step(1) conjunct1 [OF IH]] step(2) conjunct2 [OF IH] by blast
qed simp

lemma inv_other:
  assumes "world_inv w"
  shows "world_inv (w\<lparr>prx := (prx w)\<lparr>stats := ResetQuota now n (stats (prx w))\<rparr>\<rparr>)"
    "world_inv (w\<lparr>prx := (prx w)\<lparr>stats := recomputeCaps (stats (prx w))\<rparr>\<rparr>)"
    "world_inv (w\<lparr>prx := rolloverAllQuotas zone now (prx w)\<rparr>)"
proof -
  have ok: "gm_ok (users (stats (prx w)))" using assms by (simp add: world_inv_def proxy_ok_def)
  show "world_inv (w\<lparr>prx := (prx w)\<lparr>stats := ResetQuota now n (stats (prx w))\<rparr>\<rparr>)"
    using ok by (intro world_inv_stats [OF assms] counters_kept_ResetQuota) (simp add: ResetQuota_def)
  show "world_inv (w\<lparr>prx := (prx w)\<lparr>stats := recomputeCaps (stats (prx w))\<rparr>\<rparr>)"
    using ok counters_kept_recomputeCaps [of "stats (prx w)"] by (intro world_inv_stats [OF assms]) simp_all
  show "world_inv (w\<lparr>prx := rolloverAllQuotas zone now (prx w)\<rparr>)"
    unfolding rolloverAllQuotas_def using ok counters_kept_rolloverAll
    by (intro world_inv_stats [OF assms]) blast+
qed

lemma serve_step_inv:
  assumes "serve_step opts w w'" "world_inv w"
  shows "world_inv w'"
  using assms(1)
proof cases
  case (start sc ip)
  then show ?thesis by (simp only: inv_serve_start [OF assms(2)])
next
  case (handshake sc c h now seenBefore sent)
  show ?thesis unfolding handshake(1) by (rule inv_handshake [OF assms(2) handshake(2,3)])
next
  case (gate sc c)
  show ?thesis unfolding gate(1) by (rule inv_gate [OF assms(2) gate(2,3)])
next
  case (connect sc c now)
  show ?thesis unfolding connect(1) by (rule inv_connect [OF assms(2) connect(2,3)])
next
  case (reg sc c)
  show ?thesis unfolding reg(1) by (rule inv_register [OF assms(2) reg(2,3)])
next
  case (unreg sc c)
  show ?thesis unfolding unreg(1) by (rule inv_unregister [OF assms(2) unreg(2,3)])
next
  case (disconnect sc c)
  show ?thesis unfolding disconnect(1) by (rule inv_disconnect [OF assms(2) disconnect(2,3)])
next
  case (store cfg)
  show ?thesis unfolding store(1) by (rule inv_store [OF assms(2) store(2,3)])
next
  case (stale oldSet newSet)
  show ?thesis unfolding stale(1) by (rule inv_stale [OF assms(2)])
next
  case (denied now)
  show ?thesis unfolding denied(1) by (rule inv_denied [OF assms(2)])
next
  case (reset now n)
  show ?thesis unfolding reset by (rule inv_other(1) [OF assms(2)])
next
  case throttle
  show ?thesis unfolding throttle by (rule inv_other(2) [OF assms(2)])
next
  case (rollover now)
  show ?thesis unfolding rollover by (rule inv_other(3) [OF assms(2)])
qed

interpretation serve: transition_system "initial_world p" "serve_step opts" "\<lambda>w. world_ok p \<longrightarrow> world_inv w"
  for p opts
proof
  show "world_ok p \<longrightarrow> world_inv (initial_world p)"
    by (auto simp: world_ok_def world_inv_def initial_world_def with_stage_def live_under_def gm_get0_def i64_def)
  show "world_ok p \<longrightarrow> world_inv t" if "world_ok p \<longrightarrow> world_inv s" "serve_step opts s t" for s t
    using that serve_step_inv by blast
qed

lemma fresh_proxy_ok: "world_ok fresh_proxy"
  using sample_proxy_ok
  by (simp add: world_ok_def proxy_ok_def fresh_proxy_def)
    (simp add: sample_proxy_def users_PreRegister gm_get0_def NewProxyStats_def zero_stats_def)

lemma race_facts:
  "gm_get (streams race_1) 7 = Some (stream_7 race_1)" "stage (stream_7 race_1) = Handshaking"
  "length (ss_names (snapshot (stream_7 race_1))) = 2"
  "gm_get (streams race_3) 7 = Some (stream_7 race_3)" "stage (stream_7 race_3) = Verified"
  "gm_get (streams race_4) 7 = Some (stream_7 race_4)" "stage (stream_7 race_4) = Passed"
  "gm_get (streams race_5) 7 = Some (stream_7 race_5)" "stage (stream_7 race_5) = Counted"
  "gm_get (streams race_6) 7 = Some (stream_7 race_6)" "stage (stream_7 race_6) = Registered"
  "secretName (stream_7 race_6) = ''a''" "matchedSecretKey (stream_7 race_6) = key_a"
  "secret_named (secrets (prx race_6)) ''a'' = Some \<lparr>Key = replicate 16 3, Host = ''h''\<rparr>"
  "closed (prx race_6) = []" "liveConns (prx race_6) = [(''a'', [7])]"
  by code_simp+

lemma race_swap: "cfg_valid rekeyed" "swapping race_2 = NoSwap"
  by code_simp+

lemma race_reachable: "(serve_step sample_opts)\<^sup>*\<^sup>* (initial_world fresh_proxy) race_6"
proof -
  have "serve_step sample_opts (initial_world fresh_proxy) race_1"
    unfolding race_1_def by (rule serve_step.start) (simp add: initial_world_def)
  moreover have "serve_step sample_opts race_1 race_2"
    unfolding race_2_def by (rule serve_step.handshake) (use race_facts(1-3) in simp_all)
  ultimately have before: "(serve_step sample_opts)\<^sup>*\<^sup>* (initial_world fresh_proxy) race_2" by (meson rtranclp.rtrancl_into_rtrancl rtranclp.rtrancl_refl)
  have "(serve_step sample_opts)\<^sup>*\<^sup>* race_2 race_3"
    unfolding race_3_def using swap_uninterrupted [of rekeyed race_2 sample_opts 2] race_swap
    by (simp add: sample_opts_def rekeyed_def cfg_ok_def)
  with before have "(serve_step sample_opts)\<^sup>*\<^sup>* (initial_world fresh_proxy) race_3" by (rule rtranclp_trans)
  moreover have "serve_step sample_opts race_3 race_4"
    unfolding race_4_def using race_facts(4,5) by (rule serve_step.gate)
  moreover have "serve_step sample_opts race_4 race_5"
    unfolding race_5_def using race_facts(6,7) by (rule serve_step.connect)
  moreover have "serve_step sample_opts race_5 race_6"
    unfolding race_6_def using race_facts(8,9) by (rule serve_step.reg)
  ultimately show ?thesis by (elim rtranclp.rtrancl_into_rtrancl [rotated]) simp
qed

lemma race_final:
  "matchedSecretKey (stream_7 race_6) \<notin> Key ` set (ss_secrets (secrets (prx race_6)))"
  "closed (snd (swapSecretConfigLocked (\<lambda>_. 0) 9 rekeyed (prx race_6))) = []"
  by code_simp+

subsection \<open>Properties\<close>

text \<open>C3. In every interleaving of streams, the steps of management mutations, quota resets and the throttle
  loop, the connection counter of each secret is the number of its streams between
  \<open>OnConnect\<close> and \<open>OnDisconnect\<close>, the registry holds exactly the registered streams under
  their secret's name, and the proxy's invariant holds.\<close>

theorem serve_counters_exact:
  assumes "world_ok p" "(serve_step opts)\<^sup>*\<^sup>* (initial_world p) w"
  shows "proxy_ok (prx w) \<and>
    (\<forall>n. connections (gm_get0 zero_stats (users (stats (prx w))) n) =
       i64 (int (card (with_stage {Counted, Registered, Unregistered} n w)))) \<and>
    (\<forall>n sc. live_under (prx w) n sc \<longleftrightarrow> sc \<in> with_stage {Registered} n w)"
  using serve.reachable_inv [OF assms(2)] assms(1) by (auto simp: world_inv_def)

theorem serve_counters_exact_witness:
  "connections (gm_get0 zero_stats (users (stats (prx race_6))) ''a'') =
     i64 (int (card (with_stage {Counted, Registered, Unregistered} ''a'' race_6)))"
  using serve_counters_exact [OF fresh_proxy_ok race_reachable] by simp

text \<open>C37. A stream can outlive the key it was admitted with: it matches the old key, the secret
  is re-keyed before the stream registers itself, and then it is registered and open
  although no active secret has its key. Swapping the same configuration in again does not
  close it either, since the key no longer changes.\<close>

theorem rekeyed_stream_survives:
  "\<exists>w c. (serve_step sample_opts)\<^sup>*\<^sup>* (initial_world fresh_proxy) w \<and>
     gm_get (streams w) 7 = Some c \<and> stage c = Registered \<and> 7 \<notin> set (closed (prx w)) \<and>
     matchedSecretKey c \<notin> Key ` set (ss_secrets (secrets (prx w))) \<and>
     7 \<notin> set (closed (snd (swapSecretConfigLocked (\<lambda>_. 0) 9 rekeyed (prx w))))"
  by (intro exI [of _ race_6] exI [of _ "stream_7 race_6"] conjI race_reachable race_facts(10,11) race_final(1))
    (simp_all only: race_facts(15) race_final(2) list.set empty_iff not_False_eq_True)

end
