(* ===== verification/Frame.thy ===== *)
theory Frame
  imports Prelude
begin

text \<open>
  The RPC transport frame and its AES-CBC channel,
  \<open>mtglib/internal/middleproxy/frame.go\<close>. A connection that is written is the list of
  bytes it got, one that is read the bytes it still delivers. \<open>crc32.ChecksumIEEE\<close> is
  computed bit by bit; the AES block functions are arguments, with the hypothesis that
  decryption inverts encryption on whole blocks where it is needed. The lemmas show
  that the reader gives back what the writer sent, frame by frame, that it accepts
  nothing but frames with the right sequence number and checksum, that the CBC
  channel is transparent whatever sizes are read, and that the frame reader on top of it
  reads the plaintext ahead.
\<close>

subsection \<open>CRC-32\<close>

definition crc32_bit :: "u32 \<Rightarrow> u32" where
  "crc32_bit c = (if bit c 0 then drop_bit 1 c XOR 0xEDB88320 else drop_bit 1 c)"

definition crc32_byte :: "byte \<Rightarrow> u32 \<Rightarrow> u32" where
  "crc32_byte b c = (crc32_bit ^^ 8) (c XOR ucast b)"

definition crc32_update :: "u32 \<Rightarrow> bytes \<Rightarrow> u32" where
  "crc32_update c bs = NOT (fold crc32_byte bs (NOT c))"

definition checksumIEEE :: "bytes \<Rightarrow> u32" where
  "checksumIEEE bs = crc32_update 0 bs"

subsection \<open>Frames\<close>

definition frameMinMessageLength :: u32 where
  "frameMinMessageLength = 12"

definition frameMaxMessageLength :: u32 where
  "frameMaxMessageLength = 16777216"

definition framePadding :: bytes where
  "framePadding = [0x04, 0x00, 0x00, 0x00]"

definition blockSize :: nat where
  "blockSize = 16"

text \<open>The sequence numbers are \<open>int32\<close>; only their bits matter.\<close>

record frameConn =
  readSeqNo :: u32
  writeSeqNo :: u32

definition newFrameConn :: "u32 \<Rightarrow> frameConn" where
  "newFrameConn seqNo = \<lparr>readSeqNo = seqNo, writeSeqNo = seqNo\<rparr>"

datatype frame_error =
    CannotReadLength
  | IncorrectMessageLength u32
  | CannotReadBody
  | UnexpectedSequenceNumber u32 u32
  | ChecksumMismatch u32 u32

definition frame_body :: "u32 \<Rightarrow> bytes \<Rightarrow> bytes" where
  "frame_body seqNo msg =
     (let buf = put_le32 (word_of_nat (4 + 4 + length msg + 4)) @ put_le32 seqNo @ msg
      in buf @ put_le32 (checksumIEEE buf))"

definition writePacket :: "bytes \<Rightarrow> frameConn \<Rightarrow> bytes \<times> frameConn" where
  "writePacket msg f =
     (let messageLength = 4 + 4 + length msg + 4;
          paddingLength = (blockSize - messageLength mod blockSize) mod blockSize
      in (frame_body (writeSeqNo f) msg @ concat (replicate (paddingLength div 4) framePadding),
          f\<lparr>writeSeqNo := writeSeqNo f + 1\<rparr>))"

text \<open>The loop that skips padding words; \<open>None\<close> when the stream ends.\<close>

fun skip_padding :: "bytes \<Rightarrow> (bytes \<times> bytes) option" where
  "skip_padding (a # b # c # d # rest) =
     (if [a, b, c, d] = framePadding then skip_padding rest else Some ([a, b, c, d], rest))"
| "skip_padding _ = None"

definition readPacket :: "frameConn \<Rightarrow> bytes \<Rightarrow> (frame_error + bytes \<times> bytes) \<times> frameConn" where
  "readPacket f raw =
     (case skip_padding raw of
        None \<Rightarrow> (Inl CannotReadLength, f)
      | Some (lenBuf, raw) \<Rightarrow>
          let messageLength = get_le32 lenBuf
          in if messageLength mod 4 \<noteq> 0 \<or> messageLength < frameMinMessageLength
                \<or> messageLength > frameMaxMessageLength
             then (Inl (IncorrectMessageLength messageLength), f)
             else case read_full (unat (messageLength - 4)) raw of
               None \<Rightarrow> (Inl CannotReadBody, f)
             | Some (rest, raw) \<Rightarrow>
                 let seqNo = get_le32 (take 4 rest)
                 in if seqNo \<noteq> readSeqNo f
                    then (Inl (UnexpectedSequenceNumber seqNo (readSeqNo f)), f)
                    else let msg = drop 4 (take (length rest - 4) rest);
                             checksum = get_le32 (drop (length rest - 4) rest);
                             got = crc32_update (crc32_update 0 lenBuf) (take (length rest - 4) rest)
                         in if got \<noteq> checksum then (Inl (ChecksumMismatch checksum got), f)
                            else (Inr (msg, raw), f\<lparr>readSeqNo := readSeqNo f + 1\<rparr>))"

subsection \<open>The CBC channel\<close>

type_synonym block_fun = "bytes \<Rightarrow> bytes"

text \<open>\<open>cipher.BlockMode\<close>: the chaining value and what \<open>CryptBlocks\<close> makes of whole blocks.\<close>

function cbc_encrypt :: "block_fun \<Rightarrow> bytes \<Rightarrow> bytes \<Rightarrow> bytes \<times> bytes" where
  "cbc_encrypt E iv p =
     (if p = [] then ([], iv)
      else let c = E (xor_bytes (take blockSize p) iv);
               (cs, iv') = cbc_encrypt E c (drop blockSize p)
           in (c @ cs, iv'))"
  by pat_completeness auto
termination
  by (relation "measure (\<lambda>(E, iv, p). length p)") (auto simp: blockSize_def)

declare cbc_encrypt.simps [simp del]

record cbcConn =
  cbc_raw :: bytes
  decIV :: bytes
  cbc_buf :: bytes

definition cbcConn_Write :: "block_fun \<Rightarrow> bytes \<Rightarrow> bytes \<Rightarrow> (bytes \<times> bytes) option" where
  "cbcConn_Write E iv p =
     (if length p mod blockSize \<noteq> 0 then None else Some (cbc_encrypt E iv p))"

definition cbcConn_Read :: "block_fun \<Rightarrow> nat \<Rightarrow> cbcConn \<Rightarrow> bytes option \<times> cbcConn" where
  "cbcConn_Read D plen c =
     (let refill =
            (if cbc_buf c = [] then
               case read_full blockSize (cbc_raw c) of
                 None \<Rightarrow> None
               | Some (block, raw) \<Rightarrow>
                   Some (c\<lparr>cbc_raw := raw, decIV := block, cbc_buf := xor_bytes (D block) (decIV c)\<rparr>)
             else Some c)
      in case refill of
           None \<Rightarrow> (None, c)
         | Some c \<Rightarrow> (Some (take plen (cbc_buf c)), c\<lparr>cbc_buf := drop plen (cbc_buf c)\<rparr>))"

text \<open>\<open>io.ReadFull\<close> on the channel: \<open>Read\<close> until \<open>n\<close> bytes are there. A \<open>Read\<close> that delivers
  nothing without an error does not occur with AES blocks and ends the loop here.\<close>

function cbc_ReadFull :: "block_fun \<Rightarrow> nat \<Rightarrow> cbcConn \<Rightarrow> bytes option \<times> cbcConn" where
  "cbc_ReadFull D n c =
     (if n = 0 then (Some [], c)
      else case cbcConn_Read D n c of
        (None, c) \<Rightarrow> (None, c)
      | (Some got, c) \<Rightarrow>
          if got = [] then (None, c)
          else case cbc_ReadFull D (n - length got) c of
                 (None, c) \<Rightarrow> (None, c)
               | (Some later, c) \<Rightarrow> (Some (got @ later), c))"
  by pat_completeness auto
termination
  by (relation "measure (\<lambda>(D, n, c). n)") auto

declare cbc_ReadFull.simps [simp del]

text \<open>A channel that is read gets shorter, which ends the loop over padding words below.\<close>

definition cbc_shorter :: "cbcConn \<Rightarrow> cbcConn \<Rightarrow> bool" where
  "cbc_shorter c' c \<longleftrightarrow>
     length (cbc_raw c') < length (cbc_raw c) \<or> (cbc_raw c' = cbc_raw c \<and> length (cbc_buf c') < length (cbc_buf c))"

lemma cbcConn_Read_shorter:
  assumes "cbcConn_Read D n c = (Some got, c')" "got \<noteq> []"
  shows "cbc_shorter c' c"
  using assms
  by (auto simp: cbcConn_Read_def cbc_shorter_def read_full_def blockSize_def Let_def split: if_splits option.splits)

lemma cbc_ReadFull_shorter: "cbc_ReadFull D n c = (Some got, c') \<Longrightarrow> 0 < n \<Longrightarrow> cbc_shorter c' c"
proof (induction n arbitrary: c got c' rule: less_induct)
  case (less n)
  then obtain x c1 where r: "cbcConn_Read D n c = (Some x, c1)" "x \<noteq> []"
    by (subst (asm) cbc_ReadFull.simps) (auto split: prod.splits option.splits if_splits)
  then obtain later where later: "cbc_ReadFull D (n - length x) c1 = (Some later, c')"
    using less.prems by (subst (asm) cbc_ReadFull.simps) (auto split: prod.splits option.splits)
  note s1 = cbcConn_Read_shorter [OF r]
  show ?case
  proof (cases "n - length x = 0")
    case True
    then have "c' = c1" using later by (simp add: cbc_ReadFull.simps)
    with s1 show ?thesis by simp
  next
    case False
    then have "cbc_shorter c' c1"
      using less.IH [OF _ later] r(2) less.prems(2) by simp
    with s1 show ?thesis by (auto simp: cbc_shorter_def)
  qed
qed

text \<open>\<open>readPacket\<close> on the channel: its loop, its two reads, and the checks of what was read.\<close>

function cbc_skip_padding :: "block_fun \<Rightarrow> cbcConn \<Rightarrow> bytes option \<times> cbcConn" where
  "cbc_skip_padding D c =
     (case cbc_ReadFull D 4 c of
        (None, c) \<Rightarrow> (None, c)
      | (Some lenBuf, c) \<Rightarrow> if lenBuf = framePadding then cbc_skip_padding D c else (Some lenBuf, c))"
  by pat_completeness auto
termination
  by (relation "measures [\<lambda>(D, c). length (cbc_raw c), \<lambda>(D, c). length (cbc_buf c)]")
    (auto dest!: cbc_ReadFull_shorter [OF sym] simp: cbc_shorter_def)

declare cbc_skip_padding.simps [simp del]

definition check_frame :: "frameConn \<Rightarrow> bytes \<Rightarrow> bytes \<Rightarrow> (frame_error + bytes) \<times> frameConn" where
  "check_frame f lenBuf rest =
     (let seqNo = get_le32 (take 4 rest)
      in if seqNo \<noteq> readSeqNo f
         then (Inl (UnexpectedSequenceNumber seqNo (readSeqNo f)), f)
         else let msg = drop 4 (take (length rest - 4) rest);
                  checksum = get_le32 (drop (length rest - 4) rest);
                  got = crc32_update (crc32_update 0 lenBuf) (take (length rest - 4) rest)
              in if got \<noteq> checksum then (Inl (ChecksumMismatch checksum got), f)
                 else (Inr msg, f\<lparr>readSeqNo := readSeqNo f + 1\<rparr>))"

definition cbc_readPacket :: "block_fun \<Rightarrow> frameConn \<Rightarrow> cbcConn \<Rightarrow> (frame_error + bytes) \<times> frameConn \<times> cbcConn" where
  "cbc_readPacket D f c =
     (case cbc_skip_padding D c of
        (None, c) \<Rightarrow> (Inl CannotReadLength, f, c)
      | (Some lenBuf, c) \<Rightarrow>
          let messageLength = get_le32 lenBuf
          in if messageLength mod 4 \<noteq> 0 \<or> messageLength < frameMinMessageLength
                \<or> messageLength > frameMaxMessageLength
             then (Inl (IncorrectMessageLength messageLength), f, c)
             else case cbc_ReadFull D (unat (messageLength - 4)) c of
               (None, c) \<Rightarrow> (Inl CannotReadBody, f, c)
             | (Some rest, c) \<Rightarrow> let (r, f) = check_frame f lenBuf rest in (r, f, c))"

text \<open>\<open>writePacket\<close> on the channel; \<open>None\<close> when the frame is not a number of whole blocks.\<close>

definition cbc_writePacket :: "block_fun \<Rightarrow> bytes \<Rightarrow> bytes \<Rightarrow> frameConn \<Rightarrow> (bytes \<times> bytes) option \<times> frameConn" where
  "cbc_writePacket E iv msg f = (let (b, f) = writePacket msg f in (cbcConn_Write E iv b, f))"

subsection \<open>Sessions\<close>

text \<open>A writer that sends several messages and a reader that expects as many.\<close>

fun write_all :: "bytes list \<Rightarrow> frameConn \<Rightarrow> bytes \<times> frameConn" where
  "write_all [] f = ([], f)"
| "write_all (m # ms) f =
     (let (b, f) = writePacket m f; (bs, f) = write_all ms f in (b @ bs, f))"

fun read_all :: "nat \<Rightarrow> frameConn \<Rightarrow> bytes \<Rightarrow> (frame_error + bytes list \<times> bytes) \<times> frameConn" where
  "read_all 0 f raw = (Inr ([], raw), f)"
| "read_all (Suc n) f raw =
     (case readPacket f raw of
        (Inl e, f) \<Rightarrow> (Inl e, f)
      | (Inr (m, raw), f) \<Rightarrow>
          (case read_all n f raw of
             (Inl e, f) \<Rightarrow> (Inl e, f)
           | (Inr (ms, raw), f) \<Rightarrow> (Inr (m # ms, raw), f)))"

fun cbc_write_all :: "block_fun \<Rightarrow> bytes list \<Rightarrow> bytes \<Rightarrow> frameConn \<Rightarrow> (bytes \<times> bytes \<times> frameConn) option" where
  "cbc_write_all E [] iv f = Some ([], iv, f)"
| "cbc_write_all E (m # ms) iv f =
     (case cbc_writePacket E iv m f of
        (None, f) \<Rightarrow> None
      | (Some (ct, iv), f) \<Rightarrow>
          (case cbc_write_all E ms iv f of
             None \<Rightarrow> None
           | Some (cts, iv, f) \<Rightarrow> Some (ct @ cts, iv, f)))"

fun cbc_read_all :: "block_fun \<Rightarrow> nat \<Rightarrow> frameConn \<Rightarrow> cbcConn \<Rightarrow> (frame_error + bytes list) \<times> frameConn \<times> cbcConn" where
  "cbc_read_all D 0 f c = (Inr [], f, c)"
| "cbc_read_all D (Suc n) f c =
     (case cbc_readPacket D f c of
        (Inl e, f, c) \<Rightarrow> (Inl e, f, c)
      | (Inr m, f, c) \<Rightarrow>
          (case cbc_read_all D n f c of
             (Inl e, f, c) \<Rightarrow> (Inl e, f, c)
           | (Inr ms, f, c) \<Rightarrow> (Inr (m # ms), f, c)))"

text \<open>What fits a frame: word aligned and short enough for the reader.\<close>

definition frameable :: "bytes \<Rightarrow> bool" where
  "frameable msg \<longleftrightarrow> length msg mod 4 = 0 \<and> length msg + 12 \<le> 16777216"

abbreviation paddings :: "nat \<Rightarrow> bytes" where
  "paddings k \<equiv> concat (replicate k framePadding)"

text \<open>The plaintext still to come on a CBC channel.\<close>

function cbc_decrypt :: "block_fun \<Rightarrow> bytes \<Rightarrow> bytes \<Rightarrow> bytes" where
  "cbc_decrypt D iv c =
     (if length c < blockSize then []
      else xor_bytes (D (take blockSize c)) iv @ cbc_decrypt D (take blockSize c) (drop blockSize c))"
  by pat_completeness auto
termination
  by (relation "measure (\<lambda>(D, iv, c). length c)") (auto simp: blockSize_def)

declare cbc_decrypt.simps [simp del]

definition plain_ahead :: "block_fun \<Rightarrow> cbcConn \<Rightarrow> bytes" where
  "plain_ahead D c = cbc_buf c @ cbc_decrypt D (decIV c) (cbc_raw c)"

subsection \<open>Reading what was written\<close>

lemma crc32_update_append: "crc32_update (crc32_update c a) b = crc32_update c (a @ b)"
  by (simp add: crc32_update_def)

lemma put_le32_inj: "put_le32 a = put_le32 b \<longleftrightarrow> a = b"
  using get_puts_nil(3) by metis

lemma put_le32_four: "framePadding = put_le32 4"
  unfolding framePadding_def put_le32_def by code_simp

lemma skip_paddings: "skip_padding (paddings k @ r) = skip_padding r"
  by (induction k) (simp_all add: framePadding_def)

lemma skip_padding_word:
  assumes "w \<noteq> 4"
  shows "skip_padding (put_le32 w @ r) = Some (put_le32 w, r)"
proof -
  obtain a b c d where w: "put_le32 w = [a, b, c, d]" by (simp add: put_le32_def)
  have "put_le32 w \<noteq> framePadding" using assms by (simp add: put_le32_four put_le32_inj)
  then show ?thesis by (simp add: w)
qed

lemma take_put_le32 [simp]: "take 4 (put_le32 w @ r) = put_le32 w" "drop 4 (put_le32 w @ r) = r"
  using length_puts(3) [of w] by simp_all

lemma readPacket_frame:
  assumes "frameable msg"
  shows "readPacket f (paddings k @ frame_body (readSeqNo f) msg @ r) =
    (Inr (msg, r), f\<lparr>readSeqNo := readSeqNo f + 1\<rparr>)"
proof -
  let ?n = "length msg + 12" and ?seq = "readSeqNo f"
  define w :: u32 where "w = word_of_nat ?n"
  have n: "?n \<le> 16777216" using assms by (simp add: frameable_def)
  have n4: "?n mod 4 = 0" using assms unfolding frameable_def by presburger
  have w: "unat w = ?n" unfolding w_def using n by (intro unat_u32_of_nat) simp
  have "w \<noteq> 4" using w by auto
  have ok: "\<not> (w mod 4 \<noteq> 0 \<or> w < frameMinMessageLength \<or> w > frameMaxMessageLength)"
    using n n4 w by (simp add: frameMinMessageLength_def frameMaxMessageLength_def word_less_nat_alt word_le_nat_alt
        unat_mod word_unat_eq_iff)
  have rest: "unat (w - 4) = length msg + 8"
    using w by (subst unat_sub) (simp_all add: word_le_nat_alt)
  define crc where "crc = checksumIEEE (put_le32 w @ put_le32 ?seq @ msg)"
  define body where "body = put_le32 ?seq @ msg @ put_le32 crc"
  have split: "frame_body ?seq msg @ r = put_le32 w @ body @ r"
    by (simp add: frame_body_def Let_def add.commute w_def body_def crc_def)
  have body: "length body = length msg + 8" "take 4 body = put_le32 ?seq" "take (4 + length msg) body = put_le32 ?seq @ msg"
      "drop (4 + length msg) body = put_le32 crc"
    by (simp_all add: body_def)
  have sum: "crc32_update (crc32_update 0 (put_le32 w)) (put_le32 ?seq @ msg) = crc"
    by (simp add: crc32_update_append checksumIEEE_def crc_def)
  have read: "read_full (length msg + 8) (body @ r) = Some (body, r)"
    using body(1) by (intro read_full_append_eq) simp
  show ?thesis
    unfolding split readPacket_def skip_paddings skip_padding_word [OF \<open>w \<noteq> 4\<close>]
    using ok by (simp add: rest read body sum Let_def)
qed

lemma writePacket_parts:
  "writePacket msg f = (frame_body (writeSeqNo f) msg @ paddings ((16 - (length msg + 12) mod 16) mod 16 div 4),
     f\<lparr>writeSeqNo := writeSeqNo f + 1\<rparr>)"
  by (simp add: writePacket_def blockSize_def Let_def add.commute)

lemma write_read_all:
  assumes "list_all frameable ms" "readSeqNo f = writeSeqNo g" "write_all ms g = (b, g')"
  shows "\<exists>j f'. read_all (length ms) f (paddings k @ b @ r) = (Inr (ms, paddings j @ r), f') \<and> readSeqNo f' = writeSeqNo g'"
  using assms
proof (induction ms arbitrary: f g b k)
  case Nil
  then show ?case by auto
next
  case (Cons m ms)
  let ?g = "g\<lparr>writeSeqNo := writeSeqNo g + 1\<rparr>"
  obtain b2 g2 where b2: "write_all ms ?g = (b2, g2)" by fastforce
  define j where "j = (16 - (length m + 12) mod 16) mod 16 div 4"
  have b: "b = frame_body (writeSeqNo g) m @ paddings j @ b2" "g' = g2"
    using Cons.prems(3) b2 by (simp_all add: writePacket_parts j_def)
  let ?f = "f\<lparr>readSeqNo := readSeqNo f + 1\<rparr>"
  have "readPacket f (paddings k @ b @ r) = (Inr (m, paddings j @ b2 @ r), ?f)"
    using readPacket_frame [of m f k "paddings j @ b2 @ r"] Cons.prems(1,2) by (simp add: b)
  moreover obtain j' f' where "read_all (length ms) ?f (paddings j @ b2 @ r) = (Inr (ms, paddings j' @ r), f')"
      "readSeqNo f' = writeSeqNo g2"
    using Cons.IH [of ?f ?g b2 j] Cons.prems b2 b(2) by auto
  ultimately show ?case using b(2) by auto
qed

lemma write_aligned:
  assumes "length msg mod 4 = 0"
  shows "length (fst (writePacket msg f)) mod 16 = 0"
proof -
  define n where "n = length msg + 12"
  have "n mod 4 = 0" using assms unfolding n_def by presburger
  then have "n mod 16 = 0 \<or> n mod 16 = 4 \<or> n mod 16 = 8 \<or> n mod 16 = 12" by presburger
  then have "(n + 4 * ((16 - n mod 16) mod 16 div 4)) mod 16 = 0"
    using mod_add_left_eq [of n 16 0] mod_add_left_eq [of n 16 12] mod_add_left_eq [of n 16 8]
      mod_add_left_eq [of n 16 4] by auto
  moreover have "length (paddings k) = 4 * k" for k
    by (induction k) (simp_all add: framePadding_def)
  ultimately show ?thesis
    by (simp add: writePacket_parts frame_body_def Let_def n_def algebra_simps)
qed

subsection \<open>What the reader accepts\<close>

lemma skip_padding_Some: "skip_padding raw = Some (l, r) \<Longrightarrow> \<exists>k. raw = paddings k @ l @ r \<and> length l = 4"
proof (induction raw rule: skip_padding.induct)
  case (1 a b c d rest)
  show ?case
  proof (cases "[a, b, c, d] = framePadding")
    case True
    then obtain k where "rest = paddings k @ l @ r" "length l = 4" using 1 by auto
    then have "a # b # c # d # rest = paddings (Suc k) @ l @ r" using True [symmetric] by simp
    then show ?thesis using \<open>length l = 4\<close> by blast
  next
    case False
    then show ?thesis using 1 by (intro exI [of _ 0]) auto
  qed
qed simp_all

lemma word_of_nat_unat_eq: "(word_of_nat (unat w) :: 'a::len word) = w"
  by (simp add: word_unat_eq_iff)

lemma put_get_le32: "length b = 4 \<Longrightarrow> put_le32 (get_le32 b) = b"
proof -
  assume "length b = 4"
  then obtain b0 b1 b2 b3 where b: "b = [b0, b1, b2, b3]"
    by (auto simp: length_Suc_conv eval_nat_numeral)
  show ?thesis
    unfolding b put_le32_def get_le32_def
    by (simp, intro conjI; rule bit_word_eqI; auto simp: bit_simps dest: bit_imp_le_length)
qed

subsection \<open>The channel\<close>

lemma cbc_decrypt_encrypt:
  assumes inv: "\<And>b. length b = blockSize \<Longrightarrow> length (E b) = blockSize \<and> D (E b) = b"
  shows "length iv = blockSize \<Longrightarrow> length p = blockSize * n \<Longrightarrow>
    cbc_decrypt D iv (fst (cbc_encrypt E iv p)) = p \<and> length (snd (cbc_encrypt E iv p)) = blockSize"
proof (induction n arbitrary: iv p)
  case 0
  then show ?case by (simp add: cbc_encrypt.simps cbc_decrypt.simps blockSize_def)
next
  case (Suc n)
  define c where "c = E (xor_bytes (take blockSize p) iv)"
  have len: "blockSize \<le> length p" "p \<noteq> []" using Suc.prems by (auto simp: blockSize_def)
  then have x: "length (xor_bytes (take blockSize p) iv) = blockSize" using Suc.prems(1) by simp
  have c: "length c = blockSize" "D c = xor_bytes (take blockSize p) iv"
    using inv [OF x] by (simp_all add: c_def)
  obtain cs iv' where rest: "cbc_encrypt E c (drop blockSize p) = (cs, iv')" by fastforce
  have IH: "cbc_decrypt D c cs = drop blockSize p" "length iv' = blockSize"
    using Suc.IH [OF c(1), of "drop blockSize p"] Suc.prems(2) rest by simp_all
  have enc: "cbc_encrypt E iv p = (c @ cs, iv')"
    using len rest by (subst cbc_encrypt.simps) (simp add: c_def)
  have "cbc_decrypt D iv (c @ cs) = xor_bytes (D c) iv @ cbc_decrypt D c cs"
    using c(1) by (subst cbc_decrypt.simps) simp
  also have "\<dots> = p" using IH(1) c(2) xor_bytes_twice [of "take blockSize p" iv] len Suc.prems(1) by simp
  finally show ?case by (simp add: enc IH(2))
qed

text \<open>One \<open>Read\<close> delivers the front of the plaintext ahead and at least one byte of it.\<close>

lemma cbc_Read_ahead:
  assumes inv: "\<And>b. length b = blockSize \<Longrightarrow> length (D b) = blockSize"
    and iv: "length (decIV c) = blockSize" and n: "0 < n" and ahead: "plain_ahead D c \<noteq> []"
  shows "\<exists>got c'. cbcConn_Read D n c = (Some got, c') \<and> got \<noteq> [] \<and> length got \<le> n \<and>
    plain_ahead D c = got @ plain_ahead D c' \<and> length (decIV c') = blockSize"
proof (cases "cbc_buf c = []")
  case False
  then show ?thesis using n iv by (auto simp: cbcConn_Read_def plain_ahead_def)
next
  case True
  have raw: "blockSize \<le> length (cbc_raw c)"
  proof (rule ccontr)
    assume "\<not> blockSize \<le> length (cbc_raw c)"
    then have "cbc_decrypt D (decIV c) (cbc_raw c) = []" by (subst cbc_decrypt.simps) simp
    then show False using ahead True by (simp add: plain_ahead_def)
  qed
  define block where "block = take blockSize (cbc_raw c)"
  define buf where "buf = xor_bytes (D block) (decIV c)"
  have buf: "length buf = blockSize" using inv [of block] raw iv by (simp add: buf_def block_def)
  have "plain_ahead D c = buf @ cbc_decrypt D block (drop blockSize (cbc_raw c))"
    using True raw by (simp add: plain_ahead_def, subst cbc_decrypt.simps) (simp add: buf_def block_def)
  moreover have "cbcConn_Read D n c = (Some (take n buf),
      c\<lparr>cbc_raw := drop blockSize (cbc_raw c), decIV := block, cbc_buf := drop n buf\<rparr>)"
    using True raw by (simp add: cbcConn_Read_def read_full_def buf_def block_def)
  moreover have "buf \<noteq> []" using buf by (auto simp: blockSize_def)
  ultimately show ?thesis using n raw by (auto simp: plain_ahead_def block_def)
qed

lemma cbc_ReadFull_ahead:
  assumes inv: "\<And>b. length b = blockSize \<Longrightarrow> length (D b) = blockSize"
  shows "length (decIV c) = blockSize \<Longrightarrow> n \<le> length (plain_ahead D c) \<Longrightarrow>
    \<exists>c'. cbc_ReadFull D n c = (Some (take n (plain_ahead D c)), c') \<and>
      plain_ahead D c' = drop n (plain_ahead D c) \<and> length (decIV c') = blockSize"
proof (induction n arbitrary: c rule: less_induct)
  case (less n)
  show ?case
  proof (cases "n = 0")
    case False
    then have ne: "plain_ahead D c \<noteq> []" using less.prems(2) by auto
    obtain got c1 where r: "cbcConn_Read D n c = (Some got, c1)" "got \<noteq> []" "length got \<le> n"
        "plain_ahead D c = got @ plain_ahead D c1" "length (decIV c1) = blockSize"
      using cbc_Read_ahead [of D c n, OF inv less.prems(1) _ ne] False by auto
    have "length (plain_ahead D c) = length got + length (plain_ahead D c1)" "0 < length got"
      using r(2,4) by simp_all
    then have "n - length got < n" "n - length got \<le> length (plain_ahead D c1)"
      using less.prems(2) False by linarith+
    then obtain c2 where "cbc_ReadFull D (n - length got) c1 = (Some (take (n - length got) (plain_ahead D c1)), c2)"
        "plain_ahead D c2 = drop (n - length got) (plain_ahead D c1)" "length (decIV c2) = blockSize"
      using less.IH [of "n - length got" c1] r(5) by blast
    then show ?thesis using r False by (subst cbc_ReadFull.simps) auto
  qed (simp add: cbc_ReadFull.simps less.prems(1))
qed

lemma cbc_ReadFull_short:
  assumes inv: "\<And>b. length b = blockSize \<Longrightarrow> length (D b) = blockSize"
  shows "length (decIV c) = blockSize \<Longrightarrow> length (plain_ahead D c) < n \<Longrightarrow> fst (cbc_ReadFull D n c) = None"
proof (induction n arbitrary: c rule: less_induct)
  case (less n)
  show ?case
  proof (cases "plain_ahead D c = []")
    case True
    then have "cbc_buf c = []" "cbc_decrypt D (decIV c) (cbc_raw c) = []" by (simp_all add: plain_ahead_def)
    moreover from this(2) have "length (cbc_raw c) < blockSize"
      using less.prems(1) inv [of "take blockSize (cbc_raw c)"]
      by (subst (asm) cbc_decrypt.simps) (auto simp: blockSize_def not_less dest: arg_cong [of _ _ length] split: if_splits)
    ultimately show ?thesis using less.prems(2)
      by (subst cbc_ReadFull.simps) (simp add: cbcConn_Read_def read_full_def)
  next
    case False
    obtain got c1 where r: "cbcConn_Read D n c = (Some got, c1)" "got \<noteq> []" "length got \<le> n"
        "plain_ahead D c = got @ plain_ahead D c1" "length (decIV c1) = blockSize"
      using cbc_Read_ahead [of D c n, OF inv less.prems(1) _ False] less.prems(2) by auto
    have "length (plain_ahead D c) = length got + length (plain_ahead D c1)" "0 < length got" using r(2,4) by simp_all
    then have "fst (cbc_ReadFull D (n - length got) c1) = None"
      using less.prems(2) r(5) by (intro less.IH) linarith+
    then show ?thesis using r(1,2) less.prems(2)
      by (subst cbc_ReadFull.simps) (auto split: prod.splits option.splits)
  qed
qed

text \<open>The frame reader on the channel is the frame reader on the plaintext ahead.\<close>

lemma skip_padding_short: "length raw < 4 \<Longrightarrow> skip_padding raw = None"
  by (induction raw rule: skip_padding.induct) auto

lemma skip_padding_eq:
  "4 \<le> length raw \<Longrightarrow>
   skip_padding raw = (if take 4 raw = framePadding then skip_padding (drop 4 raw) else Some (take 4 raw, drop 4 raw))"
  by (induction raw rule: skip_padding.induct) auto

lemma cbc_skip_padding_ahead:
  assumes inv: "\<And>b. length b = blockSize \<Longrightarrow> length (D b) = blockSize"
  shows "length (decIV c) = blockSize \<Longrightarrow>
    case skip_padding (plain_ahead D c) of
      None \<Rightarrow> fst (cbc_skip_padding D c) = None
    | Some (l, r) \<Rightarrow> \<exists>c'. cbc_skip_padding D c = (Some l, c') \<and> plain_ahead D c' = r \<and> length (decIV c') = blockSize"
proof (induction "length (plain_ahead D c)" arbitrary: c rule: less_induct)
  case less
  show ?case
  proof (cases "4 \<le> length (plain_ahead D c)")
    case False
    then have "fst (cbc_ReadFull D 4 c) = None" by (intro cbc_ReadFull_short [OF inv less.prems]) simp_all
    with False show ?thesis
      by (subst cbc_skip_padding.simps) (auto simp: skip_padding_short split: prod.splits option.splits)
  next
    case True
    from cbc_ReadFull_ahead [of D, OF inv less.prems True] obtain c1 where
      c1: "cbc_ReadFull D 4 c = (Some (take 4 (plain_ahead D c)), c1)" "plain_ahead D c1 = drop 4 (plain_ahead D c)"
        "length (decIV c1) = blockSize" by blast
    have "length (plain_ahead D c1) < length (plain_ahead D c)" using c1(2) True by simp
    note IH = less.hyps [OF this c1(3)]
    have "cbc_skip_padding D c = (if take 4 (plain_ahead D c) = framePadding then cbc_skip_padding D c1
        else (Some (take 4 (plain_ahead D c)), c1))"
      using c1(1) by (subst cbc_skip_padding.simps) simp
    then show ?thesis
      using IH c1(2,3) skip_padding_eq [OF True] by (auto split: option.splits)
  qed
qed

lemma readPacket_check:
  "readPacket f raw =
     (case skip_padding raw of
        None \<Rightarrow> (Inl CannotReadLength, f)
      | Some (lenBuf, raw) \<Rightarrow>
          let messageLength = get_le32 lenBuf
          in if messageLength mod 4 \<noteq> 0 \<or> messageLength < frameMinMessageLength
                \<or> messageLength > frameMaxMessageLength
             then (Inl (IncorrectMessageLength messageLength), f)
             else case read_full (unat (messageLength - 4)) raw of
               None \<Rightarrow> (Inl CannotReadBody, f)
             | Some (rest, raw) \<Rightarrow> (case check_frame f lenBuf rest of (r, f) \<Rightarrow> (map_sum id (\<lambda>msg. (msg, raw)) r, f)))"
  by (simp add: readPacket_def check_frame_def Let_def split: option.split prod.split)

lemma cbc_readPacket_ahead:
  assumes inv: "\<And>b. length b = blockSize \<Longrightarrow> length (D b) = blockSize" and iv: "length (decIV c) = blockSize"
  shows "case readPacket f (plain_ahead D c) of
      (Inl e, f') \<Rightarrow> \<exists>c'. cbc_readPacket D f c = (Inl e, f', c')
    | (Inr (msg, rest), f') \<Rightarrow>
        \<exists>c'. cbc_readPacket D f c = (Inr msg, f', c') \<and> plain_ahead D c' = rest \<and> length (decIV c') = blockSize"
proof (cases "skip_padding (plain_ahead D c)")
  case None
  then obtain c1 where "cbc_skip_padding D c = (None, c1)"
    using cbc_skip_padding_ahead [of D, OF inv iv] by (cases "cbc_skip_padding D c") auto
  then show ?thesis by (simp add: None readPacket_check cbc_readPacket_def)
next
  case (Some lr)
  obtain l r where lr: "lr = (l, r)" by (cases lr)
  obtain c1 where c1: "cbc_skip_padding D c = (Some l, c1)" "plain_ahead D c1 = r" "length (decIV c1) = blockSize"
    using cbc_skip_padding_ahead [of D, OF inv iv] Some lr by auto
  let ?n = "unat (get_le32 l - 4)"
  show ?thesis
  proof (cases "?n \<le> length r")
    case True
    with cbc_ReadFull_ahead [of D c1 ?n, OF inv c1(3)] c1(2) obtain c2 where
      "cbc_ReadFull D ?n c1 = (Some (take ?n r), c2)" "plain_ahead D c2 = drop ?n r" "length (decIV c2) = blockSize" by auto
    with True Some lr c1 show ?thesis
      by (cases "check_frame f l (take ?n r)"; cases "fst (check_frame f l (take ?n r))")
        (auto simp: readPacket_check cbc_readPacket_def read_full_def Let_def)
  next
    case False
    with cbc_ReadFull_short [of D c1 ?n, OF inv c1(3)] c1(2) obtain c2 where
      "cbc_ReadFull D ?n c1 = (None, c2)" by (cases "cbc_ReadFull D ?n c1") auto
    with False Some lr c1 show ?thesis
      by (auto simp: readPacket_check cbc_readPacket_def read_full_def Let_def)
  qed
qed

lemma cbc_read_all_ahead:
  assumes inv: "\<And>b. length b = blockSize \<Longrightarrow> length (D b) = blockSize"
  shows "length (decIV c) = blockSize \<Longrightarrow> read_all n f (plain_ahead D c) = (Inr (ms, rest), f') \<Longrightarrow>
    \<exists>c'. cbc_read_all D n f c = (Inr ms, f', c') \<and> plain_ahead D c' = rest \<and> length (decIV c') = blockSize"
proof (induction n arbitrary: f c ms)
  case (Suc n)
  obtain m raw f1 ms' where m: "readPacket f (plain_ahead D c) = (Inr (m, raw), f1)" "read_all n f1 raw = (Inr (ms', rest), f')"
      "ms = m # ms'"
    using Suc.prems(2) by (auto split: prod.splits sum.splits)
  then obtain c1 where c1: "cbc_readPacket D f c = (Inr m, f1, c1)" "plain_ahead D c1 = raw" "length (decIV c1) = blockSize"
    using cbc_readPacket_ahead [of D c f, OF inv Suc.prems(1)] by auto
  then obtain c2 where "cbc_read_all D n f1 c1 = (Inr ms', f', c2)" "plain_ahead D c2 = rest" "length (decIV c2) = blockSize"
    using Suc.IH [of c1 f1 ms'] m(2) by auto
  with c1 m(3) show ?case by auto
qed simp

text \<open>Several writes on the channel are one: the chaining value carries over whole blocks.\<close>

lemma cbc_encrypt_append:
  "length p = blockSize * n \<Longrightarrow>
   cbc_encrypt E iv (p @ q) =
     (fst (cbc_encrypt E iv p) @ fst (cbc_encrypt E (snd (cbc_encrypt E iv p)) q), snd (cbc_encrypt E (snd (cbc_encrypt E iv p)) q))"
proof (induction n arbitrary: iv p)
  case 0
  then show ?case by (simp add: cbc_encrypt.simps [of E iv "[]"])
next
  case (Suc n)
  then have p: "blockSize \<le> length p" "p \<noteq> []" by (auto simp: blockSize_def)
  define c where "c = E (xor_bytes (take blockSize p) iv)"
  have "length (drop blockSize p) = blockSize * n" using Suc.prems by simp
  note IH = Suc.IH [OF this, of c]
  have one: "cbc_encrypt E iv (p @ r) =
      (c @ fst (cbc_encrypt E c (drop blockSize p @ r)), snd (cbc_encrypt E c (drop blockSize p @ r)))" for r
    using p by (subst cbc_encrypt.simps) (simp add: c_def case_prod_beta Let_def)
  show ?case using one [of q] one [of "[]"] IH by simp
qed

lemma write_blocks:
  assumes "frameable m"
  shows "\<exists>n. length (fst (writePacket m f)) = blockSize * n"
proof -
  have "length (fst (writePacket m f)) mod 16 = 0" using assms by (intro write_aligned) (simp add: frameable_def)
  then have "length (fst (writePacket m f)) = blockSize * (length (fst (writePacket m f)) div blockSize)"
    by (simp add: blockSize_def mod_0_imp_dvd)
  then show ?thesis by blast
qed

lemma write_all_blocks: "list_all frameable ms \<Longrightarrow> \<exists>n. length (fst (write_all ms f)) = blockSize * n"
proof (induction ms arbitrary: f)
  case (Cons m ms)
  obtain b g where b: "writePacket m f = (b, g)" by fastforce
  obtain k n where "length b = blockSize * k" "length (fst (write_all ms g)) = blockSize * n"
    using write_blocks [of m f] Cons.IH [of g] Cons.prems b by auto
  then have "length (fst (write_all (m # ms) f)) = blockSize * (k + n)"
    using b by (simp add: case_prod_beta algebra_simps)
  then show ?case by blast
qed simp

lemma cbc_write_all_encrypt:
  "list_all frameable ms \<Longrightarrow>
   cbc_write_all E ms iv f = Some (fst (cbc_encrypt E iv (fst (write_all ms f))), snd (cbc_encrypt E iv (fst (write_all ms f))), snd (write_all ms f))"
proof (induction ms arbitrary: iv f)
  case Nil
  then show ?case by (simp add: cbc_encrypt.simps)
next
  case (Cons m ms)
  obtain b g where b: "writePacket m f = (b, g)" by fastforce
  obtain n where n: "length b = blockSize * n" using write_blocks [of m f] Cons.prems b by auto
  then have "cbc_writePacket E iv m f = (Some (cbc_encrypt E iv b), g)"
    by (simp add: cbc_writePacket_def b cbcConn_Write_def)
  moreover have "fst (write_all (m # ms) f) = b @ fst (write_all ms g)" "snd (write_all (m # ms) f) = snd (write_all ms g)"
    using b by (simp_all add: case_prod_beta)
  ultimately show ?case
    using Cons cbc_encrypt_append [OF n, of E iv "fst (write_all ms g)"] by (simp add: case_prod_beta split: prod.split)
qed

text \<open>A session over the channel: what one side writes, the other one reads.\<close>

lemma cbc_session:
  assumes "\<And>b. length b = blockSize \<Longrightarrow> length (E b) = blockSize \<and> D (E b) = b"
    and inv: "\<And>b. length b = blockSize \<Longrightarrow> length (D b) = blockSize"
    and "list_all frameable ms" "readSeqNo f = writeSeqNo g" "length iv = blockSize"
  shows "\<exists>f' c'. cbc_read_all D (length ms) f \<lparr>cbc_raw = fst (cbc_encrypt E iv (fst (write_all ms g))), decIV = iv, cbc_buf = []\<rparr> = (Inr ms, f', c')"
proof -
  let ?c = "\<lparr>cbc_raw = fst (cbc_encrypt E iv (fst (write_all ms g))), decIV = iv, cbc_buf = []\<rparr>"
  obtain n where n: "length (fst (write_all ms g)) = blockSize * n" using write_all_blocks [OF assms(3)] by blast
  have plain: "plain_ahead D ?c = fst (write_all ms g)"
    using cbc_decrypt_encrypt [of E D, OF assms(1) assms(5) n] by (simp add: plain_ahead_def)
  obtain b g' where b: "write_all ms g = (b, g')" by fastforce
  obtain j f' where "read_all (length ms) f (plain_ahead D ?c) = (Inr (ms, paddings j), f')"
    using write_read_all [OF assms(3,4) b, of 0 "[]"] plain b by auto
  from cbc_read_all_ahead [of D, OF inv _ this] assms(5) show ?thesis by fastforce
qed

subsection \<open>Properties\<close>

text \<open>C11. The frame layer is a faithful channel: a reader whose sequence number matches the
  writer's reads back exactly the messages written, in order, whatever padding precedes
  them, leaves only padding before whatever follows, and ends with a matching sequence
  number again. Every frame is a whole number of cipher blocks, so the CBC writer accepts
  it.\<close>

theorem frame_session:
  assumes "list_all frameable ms" "readSeqNo f = writeSeqNo g"
  shows "\<exists>j f'. read_all (length ms) f (paddings k @ fst (write_all ms g) @ r) = (Inr (ms, paddings j @ r), f') \<and>
      readSeqNo f' = writeSeqNo (snd (write_all ms g)) \<and>
      (\<forall>m g'. frameable m \<longrightarrow> cbcConn_Write E iv (fst (writePacket m g')) \<noteq> None)"
proof -
  obtain b g' where w: "write_all ms g = (b, g')" by fastforce
  have "cbcConn_Write E iv (fst (writePacket m h)) \<noteq> None" if "frameable m" for m h
    using that write_aligned [of m h] by (simp add: frameable_def cbcConn_Write_def blockSize_def)
  then show ?thesis using write_read_all [OF assms w, of k r] w by auto
qed

theorem frame_session_witness:
  "\<exists>j f'. read_all (Suc (Suc 0)) (newFrameConn (- 2)) (fst (write_all [[1, 2, 3, 4], []] (newFrameConn (- 2))) @ [9]) =
     (Inr ([[1, 2, 3, 4], []], paddings j @ [9]), f')"
  using frame_session [of "[[1, 2, 3, 4], []]" "newFrameConn (- 2)" "newFrameConn (- 2)" 0 "[9]" id "[]"]
  by (auto simp: frameable_def newFrameConn_def simp del: read_all.simps write_all.simps)

text \<open>The reader accepts nothing else: when it returns a message, the stream started with
  padding words followed by a frame that carries exactly that message, the expected
  sequence number and the right checksum, of a length within the bounds, and precisely
  that frame was consumed. On an error the expected sequence number does not move.\<close>

lemma readPacket_sound:
  assumes "readPacket f raw = (res, f')"
  shows "case res of Inl e \<Rightarrow> f' = f
    | Inr (msg, rest) \<Rightarrow> (\<exists>k. raw = paddings k @ frame_body (readSeqNo f) msg @ rest) \<and> frameable msg \<and>
        f' = f\<lparr>readSeqNo := readSeqNo f + 1\<rparr>"
proof (cases res)
  case (Inl e)
  then show ?thesis using assms
    by (auto simp: readPacket_def Let_def split: option.splits if_splits)
next
  case (Inr mr)
  obtain msg rest where mr: "mr = (msg, rest)" by (cases mr)
  obtain l r1 body where l: "skip_padding raw = Some (l, r1)"
    and len: "4 dvd get_le32 l" "frameMinMessageLength \<le> get_le32 l" "get_le32 l \<le> frameMaxMessageLength"
    and body: "read_full (unat (get_le32 l - 4)) r1 = Some (body, rest)"
    and seq: "get_le32 (take 4 body) = readSeqNo f"
    and msg: "msg = drop 4 (take (length body - 4) body)"
    and crc: "crc32_update (crc32_update 0 l) (take (length body - 4) body) = get_le32 (drop (length body - 4) body)"
    and f': "f' = f\<lparr>readSeqNo := readSeqNo f + 1\<rparr>"
    using assms unfolding Inr mr
    by (auto simp: readPacket_def Let_def not_less split: option.splits if_splits)
  obtain k where k: "raw = paddings k @ l @ r1" "length l = 4" using skip_padding_Some [OF l] by blast
  have "4 dvd unat (get_le32 l)"
    using len(1) exp_dvd_iff_exp_udvd [of 2 "get_le32 l"] udvd_iff_dvd [of 4 "get_le32 l"] by simp
  then have n: "unat (get_le32 l) mod 4 = 0" "12 \<le> unat (get_le32 l)" "unat (get_le32 l) \<le> 16777216"
    using len(2,3) by (simp_all add: frameMinMessageLength_def frameMaxMessageLength_def word_le_nat_alt)
  have blen: "length body = unat (get_le32 l) - 4" "r1 = body @ rest"
    using body n(2) by (auto simp: read_full_Some unat_sub word_le_nat_alt)
  define m where "m = length body - 4"
  have m: "4 \<le> m" "m + 4 = length body" using blen(1) n(2) by (simp_all add: m_def)
  have front: "take m body = take 4 body @ msg"
    using append_take_drop_id [of 4 "take m body"] m(1) by (simp add: msg m_def [symmetric])
  have lmsg: "length msg + 12 = unat (get_le32 l)" using m blen(1) n(2) by (simp add: msg m_def [symmetric])
  have words: "put_le32 (word_of_nat (4 + 4 + length msg + 4)) = l" "put_le32 (readSeqNo f) = take 4 body"
      "put_le32 (checksumIEEE (l @ take 4 body @ msg)) = drop m body"
  proof -
    have "4 + 4 + length msg + 4 = unat (get_le32 l)" using lmsg by simp
    then have "word_of_nat (4 + 4 + length msg + 4) = get_le32 l" by (simp only: word_of_nat_unat_eq)
    then show "put_le32 (word_of_nat (4 + 4 + length msg + 4)) = l" using put_get_le32 [OF k(2)] by simp
    show "put_le32 (readSeqNo f) = take 4 body" using seq put_get_le32 [of "take 4 body"] m by simp
    have "checksumIEEE (l @ take 4 body @ msg) = get_le32 (drop m body)"
      using crc by (simp add: checksumIEEE_def crc32_update_append m_def [symmetric] front)
    then show "put_le32 (checksumIEEE (l @ take 4 body @ msg)) = drop m body"
      using put_get_le32 [of "drop m body"] m by simp
  qed
  have "frame_body (readSeqNo f) msg = l @ body"
    using append_take_drop_id [of m body] unfolding frame_body_def Let_def words front by simp
  moreover have "frameable msg" using lmsg n unfolding frameable_def by presburger
  ultimately show ?thesis using Inr mr f' k blen by auto
qed

text \<open>The CBC channel is transparent: for a block cipher whose decryption inverts its
  encryption, the receiver reads from the ciphertext of block-aligned plaintext exactly
  that plaintext, in pieces of any sizes, and every such read returns.\<close>

lemma cbc_transparent:
  assumes "\<And>b. length b = blockSize \<Longrightarrow> length (E b) = blockSize \<and> D (E b) = b"
    and "\<And>b. length b = blockSize \<Longrightarrow> length (D b) = blockSize"
    and "length iv = blockSize" "length p = blockSize * k" "n + m \<le> length p"
  shows "\<exists>ct iv' c1 c2. cbcConn_Write E iv p = Some (ct, iv') \<and> length iv' = blockSize \<and>
    cbc_ReadFull D n \<lparr>cbc_raw = ct, decIV = iv, cbc_buf = []\<rparr> = (Some (take n p), c1) \<and>
    cbc_ReadFull D m c1 = (Some (take m (drop n p)), c2)"
proof -
  obtain ct iv' where ct: "cbc_encrypt E iv p = (ct, iv')" by fastforce
  have dec: "cbc_decrypt D iv ct = p" "length iv' = blockSize"
    using cbc_decrypt_encrypt [of E D, OF assms(1) assms(3,4)] ct by simp_all
  define c where "c = \<lparr>cbc_raw = ct, decIV = iv, cbc_buf = []\<rparr>"
  have c: "plain_ahead D c = p" "length (decIV c) = blockSize"
    using dec(1) assms(3) by (simp_all add: plain_ahead_def c_def)
  obtain c1 where c1: "cbc_ReadFull D n c = (Some (take n p), c1)" "plain_ahead D c1 = drop n p"
      "length (decIV c1) = blockSize"
    using cbc_ReadFull_ahead [of D, OF assms(2) c(2), of n] c(1) assms(5) by auto
  obtain c2 where "cbc_ReadFull D m c1 = (Some (take m (drop n p)), c2)"
    using cbc_ReadFull_ahead [of D, OF assms(2) c1(3), of m] c1(2) le_diff_conv2 [of n "length p" m] assms(5)
    by (auto simp: add.commute)
  then show ?thesis
    using ct dec(2) c1(1) assms(4) by (auto simp: cbcConn_Write_def c_def)
qed

end
