(* ===== verification/NetAddr.thy ===== *)
theory NetAddr
  imports Prelude
begin

text \<open>
  What the repository uses of Go's \<open>net\<close> package: IP addresses as byte slices with
  \<open>To4\<close> and \<open>To16\<close>, and TCP addresses.
\<close>

type_synonym ip = bytes

record tcpAddr =
  IP :: ip
  Port :: int

definition v4InV6Prefix :: bytes where
  "v4InV6Prefix = replicate 10 0 @ [0xff, 0xff]"

definition ip_To4 :: "ip \<Rightarrow> ip option" where
  "ip_To4 a =
     (if length a = 4 then Some a
      else if length a = 16 \<and> take 12 a = v4InV6Prefix then Some (drop 12 a)
      else None)"

text \<open>A \<open>nil\<close> result of \<open>To16\<close> is the empty slice.\<close>

definition ip_To16 :: "ip \<Rightarrow> ip" where
  "ip_To16 a = (if length a = 4 then v4InV6Prefix @ a else if length a = 16 then a else [])"

text \<open>\<open>uint16(n)\<close> and \<open>uint32(n)\<close> of an \<open>int\<close>.\<close>

definition u16_of_int :: "int \<Rightarrow> u16" where
  "u16_of_int n = word_of_int n"

definition u32_of_int :: "int \<Rightarrow> u32" where
  "u32_of_int n = word_of_int n"

lemma length_v4InV6Prefix [simp]: "length v4InV6Prefix = 12"
  by (simp add: v4InV6Prefix_def)

lemma ip_To4_length: "ip_To4 a = Some b \<Longrightarrow> length b = 4"
  by (auto simp: ip_To4_def split: if_splits)

lemma ip_To16_length: "length a = 4 \<or> length a = 16 \<Longrightarrow> length (ip_To16 a) = 16"
  by (auto simp: ip_To16_def)

lemma ip_To4_To16: "length a = 4 \<Longrightarrow> ip_To4 (ip_To16 a) = Some a"
  by (simp add: ip_To4_def ip_To16_def)

end
