(* ===== verification/MiddleProxy.thy ===== *)
theory MiddleProxy
  imports Frame NetAddr
begin

text \<open>
  The client side of Telegram's middle proxy protocol: the RPC tags, the nonce and
  handshake exchange, the key schedule and the stream adapter of
  \<open>mtglib/internal/middleproxy/{tags,handshake,cipher,stream}.go\<close>. MD5, SHA-1 and the AES
  block functions are arguments. The lemmas show that the exchange completes with a
  conforming peer, that the adapter repackages the client's stream the same way however
  it is cut into writes, and that every request it emits fits a frame.
\<close>

subsection \<open>Tags\<close>

definition tagNonce :: bytes where "tagNonce = [0xaa, 0x87, 0xcb, 0x7a]"
definition tagHandshake :: bytes where "tagHandshake = [0xf5, 0xee, 0x82, 0x76]"
definition tagProxyRequest :: bytes where "tagProxyRequest = [0xee, 0xf1, 0xce, 0x36]"
definition tagProxyAns :: bytes where "tagProxyAns = [0x0d, 0xda, 0x03, 0x44]"
definition tagSimpleAck :: bytes where "tagSimpleAck = [0x9b, 0x40, 0xac, 0x3b]"
definition tagCloseExt :: bytes where "tagCloseExt = [0xa2, 0x34, 0xb6, 0x5e]"
definition nonceCryptoAES :: bytes where "nonceCryptoAES = [0x01, 0x00, 0x00, 0x00]"
definition handshakeFlags :: bytes where "handshakeFlags = [0x00, 0x00, 0x00, 0x00]"
definition proxyRequestExtraSize :: bytes where "proxyRequestExtraSize = [0x18, 0x00, 0x00, 0x00]"
definition proxyRequestProxyTag :: bytes where "proxyRequestProxyTag = [0xae, 0x26, 0x1e, 0xdb]"
definition handshakePID :: bytes where "handshakePID = bytes_of_string ''IPIPPRPDTIME''"

definition flagHasAdTag :: u32 where "flagHasAdTag = 0x8"
definition flagEncrypted :: u32 where "flagEncrypted = 0x2"
definition flagMagic :: u32 where "flagMagic = 0x1000"
definition flagExtMode2 :: u32 where "flagExtMode2 = 0x20000"
definition flagIntermediate :: u32 where "flagIntermediate = 0x20000000"
definition flagQuickAck :: u32 where "flagQuickAck = 0x80000000"
definition flagPad :: u32 where "flagPad = 0x8000000"

definition seqNoNonce :: u32 where "seqNoNonce = - 2"
definition seqNoHandshake :: u32 where "seqNoHandshake = - 1"

definition adTagLength :: nat where "adTagLength = 16"

subsection \<open>Nonce and handshake messages\<close>

record nonceRequest =
  keySelector :: bytes
  cryptoTS :: bytes
  nonce :: bytes

record nonceResponse =
  respNonce :: bytes

text \<open>\<open>copy\<close> of a source into a destination byte_slice.\<close>

definition go_copy :: "bytes \<Rightarrow> bytes \<Rightarrow> bytes" where
  "go_copy dst src = take (length dst) src @ drop (length src) dst"

text \<open>The random nonce (16 bytes) and the clock (whole seconds of Unix time) are arguments.\<close>

definition newNonceRequest :: "bytes \<Rightarrow> int \<Rightarrow> bytes \<Rightarrow> nonceRequest" where
  "newNonceRequest rnd unix proxySecret =
     \<lparr>keySelector = go_copy (replicate 4 0) proxySecret,
      cryptoTS = put_le32 (word_of_int (unix mod 4294967296)),
      nonce = rnd\<rparr>"

definition nonceRequest_bytes :: "nonceRequest \<Rightarrow> bytes" where
  "nonceRequest_bytes r = tagNonce @ keySelector r @ nonceCryptoAES @ cryptoTS r @ nonce r"

definition byte_slice :: "nat \<Rightarrow> nat \<Rightarrow> bytes \<Rightarrow> bytes" where
  "byte_slice a b data = drop a (take b data)"

definition parseNonceResponse :: "bytes \<Rightarrow> nonceRequest \<Rightarrow> nonceResponse option" where
  "parseNonceResponse data req =
     (if length data \<noteq> 32 then None
      else if take 4 data \<noteq> tagNonce then None
      else if byte_slice 8 12 data \<noteq> nonceCryptoAES then None
      else if byte_slice 4 8 data \<noteq> keySelector req then None
      else Some \<lparr>respNonce = drop 16 data\<rparr>)"

definition handshakeRequestBytes :: bytes where
  "handshakeRequestBytes = tagHandshake @ handshakeFlags @ handshakePID @ handshakePID"

definition validateHandshakeResponse :: "bytes \<Rightarrow> bool" where
  "validateHandshakeResponse data \<longleftrightarrow>
     length data = 32 \<and> take 4 data = tagHandshake \<and> drop 20 data = handshakePID"

subsection \<open>The key schedule\<close>

datatype cipherPurpose = PurposeClient | PurposeServer

definition emptyIPv4 :: bytes where
  "emptyIPv4 = [0, 0, 0, 0]"

fun reverseBytes :: "bytes \<Rightarrow> bytes" where
  "reverseBytes [] = []"
| "reverseBytes (x # xs) = reverseBytes xs @ [x]"

definition key_message :: "cipherPurpose \<Rightarrow> nonceRequest \<Rightarrow> nonceResponse \<Rightarrow> tcpAddr \<Rightarrow> tcpAddr \<Rightarrow> bytes \<Rightarrow> bytes" where
  "key_message purpose req resp client remote secret =
     (let v4 = (ip_To4 (IP client) \<noteq> None);
          to4 = (\<lambda>a. case ip_To4 a of None \<Rightarrow> [] | Some b \<Rightarrow> b);
          clientIPv4 = (if v4 then reverseBytes (to4 (IP client)) else emptyIPv4);
          serverIPv4 = (if v4 then reverseBytes (to4 (IP remote)) else emptyIPv4)
      in respNonce resp @ nonce req @ cryptoTS req @ serverIPv4 @ put_le16 (u16_of_int (Port client)) @
         (case purpose of PurposeClient \<Rightarrow> bytes_of_string ''CLIENT'' | PurposeServer \<Rightarrow> bytes_of_string ''SERVER'') @
         clientIPv4 @ put_le16 (u16_of_int (Port remote)) @ secret @ respNonce resp @
         (if v4 then [] else ip_To16 (IP client) @ ip_To16 (IP remote)) @
         nonce req)"

definition deriveKey ::
    "(bytes \<Rightarrow> bytes) \<Rightarrow> (bytes \<Rightarrow> bytes) \<Rightarrow> cipherPurpose \<Rightarrow> nonceRequest \<Rightarrow> nonceResponse \<Rightarrow> tcpAddr \<Rightarrow> tcpAddr \<Rightarrow>
     bytes \<Rightarrow> bytes \<times> bytes" where
  "deriveKey md5 sha1 purpose req resp client remote secret =
     (let data = key_message purpose req resp client remote secret
      in (take 12 (md5 (drop 1 data)) @ sha1 data, md5 (drop 2 data)))"

text \<open>The primitives: hash functions and the AES block functions under a key.\<close>

record crypto =
  md5 :: "bytes \<Rightarrow> bytes"
  sha1 :: "bytes \<Rightarrow> bytes"
  aesEnc :: "bytes \<Rightarrow> block_fun"
  aesDec :: "bytes \<Rightarrow> block_fun"

text \<open>An encrypter or decrypter: its block function and its chaining value.\<close>

type_synonym cbc_mode = "block_fun \<times> bytes"

definition deriveCiphers ::
    "crypto \<Rightarrow> nonceRequest \<Rightarrow> nonceResponse \<Rightarrow> tcpAddr \<Rightarrow> tcpAddr \<Rightarrow> bytes \<Rightarrow> cbc_mode \<times> cbc_mode" where
  "deriveCiphers cr req resp local remote secret =
     (let (encKey, encIV) = deriveKey (md5 cr) (sha1 cr) PurposeClient req resp local remote secret;
          (decKey, decIV) = deriveKey (md5 cr) (sha1 cr) PurposeServer req resp local remote secret
      in ((aesEnc cr encKey, encIV), (aesDec cr decKey, decIV)))"

subsection \<open>The exchange\<close>

text \<open>The encrypted frame channel a handshake returns: the frame counters, the encrypter with
  its chaining value, the decrypter's block function, and the reading side of the CBC
  connection: what arrives, its chaining value and the decrypted bytes not taken yet.\<close>

record middleChannel =
  ch_frame :: frameConn
  ch_enc :: cbc_mode
  ch_dec :: block_fun
  ch_cbc :: cbcConn

datatype handshake_error =
    NonceFrameError frame_error
  | BadNonceResponse
  | HandshakeUnaligned
  | HandshakeFrameError frame_error
  | BadHandshakeResponse

text \<open>What arrives is \<open>incoming\<close>; the result also has what was sent. The second frame
  connection reads through the CBC connection, which starts where the nonce frame ends.\<close>

definition doHandshake ::
    "crypto \<Rightarrow> bytes \<Rightarrow> int \<Rightarrow> bytes \<Rightarrow> tcpAddr \<Rightarrow> tcpAddr \<Rightarrow> bytes \<Rightarrow> (handshake_error + middleChannel) \<times> bytes" where
  "doHandshake cr rnd unix secret local remote incoming =
     (let req = newNonceRequest rnd unix secret;
          (sent, rawFrame) = writePacket (nonceRequest_bytes req) (newFrameConn seqNoNonce)
      in case readPacket rawFrame incoming of
           (Inl e, _) \<Rightarrow> (Inl (NonceFrameError e), sent)
         | (Inr (respBytes, incoming), _) \<Rightarrow>
             (case parseNonceResponse respBytes req of
                None \<Rightarrow> (Inl BadNonceResponse, sent)
              | Some resp \<Rightarrow>
                  let ((encF, encIV), (decF, iv)) = deriveCiphers cr req resp local remote secret;
                      (hs, cbcFrame) = writePacket handshakeRequestBytes (newFrameConn seqNoHandshake)
                  in case cbcConn_Write encF encIV hs of
                       None \<Rightarrow> (Inl HandshakeUnaligned, sent)
                     | Some (hsSent, encIV) \<Rightarrow>
                         (case cbc_readPacket decF cbcFrame \<lparr>cbc_raw = incoming, decIV = iv, cbc_buf = []\<rparr> of
                            (Inl e, _) \<Rightarrow> (Inl (HandshakeFrameError e), sent @ hsSent)
                          | (Inr hsBytes, cbcFrame, cbc) \<Rightarrow>
                              if \<not> validateHandshakeResponse hsBytes
                              then (Inl BadHandshakeResponse, sent @ hsSent)
                              else (Inr \<lparr>ch_frame = cbcFrame, ch_enc = (encF, encIV),
                                        ch_dec = decF, ch_cbc = cbc\<rparr>, sent @ hsSent))))"

subsection \<open>The stream adapter\<close>

definition quickAckLength :: u32 where
  "quickAckLength = 0x80000000"

datatype proxyResponseType = RespAns | RespSimpleAck | RespCloseExt

record middleConn =
  mc_frame :: frameConn
  connID :: bytes
  mc_adTag :: bytes
  clientAddr :: "tcpAddr option"
  ourAddr :: "tcpAddr option"
  inbuf :: bytes
  outbuf :: bytes

definition newMiddleConn :: "frameConn \<Rightarrow> bytes \<Rightarrow> bytes \<Rightarrow> tcpAddr option \<Rightarrow> tcpAddr option \<Rightarrow> middleConn" where
  "newMiddleConn frame cid tag client our =
     \<lparr>mc_frame = frame, connID = cid, mc_adTag = tag, clientAddr = client, ourAddr = our, inbuf = [], outbuf = []\<rparr>"

definition isAllZero :: "bytes \<Rightarrow> bool" where
  "isAllZero b = list_all (\<lambda>v. v = 0) b"

definition encodeIPPort :: "tcpAddr option \<Rightarrow> bytes" where
  "encodeIPPort addr =
     (let out = replicate 20 0
      in case addr of
           None \<Rightarrow> out
         | Some a \<Rightarrow> go_copy (take 16 out) (ip_To16 (IP a)) @ put_le32 (u32_of_int (Port a)))"

definition frameIntermediate :: "bytes \<Rightarrow> bytes" where
  "frameIntermediate payload = put_le32 (word_of_nat (length payload)) @ payload"

definition parseProxyResponse :: "bytes \<Rightarrow> (proxyResponseType \<times> bytes) option" where
  "parseProxyResponse packet =
     (if length packet < 4 then None
      else let tag = take 4 packet
           in if tag = tagProxyAns
              then (if length packet < 16 then None else Some (RespAns, drop 16 packet))
              else if tag = tagSimpleAck
              then (if length packet < 12 then None else Some (RespSimpleAck, drop 12 packet))
              else if tag = tagCloseExt then Some (RespCloseExt, [])
              else None)"

definition proxy_flags :: "bytes \<Rightarrow> bool \<Rightarrow> u32" where
  "proxy_flags packet quickAck =
     (let flags = flagHasAdTag OR flagMagic OR flagExtMode2 OR flagIntermediate OR flagPad;
          flags = (if quickAck then flags OR flagQuickAck else flags)
      in if 8 \<le> length packet \<and> isAllZero (take 8 packet) then flags OR flagEncrypted else flags)"

definition buildProxyReq :: "middleConn \<Rightarrow> bytes \<Rightarrow> bool \<Rightarrow> bytes" where
  "buildProxyReq m packet quickAck =
     (let buf = tagProxyRequest @ put_le32 (proxy_flags packet quickAck) @ connID m @
                encodeIPPort (clientAddr m) @ encodeIPPort (ourAddr m) @
                proxyRequestExtraSize @ proxyRequestProxyTag @
                [word_of_nat (length (mc_adTag m))] @ mc_adTag m;
          pad = (4 - length buf mod 4) mod 4
      in buf @ replicate pad 0 @ packet)"

text \<open>The loop of \<open>Write\<close>: the packets cut off the buffer, with their quick-ack flag, and
  what is left of it.\<close>

function cut_packets :: "bytes \<Rightarrow> (bytes \<times> bool) list \<times> bytes" where
  "cut_packets buf =
     (if length buf < 4 then ([], buf)
      else let lengthWord = get_le32 (take 4 buf);
               quickAck = (lengthWord \<ge> quickAckLength);
               len = (if quickAck then lengthWord - quickAckLength else lengthWord)
           in if length buf < unat len + 4 then ([], buf)
              else let packet = byte_slice 4 (4 + unat len) buf;
                       packet = take (length packet - length packet mod 4) packet;
                       (more_packets, rest) = cut_packets (drop (4 + unat len) buf)
                   in ((packet, quickAck) # more_packets, rest))"
  by pat_completeness auto
termination
  by (relation "measure length") auto

declare cut_packets.simps [simp del]

text \<open>\<open>Write\<close> hands each packet to \<open>writePacket\<close>; the writer underneath succeeds here, its
  error path ends the stream.\<close>

fun write_requests :: "middleConn \<Rightarrow> (bytes \<times> bool) list \<Rightarrow> frameConn \<Rightarrow> bytes list \<times> frameConn" where
  "write_requests m [] frame = ([], frame)"
| "write_requests m (p # packets) frame =
     (let (b, frame) = writePacket (buildProxyReq m (fst p) (snd p)) frame;
          (bs, frame) = write_requests m packets frame
      in (b # bs, frame))"

definition middleConn_Write :: "bytes \<Rightarrow> middleConn \<Rightarrow> bytes list \<times> middleConn" where
  "middleConn_Write p m =
     (let (packets, rest) = cut_packets (inbuf m @ p);
          (frames, frame) = write_requests m packets (mc_frame m)
      in (frames, m\<lparr>inbuf := rest, mc_frame := frame\<rparr>))"

datatype read_result = ReadBytes bytes | ReadEOF | ReadFrameError frame_error | ReadUnexpectedEOF

text \<open>\<open>Read\<close> fetches frames until there is something for the client; \<open>raw\<close> is what the
  channel still delivers. Every round consumes input, so the loop ends.\<close>

lemma skip_padding_shorter: "skip_padding raw = Some (l, r) \<Longrightarrow> length r < length raw"
  by (induction raw rule: skip_padding.induct) (auto split: if_splits)

lemma readPacket_shorter: "readPacket f raw = (Inr (msg, raw'), f') \<Longrightarrow> length raw' < length raw"
  by (auto simp: readPacket_def Let_def read_full_Some dest!: skip_padding_shorter
      split: option.splits if_splits) (metis diff_le_self le_less_trans)

function fill_outbuf :: "middleConn \<Rightarrow> bytes \<Rightarrow> read_result option \<times> middleConn \<times> bytes" where
  "fill_outbuf m raw =
     (if outbuf m \<noteq> [] then (None, m, raw)
      else case readPacket (mc_frame m) raw of
        (Inl e, frame) \<Rightarrow> (Some (ReadFrameError e), m, raw)
      | (Inr (msg, raw), frame) \<Rightarrow>
          let m = m\<lparr>mc_frame := frame\<rparr>
          in case parseProxyResponse msg of
               None \<Rightarrow> (Some ReadUnexpectedEOF, m, raw)
             | Some (RespAns, payload) \<Rightarrow>
                 fill_outbuf (m\<lparr>outbuf := outbuf m @ frameIntermediate payload\<rparr>) raw
             | Some (RespSimpleAck, payload) \<Rightarrow> fill_outbuf (m\<lparr>outbuf := outbuf m @ payload\<rparr>) raw
             | Some (RespCloseExt, payload) \<Rightarrow> (Some ReadEOF, m, raw))"
  by pat_completeness auto
termination
  by (relation "measure (\<lambda>(m, raw). length raw)") (auto dest: readPacket_shorter [OF sym])

declare fill_outbuf.simps [simp del]

definition middleConn_Read :: "nat \<Rightarrow> middleConn \<Rightarrow> bytes \<Rightarrow> read_result \<times> middleConn \<times> bytes" where
  "middleConn_Read n m raw =
     (case fill_outbuf m raw of
        (Some err, m, raw) \<Rightarrow> (err, m, raw)
      | (None, m, raw) \<Rightarrow> (ReadBytes (take n (outbuf m)), m\<lparr>outbuf := drop n (outbuf m)\<rparr>, raw))"

subsection \<open>What the client sends\<close>

text \<open>A padded-intermediate packet: payload, random padding and the quick-ack bit.\<close>

record client_packet =
  cp_payload :: bytes
  cp_pad :: bytes
  cp_quickAck :: bool

definition packet_ok :: "client_packet \<Rightarrow> bool" where
  "packet_ok x \<longleftrightarrow> length (cp_payload x) mod 4 = 0 \<and> length (cp_pad x) < 4 \<and>
     length (cp_payload x) + 100 \<le> 16777216"

definition packet_bytes :: "client_packet \<Rightarrow> bytes" where
  "packet_bytes x =
     put_le32 (word_of_nat (length (cp_payload x) + length (cp_pad x)) +
       (if cp_quickAck x then quickAckLength else 0)) @ cp_payload x @ cp_pad x"

definition middle_ok :: "middleConn \<Rightarrow> bool" where
  "middle_ok m \<longleftrightarrow> length (connID m) = 8 \<and> length (mc_adTag m) = adTagLength"

text \<open>Consecutive writes.\<close>

fun write_chunks :: "bytes list \<Rightarrow> middleConn \<Rightarrow> bytes list \<times> middleConn" where
  "write_chunks [] m = ([], m)"
| "write_chunks (p # ps) m =
     (let (a, m) = middleConn_Write p m; (b, m) = write_chunks ps m in (a @ b, m))"

subsection \<open>The adapter's writer\<close>

lemma encodeIPPort_length [simp]: "length (encodeIPPort a) = 20"
  by (simp add: encodeIPPort_def go_copy_def ip_To16_def Let_def split: option.split)

lemma buildProxyReq_length: "middle_ok m \<Longrightarrow> length (buildProxyReq m packet quickAck) = 84 + length packet"
  by (simp add: buildProxyReq_def middle_ok_def adTagLength_def tagProxyRequest_def proxyRequestExtraSize_def
      proxyRequestProxyTag_def Let_def)

lemma buildProxyReq_frameable:
  "middle_ok m \<Longrightarrow> packet_ok x \<Longrightarrow> frameable (buildProxyReq m (cp_payload x) q)"
  by (simp add: frameable_def buildProxyReq_length packet_ok_def) presburger

lemma cut_packets_short: "length buf < 4 \<Longrightarrow> cut_packets buf = ([], buf)"
  by (simp add: cut_packets.simps)

definition packet_len :: "u32 \<Rightarrow> nat" where
  "packet_len w = unat (if w \<ge> quickAckLength then w - quickAckLength else w)"

definition packet_at :: "nat \<Rightarrow> bytes \<Rightarrow> bytes" where
  "packet_at n buf = take (n - n mod 4) (byte_slice 4 (4 + n) buf)"

lemma cut_packets_eq:
  fixes buf :: bytes
  defines "w \<equiv> get_le32 (take 4 buf)"
  defines "n \<equiv> packet_len w"
  shows "cut_packets buf =
    (if length buf < 4 \<or> length buf < n + 4 then ([], buf)
     else ((packet_at n buf, w \<ge> quickAckLength) # fst (cut_packets (drop (4 + n) buf)), snd (cut_packets (drop (4 + n) buf))))"
proof (cases "length buf < 4 \<or> length buf < n + 4")
  case True
  then show ?thesis
    by (subst cut_packets.simps) (auto simp: Let_def w_def n_def packet_len_def)
next
  case False
  then have "length (byte_slice 4 (4 + n) buf) = n" by (simp add: byte_slice_def)
  then show ?thesis
    using False by (subst cut_packets.simps)
      (auto simp: Let_def w_def n_def packet_len_def packet_at_def case_prod_beta split del: if_split split: if_splits)
qed

lemma cut_packets_append:
  "cut_packets (a @ b) =
     (fst (cut_packets a) @ fst (cut_packets (snd (cut_packets a) @ b)), snd (cut_packets (snd (cut_packets a) @ b)))"
proof (induction "length a" arbitrary: a rule: less_induct)
  case less
  define w n where "w = get_le32 (take 4 a)" and "n = packet_len w"
  show ?case
  proof (cases "length a < 4 \<or> length a < n + 4")
    case True
    then have "cut_packets a = ([], a)" by (subst cut_packets_eq) (simp add: w_def n_def)
    then show ?thesis by simp
  next
    case False
    have "take 4 (a @ b) = take 4 a" "drop (4 + n) (a @ b) = drop (4 + n) a @ b" "packet_at n (a @ b) = packet_at n a"
      using False by (simp_all add: packet_at_def byte_slice_def)
    then have "cut_packets (a @ b) = ((packet_at n a, w \<ge> quickAckLength) # fst (cut_packets (drop (4 + n) a @ b)),
        snd (cut_packets (drop (4 + n) a @ b)))"
      using False by (subst cut_packets_eq) (simp add: w_def n_def)
    moreover have "cut_packets a = ((packet_at n a, w \<ge> quickAckLength) # fst (cut_packets (drop (4 + n) a)),
        snd (cut_packets (drop (4 + n) a)))"
      using False by (subst cut_packets_eq) (simp add: w_def n_def)
    moreover have "length (drop (4 + n) a) < length a" using False unfolding length_drop by linarith
    ultimately show ?thesis using less.hyps [of "drop (4 + n) a"] by simp
  qed
qed

lemma packet_len_client:
  assumes "n < 2 ^ 31"
  shows "packet_len (word_of_nat n + (if q then quickAckLength else 0)) = n"
    "(word_of_nat n + (if q then quickAckLength else 0) \<ge> quickAckLength) = q"
proof -
  define w :: u32 where "w = word_of_nat n"
  have w: "unat w = n" unfolding w_def using assms by (intro unat_u32_of_nat) simp
  have qa: "unat quickAckLength = 2 ^ 31" by (simp add: quickAckLength_def)
  have plus: "unat (w + quickAckLength) = n + 2 ^ 31" using w qa assms by (subst unat_add_lem [THEN iffD1]) simp_all
  have small: "\<not> quickAckLength \<le> w" "quickAckLength \<le> w + quickAckLength"
    using w qa plus assms by (simp_all add: word_le_nat_alt)
  have "packet_len (w + (if q then quickAckLength else 0)) = n" "(w + (if q then quickAckLength else 0) \<ge> quickAckLength) = q"
    using small w by (simp_all add: packet_len_def)
  then show "packet_len (word_of_nat n + (if q then quickAckLength else 0)) = n"
      "(word_of_nat n + (if q then quickAckLength else 0) \<ge> quickAckLength) = q"
    by (simp_all only: w_def)
qed

lemma cut_client_packet:
  assumes "packet_ok x"
  shows "cut_packets (packet_bytes x @ r) =
    ((cp_payload x, cp_quickAck x) # fst (cut_packets r), snd (cut_packets r))"
proof -
  define n where "n = length (cp_payload x) + length (cp_pad x)"
  define w where "w = (word_of_nat n + (if cp_quickAck x then quickAckLength else 0) :: u32)"
  have n: "n < 2 ^ 31" "n - n mod 4 = length (cp_payload x)"
  proof -
    have "n mod 4 = length (cp_pad x)"
      using assms by (simp add: n_def packet_ok_def mod_add_eq [symmetric])
    then show "n - n mod 4 = length (cp_payload x)" by (simp add: n_def)
    show "n < 2 ^ 31" using assms by (simp add: n_def packet_ok_def)
  qed
  have bytes: "packet_bytes x @ r = put_le32 w @ cp_payload x @ cp_pad x @ r"
    by (simp add: packet_bytes_def w_def n_def)
  have len: "packet_len w = n" "(w \<ge> quickAckLength) = cp_quickAck x"
    unfolding w_def by (rule packet_len_client [OF n(1)])+
  have "byte_slice 4 (4 + n) (packet_bytes x @ r) = cp_payload x @ cp_pad x"
    by (simp add: bytes byte_slice_def n_def)
  then have "packet_at n (packet_bytes x @ r) = cp_payload x" using n(2) by (simp add: packet_at_def)
  moreover have "drop (4 + n) (packet_bytes x @ r) = r" by (simp add: bytes n_def)
  ultimately show ?thesis
    by (subst cut_packets_eq) (simp add: bytes len, simp add: n_def)
qed

lemma cut_client_packets:
  "list_all packet_ok xs \<Longrightarrow>
     cut_packets (concat (map packet_bytes xs)) = (map (\<lambda>x. (cp_payload x, cp_quickAck x)) xs, [])"
  by (induction xs) (simp_all add: cut_client_packet cut_packets_short)

text \<open>Handing the requests of packets to the frame layer is writing them all.\<close>

lemma write_requests_all:
  "write_all (map (\<lambda>(packet, quickAck). buildProxyReq m packet quickAck) ps) f =
     (concat (fst (write_requests m ps f)), snd (write_requests m ps f))"
  by (induction ps arbitrary: f) (simp_all add: case_prod_beta Let_def)

lemma write_requests_append:
  "write_requests m (ps @ qs) f =
     (fst (write_requests m ps f) @ fst (write_requests m qs (snd (write_requests m ps f))),
      snd (write_requests m qs (snd (write_requests m ps f))))"
  by (induction ps arbitrary: f) (simp_all add: case_prod_beta Let_def)

lemma buildProxyReq_frame [simp]: "buildProxyReq (m\<lparr>inbuf := b, mc_frame := f\<rparr>) = buildProxyReq m"
  by (simp add: buildProxyReq_def fun_eq_iff)

lemma write_requests_frame [simp]: "write_requests (m\<lparr>inbuf := b, mc_frame := f\<rparr>) ps g = write_requests m ps g"
  by (induction ps arbitrary: g) (simp_all add: case_prod_beta Let_def)

lemma cut_packets_rest: "cut_packets (snd (cut_packets a)) = ([], snd (cut_packets a))"
proof -
  define r where "r = cut_packets (snd (cut_packets a))"
  have eq: "cut_packets a = (fst (cut_packets a) @ fst r, snd r)"
    using cut_packets_append [of a "[]"] by (simp add: r_def)
  have "fst r = []" "snd r = snd (cut_packets a)"
    using arg_cong [OF eq, of fst] arg_cong [OF eq, of snd] by simp_all
  then show ?thesis by (simp add: r_def [symmetric] prod_eq_iff)
qed

lemma write_chunks_eq:
  assumes "cut_packets (inbuf m) = ([], inbuf m)"
  shows "write_chunks chunks m =
    (fst (write_requests m (fst (cut_packets (inbuf m @ concat chunks))) (mc_frame m)),
     m\<lparr>inbuf := snd (cut_packets (inbuf m @ concat chunks)),
       mc_frame := snd (write_requests m (fst (cut_packets (inbuf m @ concat chunks))) (mc_frame m))\<rparr>)"
  using assms
proof (induction chunks arbitrary: m)
  case (Cons c cs)
  define m1 where "m1 = snd (middleConn_Write c m)"
  have w: "middleConn_Write c m = (fst (write_requests m (fst (cut_packets (inbuf m @ c))) (mc_frame m)), m1)"
    by (simp add: m1_def middleConn_Write_def case_prod_beta Let_def)
  have m1: "m1 = m\<lparr>inbuf := snd (cut_packets (inbuf m @ c)),
      mc_frame := snd (write_requests m (fst (cut_packets (inbuf m @ c))) (mc_frame m))\<rparr>"
    by (simp add: m1_def middleConn_Write_def case_prod_beta Let_def)
  have "cut_packets (inbuf m1) = ([], inbuf m1)" by (simp add: m1 cut_packets_rest)
  note IH = Cons.IH [OF this]
  have "inbuf m @ concat (c # cs) = (inbuf m @ c) @ concat cs" by simp
  then show ?case
    using w IH cut_packets_append [of "inbuf m @ c" "concat cs"]
    by (simp add: m1 write_requests_append)
qed simp

subsection \<open>The handshake with a conforming peer\<close>

text \<open>What the middle proxy answers: a nonce frame without trailing padding, then the
  handshake frame and the messages \<open>ms\<close> that follow it, encrypted under the server keys.\<close>

definition peer_nonce :: "nonceRequest \<Rightarrow> bytes \<Rightarrow> bytes \<Rightarrow> bytes" where
  "peer_nonce req ts rn = tagNonce @ keySelector req @ nonceCryptoAES @ ts @ rn"

definition peer_answer ::
    "crypto \<Rightarrow> nonceRequest \<Rightarrow> tcpAddr \<Rightarrow> tcpAddr \<Rightarrow> bytes \<Rightarrow> bytes \<Rightarrow> bytes \<Rightarrow> bytes \<Rightarrow> bytes list \<Rightarrow> bytes" where
  "peer_answer cr req local remote secret ts rn mid ms =
     (let (key, iv) = deriveKey (md5 cr) (sha1 cr) PurposeServer req \<lparr>respNonce = rn\<rparr> local remote secret
      in frame_body seqNoNonce (peer_nonce req ts rn) @
         fst (cbc_encrypt (aesEnc cr key) iv
           (fst (write_all ((tagHandshake @ mid @ handshakePID) # ms) (newFrameConn seqNoHandshake)))))"

text \<open>What the middle proxy reads: the frames that arrive under the client keys.\<close>

definition peer_reads ::
    "crypto \<Rightarrow> nonceRequest \<Rightarrow> tcpAddr \<Rightarrow> tcpAddr \<Rightarrow> bytes \<Rightarrow> bytes \<Rightarrow> nat \<Rightarrow> bytes \<Rightarrow> frame_error + bytes list" where
  "peer_reads cr req local remote secret rn n wire =
     (let (key, iv) = deriveKey (md5 cr) (sha1 cr) PurposeClient req \<lparr>respNonce = rn\<rparr> local remote secret
      in fst (cbc_read_all (aesDec cr key) n (newFrameConn seqNoHandshake) \<lparr>cbc_raw = wire, decIV = iv, cbc_buf = []\<rparr>))"

definition crypto_ok :: "crypto \<Rightarrow> bool" where
  "crypto_ok cr \<longleftrightarrow> (\<forall>b. length (md5 cr b) = 16) \<and>
     (\<forall>key b. length b = blockSize \<longrightarrow>
        length (aesEnc cr key b) = blockSize \<and> length (aesDec cr key b) = blockSize \<and> aesDec cr key (aesEnc cr key b) = b)"

definition sample_crypto :: crypto where
  "sample_crypto = \<lparr>md5 = (\<lambda>b. replicate 16 (word_of_nat (length b))), sha1 = (\<lambda>b. replicate 20 1),
     aesEnc = (\<lambda>k. rev), aesDec = (\<lambda>k. rev)\<rparr>"

lemma keySelector_length [simp]: "length (keySelector (newNonceRequest rnd unix secret)) = 4"
  by (simp add: newNonceRequest_def go_copy_def)

lemma parse_peer_nonce:
  assumes "length (keySelector req) = 4" "length ts = 4" "length rn = 16"
  shows "parseNonceResponse (peer_nonce req ts rn) req = Some \<lparr>respNonce = rn\<rparr>"
  using assms by (simp add: parseNonceResponse_def peer_nonce_def tagNonce_def nonceCryptoAES_def byte_slice_def)

lemma length_handshakePID [simp]: "length handshakePID = 12"
  by (simp add: handshakePID_def)

lemma handshake_length: "length handshakeRequestBytes = 32"
  by (simp add: handshakeRequestBytes_def tagHandshake_def handshakeFlags_def)

lemma nonce_frame_read:
  assumes "frameable msg"
  shows "readPacket (newFrameConn s) (frame_body s msg @ r) = (Inr (msg, r), \<lparr>readSeqNo = s + 1, writeSeqNo = s\<rparr>)"
  using readPacket_frame [OF assms, of "newFrameConn s" 0 r] by (simp add: newFrameConn_def)

lemma readPacket_after_write:
  "readPacket (f\<lparr>writeSeqNo := w\<rparr>) raw = (case readPacket f raw of (r, f') \<Rightarrow> (r, f'\<lparr>writeSeqNo := w\<rparr>))"
  by (auto simp: readPacket_def Let_def split: option.split)

lemma cbc_readPacket_counts:
  "cbc_readPacket D f c = (Inr msg, f', c') \<Longrightarrow> f' = f\<lparr>readSeqNo := readSeqNo f + 1\<rparr>"
  by (auto simp: cbc_readPacket_def check_frame_def Let_def split: prod.splits option.splits if_splits)

lemma write_all_counter: "writeSeqNo f = writeSeqNo g \<Longrightarrow> fst (write_all ms f) = fst (write_all ms g)"
proof (induction ms arbitrary: f g)
  case (Cons m ms)
  have "fst (write_all ms (f\<lparr>writeSeqNo := writeSeqNo f + 1\<rparr>)) = fst (write_all ms (g\<lparr>writeSeqNo := writeSeqNo g + 1\<rparr>))"
    using Cons.prems by (intro Cons.IH) simp
  then show ?case using Cons.prems by (simp add: writePacket_parts case_prod_beta)
qed simp

lemma deriveKey_iv:
  "crypto_ok cr \<Longrightarrow> deriveKey (md5 cr) (sha1 cr) purpose req resp local remote secret = (key, iv) \<Longrightarrow> length iv = blockSize"
  by (auto simp: deriveKey_def Let_def crypto_ok_def blockSize_def)

text \<open>The ciphertext of the middle proxy, and the two directions of the channel.\<close>

definition peer_stream :: "crypto \<Rightarrow> bytes \<Rightarrow> bytes \<Rightarrow> bytes list \<Rightarrow> bytes" where
  "peer_stream cr key iv ms = fst (cbc_encrypt (aesEnc cr key) iv (fst (write_all ms (newFrameConn seqNoHandshake))))"

lemma channel_session:
  assumes "crypto_ok cr" "list_all frameable ms" "length iv = blockSize" "readSeqNo f = seqNoHandshake"
  shows "\<exists>f' c'. cbc_read_all (aesDec cr key) (length ms) f \<lparr>cbc_raw = peer_stream cr key iv ms, decIV = iv, cbc_buf = []\<rparr> = (Inr ms, f', c')"
  using cbc_session [of "aesEnc cr key" "aesDec cr key" ms f "newFrameConn seqNoHandshake" iv] assms
  by (simp add: peer_stream_def crypto_ok_def newFrameConn_def)

lemma channel_in:
  assumes "crypto_ok cr" "list_all frameable (hs # ms)" "length iv = blockSize" "readSeqNo f = seqNoHandshake" "writeSeqNo f = 0"
  shows "\<exists>cbc f' c'.
    cbc_readPacket (aesDec cr key) f \<lparr>cbc_raw = peer_stream cr key iv (hs # ms), decIV = iv, cbc_buf = []\<rparr> =
      (Inr hs, \<lparr>readSeqNo = 0, writeSeqNo = 0\<rparr>, cbc) \<and>
    cbc_read_all (aesDec cr key) (length ms) \<lparr>readSeqNo = 0, writeSeqNo = 0\<rparr> cbc = (Inr ms, f', c')"
proof -
  let ?c = "\<lparr>cbc_raw = peer_stream cr key iv (hs # ms), decIV = iv, cbc_buf = []\<rparr>"
  obtain f1 cbc f' c' where r: "cbc_readPacket (aesDec cr key) f ?c = (Inr hs, f1, cbc)"
      "cbc_read_all (aesDec cr key) (length ms) f1 cbc = (Inr ms, f', c')"
    using channel_session [OF assms(1-4), of key] by (auto split: prod.splits sum.splits)
  have "f1 = \<lparr>readSeqNo = 0, writeSeqNo = 0\<rparr>"
    using cbc_readPacket_counts [OF r(1)] assms(4,5) by (simp add: seqNoHandshake_def)
  with r show ?thesis by blast
qed

lemma channel_out:
  assumes "crypto_ok cr" "list_all frameable ms"
    and key: "deriveKey (md5 cr) (sha1 cr) PurposeClient req \<lparr>respNonce = rn\<rparr> local remote secret = (key, iv)"
  shows "\<exists>hs f c iv1 wire iv2 f'. writePacket handshakeRequestBytes (newFrameConn seqNoHandshake) = (hs, f) \<and>
    cbcConn_Write (aesEnc cr key) iv hs = Some (c, iv1) \<and>
    cbc_write_all (aesEnc cr key) ms iv1 \<lparr>readSeqNo = 0, writeSeqNo = 0\<rparr> = Some (wire, iv2, f') \<and>
    peer_reads cr req local remote secret rn (Suc (length ms)) (c @ wire) = Inr (handshakeRequestBytes # ms) \<and>
    readSeqNo f = seqNoHandshake \<and> writeSeqNo f = 0"
proof -
  let ?f = "newFrameConn seqNoHandshake" and ?h = "handshakeRequestBytes" and ?g = "\<lparr>readSeqNo = 0, writeSeqNo = 0\<rparr> :: frameConn"
  have ok: "list_all frameable (?h # ms)" using assms(2) by (simp add: frameable_def handshake_length)
  obtain hs f where hs: "writePacket ?h ?f = (hs, f)" by fastforce
  then have f: "readSeqNo f = seqNoHandshake" "writeSeqNo f = 0"
    by (auto simp: writePacket_parts newFrameConn_def seqNoHandshake_def)
  obtain n where n: "length hs = blockSize * n" using write_blocks [of ?h ?f] ok hs by auto
  obtain c iv1 where c: "cbc_encrypt (aesEnc cr key) iv hs = (c, iv1)" by fastforce
  define wire where "wire = fst (cbc_encrypt (aesEnc cr key) iv1 (fst (write_all ms ?g)))"
  have "fst (write_all ms f) = fst (write_all ms ?g)" using f(2) by (intro write_all_counter) simp
  then have "peer_stream cr key iv (?h # ms) = c @ wire"
    using cbc_encrypt_append [OF n, of "aesEnc cr key" iv "fst (write_all ms ?g)"] hs c
    by (simp add: peer_stream_def wire_def case_prod_beta)
  then have "peer_reads cr req local remote secret rn (Suc (length ms)) (c @ wire) = Inr (?h # ms)"
    using channel_session [OF assms(1) ok deriveKey_iv [OF assms(1) key], of ?f key]
    by (auto simp: peer_reads_def key newFrameConn_def simp del: cbc_read_all.simps)
  moreover have "cbcConn_Write (aesEnc cr key) iv hs = Some (c, iv1)" using n c by (simp add: cbcConn_Write_def)
  ultimately show ?thesis
    using hs f cbc_write_all_encrypt [OF assms(2), of "aesEnc cr key" iv1 ?g] by (simp add: wire_def)
qed

lemma nonce_exchange:
  fixes rnd secret :: bytes and unix :: int
  assumes "length rnd = 16" "length ts = 4" "length rn = 16"
  defines "req \<equiv> newNonceRequest rnd unix secret"
  shows "\<exists>s f f'. writePacket (nonceRequest_bytes req) (newFrameConn seqNoNonce) = (s, f) \<and>
    readPacket (newFrameConn seqNoNonce) (s @ r) = (Inr (nonceRequest_bytes req, framePadding @ r), f') \<and>
    (\<exists>f''. readPacket f (frame_body seqNoNonce (peer_nonce req ts rn) @ ct) = (Inr (peer_nonce req ts rn, ct), f'')) \<and>
    parseNonceResponse (peer_nonce req ts rn) req = Some \<lparr>respNonce = rn\<rparr>"
proof -
  have len: "length (nonceRequest_bytes req) = 32" "length (peer_nonce req ts rn) = 32"
    using assms(1-3) by (simp_all add: nonceRequest_bytes_def peer_nonce_def tagNonce_def nonceCryptoAES_def req_def newNonceRequest_def go_copy_def)
  then have ok: "frameable (nonceRequest_bytes req)" "frameable (peer_nonce req ts rn)" by (simp_all add: frameable_def)
  have parsed: "parseNonceResponse (peer_nonce req ts rn) req = Some \<lparr>respNonce = rn\<rparr>"
    using assms(2,3) by (intro parse_peer_nonce) (simp_all add: req_def)
  let ?f = "(newFrameConn seqNoNonce)\<lparr>writeSeqNo := seqNoNonce + 1\<rparr>"
  have "writePacket (nonceRequest_bytes req) (newFrameConn seqNoNonce) = (frame_body seqNoNonce (nonceRequest_bytes req) @ framePadding, ?f)"
    by (simp add: writePacket_parts len(1)) (simp add: newFrameConn_def)
  moreover have "\<exists>f''. readPacket ?f (frame_body seqNoNonce (peer_nonce req ts rn) @ ct) = (Inr (peer_nonce req ts rn, ct), f'')"
    by (simp add: readPacket_after_write nonce_frame_read [OF ok(2)])
  ultimately show ?thesis
    using nonce_frame_read [OF ok(1), of seqNoNonce "framePadding @ r"] parsed by simp
qed

lemma write_requests_length: "length (fst (write_requests m ps f)) = length ps"
  by (induction ps arbitrary: f) (simp_all add: case_prod_beta Let_def)

subsection \<open>Properties\<close>

text \<open>C13. The RPC handshake completes with a conforming middle proxy and leaves both directions
  usable. Given its nonce answer and its handshake answer encrypted under the shared key
  schedule, \<open>doHandshake\<close> returns a channel with both sequence numbers at 0. The middle proxy
  finds our nonce request at the start of what was sent, reads our handshake request under the
  client keys after it, and then every message written to the channel; and the channel reads every
  message the middle proxy sends behind its answer. The nonce answer must come without the trailing padding that \<open>writePacket\<close> adds, which would be
  taken for ciphertext.\<close>

theorem doHandshake_completes:
  fixes local remote :: tcpAddr and rnd secret :: bytes and unix :: int
  assumes "crypto_ok cr" "length rnd = 16" "length ts = 4" "length rn = 16" "length mid = 16"
    and "list_all frameable ins" "list_all frameable outs"
  defines "req \<equiv> newNonceRequest rnd unix secret"
  shows "\<exists>ch sent hsSent f1 f2 cbc wire iv f3.
    doHandshake cr rnd unix secret local remote (peer_answer cr req local remote secret ts rn mid ins) = (Inr ch, sent) \<and>
    readSeqNo (ch_frame ch) = 0 \<and> writeSeqNo (ch_frame ch) = 0 \<and>
    readPacket (newFrameConn seqNoNonce) sent = (Inr (nonceRequest_bytes req, framePadding @ hsSent), f1) \<and>
    cbc_read_all (ch_dec ch) (length ins) (ch_frame ch) (ch_cbc ch) = (Inr ins, f2, cbc) \<and>
    cbc_write_all (fst (ch_enc ch)) outs (snd (ch_enc ch)) (ch_frame ch) = Some (wire, iv, f3) \<and>
    peer_reads cr req local remote secret rn (Suc (length outs)) (hsSent @ wire) = Inr (handshakeRequestBytes # outs)"
proof -
  obtain key iv where k: "deriveKey (md5 cr) (sha1 cr) PurposeServer req \<lparr>respNonce = rn\<rparr> local remote secret = (key, iv)"
    by fastforce
  obtain ekey eiv where e: "deriveKey (md5 cr) (sha1 cr) PurposeClient req \<lparr>respNonce = rn\<rparr> local remote secret = (ekey, eiv)"
    by fastforce
  define hs where "hs = tagHandshake @ mid @ handshakePID"
  have hs: "validateHandshakeResponse hs" "frameable hs"
    using assms(5) by (simp_all add: hs_def tagHandshake_def validateHandshakeResponse_def frameable_def)
  have all: "list_all frameable (hs # ins)" using hs(2) assms(6) by simp
  obtain s2 c2 wire eiv' iv' f2 f3 where out:
      "writePacket handshakeRequestBytes (newFrameConn seqNoHandshake) = (s2, f2)"
      "cbcConn_Write (aesEnc cr ekey) eiv s2 = Some (c2, eiv')"
      "cbc_write_all (aesEnc cr ekey) outs eiv' \<lparr>readSeqNo = 0, writeSeqNo = 0\<rparr> = Some (wire, iv', f3)"
      "peer_reads cr req local remote secret rn (Suc (length outs)) (c2 @ wire) = Inr (handshakeRequestBytes # outs)"
      "readSeqNo f2 = seqNoHandshake" "writeSeqNo f2 = 0"
    using channel_out [OF assms(1,7) e] by blast
  obtain cbc f4 c4 where inn:
      "cbc_readPacket (aesDec cr key) f2 \<lparr>cbc_raw = peer_stream cr key iv (hs # ins), decIV = iv, cbc_buf = []\<rparr> =
        (Inr hs, \<lparr>readSeqNo = 0, writeSeqNo = 0\<rparr>, cbc)"
      "cbc_read_all (aesDec cr key) (length ins) \<lparr>readSeqNo = 0, writeSeqNo = 0\<rparr> cbc = (Inr ins, f4, c4)"
    using channel_in [OF assms(1) all deriveKey_iv [OF assms(1) k] out(5,6), of key] by blast
  obtain s1 f1 f5 where nonce: "writePacket (nonceRequest_bytes req) (newFrameConn seqNoNonce) = (s1, f1)"
      "readPacket (newFrameConn seqNoNonce) (s1 @ c2) = (Inr (nonceRequest_bytes req, framePadding @ c2), f5)"
      "\<exists>f. readPacket f1 (frame_body seqNoNonce (peer_nonce req ts rn) @ peer_stream cr key iv (hs # ins)) =
        (Inr (peer_nonce req ts rn, peer_stream cr key iv (hs # ins)), f)"
      "parseNonceResponse (peer_nonce req ts rn) req = Some \<lparr>respNonce = rn\<rparr>"
    using nonce_exchange [OF assms(2-4)] unfolding req_def by blast
  then obtain f6 where f6: "readPacket f1 (frame_body seqNoNonce (peer_nonce req ts rn) @ peer_stream cr key iv (hs # ins)) =
        (Inr (peer_nonce req ts rn, peer_stream cr key iv (hs # ins)), f6)" by blast
  have answer: "peer_answer cr req local remote secret ts rn mid ins =
      frame_body seqNoNonce (peer_nonce req ts rn) @ peer_stream cr key iv (hs # ins)"
    by (simp add: peer_answer_def k hs_def peer_stream_def)
  have "doHandshake cr rnd unix secret local remote (peer_answer cr req local remote secret ts rn mid ins) =
      (Inr \<lparr>ch_frame = \<lparr>readSeqNo = 0, writeSeqNo = 0\<rparr>, ch_enc = (aesEnc cr ekey, eiv'), ch_dec = aesDec cr key, ch_cbc = cbc\<rparr>, s1 @ c2)"
    unfolding answer doHandshake_def req_def [symmetric] Let_def
    by (simp add: nonce(1,4) f6 deriveCiphers_def k e out(1,2) inn(1) hs(1))
  with nonce(2) inn(2) out(3,4) show ?thesis by fastforce
qed

theorem doHandshake_completes_witness:
  "\<exists>ch sent f cbc. doHandshake sample_crypto (replicate 16 3) 5 [1, 2] \<lparr>IP = [1, 2, 3, 4], Port = 443\<rparr> \<lparr>IP = [5, 6, 7, 8], Port = 80\<rparr>
     (peer_answer sample_crypto (newNonceRequest (replicate 16 3) 5 [1, 2]) \<lparr>IP = [1, 2, 3, 4], Port = 443\<rparr>
        \<lparr>IP = [5, 6, 7, 8], Port = 80\<rparr> [1, 2] [0, 0, 0, 0] (replicate 16 9) (replicate 16 0) [[1, 2, 3, 4], []]) = (Inr ch, sent) \<and>
     cbc_read_all (ch_dec ch) (Suc (Suc 0)) (ch_frame ch) (ch_cbc ch) = (Inr [[1, 2, 3, 4], []], f, cbc)"
proof -
  have "crypto_ok sample_crypto" by (simp add: crypto_ok_def sample_crypto_def)
  from doHandshake_completes [OF this, of "replicate 16 3" "[0, 0, 0, 0]" "replicate 16 9" "replicate 16 0" "[[1, 2, 3, 4], []]" "[[5, 6, 7, 8]]" 5 "[1, 2]"
      "\<lparr>IP = [1, 2, 3, 4], Port = 443\<rparr>" "\<lparr>IP = [5, 6, 7, 8], Port = 80\<rparr>"]
  show ?thesis by (auto simp: frameable_def simp del: cbc_read_all.simps)
qed

text \<open>The adapter does not depend on how the relay cuts the client's stream: whatever writes
  the padded-intermediate packets arrive in, every packet becomes exactly one proxy
  request, in order, its padding stripped and its quick-ack bit kept, nothing stays in
  the buffer, and the middle proxy reads back those requests from the frames.\<close>

lemma middleConn_chunks:
  assumes "list_all packet_ok xs" "middle_ok m" "inbuf m = []"
    and "concat chunks = concat (map packet_bytes xs)" "readSeqNo f = writeSeqNo (mc_frame m)"
  shows "\<exists>frames m' j f'. write_chunks chunks m = (frames, m') \<and> inbuf m' = [] \<and> length frames = length xs \<and>
    read_all (length xs) f (concat frames @ r) =
      (Inr (map (\<lambda>x. buildProxyReq m (cp_payload x) (cp_quickAck x)) xs, paddings j @ r), f') \<and>
    readSeqNo f' = writeSeqNo (mc_frame m')"
proof -
  let ?ps = "map (\<lambda>x. (cp_payload x, cp_quickAck x)) xs"
  have cut: "cut_packets (inbuf m @ concat chunks) = (?ps, [])"
    using assms(3,4) cut_client_packets [OF assms(1)] by simp
  obtain frames g where w: "write_requests m ?ps (mc_frame m) = (frames, g)" by fastforce
  have chunks: "write_chunks chunks m = (frames, m\<lparr>inbuf := [], mc_frame := g\<rparr>)"
    using write_chunks_eq [of m chunks] assms(3) cut w by (simp add: cut_packets_short)
  have "map (\<lambda>(packet, quickAck). buildProxyReq m packet quickAck) ?ps =
      map (\<lambda>x. buildProxyReq m (cp_payload x) (cp_quickAck x)) xs" by simp
  then have all: "write_all (map (\<lambda>x. buildProxyReq m (cp_payload x) (cp_quickAck x)) xs) (mc_frame m) = (concat frames, g)"
    using write_requests_all [of m ?ps "mc_frame m"] w by (simp add: comp_def)
  have "list_all frameable (map (\<lambda>x. buildProxyReq m (cp_payload x) (cp_quickAck x)) xs)"
    using assms(1,2) buildProxyReq_frameable by (auto simp: list_all_iff)
  from write_read_all [OF this assms(5) all, of 0 r] obtain j f' where
    "read_all (length xs) f (concat frames @ r) =
       (Inr (map (\<lambda>x. buildProxyReq m (cp_payload x) (cp_quickAck x)) xs, paddings j @ r), f')" "readSeqNo f' = writeSeqNo g"
    by auto
  moreover have "length frames = length xs"
    using write_requests_length [of m ?ps "mc_frame m"] w by simp
  ultimately show ?thesis using chunks by auto
qed

end
