(* ===== verification/Obfuscation.thy ===== *)
theory Obfuscation
  imports Prelude
begin

text \<open>
  The obfuscated2 handshake and its transparent stream wrapper,
  \<open>mtglib/obfuscation/{handshake_frame,obfuscator,conn}.go\<close>. SHA-256 and the AES-CTR key
  stream are arguments: a cipher is its key stream and the position it has reached.
  Random bytes are the list of candidate frames \<open>rand.Read\<close> delivers. The lemmas show
  that two obfuscators with the same secret agree on the DC and on both directions of
  the stream, and what the generated frames avoid.
\<close>

subsection \<open>The handshake frame\<close>

definition defaultDC :: int where "defaultDC = 2"
definition hfLen :: nat where "hfLen = 64"
definition hfLenKey :: nat where "hfLenKey = 32"
definition hfLenIV :: nat where "hfLenIV = 16"
definition hfLenConnectionType :: nat where "hfLenConnectionType = 4"
definition hfOffsetKey :: nat where "hfOffsetKey = 8"
definition hfOffsetIV :: nat where "hfOffsetIV = hfOffsetKey + hfLenKey"
definition hfOffsetConnectionType :: nat where "hfOffsetConnectionType = hfOffsetIV + hfLenIV"
definition hfOffsetDC :: nat where "hfOffsetDC = hfOffsetConnectionType + hfLenConnectionType"

definition hfConnectionType :: bytes where
  "hfConnectionType = [0xdd, 0xdd, 0xdd, 0xdd]"

text \<open>The slices of the frame's array.\<close>

definition part :: "nat \<Rightarrow> nat \<Rightarrow> bytes \<Rightarrow> bytes" where
  "part off n data = take n (drop off data)"

definition set_part :: "nat \<Rightarrow> bytes \<Rightarrow> bytes \<Rightarrow> bytes" where
  "set_part off new data = take off data @ new @ drop (off + length new) data"

type_synonym handshakeFrame = bytes

definition frame_key :: "handshakeFrame \<Rightarrow> bytes" where
  "frame_key h = part hfOffsetKey hfLenKey h"

definition frame_iv :: "handshakeFrame \<Rightarrow> bytes" where
  "frame_iv h = part hfOffsetIV hfLenIV h"

definition connectionType :: "handshakeFrame \<Rightarrow> bytes" where
  "connectionType h = part hfOffsetConnectionType hfLenConnectionType h"

definition dcSlice :: "handshakeFrame \<Rightarrow> bytes" where
  "dcSlice h = part hfOffsetDC 2 h"

definition frame_dc :: "handshakeFrame \<Rightarrow> int" where
  "frame_dc h =
     (let idx = sint (get_le16 (dcSlice h)) in if idx \<noteq> 0 then idx else defaultDC)"

definition revert :: "handshakeFrame \<Rightarrow> handshakeFrame" where
  "revert h = set_part hfOffsetKey (rev (part hfOffsetKey (hfLenKey + hfLenIV) h)) h"

definition forbidden_words :: "u32 list" where
  "forbidden_words = [0x44414548, 0x54534f50, 0x20544547, 0x4954504f, 0x02010316, 0xdddddddd, 0xeeeeeeee]"

definition acceptable :: "bytes \<Rightarrow> bool" where
  "acceptable d \<longleftrightarrow> d ! 0 \<noteq> 0xef \<and> get_le32 (take 4 d) \<notin> set forbidden_words \<and>
     (d ! 4 OR d ! 5 OR d ! 6 OR d ! 7) \<noteq> 0"

text \<open>\<open>generateHandshake\<close> draws until a frame is acceptable; \<open>None\<close> when none of the draws is.\<close>

fun generateHandshake :: "bytes list \<Rightarrow> int \<Rightarrow> handshakeFrame option" where
  "generateHandshake [] dc = None"
| "generateHandshake (d # draws) dc =
     (if \<not> acceptable d then generateHandshake draws dc
      else Some (set_part hfOffsetDC (put_le16 (word_of_int dc))
                  (set_part hfOffsetConnectionType hfConnectionType d)))"

subsection \<open>Ciphers\<close>

record ctr =
  keystream :: "nat \<Rightarrow> byte"
  position :: nat

definition XORKeyStream :: "ctr \<Rightarrow> bytes \<Rightarrow> bytes \<times> ctr" where
  "XORKeyStream c src =
     (map2 (XOR) src (map (\<lambda>i. keystream c (position c + i)) [0..<length src]),
      c\<lparr>position := position c + length src\<rparr>)"

text \<open>The primitives: SHA-256 and the CTR key stream of a key and an IV.\<close>

record primitives =
  sha256 :: "bytes \<Rightarrow> bytes"
  ctrStream :: "bytes \<Rightarrow> bytes \<Rightarrow> nat \<Rightarrow> byte"

definition getCipher :: "primitives \<Rightarrow> bytes option \<Rightarrow> handshakeFrame \<Rightarrow> ctr" where
  "getCipher pr secret f =
     (let blockKey = (case secret of None \<Rightarrow> frame_key f | Some s \<Rightarrow> sha256 pr (frame_key f @ s))
      in \<lparr>keystream = ctrStream pr blockKey (frame_iv f), position = 0\<rparr>)"

record obfConn =
  sendCipher :: ctr
  recvCipher :: ctr

subsection \<open>The handshake\<close>

datatype obf_error = CannotReadFrame | UnsupportedConnectionType bytes

definition ReadHandshake :: "primitives \<Rightarrow> bytes option \<Rightarrow> bytes \<Rightarrow> (obf_error + int \<times> obfConn) \<times> bytes" where
  "ReadHandshake pr secret r =
     (case read_full hfLen r of
        None \<Rightarrow> (Inl CannotReadFrame, [])
      | Some (frame, r) \<Rightarrow>
          let recv = getCipher pr secret frame;
              frame = revert frame;
              send = getCipher pr secret frame;
              (frame, recv) = XORKeyStream recv frame
          in if connectionType frame \<noteq> hfConnectionType
             then (Inl (UnsupportedConnectionType (connectionType frame)), r)
             else (Inr (frame_dc frame, \<lparr>sendCipher = send, recvCipher = recv\<rparr>), r))"

definition SendHandshake :: "primitives \<Rightarrow> bytes option \<Rightarrow> handshakeFrame \<Rightarrow> bytes \<times> obfConn" where
  "SendHandshake pr secret generated =
     (let frame = generated;
          copyFrame = frame;
          send = getCipher pr secret frame;
          frame = revert frame;
          recv = getCipher pr secret frame;
          (frame, send) = XORKeyStream send frame;
          frame = set_part hfOffsetKey (frame_key copyFrame) frame;
          frame = set_part hfOffsetIV (frame_iv copyFrame) frame
      in (frame, \<lparr>sendCipher = send, recvCipher = recv\<rparr>))"

subsection \<open>The wrapper\<close>

text \<open>What the wrapped \<open>Read\<close> returned: the bytes it put in the buffer and whether it also
  returned an error. The result is what the caller finds in its buffer.\<close>

definition obfConn_Read :: "bytes \<Rightarrow> bool \<Rightarrow> obfConn \<Rightarrow> bytes \<times> obfConn" where
  "obfConn_Read got failed c =
     (if failed then (got, c)
      else let (out, recv) = XORKeyStream (recvCipher c) got in (out, c\<lparr>recvCipher := recv\<rparr>))"

definition obfConn_Write :: "bytes \<Rightarrow> obfConn \<Rightarrow> bytes \<times> obfConn" where
  "obfConn_Write p c =
     (let (out, send) = XORKeyStream (sendCipher c) p in (out, c\<lparr>sendCipher := send\<rparr>))"

text \<open>Consecutive writes, and consecutive reads of pieces of given sizes.\<close>

fun obf_write_all :: "bytes list \<Rightarrow> obfConn \<Rightarrow> bytes \<times> obfConn" where
  "obf_write_all [] c = ([], c)"
| "obf_write_all (p # ps) c =
     (let (a, c) = obfConn_Write p c; (b, c) = obf_write_all ps c in (a @ b, c))"

fun obf_read_all :: "bytes list \<Rightarrow> obfConn \<Rightarrow> bytes \<times> obfConn" where
  "obf_read_all [] c = ([], c)"
| "obf_read_all (p # ps) c =
     (let (a, c) = obfConn_Read p False c; (b, c) = obf_read_all ps c in (a @ b, c))"

text \<open>Two ends whose ciphers are in step.\<close>

definition paired :: "obfConn \<Rightarrow> obfConn \<Rightarrow> bool" where
  "paired a b \<longleftrightarrow> sendCipher a = recvCipher b \<and> recvCipher a = sendCipher b"

definition sample_primitives :: primitives where
  "sample_primitives = \<lparr>sha256 = (\<lambda>b. take 32 (b @ replicate 32 0)), ctrStream = (\<lambda>k iv i. hd (k @ [1]) + word_of_nat i)\<rparr>"

subsection \<open>Key streams\<close>

lemma XORKeyStream_length [simp]: "length (fst (XORKeyStream c src)) = length src"
  by (simp add: XORKeyStream_def)

lemma XORKeyStream_nth:
  "i < length src \<Longrightarrow> fst (XORKeyStream c src) ! i = src ! i XOR keystream c (position c + i)"
  by (simp add: XORKeyStream_def)

lemma XORKeyStream_append:
  "XORKeyStream c (a @ b) =
     (fst (XORKeyStream c a) @ fst (XORKeyStream (snd (XORKeyStream c a)) b),
      snd (XORKeyStream (snd (XORKeyStream c a)) b))"
proof -
  have "fst (XORKeyStream c (a @ b)) = fst (XORKeyStream c a) @ fst (XORKeyStream (snd (XORKeyStream c a)) b)"
  proof (rule nth_equalityI)
    fix i assume "i < length (fst (XORKeyStream c (a @ b)))"
    then show "fst (XORKeyStream c (a @ b)) ! i =
        (fst (XORKeyStream c a) @ fst (XORKeyStream (snd (XORKeyStream c a)) b)) ! i"
      by (cases "i < length a") (simp_all add: XORKeyStream_nth nth_append, simp add: XORKeyStream_def)
  qed simp
  then show ?thesis by (simp add: prod_eq_iff) (simp add: XORKeyStream_def)
qed

lemma XORKeyStream_twice: "fst (XORKeyStream c (fst (XORKeyStream c src))) = src"
  by (rule nth_equalityI) (simp_all add: XORKeyStream_nth xor.assoc)

lemma XORKeyStream_state: "length a = length b \<Longrightarrow> snd (XORKeyStream c a) = snd (XORKeyStream c b)"
  by (simp add: XORKeyStream_def)

subsection \<open>Slices\<close>

lemmas hf_defs = hfLen_def hfLenKey_def hfLenIV_def hfLenConnectionType_def hfOffsetKey_def hfOffsetIV_def
  hfOffsetConnectionType_def hfOffsetDC_def

lemma length_set_part: "off + length new \<le> length d \<Longrightarrow> length (set_part off new d) = length d"
  by (simp add: set_part_def)

lemma nth_set_part:
  "off + length new \<le> length d \<Longrightarrow> i < length d \<Longrightarrow>
     set_part off new d ! i = (if off \<le> i \<and> i < off + length new then new ! (i - off) else d ! i)"
  by (auto simp: set_part_def nth_append)

lemma nth_part: "off + n \<le> length d \<Longrightarrow> i < n \<Longrightarrow> part off n d ! i = d ! (off + i)"
  by (simp add: part_def)

lemma length_part: "off + n \<le> length d \<Longrightarrow> length (part off n d) = n"
  by (simp add: part_def)

lemma part_cong:
  "length d = length e \<Longrightarrow> off + n \<le> length d \<Longrightarrow> (\<And>i. off \<le> i \<Longrightarrow> i < off + n \<Longrightarrow> d ! i = e ! i) \<Longrightarrow> part off n d = part off n e"
  by (rule nth_equalityI) (auto simp: length_part nth_part)

lemma part_set_part: "off + length new \<le> length d \<Longrightarrow> part off (length new) (set_part off new d) = new"
  by (simp add: part_def set_part_def)

lemma length_hfConnectionType: "length hfConnectionType = 4"
  by (simp add: hfConnectionType_def)

lemma length_revert: "length h = 64 \<Longrightarrow> length (revert h) = 64"
  by (simp add: revert_def hf_defs length_set_part length_part)

lemma nth_revert: "length h = 64 \<Longrightarrow> i < 64 \<Longrightarrow> revert h ! i = (if 8 \<le> i \<and> i < 56 then h ! (63 - i) else h ! i)"
proof -
  assume h: "length h = 64" "i < 64"
  have len: "length (part 8 48 h) = 48" using h by (simp add: length_part)
  have "rev (part 8 48 h) ! (i - 8) = h ! (63 - i)" if "8 \<le> i" "i < 56"
    using that h len by (simp add: rev_nth nth_part)
  then show ?thesis using h len by (auto simp: revert_def hf_defs nth_set_part)
qed

lemma frame_parts_cong:
  assumes "length d = 64" "length e = 64" "\<And>i. 8 \<le> i \<Longrightarrow> i < 56 \<Longrightarrow> d ! i = e ! i"
  shows "frame_key d = frame_key e" "frame_iv d = frame_iv e"
  unfolding frame_key_def frame_iv_def hf_defs using assms by (auto intro!: part_cong)

lemma frame_tail_cong:
  assumes "length d = 64" "length e = 64" "\<And>i. 56 \<le> i \<Longrightarrow> i < 64 \<Longrightarrow> d ! i = e ! i"
  shows "connectionType d = connectionType e" "dcSlice d = dcSlice e"
  unfolding connectionType_def dcSlice_def hf_defs using assms by (auto intro!: part_cong)

lemma getCipher_cong: "frame_key f = frame_key g \<Longrightarrow> frame_iv f = frame_iv g \<Longrightarrow> getCipher pr secret f = getCipher pr secret g"
  by (cases secret) (simp_all add: getCipher_def)

subsection \<open>The two ends agree\<close>

text \<open>The frame on the wire: the noise, connection type and DC encrypted, the key and IV in
  the clear.\<close>

lemma SendHandshake_wire:
  fixes pr :: primitives and secret :: "bytes option"
  assumes "length g = 64"
  defines "w \<equiv> fst (SendHandshake pr secret g)"
  shows "length w = 64"
    "i < 64 \<Longrightarrow> w ! i = (if 8 \<le> i \<and> i < 56 then g ! i else g ! i XOR keystream (getCipher pr secret g) i)"
proof -
  define x where "x = fst (XORKeyStream (getCipher pr secret g) (revert g))"
  have x: "length x = 64" "\<And>i. i < 64 \<Longrightarrow> x ! i = revert g ! i XOR keystream (getCipher pr secret g) i"
    using assms(1) by (simp_all add: x_def length_revert XORKeyStream_nth) (simp add: getCipher_def)
  have w: "w = set_part 40 (frame_iv g) (set_part 8 (frame_key g) x)"
    by (simp add: w_def SendHandshake_def Let_def x_def case_prod_beta hf_defs)
  have kv: "length (frame_key g) = 32" "length (frame_iv g) = 16"
    using assms(1) by (simp_all add: frame_key_def frame_iv_def hf_defs length_part)
  show "length w = 64" using x(1) kv by (simp add: w length_set_part)
  show "w ! i = (if 8 \<le> i \<and> i < 56 then g ! i else g ! i XOR keystream (getCipher pr secret g) i)" if "i < 64"
    using that assms(1) x kv
    by (auto simp: w nth_set_part length_set_part nth_revert frame_key_def frame_iv_def hf_defs nth_part)
qed

lemma handshake_agree:
  assumes "length g = 64" "connectionType g = hfConnectionType" "SendHandshake pr secret g = (w, a)"
  shows "\<exists>b. ReadHandshake pr secret (w @ r) = (Inr (frame_dc g, b), r) \<and> paired a b"
proof -
  note wire = SendHandshake_wire [where g = g and pr = pr and secret = secret, OF assms(1)]
  have w: "length w = 64"
      "\<And>i. i < 64 \<Longrightarrow> w ! i = (if 8 \<le> i \<and> i < 56 then g ! i else g ! i XOR keystream (getCipher pr secret g) i)"
    using wire assms(3) by simp_all
  have "getCipher pr secret w = getCipher pr secret g"
    using frame_parts_cong [OF w(1) assms(1)] w(2) by (intro getCipher_cong) simp_all
  moreover have "getCipher pr secret (revert w) = getCipher pr secret (revert g)"
  proof (rule getCipher_cong)
    have same: "revert w ! i = revert g ! i" if "8 \<le> i" "i < 56" for i
    proof -
      have "8 \<le> 63 - i" "63 - i < 56" using that by linarith+
      then show ?thesis using that w(1) w(2) [of "63 - i"] assms(1) by (simp add: nth_revert)
    qed
    note parts = frame_parts_cong [OF length_revert [OF w(1)] length_revert [OF assms(1)] same]
    show "frame_key (revert w) = frame_key (revert g)" "frame_iv (revert w) = frame_iv (revert g)"
      by (rule parts; assumption)+
  qed
  moreover define y where "y = fst (XORKeyStream (getCipher pr secret g) (revert w))"
  have y: "length y = 64" "\<And>i. 56 \<le> i \<Longrightarrow> i < 64 \<Longrightarrow> y ! i = g ! i"
    using w by (simp_all add: y_def length_revert XORKeyStream_nth nth_revert) (simp add: getCipher_def xor.assoc)
  have tail: "connectionType y = connectionType g" "frame_dc y = frame_dc g"
    using frame_tail_cong [OF y(1) assms(1) y(2)] by (simp_all add: frame_dc_def)
  moreover have "read_full hfLen (w @ r) = Some (w, r)"
    using w(1) by (intro read_full_append_eq) (simp add: hf_defs)
  ultimately have "ReadHandshake pr secret (w @ r) = (Inr (frame_dc g,
      \<lparr>sendCipher = getCipher pr secret (revert g), recvCipher = snd (XORKeyStream (getCipher pr secret g) (revert w))\<rparr>), r)"
    using assms(2) by (simp add: ReadHandshake_def Let_def case_prod_beta y_def)
  moreover have "a = \<lparr>sendCipher = snd (XORKeyStream (getCipher pr secret g) (revert g)), recvCipher = getCipher pr secret (revert g)\<rparr>"
    using assms(3) by (auto simp: SendHandshake_def Let_def case_prod_beta)
  moreover have "length (revert w) = length (revert g)" using w(1) assms(1) by (simp add: length_revert)
  then have "snd (XORKeyStream (getCipher pr secret g) (revert w)) = snd (XORKeyStream (getCipher pr secret g) (revert g))"
    by (rule XORKeyStream_state)
  ultimately show ?thesis by (simp add: paired_def)
qed

lemma generateHandshake_props:
  assumes "generateHandshake draws dc = Some g" "list_all (\<lambda>d. length d = 64) draws"
  shows "length g = 64 \<and> connectionType g = hfConnectionType \<and> dcSlice g = put_le16 (word_of_int dc) \<and> acceptable g"
  using assms
proof (induction draws dc rule: generateHandshake.induct)
  case (2 d draws dc)
  show ?case
  proof (cases "acceptable d")
    case True
    define e where "e = set_part hfOffsetConnectionType hfConnectionType d"
    have d: "length d = 64" and g: "g = set_part hfOffsetDC (put_le16 (word_of_int dc)) e"
      using 2 True by (simp_all add: e_def)
    have e: "length e = 64" using d by (simp add: e_def length_set_part hf_defs hfConnectionType_def)
    have lg: "length g = 64" using e by (simp add: g length_set_part hf_defs)
    have head: "g ! i = d ! i" if "i < 56" for i
      using that d e by (simp add: g e_def nth_set_part hf_defs hfConnectionType_def)
    have "take 4 g = take 4 d" using head d lg by (intro nth_equalityI) simp_all
    then have "acceptable g" using True head by (simp add: acceptable_def)
    moreover have "dcSlice g = put_le16 (word_of_int dc)"
      using part_set_part [of 60 "put_le16 (word_of_int dc)" e] e by (simp add: dcSlice_def g hf_defs)
    moreover have "connectionType g = connectionType e"
      unfolding connectionType_def hf_defs using e lg by (intro part_cong) (auto simp: g nth_set_part hf_defs)
    moreover have "connectionType e = hfConnectionType"
      using part_set_part [of 56 hfConnectionType d] d length_hfConnectionType
      by (simp add: connectionType_def e_def hf_defs)
    ultimately show ?thesis using lg by simp
  qed (use 2 in simp)
qed simp

lemma obf_write_all_eq:
  "obf_write_all ps c =
     (fst (XORKeyStream (sendCipher c) (concat ps)), c\<lparr>sendCipher := snd (XORKeyStream (sendCipher c) (concat ps))\<rparr>)"
  by (induction ps arbitrary: c)
    (simp add: XORKeyStream_def, simp add: obfConn_Write_def case_prod_beta Let_def XORKeyStream_append)

lemma obf_read_all_eq:
  "obf_read_all ps c =
     (fst (XORKeyStream (recvCipher c) (concat ps)), c\<lparr>recvCipher := snd (XORKeyStream (recvCipher c) (concat ps))\<rparr>)"
  by (induction ps arbitrary: c)
    (simp add: XORKeyStream_def, simp add: obfConn_Read_def case_prod_beta Let_def XORKeyStream_append)

lemma paired_transfer:
  assumes "paired a b" "concat rs = fst (obf_write_all ps a)"
  shows "fst (obf_read_all rs b) = concat ps \<and> paired (snd (obf_write_all ps a)) (snd (obf_read_all rs b))"
  using assms XORKeyStream_twice [of "sendCipher a" "concat ps"]
    XORKeyStream_state [of "fst (XORKeyStream (sendCipher a) (concat ps))" "concat ps" "sendCipher a"]
  by (auto simp: obf_write_all_eq obf_read_all_eq paired_def)

lemma frame_dc_put:
  assumes "dcSlice g = put_le16 (word_of_int dc)" "- 32768 \<le> dc" "dc < 32768"
  shows "frame_dc g = (if dc = 0 then defaultDC else dc)"
proof -
  have "sint (word_of_int dc :: u16) = dc"
    using assms(2,3) by (simp add: signed_of_int signed_take_bit_int_eq_self)
  then show ?thesis using assms(1) by (simp add: frame_dc_def Let_def)
qed

lemma generateHandshake_total: "\<exists>d \<in> set draws. acceptable d \<Longrightarrow> \<exists>g. generateHandshake draws dc = Some g"
  by (induction draws dc rule: generateHandshake.induct) auto

subsection \<open>Properties\<close>

text \<open>Two obfuscators with the same secret understand each other: as soon as one random draw
  is acceptable the sender produces a 64-byte frame, the receiver recovers exactly the
  data centre asked for, its sign included (0 stands for the default one), and from then
  on whatever either side writes, in any pieces, the other reads back, in any pieces.\<close>

lemma obfuscated_handshake:
  assumes "list_all (\<lambda>d. length d = 64) draws" "\<exists>d \<in> set draws. acceptable d" "- 32768 \<le> dc" "dc < 32768"
  shows "\<exists>g w a b. generateHandshake draws dc = Some g \<and> SendHandshake pr secret g = (w, a) \<and> length w = 64 \<and>
    ReadHandshake pr secret (w @ r) = (Inr (if dc = 0 then defaultDC else dc, b), r) \<and>
    (\<forall>ps rs. concat rs = fst (obf_write_all ps a) \<longrightarrow> fst (obf_read_all rs b) = concat ps) \<and>
    (\<forall>ps rs. concat rs = fst (obf_write_all ps b) \<longrightarrow> fst (obf_read_all rs a) = concat ps)"
proof -
  obtain g where g: "generateHandshake draws dc = Some g" using generateHandshake_total [OF assms(2)] by blast
  note props = generateHandshake_props [OF g assms(1)]
  obtain w a where w: "SendHandshake pr secret g = (w, a)" by fastforce
  have "length w = 64" using SendHandshake_wire(1) [where g = g and pr = pr and secret = secret] props w by simp
  moreover obtain b where "ReadHandshake pr secret (w @ r) = (Inr (frame_dc g, b), r)" "paired a b"
    using handshake_agree [OF _ _ w] props by blast
  moreover have "paired b a" using \<open>paired a b\<close> by (simp add: paired_def)
  moreover have "frame_dc g = (if dc = 0 then defaultDC else dc)" using frame_dc_put props assms(3,4) by blast
  moreover have "\<forall>ps rs. concat rs = fst (obf_write_all ps a) \<longrightarrow> fst (obf_read_all rs b) = concat ps"
    using paired_transfer [OF \<open>paired a b\<close>] by blast
  moreover have "\<forall>ps rs. concat rs = fst (obf_write_all ps b) \<longrightarrow> fst (obf_read_all rs a) = concat ps"
    using paired_transfer [OF \<open>paired b a\<close>] by blast
  ultimately show ?thesis using g w by (intro exI [of _ g] exI [of _ w] exI [of _ a] exI [of _ b]) simp
qed

text \<open>What a generated frame never looks like: it does not begin with the abridged,
  intermediate or padded-intermediate markers, an HTTP verb or a TLS hello, its second
  word is not zero, and it carries the padded-intermediate connection type and the
  requested data centre at their offsets.\<close>

lemma generated_frame_shape:
  assumes "generateHandshake draws dc = Some g" "list_all (\<lambda>d. length d = 64) draws"
  shows "length g = 64 \<and> g ! 0 \<noteq> 0xef \<and> get_le32 (take 4 g) \<notin> set forbidden_words \<and>
    (g ! 4 OR g ! 5 OR g ! 6 OR g ! 7) \<noteq> 0 \<and> connectionType g = [0xdd, 0xdd, 0xdd, 0xdd] \<and>
    get_le16 (dcSlice g) = word_of_int dc"
  using generateHandshake_props [OF assms] by (simp add: acceptable_def hfConnectionType_def)

end
