(* ===== verification/Wire.thy ===== *)
theory Wire
  imports Prelude
begin

text \<open>
  Self-delimiting items on a byte stream: the interface between an encoder and the
  decoder that reads one item and leaves the rest. TLS records, handshake
  fragments, TLS extensions and host names are instances of it.
\<close>

locale item_codec =
  fixes enc :: "'m \<Rightarrow> bytes" and dec :: "bytes \<Rightarrow> ('m \<times> bytes) option" and ok :: "'m \<Rightarrow> bool"
  assumes dec_enc: "ok m \<Longrightarrow> dec (enc m @ r) = Some (m, r)"
begin

lemma enc_cancel:
  assumes "ok m" "ok m'" "enc m @ r = enc m' @ r'"
  shows "m = m' \<and> r = r'"
proof -
  have "Some (m, r) = dec (enc m @ r)" using assms(1) by (rule dec_enc [symmetric])
  also have "\<dots> = dec (enc m' @ r')" by (simp only: assms(3))
  also have "\<dots> = Some (m', r')" using assms(2) by (rule dec_enc)
  finally show ?thesis by simp
qed

lemma enc_inj: "ok m \<Longrightarrow> ok m' \<Longrightarrow> enc m = enc m' \<Longrightarrow> m = m'"
  using enc_cancel [of m m' "[]" "[]"] by simp

end

text \<open>A loop that reads items until its input is used up.\<close>

locale item_parser = item_codec +
  fixes parse :: "bytes \<Rightarrow> 'e + 'm list"
  assumes enc_nonempty: "ok m \<Longrightarrow> enc m \<noteq> []"
    and parse_nil: "parse [] = Inr []"
    and parse_item: "bs \<noteq> [] \<Longrightarrow> dec bs = Some (m, r) \<Longrightarrow>
      parse bs = (case parse r of Inl e \<Rightarrow> Inl e | Inr ms \<Rightarrow> Inr (m # ms))"
begin

lemma parse_concat: "list_all ok ms \<Longrightarrow> parse (concat (map enc ms)) = Inr ms"
proof (induction ms)
  case (Cons m ms)
  then have "parse (enc m @ concat (map enc ms)) = Inr (m # ms)"
    using enc_nonempty [of m] by (subst parse_item [OF _ dec_enc]) simp_all
  then show ?case by simp
qed (simp add: parse_nil)

lemma concat_unique:
  assumes "list_all ok ms" "list_all ok ms'" "concat (map enc ms) = concat (map enc ms')"
  shows "ms = ms'"
proof -
  have "Inr ms = parse (concat (map enc ms))" using assms(1) by (rule parse_concat [symmetric])
  also have "\<dots> = Inr ms'" unfolding assms(3) using assms(2) by (rule parse_concat)
  finally show ?thesis by simp
qed

end

text \<open>Data prefixed with its 16-bit big-endian length.\<close>

definition enc_prefixed :: "bytes \<Rightarrow> bytes" where
  "enc_prefixed b = put_be16 (word_of_nat (length b)) @ b"

definition dec_prefixed :: "bytes \<Rightarrow> (bytes \<times> bytes) option" where
  "dec_prefixed r = (case read_full 2 r of None \<Rightarrow> None
     | Some (l, r) \<Rightarrow> read_full (unat (get_be16 l)) r)"

definition fits16 :: "bytes \<Rightarrow> bool" where
  "fits16 b \<longleftrightarrow> length b < 65536"

declare read_full_append_eq [simp]

lemma read_full_0 [simp]: "read_full 0 r = Some ([], r)"
  by (simp add: read_full_def)

lemma unat_of_length16: "n < 65536 \<Longrightarrow> unat (word_of_nat n :: u16) = n"
  by (simp add: unat_of_nat take_bit_nat_eq_self)

interpretation prefixed: item_codec enc_prefixed dec_prefixed fits16
  by unfold_locales (simp add: enc_prefixed_def dec_prefixed_def fits16_def unat_of_length16)

end
