(* ===== verification/TlsRecord.thy ===== *)
theory TlsRecord
  imports Wire
begin

text \<open>
  The TLS record layer of an established connection
  (\<open>mtglib/internal/tls/utils.go\<close> and \<open>conn.go\<close>): reading and writing records, and the
  connection that hands out the application data of the records it reads.
\<close>

subsection \<open>Records\<close>

definition SizeRecordType :: nat where "SizeRecordType = 1"
definition SizeVersion :: nat where "SizeVersion = 2"
definition SizeSize :: nat where "SizeSize = 2"
definition SizeHeader :: nat where "SizeHeader = SizeRecordType + SizeVersion + SizeSize"
definition MaxRecordSize :: nat where "MaxRecordSize = 16384"
definition MaxRecordPayloadSize :: nat where "MaxRecordPayloadSize = MaxRecordSize - SizeHeader"
definition TypeChangeCipherSpec :: byte where "TypeChangeCipherSpec = 0x14"
definition TypeHandshake :: byte where "TypeHandshake = 0x16"
definition TypeApplicationData :: byte where "TypeApplicationData = 0x17"
definition TLSVersion :: bytes where "TLSVersion = [3, 3]"

lemmas record_consts = SizeRecordType_def SizeVersion_def SizeSize_def SizeHeader_def MaxRecordSize_def
  MaxRecordPayloadSize_def TypeChangeCipherSpec_def TypeHandshake_def TypeApplicationData_def TLSVersion_def

datatype tls_error =
    RecordHeaderMissing
  | IncorrectTlsVersion bytes
  | RecordPayloadMissing
  | PayloadTooLong nat
  | SlicePanic
  | RawEOF

text \<open>\<open>ReadRecord r w\<close>: the outcome, what is left of the reader and what the writer holds.\<close>

definition ReadRecord :: "bytes \<Rightarrow> bytes \<Rightarrow> (tls_error + byte \<times> nat) \<times> bytes \<times> bytes" where
  "ReadRecord r w = (case read_full SizeHeader r of
       None \<Rightarrow> (Inl RecordHeaderMissing, [], w)
     | Some (buf, r) \<Rightarrow>
         let pVer = drop SizeRecordType buf; pLen = drop SizeVersion pVer
         in if TLSVersion \<noteq> take SizeVersion pVer then (Inl (IncorrectTlsVersion pVer), r, w)
            else let len = unat (get_be16 (take SizeSize pLen))
                 in case read_full len r of
                      None \<Rightarrow> (Inl RecordPayloadMissing, [], w @ r)
                    | Some (p, r) \<Rightarrow> (Inr (buf ! 0, len), r, w @ p))"

definition record_header :: "byte \<Rightarrow> nat \<Rightarrow> bytes" where
  "record_header t n = t # TLSVersion @ put_be16 (word_of_nat n)"

text \<open>What \<open>WriteRecordInPlace\<close> sends; slicing past the end of the buffer panics.\<close>

definition WriteRecordInPlace :: "bytes \<Rightarrow> nat \<Rightarrow> tls_error + bytes" where
  "WriteRecordInPlace buf payloadLen =
     (if payloadLen > MaxRecordPayloadSize then Inl (PayloadTooLong payloadLen)
      else if length buf < SizeHeader + payloadLen then Inl SlicePanic
      else Inr (take (SizeHeader + payloadLen)
             (record_header TypeApplicationData payloadLen @ drop SizeHeader buf)))"

definition WriteRecord :: "bytes \<Rightarrow> tls_error + bytes" where
  "WriteRecord payload =
     (let room = MaxRecordSize - SizeHeader;
          buf = replicate SizeHeader 0 @ take room payload @ replicate (room - length payload) 0
      in WriteRecordInPlace buf (length payload))"

subsection \<open>The connection\<close>

text \<open>\<open>Conn\<close> with its \<open>connPayload\<close>; \<open>rawIn\<close> is what the network still delivers.\<close>

record tlsConn =
  readBuf :: bytes
  rawIn :: bytes
  readTLS :: bool
  writeTLS :: bool

definition tls_New :: "bytes \<Rightarrow> bool \<Rightarrow> bool \<Rightarrow> tlsConn" where
  "tls_New raw rd wr = \<lparr>readBuf = [], rawIn = raw, readTLS = rd, writeTLS = wr\<rparr>"

text \<open>\<open>Write\<close> reports the whole length together with the error of the record writer; the
  first component is the count, the second what reached the network or the error.\<close>

definition tlsConn_Write :: "bytes \<Rightarrow> tlsConn \<Rightarrow> nat \<times> (tls_error + bytes)" where
  "tlsConn_Write p c = (if \<not> writeTLS c then (length p, Inr p) else (length p, WriteRecord p))"

text \<open>The loop of \<open>Read\<close> while the buffer is empty: the first record with application data
  in it fills the buffer, other records are dropped.\<close>

lemma read_full_shrinks: "read_full n r = Some (a, b) \<Longrightarrow> length b + n = length r"
  by (auto simp: read_full_Some)

lemma ReadRecord_shrinks: "ReadRecord r w = (Inr (t, n), r', w') \<Longrightarrow> length r' < length r"
  by (auto simp: ReadRecord_def Let_def record_consts split: option.splits if_splits
      dest!: read_full_shrinks)

function fill_readBuf :: "bytes \<Rightarrow> tls_error option \<times> bytes \<times> bytes" where
  "fill_readBuf raw = (case ReadRecord raw [] of
       (Inl e, raw, buf) \<Rightarrow> (Some e, raw, buf)
     | (Inr (recordType, n), raw, buf) \<Rightarrow>
         if recordType \<noteq> TypeApplicationData \<or> buf = [] then fill_readBuf raw
         else (None, raw, buf))"
  by pat_completeness auto
termination
  by (relation "measure length") (auto dest: ReadRecord_shrinks [OF sym])

declare fill_readBuf.simps [simp del]

text \<open>\<open>Read\<close> into \<open>n\<close> bytes. Without TLS framing the bytes come from the network directly,
  \<open>ready\<close> of them being there (at least one unless the stream ended).\<close>

definition tlsConn_Read :: "nat \<Rightarrow> nat \<Rightarrow> tlsConn \<Rightarrow> (tls_error + bytes) \<times> tlsConn" where
  "tlsConn_Read ready n c =
     (if \<not> readTLS c then
        if rawIn c = [] \<and> 0 < n then (Inl RawEOF, c)
        else let k = min n (max 1 ready) in (Inr (take k (rawIn c)), c\<lparr>rawIn := drop k (rawIn c)\<rparr>)
      else if readBuf c \<noteq> [] \<or> n = 0 then
        (Inr (take n (readBuf c)), c\<lparr>readBuf := drop n (readBuf c)\<rparr>)
      else case fill_readBuf (rawIn c) of
          (Some e, raw, buf) \<Rightarrow> (Inl e, c\<lparr>rawIn := raw, readBuf := buf\<rparr>)
        | (None, raw, buf) \<Rightarrow> (Inr (take n buf), c\<lparr>rawIn := raw, readBuf := drop n buf\<rparr>))"

text \<open>A reader that calls \<open>Read\<close> with buffers of these sizes until one call fails.\<close>

fun tls_reads :: "nat list \<Rightarrow> tlsConn \<Rightarrow> bytes list \<times> tls_error option \<times> tlsConn" where
  "tls_reads [] c = ([], None, c)"
| "tls_reads (n # ns) c = (case tlsConn_Read 1 n c of
      (Inl e, c) \<Rightarrow> ([], Some e, c)
    | (Inr x, c) \<Rightarrow> let (xs, e, c) = tls_reads ns c in (x # xs, e, c))"

subsection \<open>Records as items\<close>

type_synonym tls_record = "byte \<times> bytes"

definition enc_record :: "tls_record \<Rightarrow> bytes" where
  "enc_record m = record_header (fst m) (length (snd m)) @ snd m"

definition dec_record :: "bytes \<Rightarrow> (tls_record \<times> bytes) option" where
  "dec_record r = (case ReadRecord r [] of (Inl e, _) \<Rightarrow> None | (Inr (t, n), r, p) \<Rightarrow> Some ((t, p), r))"

definition record_ok :: "tls_record \<Rightarrow> bool" where
  "record_ok m \<longleftrightarrow> fits16 (snd m)"

definition app_data :: "tls_record list \<Rightarrow> bytes" where
  "app_data ms = concat (map snd (filter (\<lambda>m. fst m = TypeApplicationData) ms))"

lemma ReadRecord_enc:
  assumes "fits16 p"
  shows "ReadRecord (enc_record (t, p) @ r) w = (Inr (t, length p), r, w @ p)"
proof -
  have "read_full SizeHeader (enc_record (t, p) @ r) = Some (record_header t (length p), p @ r)"
    by (simp add: enc_record_def record_header_def record_consts read_full_def put_be16_def)
  then show ?thesis
    using assms by (simp add: ReadRecord_def record_header_def record_consts fits16_def unat_of_length16 Let_def)
qed

interpretation rec: item_codec enc_record dec_record record_ok
  by unfold_locales (auto simp: dec_record_def record_ok_def ReadRecord_enc)

lemma WriteRecord_ok: "length p \<le> MaxRecordPayloadSize \<Longrightarrow> WriteRecord p = Inr (enc_record (TypeApplicationData, p))"
  by (simp add: WriteRecord_def WriteRecordInPlace_def enc_record_def record_header_def put_be16_def
      SizeHeader_def SizeRecordType_def SizeVersion_def SizeSize_def MaxRecordPayloadSize_def TLSVersion_def)

lemma WriteRecord_long: "length p > MaxRecordPayloadSize \<Longrightarrow> WriteRecord p = Inl (PayloadTooLong (length p))"
  by (simp add: WriteRecord_def WriteRecordInPlace_def)

lemma fill_nil: "fill_readBuf [] = (Some RecordHeaderMissing, [], [])"
  by (subst fill_readBuf.simps) (simp add: ReadRecord_def read_full_def record_consts)

lemma fill_records:
  "list_all record_ok ms \<Longrightarrow>
     (app_data ms = [] \<and> fill_readBuf (concat (map enc_record ms)) = (Some RecordHeaderMissing, [], [])) \<or>
     (\<exists>p ms'. p \<noteq> [] \<and> list_all record_ok ms' \<and> app_data ms = p @ app_data ms' \<and>
        fill_readBuf (concat (map enc_record ms)) = (None, concat (map enc_record ms'), p))"
proof (induction ms)
  case (Cons m ms)
  obtain t p where m: "m = (t, p)" by (cases m)
  let ?rest = "concat (map enc_record ms)"
  have step: "fill_readBuf (enc_record m @ ?rest) =
      (if t \<noteq> TypeApplicationData \<or> p = [] then fill_readBuf ?rest else (None, ?rest, p))"
    using Cons.prems by (subst fill_readBuf.simps) (simp add: m ReadRecord_enc record_ok_def)
  have data: "app_data (m # ms) = (if t = TypeApplicationData then p else []) @ app_data ms"
    by (simp add: app_data_def m)
  show ?case
  proof (cases "t \<noteq> TypeApplicationData \<or> p = []")
    case True
    then have "app_data (m # ms) = app_data ms" using data by auto
    then show ?thesis using Cons True step by simp
  next
    case False
    then show ?thesis using Cons.prems step data by auto
  qed
qed (simp add: fill_nil app_data_def)

text \<open>What the reader still has ahead of it.\<close>

definition at_records :: "tls_record list \<Rightarrow> tlsConn \<Rightarrow> bool" where
  "at_records ms c \<longleftrightarrow> readTLS c \<and> list_all record_ok ms \<and> rawIn c = concat (map enc_record ms)"

lemma tlsConn_Read_step:
  assumes "at_records ms c" "0 < n"
  shows "(readBuf c @ app_data ms = [] \<and> (\<exists>c'. tlsConn_Read k n c = (Inl RecordHeaderMissing, c'))) \<or>
    (\<exists>x c' ms'. tlsConn_Read k n c = (Inr x, c') \<and> x \<noteq> [] \<and> length x \<le> n \<and> at_records ms' c' \<and>
       readBuf c @ app_data ms = x @ readBuf c' @ app_data ms')"
proof (cases "readBuf c = []")
  case False
  then show ?thesis using assms
    by (intro disjI2 exI [of _ "take n (readBuf c)"] exI [of _ "c\<lparr>readBuf := drop n (readBuf c)\<rparr>"] exI [of _ ms])
      (simp add: tlsConn_Read_def at_records_def)
next
  case True
  have rd: "tlsConn_Read k n c = (case fill_readBuf (concat (map enc_record ms)) of
      (Some e, raw, buf) \<Rightarrow> (Inl e, c\<lparr>rawIn := raw, readBuf := buf\<rparr>)
    | (None, raw, buf) \<Rightarrow> (Inr (take n buf), c\<lparr>rawIn := raw, readBuf := drop n buf\<rparr>))"
    using assms True by (simp add: tlsConn_Read_def at_records_def)
  from fill_records [of ms] assms(1) consider
      "app_data ms = []" "fill_readBuf (concat (map enc_record ms)) = (Some RecordHeaderMissing, [], [])"
    | p ms' where "p \<noteq> []" "list_all record_ok ms'" "app_data ms = p @ app_data ms'"
        "fill_readBuf (concat (map enc_record ms)) = (None, concat (map enc_record ms'), p)"
    by (auto simp: at_records_def)
  then show ?thesis
  proof cases
    case 1
    then show ?thesis using True rd by simp
  next
    case 2
    then show ?thesis using assms True rd
      by (intro disjI2 exI [of _ "take n p"] exI [of _ "c\<lparr>rawIn := concat (map enc_record ms'), readBuf := drop n p\<rparr>"]
          exI [of _ ms']) (simp add: at_records_def)
  qed
qed

lemma tls_reads_records:
  assumes "at_records ms c" "list_all (\<lambda>n. 0 < n) ns"
  shows "\<exists>xs e c'. tls_reads ns c = (xs, e, c') \<and> prefix (concat xs) (readBuf c @ app_data ms) \<and>
     list_all (\<lambda>x. x \<noteq> []) xs \<and>
     (e = None \<and> length xs = length ns \<or> e = Some RecordHeaderMissing \<and> concat xs = readBuf c @ app_data ms)"
  using assms
proof (induction ns arbitrary: ms c)
  case (Cons n ns)
  then have "0 < n" by simp
  from tlsConn_Read_step [OF Cons.prems(1) this, of 1] consider
      c' where "readBuf c @ app_data ms = []" "tlsConn_Read 1 n c = (Inl RecordHeaderMissing, c')"
    | x c' ms' where "tlsConn_Read 1 n c = (Inr x, c')" "x \<noteq> []" "at_records ms' c'"
        "readBuf c @ app_data ms = x @ readBuf c' @ app_data ms'"
    by blast
  then show ?case
  proof cases
    case 1
    then show ?thesis by simp
  next
    case 2
    from Cons.IH [OF 2(3)] Cons.prems(2) obtain xs e c'' where
      "tls_reads ns c' = (xs, e, c'')" "prefix (concat xs) (readBuf c' @ app_data ms')" "list_all (\<lambda>x. x \<noteq> []) xs"
      "e = None \<and> length xs = length ns \<or> e = Some RecordHeaderMissing \<and> concat xs = readBuf c' @ app_data ms'"
      by auto
    then show ?thesis using 2 by (intro exI [of _ "x # xs"]) auto
  qed
qed simp

text \<open>C12. The record connection is transparent: whatever records carry the writes of the peer,
  with foreign records in between, a reader that keeps calling \<open>Read\<close> with non-empty
  buffers of any sizes gets at least one byte per call, exactly the written bytes in
  order, and the end of the stream only after the last of them. A write that does not fit
  a record is reported and sends nothing.\<close>

theorem tlsConn_transparent:
  assumes "writeTLS w" "list_all (\<lambda>n. 0 < n) ns"
    and "list_all2 (\<lambda>m b. if fst m = TypeApplicationData
             then length (snd m) \<le> MaxRecordPayloadSize \<and> snd (tlsConn_Write (snd m) w) = Inr b
             else record_ok m \<and> b = enc_record m) ms pieces"
  shows "(\<exists>xs e c. tls_reads ns (tls_New (concat pieces) True wr) = (xs, e, c) \<and>
      prefix (concat xs) (app_data ms) \<and> list_all (\<lambda>x. x \<noteq> []) xs \<and>
      (e = None \<and> length xs = length ns \<or> e = Some RecordHeaderMissing \<and> concat xs = app_data ms)) \<and>
    (MaxRecordPayloadSize < length p \<longrightarrow> tlsConn_Write p w = (length p, Inl (PayloadTooLong (length p))))"
proof -
  have "list_all record_ok ms \<and> pieces = map enc_record ms"
    using assms(3)
  proof (induction rule: list_all2_induct)
    case (Cons m ms b bs)
    then show ?case using assms(1)
      by (cases m) (auto simp: tlsConn_Write_def WriteRecord_ok record_ok_def fits16_def record_consts split: if_splits)
  qed simp
  then have "at_records ms (tls_New (concat pieces) True wr)"
    by (simp add: at_records_def tls_New_def)
  from tls_reads_records [OF this assms(2)] show ?thesis
    using assms(1) by (simp add: tlsConn_Write_def WriteRecord_long tls_New_def)
qed

theorem tlsConn_transparent_witness:
  "fst (tls_reads [2, 1, 5, 9] (tls_New (concat [[0x17, 3, 3, 0, 3, 7, 8, 9], [0x14, 3, 3, 0, 1, 1], [0x17, 3, 3, 0, 1, 5]]) True True))
     = [[7, 8], [9], [5]] \<and>
   (\<exists>xs e c. tls_reads [2, 1, 5, 9]
      (tls_New (concat [[0x17, 3, 3, 0, 3, 7, 8, 9], [0x14, 3, 3, 0, 1, 1], [0x17, 3, 3, 0, 1, 5]]) True True) = (xs, e, c) \<and>
      prefix (concat xs) (app_data [(0x17, [7, 8, 9]), (0x14, [1]), (0x17, [5])]))"
proof
  show "fst (tls_reads [2, 1, 5, 9] (tls_New (concat [[0x17, 3, 3, 0, 3, 7, 8, 9], [0x14, 3, 3, 0, 1, 1], [0x17, 3, 3, 0, 1, 5]]) True True))
     = [[7, 8], [9], [5]]" by code_simp
next
  have m: "length p \<le> 3 \<Longrightarrow> length p \<le> MaxRecordPayloadSize" for p :: bytes by (simp add: record_consts)
  have e: "enc_record (0x17, [7, 8, 9]) = [0x17, 3, 3, 0, 3, 7, 8, 9]" "enc_record (0x14, [1]) = [0x14, 3, 3, 0, 1, 1]"
    "enc_record (0x17, [5]) = [0x17, 3, 3, 0, 1, 5]" by code_simp+
  have t: "TypeApplicationData = 0x17" "record_ok (0x14, [1])" by (simp_all add: record_consts record_ok_def fits16_def)
  have wr: "writeTLS (tls_New [] True True)" "list_all (\<lambda>n. 0 < n) [2, 1, 5, 9 :: nat]" by code_simp+
  have pieces: "list_all2 (\<lambda>m b. if fst m = TypeApplicationData
             then length (snd m) \<le> MaxRecordPayloadSize \<and> snd (tlsConn_Write (snd m) (tls_New [] True True)) = Inr b
             else record_ok m \<and> b = enc_record m) [(0x17, [7, 8, 9]), (0x14, [1]), (0x17, [5])]
      [[0x17, 3, 3, 0, 3, 7, 8, 9], [0x14, 3, 3, 0, 1, 1], [0x17, 3, 3, 0, 1, 5]]"
    using m [of "[7, 8, 9]"] m [of "[5]"] by (simp add: t tlsConn_Write_def tls_New_def WriteRecord_ok e)
  show "\<exists>xs e c. tls_reads [2, 1, 5, 9]
      (tls_New (concat [[0x17, 3, 3, 0, 3, 7, 8, 9], [0x14, 3, 3, 0, 1, 1], [0x17, 3, 3, 0, 1, 5]]) True True) = (xs, e, c) \<and>
      prefix (concat xs) (app_data [(0x17, [7, 8, 9]), (0x14, [1]), (0x17, [5])])"
    by (rule conjunct1 [OF tlsConn_transparent [OF wr pieces, of True "[]"], THEN ex_forward])
      (elim exE conjE, intro exI conjI, assumption+)
qed

end
