(* ===== verification/ClientHello.thy ===== *)
theory ClientHello
  imports TlsRecord
begin

text \<open>
  The server's view of a fake TLS client hello
  (\<open>mtglib/internal/tls/fake/utils.go\<close> and \<open>client_side.go\<close>): reassembly of the handshake
  from record fragments, parsing of the hello and of the server name extension, and
  the search for the secret whose HMAC the client random carries.
\<close>

subsection \<open>Fragments\<close>

definition maxFragmentsCount :: nat where "maxFragmentsCount = 10"

datatype hello_error =
    FragmentHeaderMissing
  | FragmentType byte
  | FragmentVersion byte byte
  | FragmentBodyMissing
  | ErrTooManyFragments
  | HandshakeType byte
  | ClientVersionMissing
  | ClientRandomMissing
  | SessionIDLengthMissing
  | SessionIDMissing
  | CipherSuiteLengthMissing
  | CipherSuiteMissing
  | ErrCannotFindCipher
  | CompressionLengthMissing
  | CompressionMissing
  | ExtensionsLengthMissing
  | ExtensionsMissing
  | ExtensionTypeMissing
  | ExtensionLengthMissing
  | ExtensionDataMissing
  | SNILengthMissing
  | SNIListTypeMissing
  | SNIListType byte
  | HostnameLengthMissing
  | HostnameMissing
  | NoHostMatches

record fragmentedHandshakeReader =
  fr_raw :: bytes
  fr_buf :: bytes
  readFragments :: nat

definition parseNextFragment ::
    "fragmentedHandshakeReader \<Rightarrow> hello_error option \<times> fragmentedHandshakeReader" where
  "parseNextFragment f = (case read_full 5 (fr_raw f) of
       None \<Rightarrow> (Some FragmentHeaderMissing, f\<lparr>fr_raw := []\<rparr>)
     | Some (header, raw) \<Rightarrow>
         if header ! 0 \<noteq> TypeHandshake then (Some (FragmentType (header ! 0)), f\<lparr>fr_raw := raw\<rparr>)
         else if header ! 1 \<noteq> 3 \<or> header ! 2 \<noteq> 1 then
           (Some (FragmentVersion (header ! 1) (header ! 2)), f\<lparr>fr_raw := raw\<rparr>)
         else case read_full (unat (get_be16 (drop 3 header))) raw of
             None \<Rightarrow> (Some FragmentBodyMissing, f\<lparr>fr_raw := [], fr_buf := fr_buf f @ raw\<rparr>)
           | Some (body, raw) \<Rightarrow> (None, f\<lparr>fr_raw := raw, fr_buf := fr_buf f @ body\<rparr>))"

lemma parseNextFragment_count: "parseNextFragment f = (e, f') \<Longrightarrow> readFragments f' = readFragments f"
  by (auto simp: parseNextFragment_def split: option.splits if_splits)

text \<open>The loop of \<open>Read\<close> that fetches fragments until one has content.\<close>

function fetch_fragments ::
    "fragmentedHandshakeReader \<Rightarrow> hello_error option \<times> fragmentedHandshakeReader" where
  "fetch_fragments f =
     (if fr_buf f \<noteq> [] then (None, f)
      else if readFragments f > maxFragmentsCount then (Some ErrTooManyFragments, f)
      else case parseNextFragment f of
          (Some e, f) \<Rightarrow> (Some e, f)
        | (None, f) \<Rightarrow> fetch_fragments (f\<lparr>readFragments := readFragments f + 1\<rparr>))"
  by pat_completeness auto
termination
  by (relation "measure (\<lambda>f. 11 - readFragments f)")
    (auto simp: maxFragmentsCount_def dest!: parseNextFragment_count [OF sym])

declare fetch_fragments.simps [simp del]

definition fragment_Read ::
    "nat \<Rightarrow> fragmentedHandshakeReader \<Rightarrow> (hello_error + bytes) \<times> fragmentedHandshakeReader" where
  "fragment_Read n f = (case fetch_fragments f of
       (Some e, f) \<Rightarrow> (Inl e, f)
     | (None, f) \<Rightarrow> (Inr (take n (fr_buf f)), f\<lparr>fr_buf := drop n (fr_buf f)\<rparr>))"

lemma fetch_fragments_nonempty: "fetch_fragments f = (None, f') \<Longrightarrow> fr_buf f' \<noteq> []"
proof (induction f arbitrary: f' rule: fetch_fragments.induct)
  case (1 f)
  show ?case
    using 1(2) 1(1) by (subst (asm) (1) fetch_fragments.simps) (auto split: if_splits prod.splits option.splits)
qed

text \<open>\<open>io.ReadFull\<close> and \<open>io.CopyN\<close> on this reader, which both call \<open>Read\<close> until they have
  \<open>n\<close> bytes or an error.\<close>

function fragment_ReadFull ::
    "nat \<Rightarrow> fragmentedHandshakeReader \<Rightarrow> (hello_error + bytes) \<times> fragmentedHandshakeReader" where
  "fragment_ReadFull n f =
     (if n = 0 then (Inr [], f)
      else case fragment_Read n f of
          (Inl e, f) \<Rightarrow> (Inl e, f)
        | (Inr x, f) \<Rightarrow> (case fragment_ReadFull (n - length x) f of
              (Inl e, f) \<Rightarrow> (Inl e, f)
            | (Inr y, f) \<Rightarrow> (Inr (x @ y), f)))"
  by pat_completeness auto
termination
  by (relation "measure fst")
    (auto simp: fragment_Read_def dest!: fetch_fragments_nonempty split: prod.splits option.splits)

declare fragment_ReadFull.simps [simp del]

subsection \<open>Reading the hello\<close>

definition TypeHandshakeClient :: byte where "TypeHandshakeClient = 0x01"

text \<open>\<open>parseClientHello\<close> returns the hello as one record and its body, and what is left of
  the connection.\<close>

definition parseClientHello :: "bytes \<Rightarrow> (hello_error + bytes \<times> bytes) \<times> bytes" where
  "parseClientHello r =
     (case fragment_ReadFull 4 \<lparr>fr_raw = r, fr_buf = [], readFragments = 0\<rparr> of
        (Inl e, f) \<Rightarrow> (Inl e, fr_raw f)
      | (Inr header, f) \<Rightarrow>
          if header ! 0 \<noteq> TypeHandshakeClient then (Inl (HandshakeType (header ! 0)), fr_raw f)
          else
            let header = header[0 := 0]; len = unat (get_be32 header);
                start = [TypeHandshake, 3, 1] @ put_be16 (word_of_nat (1 + 3 + len)) @
                        [TypeHandshakeClient] @ drop 1 header
            in case fragment_ReadFull len f of
                 (Inl e, f) \<Rightarrow> (Inl e, fr_raw f)
               | (Inr body, f) \<Rightarrow> (Inr (start @ body, body), fr_raw f))"

definition RandomLen :: nat where "RandomLen = 32"
definition RandomOffset :: nat where "RandomOffset = 1 + 2 + 2 + 1 + 3 + 2"
definition GreaseMask :: u16 where "GreaseMask = 0x0f0f"
definition GreaseValueType :: u16 where "GreaseValueType = 0x0a0a"
definition sniDNSNamesListType :: byte where "sniDNSNamesListType = 0"
definition emptyRandom :: bytes where "emptyRandom = replicate RandomLen 0"
definition extTypeSNI :: bytes where "extTypeSNI = [0, 0]"

record clientHello =
  Random :: bytes
  SessionID :: bytes
  CipherSuite :: u16

definition read_or :: "hello_error \<Rightarrow> nat \<Rightarrow> bytes \<Rightarrow> hello_error + bytes \<times> bytes" where
  "read_or e n r = (case read_full n r of None \<Rightarrow> Inl e | Some x \<Rightarrow> Inr x)"

text \<open>The loop over the cipher suites, with the suite chosen so far.\<close>

fun scan_suites :: "nat \<Rightarrow> u16 \<Rightarrow> bytes \<Rightarrow> hello_error + u16 \<times> bytes" where
  "scan_suites 0 chosen r = Inr (chosen, r)"
| "scan_suites (Suc k) chosen r = (case read_or CipherSuiteMissing 2 r of
      Inl e \<Rightarrow> Inl e
    | Inr (header, r) \<Rightarrow>
        scan_suites k
          (if chosen \<noteq> 0 then chosen
           else let cs = get_be16 header in if cs AND GreaseMask \<noteq> GreaseValueType then cs else chosen) r)"

definition parseHandshake :: "bytes \<Rightarrow> hello_error + clientHello \<times> bytes" where
  "parseHandshake r = (case read_or ClientVersionMissing 2 r of Inl e \<Rightarrow> Inl e | Inr (_, r) \<Rightarrow>
     (case read_or ClientRandomMissing RandomLen r of Inl e \<Rightarrow> Inl e | Inr (random, r) \<Rightarrow>
     (case read_or SessionIDLengthMissing 1 r of Inl e \<Rightarrow> Inl e | Inr (header, r) \<Rightarrow>
     (case read_or SessionIDMissing (unat (header ! 0)) r of Inl e \<Rightarrow> Inl e | Inr (session, r) \<Rightarrow>
     (case read_or CipherSuiteLengthMissing 2 r of Inl e \<Rightarrow> Inl e | Inr (header, r) \<Rightarrow>
     (case scan_suites (unat (get_be16 header) div 2) 0 r of Inl e \<Rightarrow> Inl e | Inr (suite, r) \<Rightarrow>
      if suite = 0 then Inl ErrCannotFindCipher
      else
     (case read_or CompressionLengthMissing 1 r of Inl e \<Rightarrow> Inl e | Inr (header, r) \<Rightarrow>
     (case read_or CompressionMissing (unat (header ! 0)) r of Inl e \<Rightarrow> Inl e | Inr (_, r) \<Rightarrow>
      Inr (\<lparr>Random = random, SessionID = session, CipherSuite = suite\<rparr>, r)))))))))"

text \<open>The loop over the host names of the server name extension.\<close>

function parse_names :: "bytes \<Rightarrow> hello_error + string list" where
  "parse_names buf =
     (if buf = [] then Inr []
      else case read_or HostnameLengthMissing 2 buf of Inl e \<Rightarrow> Inl e | Inr (lengthB, buf) \<Rightarrow>
        (case read_or HostnameMissing (unat (get_be16 lengthB)) buf of Inl e \<Rightarrow> Inl e | Inr (name, buf) \<Rightarrow>
          (case parse_names buf of Inl e \<Rightarrow> Inl e | Inr names \<Rightarrow> Inr (string_of_bytes name # names))))"
  by pat_completeness auto
termination
  by (relation "measure length") (auto simp: read_or_def split: option.splits dest!: read_full_shrinks [OF sym] read_full_shrinks)

declare parse_names.simps [simp del]

definition parse_sni_extension :: "bytes \<Rightarrow> hello_error + string list" where
  "parse_sni_extension ext = (case read_or SNILengthMissing 2 ext of Inl e \<Rightarrow> Inl e | Inr (lengthB, buf) \<Rightarrow>
      if get_be16 lengthB = 0 then Inr []
      else case read_or SNIListTypeMissing 1 buf of Inl e \<Rightarrow> Inl e | Inr (listType, buf) \<Rightarrow>
        if listType ! 0 \<noteq> sniDNSNamesListType then Inl (SNIListType (listType ! 0)) else parse_names buf)"

text \<open>The loop over the extensions, which ends at the first server name extension.\<close>

function parse_extensions :: "bytes \<Rightarrow> hello_error + string list" where
  "parse_extensions buf =
     (if buf = [] then Inr []
      else case read_or ExtensionTypeMissing 2 buf of Inl e \<Rightarrow> Inl e | Inr (extTypeB, buf) \<Rightarrow>
        (case read_or ExtensionLengthMissing 2 buf of Inl e \<Rightarrow> Inl e | Inr (lengthB, buf) \<Rightarrow>
        (case read_or ExtensionDataMissing (unat (get_be16 lengthB)) buf of Inl e \<Rightarrow> Inl e | Inr (extDataB, buf) \<Rightarrow>
          if extTypeB \<noteq> extTypeSNI then parse_extensions buf else parse_sni_extension extDataB)))"
  by pat_completeness auto
termination
  by (relation "measure length") (auto simp: read_or_def split: option.splits dest!: read_full_shrinks [OF sym] read_full_shrinks)

declare parse_extensions.simps [simp del]

definition parseSNI :: "bytes \<Rightarrow> hello_error + string list" where
  "parseSNI r = (case read_or ExtensionsLengthMissing 2 r of Inl e \<Rightarrow> Inl e | Inr (header, r) \<Rightarrow>
     (case read_or ExtensionsMissing (unat (get_be16 header)) r of Inl e \<Rightarrow> Inl e | Inr (buf, _) \<Rightarrow>
        parse_extensions buf))"

subsection \<open>Matching a secret\<close>

text \<open>\<open>time.Time.Sub\<close> saturates; \<open>Duration.Abs\<close> maps the least duration to the greatest.\<close>

definition time_Sub :: "go_time \<Rightarrow> go_time \<Rightarrow> duration" where
  "time_Sub a b = max (- (2 ^ 63)) (min (2 ^ 63 - 1) (a - b))"

definition duration_Abs :: "duration \<Rightarrow> duration" where
  "duration_Abs d = (if d = - (2 ^ 63) then 2 ^ 63 - 1 else \<bar>d\<bar>)"

definition time_Unix :: "int \<Rightarrow> go_time" where
  "time_Unix sec = unix_epoch + sec * 1000000000"

record readClientHelloResult =
  Hello :: clientHello
  MatchedIndex :: nat
  MatchedHost :: string

text \<open>The outcome: an error, \<open>ErrBadDigest\<close> with the partial result's host, or a match.\<close>

datatype read_hello =
    HelloFailed hello_error
  | ErrBadDigest string
  | HelloMatch readClientHelloResult

text \<open>HMAC-SHA256 is the argument \<open>hmac\<close>, key first.\<close>

definition hello_digest :: "(bytes \<Rightarrow> bytes \<Rightarrow> bytes) \<Rightarrow> bytes \<Rightarrow> bytes \<Rightarrow> bytes" where
  "hello_digest hmac secret handshakeBytes =
     hmac secret (take RandomOffset handshakeBytes @ emptyRandom @ drop (RandomOffset + RandomLen) handshakeBytes)"

definition secret_matches ::
    "(bytes \<Rightarrow> bytes \<Rightarrow> bytes) \<Rightarrow> go_time \<Rightarrow> duration \<Rightarrow> bytes \<Rightarrow> bytes \<Rightarrow> bytes \<Rightarrow> bool" where
  "secret_matches hmac now tolerance handshakeBytes random secret =
     (let computed = xor_bytes (hello_digest hmac secret handshakeBytes) random
      in take (RandomLen - 4) emptyRandom = take (RandomLen - 4) computed \<and>
         (let createdAt = time_Unix (uint (get_le32 (drop (RandomLen - 4) computed)))
          in \<not> duration_Abs (time_Sub now createdAt) > tolerance))"

fun first_match :: "(bytes \<Rightarrow> bool) \<Rightarrow> nat \<Rightarrow> bytes list \<Rightarrow> nat option" where
  "first_match P idx [] = None"
| "first_match P idx (s # ss) = (if P s then Some idx else first_match P (Suc idx) ss)"

definition match_host :: "string list \<Rightarrow> string list \<Rightarrow> string" where
  "match_host hostnames sni = (case find (\<lambda>h. h \<in> set sni) hostnames of None \<Rightarrow> [] | Some h \<Rightarrow> h)"

definition ReadClientHelloMulti ::
    "(bytes \<Rightarrow> bytes \<Rightarrow> bytes) \<Rightarrow> go_time \<Rightarrow> bytes \<Rightarrow> bytes list \<Rightarrow> string list \<Rightarrow> duration
      \<Rightarrow> read_hello \<times> bytes" where
  "ReadClientHelloMulti hmac now conn secrets hostnames tolerance =
     (case parseClientHello conn of
        (Inl e, conn) \<Rightarrow> (HelloFailed e, conn)
      | (Inr (handshakeBytes, body), conn) \<Rightarrow>
          ((case parseHandshake body of Inl e \<Rightarrow> HelloFailed e | Inr (hello, r) \<Rightarrow>
           (case parseSNI r of Inl e \<Rightarrow> HelloFailed e | Inr sniHostnames \<Rightarrow>
             let matchedHost = match_host hostnames sniHostnames
             in if matchedHost = [] then HelloFailed NoHostMatches
                else case first_match (secret_matches hmac now tolerance handshakeBytes (Random hello)) 0 secrets of
                    Some idx \<Rightarrow> HelloMatch \<lparr>Hello = hello, MatchedIndex = idx, MatchedHost = matchedHost\<rparr>
                  | None \<Rightarrow> ErrBadDigest matchedHost)), conn))"

text \<open>The variant for one secret drops the partial result of a bad digest.\<close>

definition ReadClientHello ::
    "(bytes \<Rightarrow> bytes \<Rightarrow> bytes) \<Rightarrow> go_time \<Rightarrow> bytes \<Rightarrow> bytes \<Rightarrow> string \<Rightarrow> duration
      \<Rightarrow> (hello_error option + clientHello) \<times> bytes" where
  "ReadClientHello hmac now conn secret hostname tolerance =
     (case ReadClientHelloMulti hmac now conn [secret] [hostname] tolerance of
        (HelloFailed e, conn) \<Rightarrow> (Inl (Some e), conn)
      | (ErrBadDigest h, conn) \<Rightarrow> (Inl None, conn)
      | (HelloMatch r, conn) \<Rightarrow> (Inr (Hello r), conn))"

subsection \<open>What a client sends\<close>

text \<open>A handshake message cut into record fragments.\<close>

definition enc_fragment :: "bytes \<Rightarrow> bytes" where
  "enc_fragment b = [TypeHandshake, 3, 1] @ enc_prefixed b"

text \<open>A client hello with one server name, as RFC 6066 has it.\<close>

record hello_msg =
  hm_version :: bytes
  hm_session :: bytes
  hm_suites :: "u16 list"
  hm_compression :: bytes
  hm_before :: "(bytes \<times> bytes) list"
  hm_host :: string
  hm_after :: "(bytes \<times> bytes) list"

definition enc_extension :: "bytes \<times> bytes \<Rightarrow> bytes" where
  "enc_extension x = fst x @ enc_prefixed (snd x)"

definition sni_data :: "string \<Rightarrow> bytes" where
  "sni_data host = enc_prefixed (sniDNSNamesListType # enc_prefixed (bytes_of_string host))"

definition extensions :: "hello_msg \<Rightarrow> bytes" where
  "extensions m = concat (map enc_extension (hm_before m @ [(extTypeSNI, sni_data (hm_host m))] @ hm_after m))"

definition hello_body :: "hello_msg \<Rightarrow> bytes \<Rightarrow> bytes" where
  "hello_body m random = hm_version m @ random @ [word_of_nat (length (hm_session m))] @ hm_session m @
     enc_prefixed (concat (map put_be16 (hm_suites m))) @
     [word_of_nat (length (hm_compression m))] @ hm_compression m @ enc_prefixed (extensions m)"

definition handshake_msg :: "hello_msg \<Rightarrow> bytes \<Rightarrow> bytes" where
  "handshake_msg m random = TypeHandshakeClient #
     drop 1 (put_be32 (word_of_nat (length (hello_body m random)))) @ hello_body m random"

definition hello_wire :: "hello_msg \<Rightarrow> bytes \<Rightarrow> bytes" where
  "hello_wire m random = enc_fragment (handshake_msg m random)"

definition suite_chosen :: "hello_msg \<Rightarrow> u16 option" where
  "suite_chosen m = find (\<lambda>c. c \<noteq> 0 \<and> c AND GreaseMask \<noteq> GreaseValueType) (hm_suites m)"

definition extension_ok :: "bytes \<times> bytes \<Rightarrow> bool" where
  "extension_ok x \<longleftrightarrow> length (fst x) = 2 \<and> fits16 (snd x)"

definition hello_ok :: "hello_msg \<Rightarrow> bool" where
  "hello_ok m \<longleftrightarrow> length (hm_version m) = 2 \<and> length (hm_session m) < 256 \<and> length (hm_suites m) < 32768 \<and>
     suite_chosen m \<noteq> None \<and> length (hm_compression m) < 256 \<and> fits16 (extensions m) \<and>
     list_all (\<lambda>x. extension_ok x \<and> fst x \<noteq> extTypeSNI) (hm_before m) \<and> hm_host m \<noteq> []"

text \<open>How the client proves that it knows the secret at the time \<open>ts\<close>: the random of its hello
  is the HMAC of the hello with a zero random, its last word mixed with the time.\<close>

definition client_random :: "(bytes \<Rightarrow> bytes \<Rightarrow> bytes) \<Rightarrow> bytes \<Rightarrow> hello_msg \<Rightarrow> u32 \<Rightarrow> bytes" where
  "client_random hmac secret m ts =
     xor_bytes (hmac secret (hello_wire m emptyRandom)) (replicate 28 0 @ put_le32 ts)"

text \<open>The specification of a match: the random is the digest under the secret with a time in
  its last word that is close enough.\<close>

definition verifies ::
    "(bytes \<Rightarrow> bytes \<Rightarrow> bytes) \<Rightarrow> go_time \<Rightarrow> duration \<Rightarrow> bytes \<Rightarrow> bytes \<Rightarrow> bytes \<Rightarrow> bool" where
  "verifies hmac now tolerance wire random secret \<longleftrightarrow>
     (\<exists>ts. random = xor_bytes (hello_digest hmac secret wire) (replicate 28 0 @ put_le32 ts) \<and>
           \<bar>now - time_Unix (uint ts)\<bar> \<le> tolerance)"

subsection \<open>Lemmas: fragments\<close>

definition at_fragments :: "bytes list \<Rightarrow> bytes \<Rightarrow> fragmentedHandshakeReader \<Rightarrow> bool" where
  "at_fragments fs rest f \<longleftrightarrow> fr_raw f = concat (map enc_fragment fs) @ rest \<and> list_all fits16 fs \<and>
     readFragments f + length fs \<le> 11"

lemma parseNextFragment_enc:
  assumes "fits16 b" "fr_raw f = enc_fragment b @ r"
  shows "parseNextFragment f = (None, f\<lparr>fr_raw := r, fr_buf := fr_buf f @ b\<rparr>)"
proof -
  have "read_full 5 (enc_fragment b @ r) =
      Some ([TypeHandshake, 3, 1] @ put_be16 (word_of_nat (length b)), b @ r)"
    by (simp add: enc_fragment_def enc_prefixed_def read_full_def put_be16_def)
  then show ?thesis
    using assms by (simp add: parseNextFragment_def fits16_def unat_of_length16)
qed

lemma fetch_fragments_at:
  assumes "at_fragments fs rest f" "fr_buf f @ concat fs \<noteq> []"
  shows "\<exists>f' fs'. fetch_fragments f = (None, f') \<and> at_fragments fs' rest f' \<and> suffix fs' fs \<and>
    fr_buf f' \<noteq> [] \<and> fr_buf f' @ concat fs' = fr_buf f @ concat fs"
  using assms
proof (induction fs arbitrary: f)
  case Nil
  then show ?case by (intro exI [of _ f] exI [of _ "[]"]) (simp add: fetch_fragments.simps)
next
  case (Cons b fs)
  show ?case
  proof (cases "fr_buf f = []")
    case False
    then show ?thesis using Cons.prems
      by (intro exI [of _ f] exI [of _ "b # fs"]) (simp add: fetch_fragments.simps)
  next
    case True
    define f1 where "f1 = f\<lparr>fr_raw := concat (map enc_fragment fs) @ rest, fr_buf := b, readFragments := readFragments f + 1\<rparr>"
    have "parseNextFragment f = (None, f\<lparr>fr_raw := concat (map enc_fragment fs) @ rest, fr_buf := b\<rparr>)"
      using Cons.prems True parseNextFragment_enc [of b f "concat (map enc_fragment fs) @ rest"]
      by (simp add: at_fragments_def)
    then have "fetch_fragments f = fetch_fragments f1"
      using Cons.prems True by (subst fetch_fragments.simps) (simp add: f1_def maxFragmentsCount_def at_fragments_def)
    moreover have "at_fragments fs rest f1" "fr_buf f1 @ concat fs \<noteq> []"
      using Cons.prems True by (auto simp: f1_def at_fragments_def)
    ultimately show ?thesis using Cons.IH [of f1] True by (auto simp: f1_def suffix_Cons)
  qed
qed

lemma fragment_ReadFull_at:
  assumes "at_fragments fs rest f" "n \<le> length (fr_buf f @ concat fs)"
  shows "\<exists>f' fs'. fragment_ReadFull n f = (Inr (take n (fr_buf f @ concat fs)), f') \<and>
    at_fragments fs' rest f' \<and> suffix fs' fs \<and> fr_buf f' @ concat fs' = drop n (fr_buf f @ concat fs)"
  using assms
proof (induction n arbitrary: f fs rule: less_induct)
  case (less n)
  show ?case
  proof (cases "n = 0")
    case True
    then show ?thesis using less.prems by (auto simp: fragment_ReadFull.simps)
  next
    case False
    define d where "d = fr_buf f @ concat fs"
    have "0 < length d" using False less.prems(2) unfolding d_def by linarith
    then have "d \<noteq> []" by simp
    then obtain f1 fs1 where f1: "fetch_fragments f = (None, f1)" "at_fragments fs1 rest f1" "suffix fs1 fs"
        "fr_buf f1 \<noteq> []" "fr_buf f1 @ concat fs1 = d"
      using fetch_fragments_at [OF less.prems(1)] unfolding d_def by blast
    define x where "x = take n (fr_buf f1)"
    define f2 where "f2 = f1\<lparr>fr_buf := drop n (fr_buf f1)\<rparr>"
    have rd: "fragment_Read n f = (Inr x, f2)" by (simp add: fragment_Read_def f1(1) x_def f2_def)
    have x: "0 < length x" "length x \<le> n" using False f1(4) by (simp_all add: x_def)
    have d2: "fr_buf f2 @ concat fs1 = drop (length x) d"
      by (simp add: f2_def x_def min_def flip: f1(5))
    have xd: "x = take (length x) d" by (simp add: x_def min_def flip: f1(5))
    have "at_fragments fs1 rest f2" using f1(2) by (simp add: f2_def at_fragments_def)
    moreover have "n - length x \<le> length (fr_buf f2 @ concat fs1)"
      using less.prems(2) x unfolding d2 d_def by simp
    moreover have "n - length x < n" using x False by simp
    ultimately obtain f3 fs3 where f3: "fragment_ReadFull (n - length x) f2 = (Inr (take (n - length x) (drop (length x) d)), f3)"
        "at_fragments fs3 rest f3" "suffix fs3 fs1" "fr_buf f3 @ concat fs3 = drop (n - length x) (drop (length x) d)"
      using less.IH [of "n - length x" fs1 f2] unfolding d2 by blast
    have "x @ take (n - length x) (drop (length x) d) = take n d"
      using x by (subst xd) (simp add: take_add [symmetric])
    then have "fragment_ReadFull n f = (Inr (take n d), f3)"
      using False by (subst fragment_ReadFull.simps) (simp add: rd f3(1))
    moreover have "suffix fs3 fs" using f3(3) f1(3) by (rule suffix_order.trans)
    moreover have "drop (n - length x) (drop (length x) d) = drop n d" using x by simp
    ultimately show ?thesis using f3(2,4) unfolding d_def [symmetric] by auto
  qed
qed

text \<open>A message sent in at most eleven fragments, the last of them not empty, is read whole.\<close>

lemma get_be32_uint24:
  assumes "n < 2 ^ 24"
  shows "get_be32 (0 # drop 1 (put_be32 (word_of_nat n))) = word_of_nat n"
proof -
  have "unat (word_of_nat n :: u32) = n" using assms by (simp add: unat_of_nat take_bit_nat_eq_self)
  then have "unat (drop_bit 24 (word_of_nat n :: u32)) = 0"
    using assms by (subst unsigned_drop_bit_eq) (simp add: drop_bit_eq_div take_bit_nat_eq_self)
  then have "drop_bit 24 (word_of_nat n :: u32) = 0" by (simp only: unsigned_eq_0_iff)
  then have "0 # drop 1 (put_be32 (word_of_nat n :: u32)) = put_be32 (word_of_nat n)"
    by (simp add: put_be32_def)
  then show ?thesis by simp
qed

lemma parseClientHello_fragments:
  assumes "concat fs = TypeHandshakeClient # drop 1 (put_be32 (word_of_nat (length body))) @ body"
    and "length body < 2 ^ 24" "list_all fits16 fs" "length fs \<le> 11" "last fs \<noteq> []"
  shows "parseClientHello (concat (map enc_fragment fs) @ rest) =
    (Inr (enc_fragment (concat fs), body), rest)"
proof -
  define f where "f = \<lparr>fr_raw = concat (map enc_fragment fs) @ rest, fr_buf = [], readFragments = 0\<rparr>"
  define start where "start = TypeHandshakeClient # drop 1 (put_be32 (word_of_nat (length body)))"
  have start: "length start = 4" "concat fs = start @ body" using assms(1) by (simp_all add: start_def)
  have f: "at_fragments fs rest f" "fr_buf f = []"
    using assms(3,4) by (simp_all add: at_fragments_def f_def)
  obtain f1 fs1 where f1: "fragment_ReadFull 4 f = (Inr start, f1)" "at_fragments fs1 rest f1" "suffix fs1 fs"
      "fr_buf f1 @ concat fs1 = body"
    using fragment_ReadFull_at [OF f(1), of 4] f(2) start by auto
  obtain f2 fs2 where f2: "fragment_ReadFull (length body) f1 = (Inr body, f2)" "at_fragments fs2 rest f2"
      "suffix fs2 fs1" "fr_buf f2 @ concat fs2 = []"
    using fragment_ReadFull_at [OF f1(2), of "length body"] f1(4) by auto
  have suf: "suffix fs2 fs" using f2(3) f1(3) by (rule suffix_order.trans)
  have "fs2 = []"
  proof (rule ccontr)
    assume "fs2 \<noteq> []"
    then have "last fs2 = last fs" using suf by (auto simp: suffix_def)
    moreover have "last fs2 = []" using \<open>fs2 \<noteq> []\<close> f2(4) by simp
    ultimately show False using assms(5) by simp
  qed
  then have "fr_raw f2 = rest" using f2(2) by (simp add: at_fragments_def)
  moreover have "start[0 := 0] = 0 # drop 1 (put_be32 (word_of_nat (length body)))" "start ! 0 = TypeHandshakeClient"
      "drop 1 start = drop 1 (put_be32 (word_of_nat (length body)))"
    by (simp_all add: start_def)
  moreover have "unat (get_be32 (0 # drop 1 (put_be32 (word_of_nat (length body))))) = length body"
    using assms(2) by (subst get_be32_uint24) (simp_all add: unat_of_nat take_bit_nat_eq_self)
  moreover have "length (concat fs) = 4 + length body" using start by simp
  ultimately show ?thesis using f1(1) f2(1)
    by (simp add: parseClientHello_def Let_def start enc_fragment_def enc_prefixed_def flip: f_def) (simp add: start_def)
qed

subsection \<open>Lemmas: the hello\<close>

lemma read_or_append [simp]: "length a = n \<Longrightarrow> read_or e n (a @ r) = Inr (a, r)"
  by (simp add: read_or_def)

lemma read_or_Cons [simp]: "read_or e (Suc 0) (a # r) = Inr ([a], r)"
  by (simp add: read_or_def read_full_def)

lemma unat_of_length8: "n < 256 \<Longrightarrow> unat (word_of_nat n :: byte) = n"
  by (simp add: unat_of_nat take_bit_nat_eq_self)

lemma scan_suites_enc:
  "scan_suites (length cs) chosen (concat (map put_be16 cs) @ r) =
     Inr (if chosen \<noteq> 0 then chosen
          else case find (\<lambda>c. c \<noteq> 0 \<and> c AND GreaseMask \<noteq> GreaseValueType) cs of None \<Rightarrow> 0 | Some c \<Rightarrow> c, r)"
  by (induction cs arbitrary: chosen) (auto simp: Let_def)

lemma length_suites: "length (concat (map put_be16 cs)) = 2 * length cs"
  by (induction cs) simp_all

lemma parseHandshake_body:
  assumes "hello_ok m" "suite_chosen m = Some c" "length random = RandomLen"
  shows "parseHandshake (hello_body m random) =
    Inr (\<lparr>Random = random, SessionID = hm_session m, CipherSuite = c\<rparr>, enc_prefixed (extensions m))"
proof -
  have "c \<noteq> 0" using assms(2) by (auto simp: suite_chosen_def find_Some_iff)
  moreover have "unat (2 * word_of_nat (length (hm_suites m)) :: u16) = 2 * length (hm_suites m)"
    using assms(1) unat_of_length16 [of "2 * length (hm_suites m)"] by (simp add: hello_ok_def)
  ultimately show ?thesis using assms
    by (simp add: parseHandshake_def hello_body_def hello_ok_def unat_of_length8 enc_prefixed_def length_suites
        unat_of_length16 scan_suites_enc suite_chosen_def)
qed

definition dec_name :: "bytes \<Rightarrow> (string \<times> bytes) option" where
  "dec_name r = map_option (\<lambda>(b, r). (string_of_bytes b, r)) (dec_prefixed r)"

interpretation names: item_parser "\<lambda>h. enc_prefixed (bytes_of_string h)" dec_name "\<lambda>h. fits16 (bytes_of_string h)" parse_names
proof unfold_locales
  fix m :: string and r assume "fits16 (bytes_of_string m)"
  then show "dec_name (enc_prefixed (bytes_of_string m) @ r) = Some (m, r)"
    using prefixed.dec_enc [of "bytes_of_string m" r] by (simp add: dec_name_def)
next
  fix m :: string
  show "enc_prefixed (bytes_of_string m) \<noteq> []" by (simp add: enc_prefixed_def put_be16_def)
next
  show "parse_names [] = Inr []" by (simp add: parse_names.simps)
next
  fix bs :: bytes and m r assume "bs \<noteq> []" "dec_name bs = Some (m, r)"
  then show "parse_names bs = (case parse_names r of Inl e \<Rightarrow> Inl e | Inr ms \<Rightarrow> Inr (m # ms))"
    by (subst parse_names.simps) (auto simp: dec_name_def dec_prefixed_def read_or_def split: option.splits)
qed

interpretation ext: item_codec enc_extension
    "\<lambda>r. case read_full 2 r of None \<Rightarrow> None | Some (t, r) \<Rightarrow> map_option (\<lambda>(d, r). ((t, d), r)) (dec_prefixed r)"
    extension_ok
proof unfold_locales
  fix m :: "bytes \<times> bytes" and r assume "extension_ok m"
  then show "(case read_full 2 (enc_extension m @ r) of None \<Rightarrow> None
      | Some (t, r) \<Rightarrow> map_option (\<lambda>(d, r). ((t, d), r)) (dec_prefixed r)) = Some (m, r)"
    using prefixed.dec_enc [of "snd m" r] by (simp add: enc_extension_def extension_ok_def)
qed

lemma parse_extensions_enc:
  assumes "extension_ok (ty, d)"
  shows "parse_extensions (enc_extension (ty, d) @ r) =
    (if ty \<noteq> extTypeSNI then parse_extensions r else parse_sni_extension d)"
proof -
  have "read_or ExtensionTypeMissing 2 (enc_extension (ty, d) @ r) = Inr (ty, enc_prefixed d @ r)"
    using assms by (simp add: enc_extension_def extension_ok_def)
  moreover have "read_or ExtensionLengthMissing 2 (enc_prefixed d @ r) = Inr (put_be16 (word_of_nat (length d)), d @ r)"
    by (simp add: enc_prefixed_def)
  moreover have "enc_extension (ty, d) @ r \<noteq> []" by (simp add: enc_extension_def enc_prefixed_def put_be16_def)
  ultimately show ?thesis
    using assms by (subst parse_extensions.simps)
      (simp add: extension_ok_def fits16_def unat_of_length16 del: append_is_Nil_conv)
qed

lemma parse_extensions_before:
  "list_all (\<lambda>x. extension_ok x \<and> fst x \<noteq> extTypeSNI) xs \<Longrightarrow>
     parse_extensions (concat (map enc_extension xs) @ r) = parse_extensions r"
  by (induction xs) (auto simp: parse_extensions_enc)

lemma parse_sni_data:
  assumes "length h < 65533"
  shows "parse_sni_extension (sni_data h) = Inr [h]"
proof -
  have "parse_names (enc_prefixed (bytes_of_string h)) = Inr [h]"
    using names.parse_concat [of "[h]"] assms by (simp add: fits16_def)
  moreover have "(word_of_nat (length (sniDNSNamesListType # enc_prefixed (bytes_of_string h))) :: u16) \<noteq> 0"
    using assms unat_of_length16 [of "3 + length h"] by (auto simp: enc_prefixed_def)
  ultimately show ?thesis
    by (simp add: parse_sni_extension_def sni_data_def enc_prefixed_def [of "_ # _"])
qed

lemma parseSNI_enc:
  assumes "hello_ok m"
  shows "parseSNI (enc_prefixed (extensions m)) = Inr [hm_host m]"
proof -
  have "length (sni_data (hm_host m)) \<le> length (extensions m)"
    by (simp add: extensions_def enc_extension_def enc_prefixed_def)
  moreover have "length (sni_data (hm_host m)) = 5 + length (hm_host m)" by (simp add: sni_data_def enc_prefixed_def)
  moreover have "length (extensions m) < 65536" using assms by (simp add: hello_ok_def fits16_def)
  ultimately have "extension_ok (extTypeSNI, sni_data (hm_host m))" "length (hm_host m) < 65533"
    by (simp_all add: extension_ok_def extTypeSNI_def fits16_def)
  then have "parse_extensions (extensions m) = Inr [hm_host m]"
    using assms by (simp add: extensions_def hello_ok_def parse_extensions_before parse_extensions_enc parse_sni_data)
  then show ?thesis
    using \<open>length (extensions m) < 65536\<close> read_or_append [of "extensions m" _ ExtensionsMissing "[]"]
    by (simp add: parseSNI_def enc_prefixed_def unat_of_length16)
qed

subsection \<open>Lemmas: the digest\<close>

lemma xor_bytes_cancel: "length b \<le> length a \<Longrightarrow> xor_bytes a (xor_bytes a b) = b"
  by (rule nth_equalityI) (simp_all add: xor_bytes_def flip: xor.assoc)

lemma skew_bound:
  assumes "tolerance < 2 ^ 63 - 1"
  shows "\<not> duration_Abs (time_Sub now at) > tolerance \<longleftrightarrow> \<bar>now - at\<bar> \<le> tolerance"
  using assms by (auto simp: duration_Abs_def time_Sub_def min_def max_def)

lemma length4_le32:
  assumes "length b = 4"
  shows "put_le32 (get_le32 b) = b"
proof -
  obtain b0 b1 b2 b3 where "b = [b0, b1, b2, b3]"
    using assms by (auto simp: length_Suc_conv numeral_eq_Suc)
  then show ?thesis
    by (simp add: put_le32_def get_le32_def) (intro conjI; rule bit_word_eqI; auto simp: bit_simps dest: bit_imp_le_length)
qed

lemma secret_matches_iff:
  assumes "\<And>k b. length (hmac k b) = 32" "length random = 32" "tolerance < 2 ^ 63 - 1"
  shows "secret_matches hmac now tolerance wire random s \<longleftrightarrow> verifies hmac now tolerance wire random s"
proof -
  define h where "h = hello_digest hmac s wire"
  define c where "c = xor_bytes h random"
  have h: "length h = 32" by (simp add: h_def hello_digest_def assms(1))
  have c: "length c = 32" by (simp add: c_def h assms(2))
  have random: "random = xor_bytes h c" using h assms(2) by (simp add: c_def xor_bytes_cancel)
  have iff: "random = xor_bytes h d \<longleftrightarrow> c = d" if "length d = 32" for d
    using random xor_bytes_cancel [of d h] h that by (auto simp: c_def)
  have split: "c = replicate 28 0 @ put_le32 ts \<longleftrightarrow> take 28 c = replicate 28 0 \<and> get_le32 (drop 28 c) = ts" for ts
  proof
    assume l: "take 28 c = replicate 28 0 \<and> get_le32 (drop 28 c) = ts"
    then have "drop 28 c = put_le32 ts" using length4_le32 [of "drop 28 c"] c by auto
    then show "c = replicate 28 0 @ put_le32 ts" using l append_take_drop_id [of 28 c] by metis
  qed simp
  have "secret_matches hmac now tolerance wire random s \<longleftrightarrow>
      take 28 c = replicate 28 0 \<and> \<bar>now - time_Unix (uint (get_le32 (drop 28 c)))\<bar> \<le> tolerance"
    unfolding skew_bound [OF assms(3), symmetric]
    by (auto simp: secret_matches_def Let_def c_def h_def RandomLen_def emptyRandom_def)
  also have "\<dots> \<longleftrightarrow> verifies hmac now tolerance wire random s"
    unfolding verifies_def h_def [symmetric] by (simp add: iff split)
  finally show ?thesis .
qed

lemma first_match_Some:
  "first_match P idx ss = Some j \<longleftrightarrow>
     (\<exists>i < length ss. j = idx + i \<and> P (ss ! i) \<and> (\<forall>k < i. \<not> P (ss ! k)))"
  by (induction ss arbitrary: idx) (auto simp: Ex_less_Suc2 All_less_Suc2)

lemma first_match_None: "first_match P idx ss = None \<longleftrightarrow> (\<forall>s \<in> set ss. \<not> P s)"
  by (induction ss arbitrary: idx) auto

subsection \<open>Properties\<close>

lemma length_hello_body:
  assumes "hello_ok m" "length random = 32"
  shows "length (hello_body m random) < 2 ^ 24"
  using assms by (simp add: hello_body_def hello_ok_def enc_prefixed_def length_suites fits16_def)

lemma hello_digest_wire:
  assumes "hello_ok m" "length random = 32"
  shows "hello_digest hmac s (hello_wire m random) = hmac s (hello_wire m emptyRandom)"
proof -
  have len: "length (hello_body m random) = length (hello_body m emptyRandom)"
    using assms(2) by (simp add: hello_body_def emptyRandom_def RandomLen_def)
  define pre where "pre = [TypeHandshake, 3, 1] @ put_be16 (word_of_nat (4 + length (hello_body m random))) @
    [TypeHandshakeClient] @ drop 1 (put_be32 (word_of_nat (length (hello_body m random)))) @ hm_version m"
  define post where "post = drop 34 (hello_body m random)"
  have post: "post = drop 34 (hello_body m emptyRandom)"
    using assms by (simp add: post_def hello_body_def hello_ok_def emptyRandom_def RandomLen_def)
  have pre: "length pre = 11" using assms(1) by (simp add: pre_def hello_ok_def)
  have wire: "hello_wire m r = pre @ r @ post" if "r = random \<or> r = emptyRandom" for r
  proof -
    have "length r = 32" using that assms(2) by (auto simp: emptyRandom_def RandomLen_def)
    moreover have "length (hello_body m r) = length (hello_body m random)" "post = drop 34 (hello_body m r)"
      using that len post by (auto simp: post_def)
    ultimately show ?thesis using assms(1)
      by (simp add: hello_wire_def enc_fragment_def enc_prefixed_def handshake_msg_def pre_def)
        (simp add: hello_body_def hello_ok_def)
  qed
  show ?thesis
    by (simp add: hello_digest_def wire pre RandomOffset_def RandomLen_def assms(2) emptyRandom_def)
qed

text \<open>C4. A client that knows a secret gets in: take any client hello with one server name
  that the proxy serves and at least one usable cipher suite, signed with the secret
  number \<open>i\<close> at a time within the tolerance, and cut into at most eleven record fragments.
  Unless an earlier secret verifies the same hello, the proxy reports exactly this
  secret, the host and the session, and picks the first cipher suite that is neither a
  GREASE value nor zero. What follows the hello on the connection is left untouched.\<close>

theorem client_hello_accepted:
  assumes "hello_ok m" "\<And>k b. length (hmac k b) = 32" "tolerance < 2 ^ 63 - 1"
    and "i < length secrets" "random = client_random hmac (secrets ! i) m ts"
    and "\<bar>now - time_Unix (uint ts)\<bar> \<le> tolerance"
    and "\<forall>k < i. \<not> verifies hmac now tolerance (hello_wire m random) random (secrets ! k)"
    and "concat fs = handshake_msg m random" "list_all fits16 fs" "length fs \<le> 11" "last fs \<noteq> []"
    and "hm_host m \<in> set hostnames"
  shows "ReadClientHelloMulti hmac now (concat (map enc_fragment fs) @ rest) secrets hostnames tolerance =
    (HelloMatch \<lparr>Hello = \<lparr>Random = random, SessionID = hm_session m, CipherSuite = the (suite_chosen m)\<rparr>,
          MatchedIndex = i, MatchedHost = hm_host m\<rparr>, rest)"
proof -
  have random: "length random = 32" using assms(2,5) by (simp add: client_random_def)
  have pc: "parseClientHello (concat (map enc_fragment fs) @ rest) = (Inr (hello_wire m random, hello_body m random), rest)"
    using parseClientHello_fragments [of fs "hello_body m random" rest] assms(8-11)
      length_hello_body [OF assms(1) random] by (simp add: handshake_msg_def hello_wire_def)
  obtain c where c: "suite_chosen m = Some c" using assms(1) by (auto simp: hello_ok_def)
  have ph: "parseHandshake (hello_body m random) =
      Inr (\<lparr>Random = random, SessionID = hm_session m, CipherSuite = c\<rparr>, enc_prefixed (extensions m))"
    using parseHandshake_body [OF assms(1) c] random by (simp add: RandomLen_def)
  have host: "match_host hostnames [hm_host m] = hm_host m"
    using assms(12) by (auto simp: match_host_def find_None_iff find_Some_iff split: option.splits)
  have "verifies hmac now tolerance (hello_wire m random) random (secrets ! i)"
    unfolding verifies_def hello_digest_wire [OF assms(1) random] using assms(5,6) by (auto simp: client_random_def)
  then have "first_match (secret_matches hmac now tolerance (hello_wire m random) random) 0 secrets = Some i"
    using assms(2,3,4,7) random by (simp add: first_match_Some secret_matches_iff)
  then show ?thesis
    using assms(1) by (simp add: ReadClientHelloMulti_def pc ph parseSNI_enc host c hello_ok_def)
qed

lemma parseHandshake_length:
  "parseHandshake body = Inr (hello, rem) \<Longrightarrow> length (Random hello) = 32 \<and> 34 \<le> length body"
  by (auto simp: parseHandshake_def read_or_def read_full_Some RandomLen_def split: sum.splits option.splits if_splits)

lemma fragment_ReadFull_length: "fragment_ReadFull n f = (Inr x, f') \<Longrightarrow> length x = n"
proof (induction n arbitrary: f x f' rule: less_induct)
  case (less n)
  show ?case
  proof (cases "n = 0")
    case True
    then show ?thesis using less.prems by (simp add: fragment_ReadFull.simps)
  next
    case False
    then obtain y f1 z where rd: "fragment_Read n f = (Inr y, f1)"
        and z: "fragment_ReadFull (n - length y) f1 = (Inr z, f')" "x = y @ z"
      using less.prems by (subst (asm) fragment_ReadFull.simps) (auto split: prod.splits sum.splits)
    have y: "y \<noteq> []" "length y \<le> n"
      using rd False by (auto simp: fragment_Read_def split: prod.splits option.splits dest!: fetch_fragments_nonempty)
    then have "n - length y < n" using False by (cases y) simp_all
    from less.IH [OF this z(1)] show ?thesis using z(2) y by simp
  qed
qed

lemma parseClientHello_length:
  assumes "parseClientHello conn = (Inr (wire, body), rest)"
  shows "length wire = 9 + length body"
  using assms
  by (auto simp: parseClientHello_def Let_def split: prod.splits sum.splits if_splits dest!: fragment_ReadFull_length)

lemma match_host_in: "match_host hs names \<noteq> [] \<Longrightarrow> match_host hs names \<in> set hs \<inter> set names"
proof (cases "find (\<lambda>h. h \<in> set names) hs")
  case (Some h)
  then have "h \<in> set hs" "h \<in> set names" by (auto simp: find_Some_iff)
  then show ?thesis using Some by (simp add: match_host_def)
qed (simp add: match_host_def)

text \<open>A sample hello in two fragments, signed with a stand-in for the keyed hash.\<close>

definition sample_hmac :: "bytes \<Rightarrow> bytes \<Rightarrow> bytes" where
  "sample_hmac k b = take 32 (k @ replicate 32 7)"

definition sample_hello :: hello_msg where
  "sample_hello = \<lparr>hm_version = [3, 3], hm_session = [1, 2], hm_suites = [0x2a2a, 0x1301], hm_compression = [0],
     hm_before = [([0, 11], [1])], hm_host = ''a.io'', hm_after = []\<rparr>"

definition sample_random :: bytes where
  "sample_random = client_random sample_hmac [5] sample_hello 100"

definition sample_fragments :: "bytes list" where
  "sample_fragments = (let h = handshake_msg sample_hello sample_random in [take 3 h, drop 3 h])"

lemma length_sample_hmac: "length (sample_hmac k b) = 32"
  by (simp add: sample_hmac_def)

theorem client_hello_accepted_witness:
  "fst (ReadClientHelloMulti sample_hmac (time_Unix 103) (concat (map enc_fragment sample_fragments) @ [9])
      [[4], [5]] [''b.io'', ''a.io''] 5000000000) =
   HelloMatch \<lparr>Hello = \<lparr>Random = sample_random, SessionID = [1, 2], CipherSuite = 0x1301\<rparr>, MatchedIndex = 1, MatchedHost = ''a.io''\<rparr>"
proof -
  have lens: "map length sample_fragments = [3, 66]" "length (extensions sample_hello) = 18" by code_simp+
  have chosen: "suite_chosen sample_hello = Some 0x1301" by code_simp
  have ok1: "hello_ok sample_hello" using lens(2) chosen
    by (simp add: hello_ok_def fits16_def) (simp add: sample_hello_def extension_ok_def fits16_def extTypeSNI_def)
  have "length ` set sample_fragments = {3, 66}" using arg_cong [OF lens(1), of set] by simp
  then have "length x \<in> {3, 66}" if "x \<in> set sample_fragments" for x using imageI [OF that, of length] by simp
  then have ok5: "list_all fits16 sample_fragments" by (fastforce simp: fits16_def list_all_iff)
  have ok: "\<bar>time_Unix 103 - time_Unix (uint (100 :: u32))\<bar> \<le> 5000000000"
    "sample_random = client_random sample_hmac ([[4], [5]] ! 1) sample_hello 100"
    "concat sample_fragments = handshake_msg sample_hello sample_random"
    "length sample_fragments \<le> 11" "last sample_fragments \<noteq> []" "hm_host sample_hello \<in> set [''b.io'', ''a.io'']"
    by code_simp+
  have "\<not> secret_matches sample_hmac (time_Unix 103) 5000000000 (hello_wire sample_hello sample_random) sample_random [4]"
    by code_simp
  moreover have "length sample_random = 32" by code_simp
  ultimately have "\<not> verifies sample_hmac (time_Unix 103) 5000000000 (hello_wire sample_hello sample_random) sample_random ([[4], [5]] ! 0)"
    by (simp add: secret_matches_iff length_sample_hmac)
  then have "\<forall>k < 1. \<not> verifies sample_hmac (time_Unix 103) 5000000000 (hello_wire sample_hello sample_random) sample_random ([[4], [5]] ! k)"
    by simp
  moreover have "the (suite_chosen sample_hello) = 0x1301" "hm_session sample_hello = [1, 2]" "hm_host sample_hello = ''a.io''"
    by code_simp+
  ultimately show ?thesis
    using client_hello_accepted [of sample_hello sample_hmac 5000000000 1 "[[4], [5]]" sample_random 100 "time_Unix 103" sample_fragments "[''b.io'', ''a.io'']" "[9]",
        OF ok1 length_sample_hmac _ _ ok(2) ok(1) _ ok(3) ok5 ok(4-6)] by simp
qed

text \<open>C5. Nobody else does: when the proxy accepts a hello, the client random is the digest
  of the hello under the reported secret with a time within the tolerance, no earlier
  secret verifies it, and the reported host is one of ours that the hello names. When the
  digest is refused, no secret at all verifies the hello, and the host reported for domain
  fronting is one of ours. The slices taken for the digest are within the hello.\<close>

theorem client_hello_sound:
  assumes "ReadClientHelloMulti hmac now conn secrets hostnames tolerance = (res, rest)"
    and "\<And>k b. length (hmac k b) = 32" "tolerance < 2 ^ 63 - 1"
  shows "case res of
      HelloMatch r \<Rightarrow> (\<exists>wire body rem names. parseClientHello conn = (Inr (wire, body), rest) \<and>
         parseHandshake body = Inr (Hello r, rem) \<and> parseSNI rem = Inr names \<and>
         RandomOffset + RandomLen \<le> length wire \<and>
         MatchedIndex r < length secrets \<and> MatchedHost r \<in> set hostnames \<inter> set names \<and>
         verifies hmac now tolerance wire (Random (Hello r)) (secrets ! MatchedIndex r) \<and>
         (\<forall>k < MatchedIndex r. \<not> verifies hmac now tolerance wire (Random (Hello r)) (secrets ! k)))
    | ErrBadDigest host \<Rightarrow> host \<in> set hostnames \<and>
         (\<exists>wire body hello rem. parseClientHello conn = (Inr (wire, body), rest) \<and>
           parseHandshake body = Inr (hello, rem) \<and>
           (\<forall>s \<in> set secrets. \<not> verifies hmac now tolerance wire (Random hello) s))
    | HelloFailed _ \<Rightarrow> True"
proof (cases "\<exists>e. res = HelloFailed e")
  case False
  then obtain wire body hello rem names where
      pc: "parseClientHello conn = (Inr (wire, body), rest)" and ph: "parseHandshake body = Inr (hello, rem)"
      and sni: "parseSNI rem = Inr names" and host: "match_host hostnames names \<noteq> []"
      and res: "res = (case first_match (secret_matches hmac now tolerance wire (Random hello)) 0 secrets of
          Some idx \<Rightarrow> HelloMatch \<lparr>Hello = hello, MatchedIndex = idx, MatchedHost = match_host hostnames names\<rparr>
        | None \<Rightarrow> ErrBadDigest (match_host hostnames names))"
    using assms(1) by (auto simp: ReadClientHelloMulti_def Let_def split: prod.splits sum.splits if_splits)
  have random: "length (Random hello) = 32" and body: "34 \<le> length body"
    using parseHandshake_length [OF ph] by simp_all
  have wire: "RandomOffset + RandomLen \<le> length wire"
    using parseClientHello_length [OF pc] body by (simp add: RandomOffset_def RandomLen_def)
  note matches = secret_matches_iff [OF assms(2) random assms(3)]
  show ?thesis
  proof (cases "first_match (secret_matches hmac now tolerance wire (Random hello)) 0 secrets")
    case None
    then have "\<forall>s \<in> set secrets. \<not> verifies hmac now tolerance wire (Random hello) s"
      by (simp add: first_match_None matches)
    moreover have "res = ErrBadDigest (match_host hostnames names)" using res None by simp
    ultimately show ?thesis using pc ph match_host_in [OF host] by auto
  next
    case (Some idx)
    then have "idx < length secrets \<and> verifies hmac now tolerance wire (Random hello) (secrets ! idx) \<and>
        (\<forall>k < idx. \<not> verifies hmac now tolerance wire (Random hello) (secrets ! k))"
      by (auto simp: first_match_Some matches)
    moreover have "res = HelloMatch \<lparr>Hello = hello, MatchedIndex = idx, MatchedHost = match_host hostnames names\<rparr>"
      using res Some by simp
    ultimately show ?thesis using pc ph sni wire match_host_in [OF host] by simp
  qed
qed auto

theorem client_hello_sound_witness:
  "fst (ReadClientHelloMulti sample_hmac (time_Unix 200) (concat (map enc_fragment sample_fragments)) [[5]] [''a.io''] 5000000000)
     = ErrBadDigest ''a.io'' \<and>
   (\<exists>wire body hello rem. parseClientHello (concat (map enc_fragment sample_fragments)) = (Inr (wire, body), []) \<and>
      parseHandshake body = Inr (hello, rem) \<and>
      (\<forall>s \<in> set [[5]]. \<not> verifies sample_hmac (time_Unix 200) 5000000000 wire (Random hello) s))"
proof -
  have run: "ReadClientHelloMulti sample_hmac (time_Unix 200) (concat (map enc_fragment sample_fragments)) [[5]] [''a.io''] 5000000000
      = (ErrBadDigest ''a.io'', [])" by code_simp
  show ?thesis using client_hello_sound [OF run length_sample_hmac] by (simp add: run)
qed

end
