(* ===== verification/ServerHello.thy ===== *)
theory ServerHello
  imports ClientHello
begin

text \<open>
  The answer to an accepted client hello (\<open>mtglib/internal/tls/fake/server_side.go\<close>): a
  server hello record, a change cipher record and one record of noise, with the HMAC of
  the three in place of the server random.
\<close>

record noiseParams =
  Mean :: int
  Jitter :: int

definition TypeHandshakeServer :: byte where "TypeHandshakeServer = 0x02"
definition ChangeCipherValue :: byte where "ChangeCipherValue = 0x01"
definition EllipticCurveLen :: nat where "EllipticCurveLen = 32"

definition serverHelloSuffix :: bytes where
  "serverHelloSuffix = [0x00, 0x00, 0x2e, 0x00, 0x2b, 0x00, 0x02, 0x03, 0x04,
     0x00, 0x33, 0x00, 0x24, 0x00, 0x1d, 0x00, 0x20]"

text \<open>\<open>curve\<close> is the public key that curve25519 gives for the random scalar.\<close>

definition generateServerHelloHandshakePayload :: "bytes \<Rightarrow> clientHello \<Rightarrow> bytes" where
  "generateServerHelloHandshakePayload curve hello =
     TLSVersion @ emptyRandom @ [word_of_nat (length (SessionID hello))] @ SessionID hello @
     put_be16 (CipherSuite hello) @ serverHelloSuffix @ curve"

definition generateServerHelloPayload :: "bytes \<Rightarrow> clientHello \<Rightarrow> bytes" where
  "generateServerHelloPayload curve hello =
     (let payload = generateServerHelloHandshakePayload curve hello
      in TypeHandshakeServer # drop 1 (put_be32 (word_of_nat (length payload))) @ payload)"

definition generateServerHello :: "bytes \<Rightarrow> clientHello \<Rightarrow> bytes" where
  "generateServerHello curve hello =
     (let payload = generateServerHelloPayload curve hello
      in TypeHandshake # TLSVersion @ put_be16 (word_of_nat (length payload)) @ payload)"

definition generateChangeCipherValue :: bytes where
  "generateChangeCipherValue = TypeChangeCipherSpec # TLSVersion @ put_be16 1 @ [ChangeCipherValue]"

text \<open>\<open>draw n\<close> is what \<open>rnd.IntN(n)\<close> returns.\<close>

definition noise_size :: "(int \<Rightarrow> int) \<Rightarrow> noiseParams \<Rightarrow> int" where
  "noise_size draw noise =
     (if Mean noise > 0 \<and> Jitter noise > 0
      then max (i64 (Mean noise - Jitter noise + draw (i64 (2 * Jitter noise)))) 1000
      else 2500 + draw 2200)"

text \<open>\<open>fill n\<close> are the \<open>n\<close> random bytes; the error of the record writer is ignored.\<close>

definition generateNoise :: "(int \<Rightarrow> int) \<Rightarrow> (nat \<Rightarrow> bytes) \<Rightarrow> noiseParams \<Rightarrow> bytes" where
  "generateNoise draw fill noise =
     (case WriteRecord (fill (nat (noise_size draw noise))) of Inl e \<Rightarrow> [] | Inr b \<Rightarrow> b)"

text \<open>What \<open>SendServerHello\<close> writes to the client.\<close>

definition SendServerHello ::
    "(bytes \<Rightarrow> bytes \<Rightarrow> bytes) \<Rightarrow> bytes \<Rightarrow> (int \<Rightarrow> int) \<Rightarrow> (nat \<Rightarrow> bytes) \<Rightarrow> bytes \<Rightarrow> clientHello \<Rightarrow> noiseParams \<Rightarrow> bytes" where
  "SendServerHello hmac curve draw fill secret clientHello noise =
     (let packet = generateServerHello curve clientHello @ generateChangeCipherValue @ generateNoise draw fill noise;
          digest = hmac secret (Random clientHello @ packet)
      in take RandomOffset packet @ take (length packet - RandomOffset) digest @
         drop (RandomOffset + length digest) packet)"

subsection \<open>Properties\<close>

text \<open>The record with the server hello as the client sees it.\<close>

definition server_hello_payload :: "bytes \<Rightarrow> bytes \<Rightarrow> clientHello \<Rightarrow> bytes" where
  "server_hello_payload curve random hello =
     TypeHandshakeServer # drop 1 (put_be32 (word_of_nat (86 + length (SessionID hello)))) @
     TLSVersion @ random @ [word_of_nat (length (SessionID hello))] @ SessionID hello @
     put_be16 (CipherSuite hello) @ serverHelloSuffix @ curve"

lemma generateServerHello_eq:
  assumes "length curve = EllipticCurveLen" "length (SessionID hello) < 256"
  shows "generateServerHello curve hello = enc_record (TypeHandshake, server_hello_payload curve emptyRandom hello)"
  using assms
  by (simp add: generateServerHello_def generateServerHelloPayload_def generateServerHelloHandshakePayload_def
      server_hello_payload_def enc_record_def record_header_def Let_def EllipticCurveLen_def serverHelloSuffix_def
      emptyRandom_def RandomLen_def TLSVersion_def)

lemma generateChangeCipherValue_eq: "generateChangeCipherValue = enc_record (TypeChangeCipherSpec, [ChangeCipherValue])"
  by (simp add: generateChangeCipherValue_def enc_record_def record_header_def)

lemma generateNoise_eq:
  assumes "\<And>n. length (fill n) = n"
  shows "generateNoise draw fill noise =
    (if nat (noise_size draw noise) \<le> MaxRecordPayloadSize
     then enc_record (TypeApplicationData, fill (nat (noise_size draw noise))) else [])"
  using assms by (simp add: generateNoise_def WriteRecord_ok WriteRecord_long)

text \<open>The random sits at \<open>RandomOffset\<close> between parts that do not depend on it.\<close>

lemma random_slot:
  obtains pre post where "length pre = RandomOffset"
    and "\<And>r. length r = 32 \<Longrightarrow> enc_record (TypeHandshake, server_hello_payload curve r hello) = pre @ r @ post"
proof -
  define post where "post = [word_of_nat (length (SessionID hello))] @ SessionID hello @
     put_be16 (CipherSuite hello) @ serverHelloSuffix @ curve"
  define pre where "pre = record_header TypeHandshake (38 + length post) @
     TypeHandshakeServer # drop 1 (put_be32 (word_of_nat (86 + length (SessionID hello)))) @ TLSVersion"
  show thesis
    by (rule that [of pre post])
      (simp_all add: pre_def post_def enc_record_def record_header_def server_hello_payload_def RandomOffset_def TLSVersion_def)
qed

text \<open>The whole answer, with the digest over its version with a zero random.\<close>

lemma SendServerHello_eq:
  assumes "\<And>k b. length (hmac k b) = 32" "length curve = EllipticCurveLen" "length (SessionID hello) < 256"
  shows "let p = SendServerHello hmac curve draw fill secret hello noise; random = take 32 (drop RandomOffset p)
    in random = hmac secret (Random hello @ take RandomOffset p @ emptyRandom @ drop (RandomOffset + RandomLen) p) \<and>
      length random = 32 \<and>
      p = enc_record (TypeHandshake, server_hello_payload curve random hello) @
          enc_record (TypeChangeCipherSpec, [ChangeCipherValue]) @ generateNoise draw fill noise"
proof -
  obtain pre post where slot: "length pre = RandomOffset"
      "\<And>r. length r = 32 \<Longrightarrow> enc_record (TypeHandshake, server_hello_payload curve r hello) = pre @ r @ post"
    using random_slot [of curve hello] by metis
  define tail where "tail = enc_record (TypeChangeCipherSpec, [ChangeCipherValue]) @ generateNoise draw fill noise"
  have empty: "length emptyRandom = 32" by (simp add: emptyRandom_def RandomLen_def)
  define random where "random = hmac secret (Random hello @ pre @ emptyRandom @ post @ tail)"
  have random: "length random = 32" by (simp add: random_def assms(1))
  have "generateServerHello curve hello @ generateChangeCipherValue @ generateNoise draw fill noise =
      pre @ emptyRandom @ post @ tail"
    by (simp add: tail_def generateServerHello_eq [OF assms(2,3)] generateChangeCipherValue_eq slot(2) empty)
  then have p: "SendServerHello hmac curve draw fill secret hello noise = pre @ random @ post @ tail"
    using slot(1) empty random by (simp add: SendServerHello_def Let_def flip: random_def)
  show ?thesis
    unfolding Let_def p using slot random empty by (simp add: random_def RandomLen_def tail_def)
qed

lemma noise_size_bounds:
  assumes "\<And>n. 0 < n \<Longrightarrow> 0 \<le> draw n \<and> draw n < n" "Mean noise < 2 ^ 61" "Jitter noise < 2 ^ 61"
  shows "if Mean noise > 0 \<and> Jitter noise > 0
    then 1000 \<le> noise_size draw noise \<and> Mean noise - Jitter noise \<le> noise_size draw noise \<and>
      noise_size draw noise < max 1001 (Mean noise + Jitter noise)
    else 2500 \<le> noise_size draw noise \<and> noise_size draw noise < 4700"
proof (cases "Mean noise > 0 \<and> Jitter noise > 0")
  case True
  then have j: "i64 (2 * Jitter noise) = 2 * Jitter noise" using assms(3) by (simp add: i64_def)
  define d where "d = draw (2 * Jitter noise)"
  have d: "0 \<le> d" "d < 2 * Jitter noise" using assms(1) [of "2 * Jitter noise"] True by (simp_all add: d_def)
  have "i64 (Mean noise - Jitter noise + d) = Mean noise - Jitter noise + d"
    using d True assms(2,3) by (simp add: i64_def)
  then show ?thesis using True d by (auto simp: noise_size_def j simp flip: d_def)
next
  case False
  then show ?thesis using assms(1) [of 2200] by (auto simp: noise_size_def)
qed

text \<open>C29. The answer passes for a TLS 1.3 server and convinces the client: for noise that fits a
  record it is exactly three records, the server hello, a change cipher message and one
  record of noise of the calibrated (or default) size; the session and the chosen cipher
  suite are echoed, and the bytes at the place of the random are the HMAC, under the
  client's secret, of the client random and the whole answer with a zero random. When the
  noise does not fit a record, the third record is missing.\<close>

theorem server_hello_verifiable:
  assumes "\<And>k b. length (hmac k b) = 32" "\<And>n. length (fill n) = n"
    and "\<And>n. 0 < n \<Longrightarrow> 0 \<le> draw n \<and> draw n < n" "Mean noise < 2 ^ 61" "Jitter noise < 2 ^ 61"
    and "length curve = EllipticCurveLen" "length (SessionID hello) < 256"
  shows "let p = SendServerHello hmac curve draw fill secret hello noise; random = take 32 (drop RandomOffset p);
      size = noise_size draw noise
    in random = hmac secret (Random hello @ take RandomOffset p @ emptyRandom @ drop (RandomOffset + RandomLen) p) \<and>
      (\<exists>hs r1 r2. ReadRecord p [] = (Inr (TypeHandshake, length hs), r1, hs) \<and> hs = server_hello_payload curve random hello \<and>
        ReadRecord r1 [] = (Inr (TypeChangeCipherSpec, 1), r2, [ChangeCipherValue]) \<and>
        (if size \<le> int MaxRecordPayloadSize
         then ReadRecord r2 [] = (Inr (TypeApplicationData, nat size), [], fill (nat size)) else r2 = [])) \<and>
      (if Mean noise > 0 \<and> Jitter noise > 0
       then 1000 \<le> size \<and> Mean noise - Jitter noise \<le> size \<and> size < max 1001 (Mean noise + Jitter noise)
       else 2500 \<le> size \<and> size < 4700)"
proof -
  define p where "p = SendServerHello hmac curve draw fill secret hello noise"
  define random where "random = take 32 (drop RandomOffset p)"
  define hs where "hs = server_hello_payload curve random hello"
  define size where "size = noise_size draw noise"
  define tail where "tail = generateNoise draw fill noise"
  have p: "random = hmac secret (Random hello @ take RandomOffset p @ emptyRandom @ drop (RandomOffset + RandomLen) p)"
      "length random = 32" "p = enc_record (TypeHandshake, hs) @ enc_record (TypeChangeCipherSpec, [ChangeCipherValue]) @ tail"
    using SendServerHello_eq [of hmac curve hello draw fill secret noise, OF assms(1,6,7)]
    unfolding Let_def p_def [symmetric] random_def [symmetric] hs_def [symmetric] tail_def [symmetric] by blast+
  have "fits16 hs"
    using assms(6,7) p(2) by (simp add: fits16_def hs_def server_hello_payload_def serverHelloSuffix_def EllipticCurveLen_def TLSVersion_def)
  then have hs: "ReadRecord p [] = (Inr (TypeHandshake, length hs), enc_record (TypeChangeCipherSpec, [ChangeCipherValue]) @ tail, hs)"
    by (subst p(3)) (simp add: ReadRecord_enc)
  have ccs: "ReadRecord (enc_record (TypeChangeCipherSpec, [ChangeCipherValue]) @ tail) [] =
      (Inr (TypeChangeCipherSpec, 1), tail, [ChangeCipherValue])"
    by (subst ReadRecord_enc) (simp_all add: fits16_def)
  have noise: "if size \<le> int MaxRecordPayloadSize
      then ReadRecord tail [] = (Inr (TypeApplicationData, nat size), [], fill (nat size)) else tail = []"
    using ReadRecord_enc [of "fill (nat size)" TypeApplicationData "[]" "[]"] assms(2)
    by (auto simp: generateNoise_eq tail_def size_def fits16_def record_consts)
  note bounds = noise_size_bounds [OF assms(3-5), folded size_def]
  show ?thesis
    unfolding Let_def p_def [symmetric] size_def [symmetric] random_def [symmetric]
    using bounds hs ccs noise p(1) by (auto simp: hs_def)
qed

theorem server_hello_verifiable_witness:
  "let p = SendServerHello sample_hmac (replicate 32 1) (\<lambda>n. 0) (\<lambda>n. replicate n 2) [5]
      \<lparr>Random = sample_random, SessionID = [1, 2], CipherSuite = 0x1301\<rparr> \<lparr>Mean = 0, Jitter = 0\<rparr>
   in take 32 (drop RandomOffset p) = sample_hmac [5] (sample_random @ take RandomOffset p @ emptyRandom @ drop (RandomOffset + RandomLen) p)"
  using server_hello_verifiable [of sample_hmac "\<lambda>n. replicate n 2" "\<lambda>n. 0" "\<lparr>Mean = 0, Jitter = 0\<rparr>" "replicate 32 1"
      "\<lparr>Random = sample_random, SessionID = [1, 2], CipherSuite = 0x1301\<rparr>" "[5]", OF length_sample_hmac]
  by (simp add: Let_def EllipticCurveLen_def)

end
