(* ===== verification/NetText.thy ===== *)
theory NetText
  imports NetAddr SecretLimits Encoding
begin

text \<open>
  The text functions of Go's standard library that the network code uses: splitting
  into lines and fields, \<open>net.SplitHostPort\<close> and \<open>net.JoinHostPort\<close>, \<open>strconv.Itoa\<close>
  \<open>net.ParseIP\<close> and \<open>net.IP.String\<close>.
\<close>

subsection \<open>Strings\<close>

definition hasPrefix :: "string \<Rightarrow> string \<Rightarrow> bool" where
  "hasPrefix s p \<longleftrightarrow> take (length p) s = p"

fun containsStr :: "string \<Rightarrow> string \<Rightarrow> bool" where
  "containsStr [] p = (p = [])"
| "containsStr (c # s) p = (hasPrefix (c # s) p \<or> containsStr s p)"

definition trimRightChar :: "char \<Rightarrow> string \<Rightarrow> string" where
  "trimRightChar c s = rev (dropWhile (\<lambda>d. d = c) (rev s))"

text \<open>\<open>strings.Fields\<close>, the maximal runs without white space.\<close>

definition flush_field :: "bytes \<Rightarrow> bytes list \<Rightarrow> bytes list" where
  "flush_field cur fs = (if cur = [] then fs else rev cur # fs)"

function fields_from :: "bytes \<Rightarrow> bytes \<Rightarrow> bytes list" where
  "fields_from cur b = (case strip_one space_seqs b of
       Some r \<Rightarrow> flush_field cur (fields_from [] r)
     | None \<Rightarrow> (case b of [] \<Rightarrow> flush_field cur [] | x # r \<Rightarrow> fields_from (x # cur) r))"
  by pat_completeness auto
termination
  by (relation "measure (\<lambda>(cur, b). length b)") (auto dest: strip_one_shorter)

declare fields_from.simps [simp del]

definition strFields :: "string \<Rightarrow> string list" where
  "strFields s = map string_of_bytes (fields_from [] (bytes_of_string s))"

text \<open>\<open>bufio.Scanner\<close> over lines: the lines without their end, or \<open>None\<close> for
  \<open>bufio.ErrTooLong\<close> when one of them does not fit the buffer.\<close>

fun split_on :: "char \<Rightarrow> string \<Rightarrow> string list" where
  "split_on c [] = [[]]"
| "split_on c (d # s) =
     (if d = c then [] # split_on c s
      else (case split_on c s of [] \<Rightarrow> [[d]] | w # ws \<Rightarrow> (d # w) # ws))"

definition maxScanTokenSize :: nat where "maxScanTokenSize = 65536"

definition drop_cr :: "string \<Rightarrow> string" where
  "drop_cr l = (if l \<noteq> [] \<and> last l = CHR 0x0D then butlast l else l)"

definition scan_lines :: "string \<Rightarrow> string list option" where
  "scan_lines s =
     (let ls = split_on (CHR 0x0A) s; ls = (if last ls = [] then butlast ls else ls)
      in if list_all (\<lambda>l. length l < maxScanTokenSize) ls then Some (map drop_cr ls) else None)"

subsection \<open>Numbers\<close>

fun digits_of :: "nat \<Rightarrow> string" where
  "digits_of n = (if n < 10 then [char_of (48 + n)] else digits_of (n div 10) @ [char_of (48 + n mod 10)])"

declare digits_of.simps [simp del]

definition itoa :: "int \<Rightarrow> string" where
  "itoa n = (if n < 0 then CHR ''-'' # digits_of (nat (- n)) else digits_of (nat n))"

subsection \<open>Host and port\<close>

text \<open>The part of the string before and after the last occurrence of a character.\<close>

definition split_last :: "char \<Rightarrow> string \<Rightarrow> (string \<times> string) option" where
  "split_last c s = (if c \<in> set s
     then Some (rev (tl (dropWhile (\<lambda>d. d \<noteq> c) (rev s))), rev (takeWhile (\<lambda>d. d \<noteq> c) (rev s)))
     else None)"

definition splitHostPort :: "string \<Rightarrow> (string \<times> string) option" where
  "splitHostPort hostport = (case split_last (CHR '':'') hostport of
       None \<Rightarrow> None
     | Some (pre, port) \<Rightarrow>
         if hd hostport = CHR ''['' then
           let host = takeWhile (\<lambda>c. c \<noteq> CHR '']'') (tl hostport)
           in if CHR '']'' \<notin> set hostport \<or> pre \<noteq> CHR ''['' # host @ '']'' \<or>
                 CHR ''['' \<in> set (tl hostport) \<or> CHR '']'' \<in> set port then None
              else Some (host, port)
         else if CHR '':'' \<in> set pre \<or> CHR ''['' \<in> set hostport \<or> CHR '']'' \<in> set hostport then None
         else Some (pre, port))"

definition joinHostPort :: "string \<Rightarrow> string \<Rightarrow> string" where
  "joinHostPort host port =
     (if CHR '':'' \<in> set host then ''['' @ host @ '']:'' @ port else host @ '':'' @ port)"

subsection \<open>IP addresses\<close>

definition octet_of :: "string \<Rightarrow> byte option" where
  "octet_of s = (if s = [] \<or> (1 < length s \<and> hd s = CHR ''0'') then None
     else case parseDigits 0 s of None \<Rightarrow> None | Some n \<Rightarrow> if n > 255 then None else Some (word_of_int n))"

definition parseIPv4 :: "string \<Rightarrow> bytes option" where
  "parseIPv4 s = (case map octet_of (split_on (CHR ''.'') s) of
       [Some a, Some b, Some c, Some d] \<Rightarrow> Some [a, b, c, d]
     | _ \<Rightarrow> None)"

definition hexValue :: "char \<Rightarrow> nat option" where
  "hexValue c = (let n = of_char c :: nat in
     if 48 \<le> n \<and> n \<le> 57 then Some (n - 48)
     else if 97 \<le> n \<and> n \<le> 102 then Some (n - 87)
     else if 65 \<le> n \<and> n \<le> 70 then Some (n - 55)
     else None)"

definition is_hex :: "char \<Rightarrow> bool" where
  "is_hex c \<longleftrightarrow> hexValue c \<noteq> None"

definition hex_group :: "string \<Rightarrow> u16" where
  "hex_group s = foldl (\<lambda>acc c. acc * 16 + word_of_nat (the (hexValue c))) 0 s"

text \<open>The loop of \<open>netip.parseIPv6\<close>: the bytes so far, where the ellipsis was, and the rest
  of the text. The result is the final state when the whole text was used.\<close>

function parse_groups :: "bytes \<Rightarrow> nat option \<Rightarrow> string \<Rightarrow> (bytes \<times> nat option) option" where
  "parse_groups acc ell s =
     (if length acc \<ge> 16 then (if s = [] then Some (acc, ell) else None)
      else
        let g = takeWhile is_hex s; r = dropWhile is_hex s
        in if g = [] \<or> length g > 4 then None
           else if r \<noteq> [] \<and> hd r = CHR ''.'' then
             (if (ell = None \<and> length acc \<noteq> 12) \<or> length acc + 4 > 16 then None
              else case parseIPv4 s of None \<Rightarrow> None | Some v4 \<Rightarrow> Some (acc @ v4, ell))
           else
             let acc = acc @ put_be16 (hex_group g)
             in if r = [] then Some (acc, ell)
                else if hd r \<noteq> CHR '':'' \<or> tl r = [] then None
                else if hd (tl r) = CHR '':'' then
                  (if ell \<noteq> None then None
                   else if tl (tl r) = [] then Some (acc, Some (length acc))
                   else parse_groups acc (Some (length acc)) (tl (tl r)))
                else parse_groups acc ell (tl r))"
  by pat_completeness auto
termination
  by (relation "measure (\<lambda>(acc, ell, s). 16 - length acc)") auto

declare parse_groups.simps [simp del]

definition expand_groups :: "bytes \<times> nat option \<Rightarrow> bytes option" where
  "expand_groups p = (case p of (acc, ell) \<Rightarrow>
     if length acc < 16 then
       (case ell of None \<Rightarrow> None
        | Some k \<Rightarrow> Some (take k acc @ replicate (16 - length acc) 0 @ drop k acc))
     else if ell \<noteq> None then None else Some acc)"

definition parseIPv6 :: "string \<Rightarrow> bytes option" where
  "parseIPv6 s =
     (if hasPrefix s ''::'' then
        if drop 2 s = [] then Some (replicate 16 0)
        else Option.bind (parse_groups [] (Some 0) (drop 2 s)) expand_groups
      else Option.bind (parse_groups [] None s) expand_groups)"

text \<open>\<open>net.ParseIP\<close>: the 16-byte form, or \<open>None\<close> for \<open>nil\<close>; zones are refused.\<close>

definition parseIP :: "string \<Rightarrow> ip option" where
  "parseIP s = (case find (\<lambda>c. c = CHR ''.'' \<or> c = CHR '':'' \<or> c = CHR ''%'') s of
       None \<Rightarrow> None
     | Some c \<Rightarrow>
         if c = CHR ''.'' then map_option (\<lambda>a. v4InV6Prefix @ a) (parseIPv4 s)
         else if CHR ''%'' \<in> set s then None else parseIPv6 s)"

text \<open>\<open>net.IP.String\<close>.\<close>

definition join_with :: "string \<Rightarrow> string list \<Rightarrow> string" where
  "join_with sep parts = (case parts of [] \<Rightarrow> [] | p # ps \<Rightarrow> p @ concat (map (\<lambda>q. sep @ q) ps))"

fun hex_digits :: "nat \<Rightarrow> string" where
  "hex_digits n = (if n < 16 then [''0123456789abcdef'' ! n] else hex_digits (n div 16) @ [''0123456789abcdef'' ! (n mod 16)])"

declare hex_digits.simps [simp del]

definition ip_groups :: "bytes \<Rightarrow> nat list" where
  "ip_groups b = map (\<lambda>i. unat (b ! (2 * i)) * 256 + unat (b ! (2 * i + 1))) [0..<8]"

definition zero_run :: "nat list \<Rightarrow> nat \<Rightarrow> nat" where
  "zero_run gs i = length (takeWhile (\<lambda>g. g = 0) (drop i gs))"

definition longest_run :: "nat list \<Rightarrow> (nat \<times> nat) option" where
  "longest_run gs = (let runs = map (\<lambda>i. (i, zero_run gs i)) [0..<8]; best = fold max (map snd runs) 0
     in if best < 2 then None else find (\<lambda>(i, l). l = best) runs)"

definition ip_String :: "ip \<Rightarrow> string" where
  "ip_String a =
     (if a = [] then ''<nil>''
      else case ip_To4 a of
          Some b \<Rightarrow> join_with ''.'' (map (\<lambda>x. itoa (uint x)) b)
        | None \<Rightarrow>
            if length a \<noteq> 16 then CHR ''?'' # hexEncodeToString a
            else let gs = ip_groups a in
              case longest_run gs of
                None \<Rightarrow> join_with '':'' (map hex_digits gs)
              | Some (i, l) \<Rightarrow> join_with '':'' (map hex_digits (take i gs)) @ ''::'' @ join_with '':'' (map hex_digits (drop (i + l) gs)))"

subsection \<open>Lemmas\<close>

lemma hasPrefix_append [simp]: "hasPrefix (p @ s) p"
  by (simp add: hasPrefix_def)

lemma split_last_append: "c \<notin> set b \<Longrightarrow> split_last c (a @ c # b) = Some (a, b)"
  by (simp add: split_last_def takeWhile_append dropWhile_append)

lemma splitHostPort_join:
  assumes "set host \<inter> {CHR ''['', CHR '']''} = {}" "set port \<inter> {CHR '':'', CHR ''['', CHR '']''} = {}"
  shows "splitHostPort (joinHostPort host port) = Some (host, port)"
proof (cases "CHR '':'' \<in> set host")
  case True
  have "takeWhile (\<lambda>c. c \<noteq> CHR '']'') (host @ '']:'' @ port) = host"
    using assms(1) by (auto simp: takeWhile_append)
  moreover have "split_last (CHR '':'') (CHR ''['' # host @ CHR '']'' # CHR '':'' # port) = Some (CHR ''['' # host @ '']'', port)"
    using split_last_append [of "CHR '':''" port "CHR ''['' # host @ '']''"] assms(2) by auto
  ultimately show ?thesis using True assms by (auto simp: splitHostPort_def joinHostPort_def)
next
  case False
  have "hd (host @ CHR '':'' # port) \<noteq> CHR ''[''" using assms(1) by (cases host) auto
  then show ?thesis
    using False assms split_last_append [of "CHR '':''" port host] by (auto simp: splitHostPort_def joinHostPort_def)
qed

lemma digit_char:
  assumes "d < 10"
  shows "digitValue (char_of (48 + d)) = Some (int d)"
  using assms by (simp add: digitValue_def)

lemma parseDigits_append:
  "parseDigits a (s @ t) = (case parseDigits a s of None \<Rightarrow> None | Some b \<Rightarrow> parseDigits b t)"
  by (induction s arbitrary: a) (auto split: option.splits)

lemma parseDigits_digits: "parseDigits 0 (digits_of n) = Some (int n)"
proof (induction n rule: less_induct)
  case (less n)
  show ?case
  proof (cases "n < 10")
    case True
    then show ?thesis by (simp add: digits_of.simps digit_char)
  next
    case False
    then have "parseDigits 0 (digits_of (n div 10)) = Some (int (n div 10))" by (intro less) simp
    moreover have "int (n div 10) * 10 + int (n mod 10) = int n"
      by (metis div_mult_mod_eq of_nat_add of_nat_mult of_nat_numeral)
    ultimately show ?thesis
      using False digit_char [of "n mod 10"] by (simp add: digits_of.simps [of n] parseDigits_append)
  qed
qed

lemma digits_of_shape: "digits_of n \<noteq> [] \<and> list_all (\<lambda>c. digitValue c \<noteq> None) (digits_of n)"
proof (induction n rule: less_induct)
  case (less n)
  show ?case
  proof (cases "n < 10")
    case True
    then show ?thesis by (simp add: digits_of.simps [of n] digit_char)
  next
    case False
    then have "digits_of (n div 10) \<noteq> [] \<and> list_all (\<lambda>c. digitValue c \<noteq> None) (digits_of (n div 10))"
      by (intro less) simp
    then show ?thesis using False digit_char [of "n mod 10"] by (simp add: digits_of.simps [of n])
  qed
qed

lemma not_digit:
  "digitValue (CHR ''-'') = None" "digitValue (CHR ''+'') = None" "digitValue (CHR '':'') = None"
  "digitValue (CHR ''['') = None" "digitValue (CHR '']'') = None"
  by (simp_all add: digitValue_def)

lemma parseInt64_itoa:
  assumes "in_i64 n"
  shows "parseInt64 (itoa n) = Some n"
proof -
  have "hd (digits_of k) \<noteq> CHR ''-'' \<and> hd (digits_of k) \<noteq> CHR ''+''" for k
    using digits_of_shape [of k] not_digit by (cases "digits_of k") auto
  moreover have "digits_of k \<noteq> []" for k using digits_of_shape by blast
  ultimately show ?thesis
    using assms by (simp add: parseInt64_def itoa_def Let_def parseDigits_digits)
qed

lemma itoa_no_special: "set (itoa n) \<inter> {CHR '':'', CHR ''['', CHR '']''} = {}"
  using digits_of_shape [of "nat n"] digits_of_shape [of "nat (- n)"] not_digit
  by (auto simp: itoa_def list_all_iff split: if_splits)

end
