(* ===== verification/Telegram.thy ===== *)
theory Telegram
  imports NetText "HOL-Library.Multiset"
begin

text \<open>
  The addresses of Telegram's data centres (\<open>mtglib/internal/dc\<close>): the built-in table of
  \<open>essentials/addresses.go\<close>, the public configuration that the updater downloads, and the
  order in which the addresses of a data centre are offered.
\<close>

subsection \<open>Addresses\<close>

record dcAddr =
  dc_Network :: string
  dc_Address :: string
  dc_Secret :: "bytes option"

text \<open>A \<open>nil\<close> map is \<open>None\<close>.\<close>

record dcAddrSet =
  set_v4 :: "(int, dcAddr list) gomap option"
  set_v6 :: "(int, dcAddr list) gomap option"

text \<open>\<open>shuffle\<close> is the permutation that \<open>rand.Shuffle\<close> performs.\<close>

definition addrSet_get :: "(dcAddr list \<Rightarrow> dcAddr list) \<Rightarrow> dcAddr list \<Rightarrow> dcAddr list" where
  "addrSet_get shuffle addrs = shuffle addrs"

definition addrSet_getV4 :: "(dcAddr list \<Rightarrow> dcAddr list) \<Rightarrow> int \<Rightarrow> dcAddrSet \<Rightarrow> dcAddr list" where
  "addrSet_getV4 shuffle dc d = (case set_v4 d of None \<Rightarrow> [] | Some m \<Rightarrow> addrSet_get shuffle (gm_get0 [] m dc))"

definition addrSet_getV6 :: "(dcAddr list \<Rightarrow> dcAddr list) \<Rightarrow> int \<Rightarrow> dcAddrSet \<Rightarrow> dcAddr list" where
  "addrSet_getV6 shuffle dc d = (case set_v6 d of None \<Rightarrow> [] | Some m \<Rightarrow> addrSet_get shuffle (gm_get0 [] m dc))"

subsection \<open>The built-in table\<close>

definition TelegramCoreAddresses :: "(int \<times> string list) list" where
  "TelegramCoreAddresses =
    [(1, [''149.154.175.50:443'', ''[2001:b28:f23d:f001::a]:443'']),
     (2, [''149.154.167.51:443'', ''95.161.76.100:443'', ''[2001:67c:04e8:f002::a]:443'']),
     (3, [''149.154.175.100:443'', ''[2001:b28:f23d:f003::a]:443'']),
     (4, [''149.154.167.91:443'', ''[2001:67c:04e8:f004::a]:443'']),
     (5, [''149.154.171.5:443'', ''[2001:b28:f23f:f005::a]:443'']),
     (203, [''91.105.192.100:443'', ''[2a0a:f280:0203:000a:5000:0000:0000:0100]:443''])]"

definition append_addr :: "int \<Rightarrow> dcAddr \<Rightarrow> (int, dcAddr list) gomap \<Rightarrow> (int, dcAddr list) gomap" where
  "append_addr dc a m = gm_put dc (gm_get0 [] m dc @ [a]) m"

text \<open>One address of the table; \<open>None\<close> is a panic.\<close>

definition add_core :: "int \<Rightarrow> string \<Rightarrow> (int, dcAddr list) gomap \<times> (int, dcAddr list) gomap
    \<Rightarrow> ((int, dcAddr list) gomap \<times> (int, dcAddr list) gomap) option" where
  "add_core dcid addr ms = (case splitHostPort addr of None \<Rightarrow> None | Some (host, _) \<Rightarrow>
     (case parseIP host of None \<Rightarrow> None | Some ip \<Rightarrow>
        (case ms of (m4, m6) \<Rightarrow>
           if ip_To4 ip = None
           then Some (m4, append_addr dcid \<lparr>dc_Network = ''tcp6'', dc_Address = addr, dc_Secret = None\<rparr> m6)
           else Some (append_addr dcid \<lparr>dc_Network = ''tcp4'', dc_Address = addr, dc_Secret = None\<rparr> m4, m6))))"

fun add_cores :: "(int \<times> string) list \<Rightarrow> (int, dcAddr list) gomap \<times> (int, dcAddr list) gomap
    \<Rightarrow> ((int, dcAddr list) gomap \<times> (int, dcAddr list) gomap) option" where
  "add_cores [] ms = Some ms"
| "add_cores ((dcid, addr) # xs) ms = (case add_core dcid addr ms of None \<Rightarrow> None | Some ms \<Rightarrow> add_cores xs ms)"

definition build_default :: "(int \<times> string list) list \<Rightarrow> dcAddrSet option" where
  "build_default table = map_option (\<lambda>(m4, m6). \<lparr>set_v4 = Some m4, set_v6 = Some m6\<rparr>)
     (add_cores (concat (map (\<lambda>(dcid, ips). map (Pair dcid) ips) table)) ([], []))"

definition defaultDCAddrSet :: dcAddrSet where
  "defaultDCAddrSet = the (build_default TelegramCoreAddresses)"

subsection \<open>The view and the order of addresses\<close>

text \<open>Every call of \<open>rand.Shuffle\<close> is a draw of its own: \<open>sh 0\<close> and \<open>sh 1\<close> for the built-in and
  the public IPv4 addresses, \<open>sh 2\<close> and \<open>sh 3\<close> for IPv6.\<close>

type_synonym shuffles = "nat \<Rightarrow> dcAddr list \<Rightarrow> dcAddr list"

definition view_getV4 :: "shuffles \<Rightarrow> int \<Rightarrow> dcAddrSet \<Rightarrow> dcAddr list" where
  "view_getV4 sh dc publicConfigs =
     addrSet_getV4 (sh 0) dc defaultDCAddrSet @ addrSet_getV4 (sh 1) dc publicConfigs"

definition view_getV6 :: "shuffles \<Rightarrow> int \<Rightarrow> dcAddrSet \<Rightarrow> dcAddr list" where
  "view_getV6 sh dc publicConfigs =
     addrSet_getV6 (sh 2) dc defaultDCAddrSet @ addrSet_getV6 (sh 3) dc publicConfigs"

datatype preferIP = PreferIPOnlyIPv4 | PreferIPOnlyIPv6 | PreferIPPreferIPv4 | PreferIPPreferIPv6

record telegram =
  publicConfigs :: dcAddrSet
  tg_preferIP :: preferIP

definition DefaultDC :: int where "DefaultDC = 2"

definition GetAddresses :: "shuffles \<Rightarrow> int \<Rightarrow> telegram \<Rightarrow> dcAddr list" where
  "GetAddresses sh dc t = (case tg_preferIP t of
       PreferIPOnlyIPv4 \<Rightarrow> view_getV4 sh dc (publicConfigs t)
     | PreferIPOnlyIPv6 \<Rightarrow> view_getV6 sh dc (publicConfigs t)
     | PreferIPPreferIPv4 \<Rightarrow> view_getV4 sh dc (publicConfigs t) @ view_getV6 sh dc (publicConfigs t)
     | PreferIPPreferIPv6 \<Rightarrow> view_getV6 sh dc (publicConfigs t) @ view_getV4 sh dc (publicConfigs t))"

text \<open>\<open>New\<close>; \<open>uni\<close> is the lower-casing of text that is not ASCII.\<close>

definition telegram_New :: "(string \<Rightarrow> string) \<Rightarrow> string \<Rightarrow> telegram option" where
  "telegram_New uni ipPreference =
     (let mk = (\<lambda>p. Some \<lparr>publicConfigs = \<lparr>set_v4 = None, set_v6 = None\<rparr>, tg_preferIP = p\<rparr>);
          pref = toLower uni ipPreference
      in if pref = ''prefer-ipv4'' then mk PreferIPPreferIPv4
         else if pref = ''prefer-ipv6'' then mk PreferIPPreferIPv6
         else if pref = ''only-ipv4'' then mk PreferIPOnlyIPv4
         else if pref = ''only-ipv6'' then mk PreferIPOnlyIPv6
         else None)"

subsection \<open>The public configuration\<close>

text \<open>The runs without \<open>\s\<close> characters of a line.\<close>

definition re_space :: "char \<Rightarrow> bool" where
  "re_space c \<longleftrightarrow> c \<in> {CHR 0x09, CHR 0x0A, CHR 0x0C, CHR 0x0D, CHR '' ''}"

fun re_fields :: "string \<Rightarrow> string \<Rightarrow> string list" where
  "re_fields cur [] = (if cur = [] then [] else [rev cur])"
| "re_fields cur (c # s) =
     (if re_space c then (if cur = [] then [] else [rev cur]) @ re_fields [] s else re_fields (c # cur) s)"

text \<open>The groups of \<open>publicConfigRe\<close>: blanks, \<open>proxy_for\<close>, digits, and a run that ends with a
  semicolon, separated by blanks.\<close>

definition publicConfigRe :: "string \<Rightarrow> (string \<times> string) option" where
  "publicConfigRe line = (case re_fields [] line of
       [p, d, a] \<Rightarrow>
         if p = ''proxy_for'' \<and> list_all (\<lambda>c. digitValue c \<noteq> None) d \<and> last a = CHR '';''
         then Some (d, butlast a) else None
     | _ \<Rightarrow> None)"

text \<open>The answer of the HTTP client: an error, or status, body and whether the body was read
  to its end.\<close>

datatype http_result = HttpFailed | HttpResponse nat string bool

fun collect_public :: "string \<Rightarrow> string list \<Rightarrow> (int, dcAddr list) gomap \<Rightarrow> (int, dcAddr list) gomap" where
  "collect_public network [] addrs = addrs"
| "collect_public network (l # ls) addrs = collect_public network ls
     (case publicConfigRe l of
        None \<Rightarrow> addrs
      | Some (d, a) \<Rightarrow> (case parseInt64 d of
            None \<Rightarrow> addrs
          | Some dc \<Rightarrow> if dc = 203 then append_addr dc \<lparr>dc_Network = network, dc_Address = a, dc_Secret = None\<rparr> addrs
                       else addrs))"

datatype update_error = CannotFetch | UnexpectedStatus nat | CannotReadBody

text \<open>The callback of \<open>PublicConfigUpdater.Run\<close>.\<close>

definition public_update :: "string \<Rightarrow> http_result \<Rightarrow> telegram \<Rightarrow> update_error option \<times> telegram" where
  "public_update network resp t = (case resp of
       HttpFailed \<Rightarrow> (Some CannotFetch, t)
     | HttpResponse status body complete \<Rightarrow>
         if status \<ge> 400 then (Some (UnexpectedStatus status), t)
         else case scan_lines body of
             None \<Rightarrow> (Some CannotReadBody, t)
           | Some ls \<Rightarrow>
               if \<not> complete then (Some CannotReadBody, t)
               else let addrs = collect_public network ls []
                    in (None, t\<lparr>publicConfigs :=
                          (if network = ''tcp4'' then (publicConfigs t)\<lparr>set_v4 := Some addrs\<rparr>
                           else (publicConfigs t)\<lparr>set_v6 := Some addrs\<rparr>)\<rparr>))"

text \<open>\<open>updater.run\<close>: one callback at the start and one per tick until the context ends; an
  error is logged and the loop goes on.\<close>

fun updater_run :: "string \<Rightarrow> http_result list \<Rightarrow> telegram \<Rightarrow> telegram" where
  "updater_run network [] t = t"
| "updater_run network (r # rs) t = updater_run network rs (snd (public_update network r t))"

subsection \<open>Lemmas\<close>

text \<open>The built-in table is well formed: start-up does not panic.\<close>

definition core_v4 :: "(int, dcAddr list) gomap" where
  "core_v4 = map (\<lambda>(dc, as). (dc, map (\<lambda>a. \<lparr>dc_Network = ''tcp4'', dc_Address = a, dc_Secret = None\<rparr>) as))
    [(1, [''149.154.175.50:443'']), (2, [''149.154.167.51:443'', ''95.161.76.100:443'']), (3, [''149.154.175.100:443'']),
     (4, [''149.154.167.91:443'']), (5, [''149.154.171.5:443'']), (203, [''91.105.192.100:443''])]"

definition core_v6 :: "(int, dcAddr list) gomap" where
  "core_v6 = map (\<lambda>(dc, a). (dc, [\<lparr>dc_Network = ''tcp6'', dc_Address = a, dc_Secret = None\<rparr>]))
    [(1, ''[2001:b28:f23d:f001::a]:443''), (2, ''[2001:67c:04e8:f002::a]:443''), (3, ''[2001:b28:f23d:f003::a]:443''),
     (4, ''[2001:67c:04e8:f004::a]:443''), (5, ''[2001:b28:f23f:f005::a]:443''), (203, ''[2a0a:f280:0203:000a:5000:0000:0000:0100]:443'')]"

lemma build_default_core:
  "build_default TelegramCoreAddresses = Some \<lparr>set_v4 = Some core_v4, set_v6 = Some core_v6\<rparr>"
  by code_simp

definition known_dcs :: "int list" where
  "known_dcs = [1, 2, 3, 4, 5, 203]"

definition addrs_of :: "(int, dcAddr list) gomap option \<Rightarrow> int \<Rightarrow> dcAddr list" where
  "addrs_of m dc = (case m of None \<Rightarrow> [] | Some m \<Rightarrow> gm_get0 [] m dc)"

lemma core_keys: "map fst core_v4 = known_dcs" "map fst core_v6 = known_dcs"
  by code_simp+

lemma core_values:
  "list_all (\<lambda>(dc, as). as \<noteq> [] \<and> list_all (\<lambda>a. dc_Network a = ''tcp4'') as) core_v4"
  "list_all (\<lambda>(dc, as). as \<noteq> [] \<and> list_all (\<lambda>a. dc_Network a = ''tcp6'') as) core_v6"
  by code_simp+

lemma gm_get0_values:
  assumes "list_all (\<lambda>(dc, as). as \<noteq> [] \<and> list_all P as) m"
  shows "list_all P (gm_get0 [] m dc)" "gm_get0 [] m dc = [] \<longleftrightarrow> dc \<notin> set (map fst m)"
proof -
  have "as \<noteq> [] \<and> list_all P as" if "map_of m dc = Some as" for as
    using assms map_of_SomeD [OF that] by (auto simp: list_all_iff)
  then show "list_all P (gm_get0 [] m dc)" "gm_get0 [] m dc = [] \<longleftrightarrow> dc \<notin> set (map fst m)"
    by (cases "map_of m dc"; simp add: gm_get0_def map_of_eq_None_iff [symmetric])+
qed

lemma core_addrs:
  "list_all (\<lambda>a. dc_Network a = ''tcp4'') (gm_get0 [] core_v4 dc)" "gm_get0 [] core_v4 dc = [] \<longleftrightarrow> dc \<notin> set known_dcs"
  "list_all (\<lambda>a. dc_Network a = ''tcp6'') (gm_get0 [] core_v6 dc)" "gm_get0 [] core_v6 dc = [] \<longleftrightarrow> dc \<notin> set known_dcs"
  using gm_get0_values [OF core_values(1)] gm_get0_values [OF core_values(2)] by (simp_all add: core_keys)

lemma append_addr_get:
  "gm_get0 [] (append_addr dc a m) dc' = gm_get0 [] m dc' @ (if dc' = dc then [a] else [])"
  by (simp add: append_addr_def gm_get0_def update_conv')

text \<open>What a line of the public configuration contributes.\<close>

definition public_line :: "string \<Rightarrow> string \<Rightarrow> dcAddr option" where
  "public_line network l = (case publicConfigRe l of None \<Rightarrow> None
     | Some (d, a) \<Rightarrow> if parseInt64 d = Some 203 then Some \<lparr>dc_Network = network, dc_Address = a, dc_Secret = None\<rparr> else None)"

lemma collect_public_get:
  "gm_get0 [] (collect_public network ls m) dc =
     gm_get0 [] m dc @ (if dc = 203 then List.map_filter (public_line network) ls else [])"
proof (induction ls arbitrary: m)
  case (Cons l ls)
  show ?case
    by (auto simp: Cons append_addr_get public_line_def [of network l] List.map_filter_simps split: option.splits)
qed (simp add: map_filter_def)

lemma public_line_network: "list_all (\<lambda>a. dc_Network a = network) (List.map_filter (public_line network) ls)"
  by (induction ls) (auto simp: List.map_filter_simps public_line_def split: option.splits if_splits)

text \<open>The addresses of a family carry its network, and only data centre 203 has public ones.\<close>

definition public_ok :: "dcAddrSet \<Rightarrow> bool" where
  "public_ok d \<longleftrightarrow> (\<forall>dc. list_all (\<lambda>a. dc_Network a = ''tcp4'') (addrs_of (set_v4 d) dc) \<and>
     list_all (\<lambda>a. dc_Network a = ''tcp6'') (addrs_of (set_v6 d) dc) \<and>
     (dc \<noteq> 203 \<longrightarrow> addrs_of (set_v4 d) dc = [] \<and> addrs_of (set_v6 d) dc = []))"

lemma public_update_ok:
  assumes "public_ok (publicConfigs t)" "network = ''tcp4'' \<or> network = ''tcp6''"
  shows "public_ok (publicConfigs (snd (public_update network r t)))"
  using assms public_line_network
  by (auto simp: public_update_def public_ok_def addrs_of_def Let_def collect_public_get gm_get0_def [of _ "[]"]
      split: http_result.splits option.splits)

lemma public_update_pref: "tg_preferIP (snd (public_update network r t)) = tg_preferIP t"
  by (auto simp: public_update_def Let_def split: http_result.splits option.splits)

type_synonym update_log = "(string \<times> http_result) list"

text \<open>The two updaters in any interleaving.\<close>

definition run_updates :: "update_log \<Rightarrow> telegram \<Rightarrow> telegram" where
  "run_updates us t = fold (\<lambda>(network, r) t. snd (public_update network r t)) us t"

definition updates_ok :: "update_log \<Rightarrow> bool" where
  "updates_ok us \<longleftrightarrow> list_all (\<lambda>u. fst u = ''tcp4'' \<or> fst u = ''tcp6'') us"

lemma run_updates_inv:
  "updates_ok us \<Longrightarrow> public_ok (publicConfigs t) \<Longrightarrow>
     public_ok (publicConfigs (run_updates us t)) \<and> tg_preferIP (run_updates us t) = tg_preferIP t"
  by (induction us arbitrary: t)
    (auto simp: run_updates_def updates_ok_def public_update_ok public_update_pref)

lemma addrSet_get_addrs:
  assumes "\<And>i xs. mset (sh i xs) = mset xs"
  shows "mset (addrSet_getV4 (sh i) dc d) = mset (addrs_of (set_v4 d) dc)"
    "mset (addrSet_getV6 (sh i) dc d) = mset (addrs_of (set_v6 d) dc)"
  using assms by (simp_all add: addrSet_getV4_def addrSet_getV6_def addrSet_get_def addrs_of_def split: option.splits)

lemma list_all_mset: "mset xs = mset ys \<Longrightarrow> list_all P xs = list_all P ys"
  by (metis list.pred_set mset_eq_setD)

subsection \<open>Properties\<close>

definition preference_of :: "string \<Rightarrow> preferIP option" where
  "preference_of s = map_of [(''prefer-ipv4'', PreferIPPreferIPv4), (''prefer-ipv6'', PreferIPPreferIPv6),
     (''only-ipv4'', PreferIPOnlyIPv4), (''only-ipv6'', PreferIPOnlyIPv6)] s"

lemma telegram_New_eq:
  "telegram_New uni p = map_option (\<lambda>q. \<lparr>publicConfigs = \<lparr>set_v4 = None, set_v6 = None\<rparr>, tg_preferIP = q\<rparr>)
     (preference_of (toLower uni p))"
  by (simp add: telegram_New_def preference_of_def Let_def)

lemma GetAddresses_empty:
  assumes "public_ok (publicConfigs t)" "\<And>i xs. mset (sh i xs) = mset xs"
  shows "GetAddresses sh dc t = [] \<longleftrightarrow> dc \<notin> set known_dcs"
proof -
  have d: "set_v4 defaultDCAddrSet = Some core_v4" "set_v6 defaultDCAddrSet = Some core_v6"
    by (simp_all add: defaultDCAddrSet_def build_default_core)
  have m4: "mset (view_getV4 sh dc (publicConfigs t)) = mset (gm_get0 [] core_v4 dc @ addrs_of (set_v4 (publicConfigs t)) dc)"
    and m6: "mset (view_getV6 sh dc (publicConfigs t)) = mset (gm_get0 [] core_v6 dc @ addrs_of (set_v6 (publicConfigs t)) dc)"
    using addrSet_get_addrs [of sh, OF assms(2)] d
    by (simp_all add: view_getV4_def view_getV6_def addrs_of_def [of "Some _"])
  have "addrs_of (set_v4 (publicConfigs t)) dc = [] \<and> addrs_of (set_v6 (publicConfigs t)) dc = []" if "dc \<notin> set known_dcs"
    using assms(1) that by (cases "dc = 203") (auto simp: public_ok_def known_dcs_def)
  then have "view_getV4 sh dc (publicConfigs t) = [] \<longleftrightarrow> dc \<notin> set known_dcs" "view_getV6 sh dc (publicConfigs t) = [] \<longleftrightarrow> dc \<notin> set known_dcs"
    using m4 m6 core_addrs [of dc] by auto
  then show ?thesis by (cases "tg_preferIP t") (simp_all add: GetAddresses_def)
qed

text \<open>C21. Whatever the updaters have downloaded, the addresses of a data centre come in the
  configured order: only the allowed IP family, or both with the preferred one first; each
  family is a permutation of the built-in and the downloaded addresses with the matching
  network. The data centres 1 to 5 and 203 always have an address, all others none, so
  exactly those are unknown.\<close>

theorem GetAddresses_spec:
  assumes "telegram_New uni pref = Some t0" "updates_ok us" "\<And>i xs. mset (sh i xs) = mset xs"
  defines "t \<equiv> run_updates us t0"
  shows "\<exists>xs4 xs6. GetAddresses sh dc t = (case the (preference_of (toLower uni pref)) of
        PreferIPOnlyIPv4 \<Rightarrow> xs4 | PreferIPOnlyIPv6 \<Rightarrow> xs6
      | PreferIPPreferIPv4 \<Rightarrow> xs4 @ xs6 | PreferIPPreferIPv6 \<Rightarrow> xs6 @ xs4) \<and>
    list_all (\<lambda>a. dc_Network a = ''tcp4'') xs4 \<and> list_all (\<lambda>a. dc_Network a = ''tcp6'') xs6 \<and>
    mset xs4 = mset (addrs_of (set_v4 defaultDCAddrSet) dc) + mset (addrs_of (set_v4 (publicConfigs t)) dc) \<and>
    mset xs6 = mset (addrs_of (set_v6 defaultDCAddrSet) dc) + mset (addrs_of (set_v6 (publicConfigs t)) dc) \<and>
    (if dc \<in> set known_dcs then xs4 \<noteq> [] \<and> xs6 \<noteq> [] else xs4 = [] \<and> xs6 = [])"
proof -
  have t0: "public_ok (publicConfigs t0)" "preference_of (toLower uni pref) = Some (tg_preferIP t0)"
    using assms(1) by (auto simp: telegram_New_eq public_ok_def addrs_of_def)
  have t: "public_ok (publicConfigs t)" "tg_preferIP t = tg_preferIP t0"
    using run_updates_inv [OF assms(2) t0(1)] by (simp_all add: t_def)
  have d: "set_v4 defaultDCAddrSet = Some core_v4" "set_v6 defaultDCAddrSet = Some core_v6"
    by (simp_all add: defaultDCAddrSet_def build_default_core)
  define xs4 where "xs4 = view_getV4 sh dc (publicConfigs t)"
  define xs6 where "xs6 = view_getV6 sh dc (publicConfigs t)"
  have m4: "mset xs4 = mset (gm_get0 [] core_v4 dc @ addrs_of (set_v4 (publicConfigs t)) dc)"
    and m6: "mset xs6 = mset (gm_get0 [] core_v6 dc @ addrs_of (set_v6 (publicConfigs t)) dc)"
    using addrSet_get_addrs [of sh, OF assms(3)] d
    by (simp_all add: xs4_def xs6_def view_getV4_def view_getV6_def addrs_of_def [of "Some _"])
  have "addrs_of (set_v4 (publicConfigs t)) dc = [] \<and> addrs_of (set_v6 (publicConfigs t)) dc = []" if "dc \<notin> set known_dcs"
    using t(1) that by (cases "dc = 203") (auto simp: public_ok_def known_dcs_def)
  then have empty: "if dc \<in> set known_dcs then xs4 \<noteq> [] \<and> xs6 \<noteq> [] else xs4 = [] \<and> xs6 = []"
    using m4 m6 core_addrs [of dc] by auto
  have nets: "list_all (\<lambda>a. dc_Network a = ''tcp4'') xs4" "list_all (\<lambda>a. dc_Network a = ''tcp6'') xs6"
    unfolding list_all_mset [OF m4] list_all_mset [OF m6] using t(1) core_addrs [of dc] by (simp_all add: public_ok_def)
  have "GetAddresses sh dc t = (case the (preference_of (toLower uni pref)) of
        PreferIPOnlyIPv4 \<Rightarrow> xs4 | PreferIPOnlyIPv6 \<Rightarrow> xs6
      | PreferIPPreferIPv4 \<Rightarrow> xs4 @ xs6 | PreferIPPreferIPv6 \<Rightarrow> xs6 @ xs4)"
    using t(2) t0(2) by (cases "tg_preferIP t0") (simp_all add: GetAddresses_def xs4_def xs6_def)
  moreover have "addrs_of (set_v4 defaultDCAddrSet) dc = gm_get0 [] core_v4 dc"
      "addrs_of (set_v6 defaultDCAddrSet) dc = gm_get0 [] core_v6 dc"
    by (simp_all add: d addrs_of_def)
  ultimately show ?thesis
    using m4 m6 empty nets unfolding mset_append by metis
qed

text \<open>A download of the public configuration is all or nothing: any failure (no answer, an
  error status, a line that is too long, a body cut short) leaves the addresses alone and is
  reported; a success replaces exactly the list of the family asked for by the addresses
  of the lines for data centre 203, in order, and keeps nothing for other data centres.\<close>

lemma public_update_atomic:
  assumes "public_update network resp t = (err, t')" "network = ''tcp4'' \<or> network = ''tcp6''"
  shows "(err \<noteq> None \<longrightarrow> t' = t) \<and>
    (err = None \<longleftrightarrow> (\<exists>status body. resp = HttpResponse status body True \<and> status < 400 \<and> scan_lines body \<noteq> None)) \<and>
    (\<forall>status body ls. resp = HttpResponse status body True \<longrightarrow> status < 400 \<longrightarrow> scan_lines body = Some ls \<longrightarrow>
       (let new = (\<lambda>dc. if dc = 203 then List.map_filter (public_line network) ls else []) in
        if network = ''tcp4''
        then addrs_of (set_v4 (publicConfigs t')) = new \<and> set_v6 (publicConfigs t') = set_v6 (publicConfigs t)
        else addrs_of (set_v6 (publicConfigs t')) = new \<and> set_v4 (publicConfigs t') = set_v4 (publicConfigs t)))"
  using assms(1)
  by (auto simp: public_update_def addrs_of_def collect_public_get gm_get0_def [of _ "[]"] fun_eq_iff Let_def
      split: http_result.splits option.splits if_splits)

theorem GetAddresses_spec_witness:
  "list_all (\<lambda>a. dc_Network a = ''tcp4'') (GetAddresses (\<lambda>_. rev) 2
     (run_updates [(''tcp4'', HttpResponse 200 ''proxy_for 203 1.2.3.4:1;'' True)]
       \<lparr>publicConfigs = \<lparr>set_v4 = None, set_v6 = None\<rparr>, tg_preferIP = PreferIPOnlyIPv4\<rparr>))"
proof -
  have "telegram_New id ''Only-IPv4'' = Some \<lparr>publicConfigs = \<lparr>set_v4 = None, set_v6 = None\<rparr>, tg_preferIP = PreferIPOnlyIPv4\<rparr>"
    "updates_ok [(''tcp4'', HttpResponse 200 ''proxy_for 203 1.2.3.4:1;'' True)]" 
    "the (preference_of (toLower id ''Only-IPv4'')) = PreferIPOnlyIPv4"
    by code_simp+
  then show ?thesis using GetAddresses_spec [of id "''Only-IPv4''" _ _ "\<lambda>_. rev" 2] by auto
qed

end
