(* ===== verification/Manager.thy ===== *)
theory Manager
  imports MiddleProxy Telegram
begin

text \<open>
  The middle-proxy manager (\<open>mtglib/internal/middleproxy/manager.go\<close>): downloading
  Telegram's proxy secret and middle-proxy addresses, the order in which the addresses of
  a data centre are tried, and dialling the first middle proxy that completes the RPC
  handshake.
\<close>

subsection \<open>State\<close>

definition secretURL :: string where "secretURL = ''https://core.telegram.org/getProxySecret''"
definition configURLv4 :: string where "configURLv4 = ''https://core.telegram.org/getProxyConfig''"
definition configURLv6 :: string where "configURLv6 = ''https://core.telegram.org/getProxyConfigV6''"

type_synonym middle_table = "(int, string list) gomap"

text \<open>\<open>refreshing\<close> tells whether \<open>refreshOnce\<close> has started the hourly loop.\<close>

record manager =
  mg_preferIP :: string
  mg_ready :: bool
  mg_secret :: bytes
  middleV4 :: middle_table
  middleV6 :: middle_table
  refreshing :: bool

definition NewManager :: "string \<Rightarrow> manager" where
  "NewManager preferIP = \<lparr>mg_preferIP = preferIP, mg_ready = False, mg_secret = [],
     middleV4 = [], middleV6 = [], refreshing = False\<rparr>"

datatype manager_error =
    FetchSecretFailed update_error
  | FetchConfigFailed update_error
  | SecretNotAvailable
  | NoAddressForDC int
  | DialFailed string
  | HandshakeFailed handshake_error

datatype dial_stream_error =
    NotReady manager_error
  | CannotConnect int "manager_error option"

subsection \<open>Downloading\<close>

definition fetchBytes :: "(string \<Rightarrow> http_result) \<Rightarrow> string \<Rightarrow> update_error + string" where
  "fetchBytes http url = (case http url of
       HttpFailed \<Rightarrow> Inl CannotFetch
     | HttpResponse status body complete \<Rightarrow>
         if status \<ge> 400 then Inl (UnexpectedStatus status)
         else if \<not> complete then Inl CannotReadBody else Inr body)"

text \<open>What a line of \<open>getProxyConfig\<close> contributes.\<close>

definition middle_line :: "string \<Rightarrow> (int \<times> string) option" where
  "middle_line line =
     (let text = trimSpace line
      in if \<not> hasPrefix text ''proxy_for'' then None
         else case strFields text of
             _ # f1 # f2 # _ \<Rightarrow>
               (case parseInt64 f1 of None \<Rightarrow> None
                | Some dc \<Rightarrow> let addr = trimRightChar (CHR '';'') f2
                    in if splitHostPort addr = None then None else Some (dc, addr))
           | _ \<Rightarrow> None)"

fun collect_middle :: "string list \<Rightarrow> middle_table \<Rightarrow> middle_table" where
  "collect_middle [] out = out"
| "collect_middle (l # ls) out = collect_middle ls
     (case middle_line l of None \<Rightarrow> out | Some (dc, addr) \<Rightarrow> gm_put dc (gm_get0 [] out dc @ [addr]) out)"

definition parseMiddleConfig :: "string \<Rightarrow> middle_table option" where
  "parseMiddleConfig data = map_option (\<lambda>ls. collect_middle ls []) (scan_lines data)"

definition fetchConfig :: "(string \<Rightarrow> http_result) \<Rightarrow> string \<Rightarrow> update_error + middle_table" where
  "fetchConfig http url = (case fetchBytes http url of Inl e \<Rightarrow> Inl e
     | Inr data \<Rightarrow> (case parseMiddleConfig data of None \<Rightarrow> Inl CannotReadBody | Some t \<Rightarrow> Inr t))"

text \<open>\<open>http url\<close> is what the HTTP client gets for the URL during this call.\<close>

definition fetch :: "(string \<Rightarrow> http_result) \<Rightarrow> manager \<Rightarrow> manager_error option \<times> manager" where
  "fetch http m = (case fetchBytes http secretURL of
       Inl e \<Rightarrow> (Some (FetchSecretFailed e), m)
     | Inr secret \<Rightarrow> (case fetchConfig http configURLv4 of
           Inl e \<Rightarrow> (Some (FetchConfigFailed e), m)
         | Inr v4 \<Rightarrow>
             let v6 = (case fetchConfig http configURLv6 of Inl e \<Rightarrow> [] | Inr v6 \<Rightarrow> v6)
             in (None, m\<lparr>mg_secret := bytes_of_string secret, middleV4 := v4, middleV6 := v6,
                         mg_ready := secret \<noteq> [] \<and> (v4 \<noteq> [] \<or> v6 \<noteq> [])\<rparr>)))"

definition startRefresh :: "manager \<Rightarrow> manager" where
  "startRefresh m = m\<lparr>refreshing := True\<rparr>"

definition ensureReady :: "(string \<Rightarrow> http_result) \<Rightarrow> manager \<Rightarrow> manager_error option \<times> manager" where
  "ensureReady http m =
     (if mg_ready m then (None, m)
      else case fetch http m of (Some e, m) \<Rightarrow> (Some e, m) | (None, m) \<Rightarrow> (None, startRefresh m))"

text \<open>A tick of the refresh loop, which exists once \<open>startRefresh\<close> ran; errors are logged.\<close>

definition refresh_tick :: "(string \<Rightarrow> http_result) \<Rightarrow> manager \<Rightarrow> manager" where
  "refresh_tick http m = (if refreshing m then snd (fetch http m) else m)"

subsection \<open>The order of the addresses\<close>

record middleAddress =
  ma_network :: string
  ma_addr :: string

definition appendFamily :: "int \<Rightarrow> middle_table \<Rightarrow> string \<Rightarrow> middleAddress list" where
  "appendFamily dc table network =
     concat (map (\<lambda>key. map (\<lambda>a. \<lparr>ma_network = network, ma_addr = a\<rparr>) (gm_get0 [] table key)) [dc, - dc])"

definition orderedAddresses :: "int \<Rightarrow> manager \<Rightarrow> middleAddress list" where
  "orderedAddresses dc m =
     (let v6First = containsStr (mg_preferIP m) ''ipv6'';
          onlyV4 = (mg_preferIP m = ''only-ipv4''); onlyV6 = (mg_preferIP m = ''only-ipv6'');
          v4 = appendFamily dc (middleV4 m) ''tcp4''; v6 = appendFamily dc (middleV6 m) ''tcp6''
      in if v6First then (if \<not> onlyV4 then v6 else []) @ (if \<not> onlyV6 then v4 else [])
         else (if \<not> onlyV6 then v4 else []) @ (if \<not> onlyV4 then v6 else []))"

subsection \<open>Dialling\<close>

text \<open>The address of a connection's end, which need not be a TCP address.\<close>

datatype net_addr = TcpEnd tcpAddr | OtherEnd

definition toTCPAddr :: "net_addr \<Rightarrow> tcpAddr" where
  "toTCPAddr a = (case a of TcpEnd t \<Rightarrow> t | OtherEnd \<Rightarrow> \<lparr>IP = [], Port = 0\<rparr>)"

text \<open>A dialled connection: its ends and what the peer will send on it.\<close>

record dialled =
  LocalAddr :: net_addr
  RemoteAddr :: net_addr
  peer_sends :: bytes

text \<open>\<open>nil\<close> public addresses are empty.\<close>

record dialParams =
  dp_DC :: int
  dp_ClientAddr :: "tcpAddr option"
  PublicIPv4 :: ip
  PublicIPv6 :: ip
  AdvertisedPort :: int
  dp_AdTag :: bytes

text \<open>What the outside contributes to the attempts: the dialler, the random nonce and the
  clock of each attempt (numbered from 0), and the random connection id.\<close>

record dial_env =
  de_crypto :: crypto
  de_dial :: "nat \<Rightarrow> middleAddress \<Rightarrow> string + dialled"
  de_nonce :: "nat \<Rightarrow> bytes"
  de_clock :: "nat \<Rightarrow> int"
  de_connID :: bytes

definition public_ip :: "dialParams \<Rightarrow> tcpAddr \<Rightarrow> ip" where
  "public_ip params local = (if ip_To4 (IP local) = None then PublicIPv6 params else PublicIPv4 params)"

definition key_local :: "dialParams \<Rightarrow> tcpAddr \<Rightarrow> tcpAddr" where
  "key_local params local =
     (if public_ip params local \<noteq> [] then \<lparr>IP = public_ip params local, Port = Port local\<rparr> else local)"

text \<open>The loop over the addresses: the stream and the middle proxy's address, or the last
  error, and the addresses whose connection was closed again.\<close>

fun dial_addresses :: "dial_env \<Rightarrow> bytes \<Rightarrow> dialParams \<Rightarrow> nat \<Rightarrow> middleAddress list \<Rightarrow> manager_error option
    \<Rightarrow> (dial_stream_error + middleConn \<times> middleChannel \<times> ip) \<times> middleAddress list" where
  "dial_addresses env secret params i [] lastErr = (Inl (CannotConnect (dp_DC params) lastErr), [])"
| "dial_addresses env secret params i (a # as) lastErr = (case de_dial env i a of
       Inl e \<Rightarrow> dial_addresses env secret params (Suc i) as (Some (DialFailed e))
     | Inr conn \<Rightarrow>
         let local = toTCPAddr (LocalAddr conn); remote = toTCPAddr (RemoteAddr conn)
         in case fst (doHandshake (de_crypto env) (de_nonce env i) (de_clock env i) secret
                   (key_local params local) remote (peer_sends conn)) of
              Inl e \<Rightarrow>
                let (res, closed) = dial_addresses env secret params (Suc i) as (Some (HandshakeFailed e))
                in (res, a # closed)
            | Inr ch \<Rightarrow>
                let rpcIP = (if public_ip params local \<noteq> [] then public_ip params local else IP local);
                    rpcOurAddr = \<lparr>IP = rpcIP, Port = AdvertisedPort params\<rparr>
                in (Inr (newMiddleConn (ch_frame ch) (de_connID env) (dp_AdTag params) (dp_ClientAddr params)
                           (Some rpcOurAddr), ch, IP remote), []))"

definition DialProxyStream ::
    "(string \<Rightarrow> http_result) \<Rightarrow> dial_env \<Rightarrow> dialParams \<Rightarrow> manager
      \<Rightarrow> (dial_stream_error + middleConn \<times> middleChannel \<times> ip) \<times> middleAddress list \<times> manager" where
  "DialProxyStream http env params m = (case ensureReady http m of
       (Some e, m) \<Rightarrow> (Inl (NotReady e), [], m)
     | (None, m) \<Rightarrow>
         if mg_secret m = [] then (Inl (NotReady SecretNotAvailable), [], m)
         else let addresses = orderedAddresses (dp_DC params) m
              in if addresses = [] then (Inl (NotReady (NoAddressForDC (dp_DC params))), [], m)
                 else let (res, closed) = dial_addresses env (mg_secret m) params 0 addresses None
                      in (res, closed, m))"

subsection \<open>The life of the manager\<close>

inductive mgr_step :: "manager \<Rightarrow> manager \<Rightarrow> bool" where
  ensure: "mgr_step m (snd (ensureReady http m))"
| tick: "mgr_step m (refresh_tick http m)"

definition has_port :: "string \<Rightarrow> bool" where
  "has_port a \<longleftrightarrow> splitHostPort a \<noteq> None"

definition table_ok :: "middle_table \<Rightarrow> bool" where
  "table_ok t \<longleftrightarrow> gm_ok t \<and>
     list_all (\<lambda>(dc, as). as \<noteq> [] \<and> list_all has_port as) t"

definition mgr_inv :: "string \<Rightarrow> manager \<Rightarrow> bool" where
  "mgr_inv p m \<longleftrightarrow> mg_preferIP m = p \<and> table_ok (middleV4 m) \<and> table_ok (middleV6 m) \<and>
     (mg_ready m \<longleftrightarrow> mg_secret m \<noteq> [] \<and> (middleV4 m \<noteq> [] \<or> middleV6 m \<noteq> [])) \<and>
     (mg_ready m \<longrightarrow> refreshing m)"

lemma table_ok_Nil: "table_ok []"
  by (simp add: table_ok_def)

lemma table_ok_get: "table_ok t \<Longrightarrow> list_all has_port (gm_get0 [] t dc)"
  by (rule gm_get0_values(1)) (simp add: table_ok_def)

lemma gm_put_in: "x \<in> set (gm_put k v m) \<Longrightarrow> x = (k, v) \<or> x \<in> set m"
  by (induction m) (auto split: if_splits)

lemma table_ok_put:
  assumes "table_ok t" "has_port a"
  shows "table_ok (gm_put dc (gm_get0 [] t dc @ [a]) t)"
proof -
  have "list_all has_port (gm_get0 [] t dc)" using assms(1) by (rule table_ok_get)
  then show ?thesis using assms
    by (auto simp: table_ok_def distinct_update list_all_iff dest!: gm_put_in)
qed

lemma collect_middle_ok: "table_ok t \<Longrightarrow> table_ok (collect_middle ls t)"
proof (induction ls arbitrary: t)
  case (Cons l ls)
  have "has_port a" if "middle_line l = Some (dc, a)" for dc a
    using that by (auto simp: has_port_def middle_line_def Let_def split: if_splits option.splits list.splits)
  then show ?case using Cons by (auto simp: table_ok_put split: option.splits)
qed simp

lemma fetchConfig_ok: "fetchConfig http url = Inr t \<Longrightarrow> table_ok t"
  by (auto simp: fetchConfig_def parseMiddleConfig_def intro!: collect_middle_ok table_ok_Nil
      split: sum.splits option.splits)

lemma fetch_outcome:
  "(\<exists>e. fetch http m = (Some e, m)) \<or>
   (\<exists>s v4 v6. fetch http m = (None, m\<lparr>mg_secret := s, middleV4 := v4, middleV6 := v6,
       mg_ready := s \<noteq> [] \<and> (v4 \<noteq> [] \<or> v6 \<noteq> [])\<rparr>) \<and> table_ok v4 \<and> table_ok v6)"
proof (cases "fetchBytes http secretURL")
  case (Inr s)
  show ?thesis
  proof (cases "fetchConfig http configURLv4")
    case (Inr v4)
    define v6 where "v6 = (case fetchConfig http configURLv6 of Inl e \<Rightarrow> [] | Inr v6 \<Rightarrow> v6)"
    have "table_ok v6" by (auto simp: v6_def intro: fetchConfig_ok table_ok_Nil split: sum.splits)
    moreover have "fetch http m = (None, m\<lparr>mg_secret := bytes_of_string s, middleV4 := v4, middleV6 := v6,
        mg_ready := bytes_of_string s \<noteq> [] \<and> (v4 \<noteq> [] \<or> v6 \<noteq> [])\<rparr>)"
      using Inr \<open>fetchBytes http secretURL = Inr s\<close> by (simp add: fetch_def Let_def v6_def)
    ultimately show ?thesis using fetchConfig_ok [OF Inr] by blast
  qed (use Inr in \<open>simp add: fetch_def\<close>)
qed (simp add: fetch_def)

interpretation mgr: transition_system "NewManager p" mgr_step "mgr_inv p" for p
proof unfold_locales
  show "mgr_inv p (NewManager p)" by (simp add: mgr_inv_def NewManager_def table_ok_def)
next
  fix m m' assume inv: "mgr_inv p m" and "mgr_step m m'"
  from this(2) show "mgr_inv p m'"
  proof cases
    case (ensure http)
    then show ?thesis using inv fetch_outcome [of http m]
      by (auto simp: ensureReady_def startRefresh_def mgr_inv_def)
  next
    case (tick http)
    then show ?thesis using inv fetch_outcome [of http m]
      by (auto simp: refresh_tick_def mgr_inv_def)
  qed
qed

text \<open>C20. However downloads succeed or fail over time, the manager is ready exactly when it
  has a secret and an address, only lists addresses that have a host and a port, runs its
  refresh loop whenever it is ready, and a failed download changes nothing.\<close>

theorem manager_ready_inv:
  assumes "mgr_step\<^sup>*\<^sup>* (NewManager p) m"
  shows "(mg_ready m \<longleftrightarrow> mg_secret m \<noteq> [] \<and> (middleV4 m \<noteq> [] \<or> middleV6 m \<noteq> [])) \<and>
    (mg_ready m \<longrightarrow> refreshing m) \<and> mg_preferIP m = p \<and>
    (\<forall>dc a. a \<in> set (gm_get0 [] (middleV4 m) dc) \<union> set (gm_get0 [] (middleV6 m) dc) \<longrightarrow> splitHostPort a \<noteq> None) \<and>
    (\<forall>http e m'. fetch http m = (Some e, m') \<longrightarrow> m' = m)"
proof -
  have inv: "mgr_inv p m" using assms by (rule mgr.reachable_inv)
  then have "list_all has_port (gm_get0 [] (middleV4 m) dc)" "list_all has_port (gm_get0 [] (middleV6 m) dc)" for dc
    by (simp_all add: mgr_inv_def table_ok_get)
  moreover have "m' = m" if "fetch http m = (Some e, m')" for http e m'
    using fetch_outcome [of http m] that by auto
  ultimately show ?thesis using inv by (auto simp: mgr_inv_def list_all_iff has_port_def)
qed

subsection \<open>Which middle proxy is used\<close>

text \<open>One attempt of the loop.\<close>

definition attempt :: "dial_env \<Rightarrow> bytes \<Rightarrow> dialParams \<Rightarrow> nat \<Rightarrow> middleAddress \<Rightarrow> manager_error + middleChannel" where
  "attempt env secret params i a = (case de_dial env i a of
       Inl e \<Rightarrow> Inl (DialFailed e)
     | Inr conn \<Rightarrow>
         (case fst (doHandshake (de_crypto env) (de_nonce env i) (de_clock env i) secret
             (key_local params (toTCPAddr (LocalAddr conn))) (toTCPAddr (RemoteAddr conn)) (peer_sends conn)) of
            Inl e \<Rightarrow> Inl (HandshakeFailed e) | Inr ch \<Rightarrow> Inr ch))"

definition opens :: "dial_env \<Rightarrow> nat \<Rightarrow> middleAddress \<Rightarrow> bool" where
  "opens env i a \<longleftrightarrow> (\<exists>conn. de_dial env i a = Inr conn)"

text \<open>The addresses of which attempts \<open>i\<close>, \<open>i + 1\<close>, ... open a connection.\<close>

definition opened_addresses :: "dial_env \<Rightarrow> nat \<Rightarrow> middleAddress list \<Rightarrow> middleAddress list" where
  "opened_addresses env i as = map snd (filter (\<lambda>(j, a). opens env j a) (enumerate i as))"

definition advertised :: "dial_env \<Rightarrow> dialParams \<Rightarrow> nat \<Rightarrow> middleAddress \<Rightarrow> tcpAddr \<times> ip" where
  "advertised env params i a = (case de_dial env i a of
       Inl _ \<Rightarrow> (\<lparr>IP = [], Port = 0\<rparr>, [])
     | Inr conn \<Rightarrow> (\<lparr>IP = IP (key_local params (toTCPAddr (LocalAddr conn))), Port = AdvertisedPort params\<rparr>,
                     IP (toTCPAddr (RemoteAddr conn))))"

definition stream_of :: "dial_env \<Rightarrow> dialParams \<Rightarrow> nat \<Rightarrow> middleAddress \<Rightarrow> middleChannel \<Rightarrow> middleConn \<times> middleChannel \<times> ip" where
  "stream_of env params i a ch = (newMiddleConn (ch_frame ch) (de_connID env) (dp_AdTag params) (dp_ClientAddr params)
     (Some (fst (advertised env params i a))), ch, snd (advertised env params i a))"

lemma dial_addresses_Cons:
  "dial_addresses env secret params i (a # as) err = (case attempt env secret params i a of
       Inr ch \<Rightarrow> (Inr (stream_of env params i a ch), [])
     | Inl e \<Rightarrow> (let (res, closed) = dial_addresses env secret params (Suc i) as (Some e)
                 in (res, (if opens env i a then [a] else []) @ closed)))"
  by (auto simp: attempt_def opens_def stream_of_def advertised_def key_local_def Let_def
      split: sum.splits prod.splits)

declare dial_addresses.simps(2) [simp del]

lemma opened_addresses_simps [simp]: "opened_addresses env i [] = []" "opened_addresses env i (a # as) = (if opens env i a then [a] else []) @ opened_addresses env (Suc i) as"
  by (simp_all add: opened_addresses_def)

lemma dial_addresses_found:
  assumes "k < length as" "attempt env secret params (i + k) (as ! k) = Inr ch"
    and "\<forall>j < k. \<exists>e. attempt env secret params (i + j) (as ! j) = Inl e"
  shows "dial_addresses env secret params i as err =
    (Inr (stream_of env params (i + k) (as ! k) ch), opened_addresses env i (take k as))"
  using assms
proof (induction as arbitrary: i k err)
  case (Cons a as)
  show ?case
  proof (cases k)
    case 0
    then show ?thesis using Cons.prems by (simp add: dial_addresses_Cons)
  next
    case (Suc k')
    then obtain e where e: "attempt env secret params i a = Inl e" using Cons.prems(3) by fastforce
    have "dial_addresses env secret params (Suc i) as (Some e) =
        (Inr (stream_of env params (Suc i + k') (as ! k') ch), opened_addresses env (Suc i) (take k' as))"
    proof (rule Cons.IH)
      show "\<forall>j < k'. \<exists>e. attempt env secret params (Suc i + j) (as ! j) = Inl e"
      proof (intro allI impI)
        fix j assume "j < k'"
        then show "\<exists>e. attempt env secret params (Suc i + j) (as ! j) = Inl e"
          using Cons.prems(3) [rule_format, of "Suc j"] Suc by simp
      qed
    qed (use Cons.prems Suc in simp_all)
    then show ?thesis using e Suc by (simp add: dial_addresses_Cons)
  qed
qed simp

lemma dial_addresses_none:
  assumes "\<forall>j < length as. \<exists>e. attempt env secret params (i + j) (as ! j) = Inl e"
  shows "\<exists>last. dial_addresses env secret params i as err = (Inl (CannotConnect (dp_DC params) last), opened_addresses env i as) \<and>
    (if as = [] then last = err
     else \<exists>e. last = Some e \<and> attempt env secret params (i + length as - 1) (List.last as) = Inl e)"
  using assms
proof (induction as arbitrary: i err)
  case (Cons a as)
  obtain e where e: "attempt env secret params i a = Inl e" using Cons.prems by fastforce
  have "\<forall>j < length as. \<exists>e. attempt env secret params (Suc i + j) (as ! j) = Inl e"
  proof (intro allI impI)
    fix j assume "j < length as"
    then show "\<exists>e. attempt env secret params (Suc i + j) (as ! j) = Inl e"
      using Cons.prems [rule_format, of "Suc j"] by simp
  qed
  from Cons.IH [OF this, of "Some e"] show ?case using e by (auto simp: dial_addresses_Cons split: if_splits)
qed simp

text \<open>C31. A stream goes through the first middle proxy that works: the addresses are tried in
  order, the first one that can be dialled and completes the handshake carries the
  stream, with the advertising tag, the client's address and our address as the middle
  proxy sees it (the public address of the socket's IP family if one is set), and every
  connection opened before it is closed. If none works, all are closed and the error is
  that of the last attempt.\<close>

theorem DialProxyStream_first_usable:
  assumes "ensureReady http m = (None, m1)" "mg_secret m1 \<noteq> []" "orderedAddresses (dp_DC params) m1 = as" "as \<noteq> []"
  shows "(\<forall>k ch. k < length as \<longrightarrow> attempt env (mg_secret m1) params k (as ! k) = Inr ch \<longrightarrow>
       (\<forall>j < k. \<exists>e. attempt env (mg_secret m1) params j (as ! j) = Inl e) \<longrightarrow>
       DialProxyStream http env params m = (Inr (stream_of env params k (as ! k) ch), opened_addresses env 0 (take k as), m1)) \<and>
    ((\<forall>j < length as. \<exists>e. attempt env (mg_secret m1) params j (as ! j) = Inl e) \<longrightarrow>
       (\<exists>e. attempt env (mg_secret m1) params (length as - 1) (last as) = Inl e \<and>
         DialProxyStream http env params m = (Inl (CannotConnect (dp_DC params) (Some e)), opened_addresses env 0 as, m1)))"
proof -
  have run: "DialProxyStream http env params m = (let (res, closed) = dial_addresses env (mg_secret m1) params 0 as None in (res, closed, m1))"
    using assms by (simp add: DialProxyStream_def)
  show ?thesis
    using dial_addresses_found [of _ as env "mg_secret m1" params 0] dial_addresses_none [of as env "mg_secret m1" params 0 None] assms(4)
    by (auto simp: run)
qed

subsection \<open>Reading a published configuration\<close>

text \<open>A configuration as Telegram publishes it: one line per address.\<close>

definition render_text :: "int \<times> string \<Rightarrow> string" where
  "render_text e = ''proxy_for '' @ itoa (fst e) @ '' '' @ snd e @ '';''"

definition render_line :: "int \<times> string \<Rightarrow> string" where
  "render_line e = render_text e @ [CHR 0x0A]"

text \<open>Visible ASCII text.\<close>

definition visible :: "string \<Rightarrow> bool" where
  "visible s \<longleftrightarrow> list_all (\<lambda>c. 33 \<le> (of_char c :: nat) \<and> (of_char c :: nat) < 127) s"

definition entry_ok :: "int \<times> string \<Rightarrow> bool" where
  "entry_ok e \<longleftrightarrow> in_i64 (fst e) \<and> visible (snd e) \<and> length (snd e) < 1000 \<and>
     splitHostPort (snd e) \<noteq> None \<and> last (snd e) \<noteq> CHR '';''"

lemma space_seqs_heads: "list_all (\<lambda>p. p \<noteq> [] \<and> (hd p < 33 \<or> 127 \<le> hd p) \<and> (last p < 33 \<or> 127 \<le> last p)) space_seqs"
  by code_simp

lemma strip_one_visible:
  assumes "list_all (\<lambda>p. p \<noteq> [] \<and> (hd p < 33 \<or> 127 \<le> hd p)) ps" "33 \<le> b" "b < 127"
  shows "strip_one ps (b # r) = None"
  using assms
proof (induction ps)
  case (Cons p ps)
  then obtain x p' where "p = x # p'" by (cases p) auto
  moreover have "x \<noteq> b" using Cons.prems \<open>p = x # p'\<close> by auto
  ultimately show ?case using Cons by simp
qed simp

lemma visible_byte:
  assumes "33 \<le> (of_char c :: nat)" "(of_char c :: nat) < 127"
  shows "33 \<le> byte_of_char c" "byte_of_char c < 127"
proof -
  have "unat (byte_of_char c) = of_char c"
    using of_char_less_256 [of c] by (simp add: byte_of_char_def unat_of_nat take_bit_nat_eq_self)
  then show "33 \<le> byte_of_char c" "byte_of_char c < 127"
    using assms by (simp_all add: word_le_nat_alt word_less_nat_alt)
qed

lemma strip_visible:
  "visible (c # s) \<Longrightarrow> strip_one space_seqs (byte_of_char c # r) = None"
  "visible (c # s) \<Longrightarrow> strip_one (map rev space_seqs) (byte_of_char c # r) = None"
  using space_seqs_heads visible_byte [of c]
  by (auto intro!: strip_one_visible simp: visible_def list_all_iff hd_rev)

lemma trim_front_visible:
  assumes "visible [c]"
  shows "trim_front space_seqs (byte_of_char c # r) = byte_of_char c # r"
    "trim_front (map rev space_seqs) (byte_of_char c # r) = byte_of_char c # r"
  using strip_visible [OF assms] by (simp_all add: trim_front.simps)

lemma trimSpace_visible:
  assumes "visible [c]" "visible [d]"
  shows "trimSpace (c # s @ [d]) = c # s @ [d]"
  using trim_front_visible [OF assms(1)] trim_front_visible [OF assms(2)] by (simp add: trimSpace_def)

lemma strip_blank: "strip_one space_seqs (32 # r) = Some r"
  by (simp add: space_seqs_def)

lemma fields_from_word:
  assumes "visible w"
  shows "fields_from cur (bytes_of_string w @ r) = fields_from (rev (bytes_of_string w) @ cur) r"
  using assms
proof (induction w arbitrary: cur)
  case (Cons c w)
  then have "visible w" by (simp add: visible_def)
  moreover have "fields_from cur (byte_of_char c # bytes_of_string w @ r) =
      fields_from (byte_of_char c # cur) (bytes_of_string w @ r)"
    using strip_visible(1) [OF Cons.prems] by (subst fields_from.simps) simp
  ultimately show ?case using Cons.IH by simp
qed simp

lemma fields_three:
  assumes "visible a" "visible b" "visible c" "a \<noteq> []" "b \<noteq> []" "c \<noteq> []"
  shows "strFields (a @ '' '' @ b @ '' '' @ c) = [a, b, c]"
proof -
  have blank: "byte_of_char (CHR '' '') = 32" by code_simp
  have step: "fields_from cur (32 # r) = flush_field cur (fields_from [] r)" for cur r
    by (subst fields_from.simps) (simp add: strip_blank)
  have nil: "fields_from cur [] = flush_field cur []" for cur
    by (subst fields_from.simps) (simp add: space_seqs_def)
  show ?thesis
    using assms fields_from_word [OF assms(3), of "[]" "[]"]
    by (simp add: strFields_def fields_from_word blank step nil flush_field_def)
qed

lemma visible_append [simp]: "visible (s @ t) \<longleftrightarrow> visible s \<and> visible t"
  by (simp add: visible_def)

lemma visible_itoa: "visible (itoa n)"
proof -
  have "33 \<le> (of_char c :: nat) \<and> (of_char c :: nat) < 127" if "digitValue c \<noteq> None" for c
    using that by (auto simp: digitValue_def Let_def split: if_splits)
  then have "visible (digits_of k)" for k
    using digits_of_shape [of k] by (auto simp: visible_def list_all_iff)
  then show ?thesis by (simp add: itoa_def visible_def)
qed

lemma itoa_nonempty: "itoa n \<noteq> []"
  using digits_of_shape [of "nat n"] by (simp add: itoa_def)

lemma middle_line_render:
  assumes "entry_ok (dc, a)"
  shows "middle_line (''proxy_for '' @ itoa dc @ '' '' @ a @ '';'') = Some (dc, a)"
proof -
  have vis: "visible [CHR ''p'']" "visible [CHR '';'']" "visible ''proxy_for''" by code_simp+
  have trimmed: "trimSpace (''proxy_for '' @ itoa dc @ '' '' @ a @ '';'') = ''proxy_for '' @ itoa dc @ '' '' @ a @ '';''"
    using trimSpace_visible [OF vis(1,2), of "''roxy_for '' @ itoa dc @ '' '' @ a"] by simp
  have fs: "strFields (''proxy_for '' @ itoa dc @ '' '' @ a @ '';'') = [''proxy_for'', itoa dc, a @ '';'']"
    using fields_three [of "''proxy_for''" "itoa dc" "a @ '';''"] vis assms visible_itoa [of dc] itoa_nonempty [of dc]
    by (simp add: entry_ok_def)
  have "a \<noteq> []" using assms by (auto simp: entry_ok_def splitHostPort_def split_last_def)
  then have trim: "trimRightChar (CHR '';'') (a @ '';'') = a"
    using assms by (cases a rule: rev_cases) (simp_all add: trimRightChar_def entry_ok_def)
  have pre: "hasPrefix (''proxy_for '' @ itoa dc @ '' '' @ a @ '';'') ''proxy_for''"
    by (simp add: hasPrefix_def)
  show ?thesis
    using assms unfolding middle_line_def Let_def trimmed fs
    by (simp add: pre [simplified] trim [simplified] parseInt64_itoa entry_ok_def)
qed

lemma length_digits_of: "0 < k \<Longrightarrow> n < 10 ^ k \<Longrightarrow> length (digits_of n) \<le> k"
proof (induction k arbitrary: n)
  case (Suc k)
  show ?case
  proof (cases "n < 10")
    case False
    then have "10 ^ 1 \<le> n" by simp
    then have "0 < k" using Suc.prems(2) by (cases k) auto
    moreover have "n div 10 < 10 ^ k" using Suc.prems(2) by (simp add: less_mult_imp_div_less mult.commute)
    ultimately show ?thesis using Suc.IH [of "n div 10"] False by (simp add: digits_of.simps [of n])
  qed (simp add: digits_of.simps [of n])
qed simp

lemma length_itoa:
  assumes "in_i64 n"
  shows "length (itoa n) \<le> 20"
proof -
  have "nat n < 10 ^ 19" "nat (- n) < 10 ^ 19"
    using assms nat_mono_iff [of "10 ^ 19" n] nat_mono_iff [of "10 ^ 19" "- n"] by (simp_all add: in_i64_def)
  then show ?thesis using length_digits_of [of 19 "nat n"] length_digits_of [of 19 "nat (- n)"] by (auto simp: itoa_def)
qed

lemma split_on_line: "c \<notin> set l \<Longrightarrow> split_on c (l @ c # r) = l # split_on c r"
  by (induction l) auto

lemma split_on_nonempty: "split_on c s \<noteq> []"
  by (induction s) (auto split: list.splits)

lemma visible_no_newline: "visible s \<Longrightarrow> CHR 0x0A \<notin> set s"
  by (auto simp: visible_def list_all_iff)

lemma split_on_render:
  "list_all entry_ok es \<Longrightarrow> split_on (CHR 0x0A) (concat (map render_line es)) = map render_text es @ [[]]"
proof (induction es)
  case (Cons e es)
  have "CHR 0x0A \<notin> set (render_text e)"
    using Cons.prems visible_no_newline [OF visible_itoa [of "fst e"]] visible_no_newline [of "snd e"]
    by (simp add: render_text_def entry_ok_def)
  from split_on_line [OF this, of "concat (map render_line es)"] show ?case
    using Cons by (simp add: render_line_def [of e])
qed simp

lemma scan_lines_render:
  assumes "list_all entry_ok es"
  shows "scan_lines (concat (map render_line es)) = Some (map render_text es)"
proof -
  have "length (render_text e) < maxScanTokenSize" if "e \<in> set es" for e
    using assms that length_itoa [of "fst e"] by (auto simp: list_all_iff entry_ok_def render_text_def maxScanTokenSize_def)
  moreover have "map drop_cr (map render_text es) = map render_text es"
    by (simp add: drop_cr_def render_text_def)
  ultimately show ?thesis
    by (simp add: scan_lines_def split_on_render [OF assms] Let_def list_all_iff)
qed

lemma collect_middle_get:
  assumes "list_all entry_ok es"
  shows "gm_get0 [] (collect_middle (map render_text es) m) dc = gm_get0 [] m dc @ map snd (filter (\<lambda>e. fst e = dc) es)"
  using assms
proof (induction es arbitrary: m)
  case (Cons e es)
  then have "middle_line (render_text e) = Some (fst e, snd e)"
    using middle_line_render [of "fst e" "snd e"] by (simp add: render_text_def)
  then show ?case using Cons by (cases e) (simp add: gm_get0_def update_conv')
qed simp

text \<open>The configuration reader understands what Telegram publishes: for any list of
  addresses with a host and a port it returns, for every data centre id, exactly the
  addresses listed for it, in the order of the file.\<close>

lemma parseMiddleConfig_render:
  assumes "list_all entry_ok es"
  shows "\<exists>t. parseMiddleConfig (concat (map render_line es)) = Some t \<and>
    (\<forall>dc. gm_get0 [] t dc = map snd (filter (\<lambda>e. fst e = dc) es))"
  using collect_middle_get [OF assms, of "[]"]
  by (auto simp: parseMiddleConfig_def scan_lines_render [OF assms] gm_get0_def [of _ "[]"])

subsection \<open>Witnesses\<close>

definition sample_http :: "string \<Rightarrow> http_result" where
  "sample_http url = (if url = secretURL then HttpResponse 200 ''secret'' True
     else if url = configURLv4 then HttpResponse 200 ''proxy_for 2 1.2.3.4:80;'' True else HttpFailed)"

lemma sample_fetch:
  "fetch sample_http (NewManager ''prefer-ipv4'') = (None, (NewManager ''prefer-ipv4'')\<lparr>mg_secret := bytes_of_string ''secret'',
     middleV4 := [(2, [''1.2.3.4:80''])], middleV6 := [], mg_ready := True\<rparr>)"
proof -
  have ls: "scan_lines ''proxy_for 2 1.2.3.4:80;'' = Some [''proxy_for 2 1.2.3.4:80;'']"
    by (simp add: scan_lines_def maxScanTokenSize_def drop_cr_def)
  have "collect_middle [''proxy_for 2 1.2.3.4:80;''] [] = [(2, [''1.2.3.4:80''])]" by code_simp
  with ls show ?thesis
    by (simp add: fetch_def fetchBytes_def fetchConfig_def parseMiddleConfig_def sample_http_def
        secretURL_def configURLv4_def configURLv6_def)
qed

definition sample_manager :: manager where
  "sample_manager = (NewManager ''prefer-ipv4'')\<lparr>mg_secret := bytes_of_string ''secret'',
     middleV4 := [(2, [''1.2.3.4:80''])], middleV6 := [], mg_ready := True, refreshing := True\<rparr>"

lemma sample_ensure: "ensureReady sample_http (NewManager ''prefer-ipv4'') = (None, sample_manager)"
proof -
  have "mg_ready (NewManager ''prefer-ipv4'') = False" by (simp add: NewManager_def)
  then show ?thesis
    by (simp add: ensureReady_def sample_fetch startRefresh_def sample_manager_def)
qed

theorem manager_ready_inv_witness:
  "mgr_step\<^sup>*\<^sup>* (NewManager ''prefer-ipv4'') sample_manager \<and> mg_ready sample_manager \<and> refreshing sample_manager"
proof -
  have "mgr_step (NewManager ''prefer-ipv4'') (snd (ensureReady sample_http (NewManager ''prefer-ipv4'')))"
    by (rule mgr_step.ensure)
  then have step: "mgr_step\<^sup>*\<^sup>* (NewManager ''prefer-ipv4'') sample_manager" by (simp add: sample_ensure)
  moreover have "mg_ready sample_manager" by (simp add: sample_manager_def)
  ultimately show ?thesis using manager_ready_inv [OF step] by blast
qed

definition sample_dial_env :: dial_env where
  "sample_dial_env = \<lparr>de_crypto = sample_crypto, de_dial = (\<lambda>i a. Inl ''refused''), de_nonce = (\<lambda>i. replicate 16 0),
     de_clock = (\<lambda>i. 0), de_connID = replicate 8 1\<rparr>"

definition sample_params :: dialParams where
  "sample_params = \<lparr>dp_DC = 2, dp_ClientAddr = None, PublicIPv4 = [], PublicIPv6 = [], AdvertisedPort = 443, dp_AdTag = replicate 16 7\<rparr>"

theorem DialProxyStream_first_usable_witness:
  "fst (DialProxyStream sample_http sample_dial_env sample_params (NewManager ''prefer-ipv4'')) =
     Inl (CannotConnect 2 (Some (DialFailed ''refused'')))"
proof -
  define as where "as = [\<lparr>ma_network = ''tcp4'', ma_addr = ''1.2.3.4:80''\<rparr>]"
  have as: "orderedAddresses (dp_DC sample_params) sample_manager = as" unfolding as_def by code_simp
  have sec: "mg_secret sample_manager \<noteq> []" by (simp add: sample_manager_def)
  have fails: "attempt sample_dial_env (mg_secret sample_manager) sample_params j a = Inl (DialFailed ''refused'')" for j a
    by (simp add: attempt_def sample_dial_env_def)
  have "as \<noteq> []" "dp_DC sample_params = 2" by (simp_all add: as_def sample_params_def)
  then show ?thesis
    using conjunct2 [OF DialProxyStream_first_usable [OF sample_ensure sec as, of sample_dial_env]] by (auto simp: fails)
qed

end
