(* ===== verification/Conns.thy ===== *)
theory Conns
  imports Prelude
begin

text \<open>
  The connection wrappers of \<open>mtglib/conns.go\<close>: the traffic meter, the rewindable reader of
  the fake TLS handshake, the proxy protocol header and the shared idle timeout.
\<close>

subsection \<open>Raw reads\<close>

text \<open>A read of a network connection into \<open>n\<close> bytes when \<open>ready\<close> bytes have arrived: at least
  one byte, or \<open>None\<close> at the end of the stream.\<close>

definition raw_Read :: "nat \<Rightarrow> nat \<Rightarrow> bytes \<Rightarrow> (bytes \<times> bytes) option" where
  "raw_Read ready n raw =
     (if n = 0 then Some ([], raw)
      else if raw = [] then None
      else let k = min n (max 1 ready) in Some (take k raw, drop k raw))"

lemma raw_Read_Some:
  "raw_Read ready n raw = Some (x, r) \<Longrightarrow> raw = x @ r \<and> length x \<le> n \<and> (0 < n \<longrightarrow> x \<noteq> [])"
  by (auto simp: raw_Read_def Let_def split: if_splits)

subsection \<open>Traffic events\<close>

text \<open>\<open>connTraffic\<close>: the events it sends for a read or a write of the wrapped connection.\<close>

record eventTraffic =
  tr_streamID :: string
  tr_bytes :: nat
  tr_isRead :: bool

definition connTraffic_Read :: "string \<Rightarrow> nat \<Rightarrow> eventTraffic list" where
  "connTraffic_Read streamID n =
     (if n > 0 then [\<lparr>tr_streamID = streamID, tr_bytes = n, tr_isRead = True\<rparr>] else [])"

definition connTraffic_Write :: "string \<Rightarrow> nat \<Rightarrow> eventTraffic list" where
  "connTraffic_Write streamID n =
     (if n > 0 then [\<lparr>tr_streamID = streamID, tr_bytes = n, tr_isRead = False\<rparr>] else [])"

subsection \<open>The rewindable connection\<close>

text \<open>\<open>active\<close> is a tee into the buffer before \<open>Rewind\<close>, the buffer followed by the connection
  after it.\<close>

record connRewind =
  rw_raw :: bytes
  rw_buf :: bytes
  rewound :: bool

definition newConnRewind :: "bytes \<Rightarrow> connRewind" where
  "newConnRewind raw = \<lparr>rw_raw = raw, rw_buf = [], rewound = False\<rparr>"

definition connRewind_Read :: "nat \<Rightarrow> nat \<Rightarrow> connRewind \<Rightarrow> bytes option \<times> connRewind" where
  "connRewind_Read ready n c =
     (if rewound c \<and> rw_buf c \<noteq> [] then (Some (take n (rw_buf c)), c\<lparr>rw_buf := drop n (rw_buf c)\<rparr>)
      else case raw_Read ready n (rw_raw c) of
          None \<Rightarrow> (None, c)
        | Some (x, r) \<Rightarrow> (Some x, c\<lparr>rw_raw := r, rw_buf := (if rewound c then [] else rw_buf c @ x)\<rparr>))"

definition Rewind :: "connRewind \<Rightarrow> connRewind" where
  "Rewind c = c\<lparr>rewound := True\<rparr>"

text \<open>Reads of the given sizes until one fails.\<close>

fun rewind_reads :: "(nat \<times> nat) list \<Rightarrow> connRewind \<Rightarrow> bytes list \<times> bool \<times> connRewind" where
  "rewind_reads [] c = ([], True, c)"
| "rewind_reads ((k, n) # ns) c = (case connRewind_Read k n c of
      (None, c) \<Rightarrow> ([], False, c)
    | (Some x, c) \<Rightarrow> let (xs, ok, c) = rewind_reads ns c in (x # xs, ok, c))"

subsection \<open>The proxy protocol header\<close>

text \<open>\<open>header\<close> is what the proxy protocol package formats for the two addresses; \<open>fails\<close> tells
  whether writing it fails. The result is what reaches the network, or nothing.\<close>

record connProxyProtocol =
  headersWritten :: bool

definition newConnProxyProtocol :: connProxyProtocol where
  "newConnProxyProtocol = \<lparr>headersWritten = False\<rparr>"

definition connProxyProtocol_Write :: "bytes \<Rightarrow> bool \<Rightarrow> bytes \<Rightarrow> connProxyProtocol \<Rightarrow> bytes option \<times> connProxyProtocol" where
  "connProxyProtocol_Write header fails p c =
     (if \<not> headersWritten c then
        if fails then (None, c) else (Some (header @ p), c\<lparr>headersWritten := True\<rparr>)
      else (Some p, c))"

fun protocol_writes :: "bytes \<Rightarrow> bytes list \<Rightarrow> connProxyProtocol \<Rightarrow> bytes \<times> connProxyProtocol" where
  "protocol_writes header [] c = ([], c)"
| "protocol_writes header (p # ps) c = (case connProxyProtocol_Write header False p c of
      (None, c) \<Rightarrow> ([], c)
    | (Some x, c) \<Rightarrow> let (y, c) = protocol_writes header ps c in (x @ y, c))"

subsection \<open>The idle timeout\<close>

text \<open>Instants are unix nanoseconds.\<close>

record idleTracker =
  lastActive :: int
  idle_timeout :: duration

definition touch :: "int \<Rightarrow> idleTracker \<Rightarrow> idleTracker" where
  "touch now t = t\<lparr>lastActive := now\<rparr>"

definition newIdleTracker :: "int \<Rightarrow> duration \<Rightarrow> idleTracker" where
  "newIdleTracker now timeout = touch now \<lparr>lastActive = 0, idle_timeout = timeout\<rparr>"

definition isIdle :: "int \<Rightarrow> idleTracker \<Rightarrow> bool" where
  "isIdle now t \<longleftrightarrow> i64 (now - lastActive t) \<ge> idle_timeout t"

text \<open>How a read of the wrapped connection ends, when, and the last time the other direction
  touched the shared tracker in the meantime, if it did.\<close>

datatype raw_outcome = GotBytes bytes | TimedOut | Broken

record raw_event =
  outcome :: raw_outcome
  finished_at :: int
  other_touch :: "int option"

definition absorb :: "raw_event \<Rightarrow> idleTracker \<Rightarrow> idleTracker" where
  "absorb e t = (case other_touch e of None \<Rightarrow> t | Some at \<Rightarrow> touch at t)"

text \<open>The loop of \<open>Read\<close> over the outcomes of the wrapped reads; \<open>None\<close> while it still waits.\<close>

fun connIdleTimeout_Read :: "raw_event list \<Rightarrow> idleTracker \<Rightarrow> raw_outcome option \<times> idleTracker" where
  "connIdleTimeout_Read [] t = (None, t)"
| "connIdleTimeout_Read (e # es) t =
     (let t = absorb e t
      in case outcome e of
           GotBytes b \<Rightarrow> (Some (GotBytes b), touch (finished_at e) t)
         | TimedOut \<Rightarrow> if \<not> isIdle (finished_at e) t then connIdleTimeout_Read es t else (Some TimedOut, t)
         | Broken \<Rightarrow> (Some Broken, t))"

definition connIdleTimeout_Write :: "int \<Rightarrow> nat \<Rightarrow> idleTracker \<Rightarrow> idleTracker" where
  "connIdleTimeout_Write now n t = (if n > 0 then touch now t else t)"

subsection \<open>Lemmas\<close>

text \<open>What a rewindable connection still delivers.\<close>

definition rewind_ahead :: "connRewind \<Rightarrow> bytes" where
  "rewind_ahead c = (if rewound c then rw_buf c else []) @ rw_raw c"

lemma connRewind_Read_ahead:
  assumes "connRewind_Read k n c = (res, c')"
  shows "case res of None \<Rightarrow> c' = c \<and> rewind_ahead c = []
    | Some x \<Rightarrow> rewind_ahead c = x @ rewind_ahead c' \<and> rewound c' = rewound c \<and>
        (\<not> rewound c \<longrightarrow> rw_buf c' = rw_buf c @ x) \<and> length x \<le> n \<and> (0 < n \<longrightarrow> x \<noteq> [])"
  using assms
  by (auto simp: connRewind_Read_def rewind_ahead_def raw_Read_def Let_def split: if_splits option.splits)

lemma rewind_reads_ahead:
  "rewind_reads ns c = (xs, ok, c') \<Longrightarrow> rewind_ahead c = concat xs @ rewind_ahead c' \<and> rewound c' = rewound c \<and>
     (\<not> rewound c \<longrightarrow> rw_buf c' = rw_buf c @ concat xs) \<and> (\<not> ok \<longrightarrow> rewind_ahead c' = [])"
proof (induction ns arbitrary: c xs ok c')
  case (Cons kn ns)
  obtain k n where kn: "kn = (k, n)" by (cases kn)
  obtain res c1 where rd: "connRewind_Read k n c = (res, c1)" by fastforce
  note ahead = connRewind_Read_ahead [OF rd]
  show ?case
  proof (cases res)
    case None
    then show ?thesis using Cons.prems ahead rd kn by auto
  next
    case (Some x)
    obtain xs1 where rest: "rewind_reads ns c1 = (xs1, ok, c')" "xs = x # xs1"
      using Cons.prems rd kn Some by (auto split: prod.splits)
    from Cons.IH [OF rest(1)] show ?thesis using ahead Some rest(2) by simp
  qed
qed simp

text \<open>Nothing the handshake read is lost to the fronting domain: after any reads of the
  client hello and a rewind, whatever sizes the relay reads in, it gets the bytes the
  client sent from the very first one, and the end of the stream only after the last.\<close>

lemma rewind_replays:
  assumes "rewind_reads ns (newConnRewind raw) = (xs, ok, c)" "rewind_reads ms (Rewind c) = (ys, ok', c')"
  shows "prefix (concat xs) raw \<and> prefix (concat ys) raw \<and> (\<not> ok' \<longrightarrow> concat ys = raw)"
proof -
  have first: "raw = concat xs @ rw_raw c" "rw_buf c = concat xs" "\<not> rewound c"
    using rewind_reads_ahead [OF assms(1)] by (simp_all add: newConnRewind_def rewind_ahead_def)
  then have "rewind_ahead (Rewind c) = raw" by (simp add: Rewind_def rewind_ahead_def)
  then have second: "raw = concat ys @ rewind_ahead c'" "\<not> ok' \<longrightarrow> rewind_ahead c' = []"
    using rewind_reads_ahead [OF assms(2)] by simp_all
  show ?thesis
    using second(2) prefixI [OF first(1)] prefixI [OF second(1)] by (auto simp: second(1))
qed

lemma protocol_writes_later: "headersWritten c \<Longrightarrow> protocol_writes header ps c = (concat ps, c)"
  by (induction ps arbitrary: c) (simp_all add: connProxyProtocol_Write_def)

lemma protocol_writes_once: "fst (protocol_writes header ps newConnProxyProtocol) = (if ps = [] then [] else header @ concat ps)"
  by (cases ps) (simp_all add: newConnProxyProtocol_def connProxyProtocol_Write_def protocol_writes_later Let_def)

text \<open>A read of the relay gives up for inactivity only after the whole timeout passed
  without activity in either direction: when it returns the timeout error, the last
  activity known to the shared tracker is at least the timeout ago; as long as every
  timed out wait finds younger activity it goes on waiting; and a read that brings data
  counts as activity.\<close>

lemma idle_read_gives_up:
  assumes "connIdleTimeout_Read es t = (res, t')"
  shows "(res = Some TimedOut \<longrightarrow> (\<exists>e \<in> set es. outcome e = TimedOut \<and> isIdle (finished_at e) t')) \<and>
    (\<forall>b. res = Some (GotBytes b) \<longrightarrow> (\<exists>e \<in> set es. outcome e = GotBytes b \<and> lastActive t' = finished_at e)) \<and>
    ((\<forall>e \<in> set es. outcome e = TimedOut \<and> (\<exists>at. other_touch e = Some at \<and> i64 (finished_at e - at) < idle_timeout t))
       \<longrightarrow> res = None) \<and>
    idle_timeout t' = idle_timeout t"
  using assms
proof (induction es arbitrary: t)
  case (Cons e es)
  define t1 where "t1 = absorb e t"
  have t1: "idle_timeout t1 = idle_timeout t" by (simp add: t1_def absorb_def touch_def split: option.splits)
  have active: "\<not> isIdle (finished_at e) t1" if "other_touch e = Some at" "i64 (finished_at e - at) < idle_timeout t" for at
    using that by (simp add: isIdle_def t1_def absorb_def touch_def)
  show ?case
  proof (cases "outcome e = TimedOut \<and> \<not> isIdle (finished_at e) t1")
    case True
    then have "connIdleTimeout_Read es t1 = (res, t')" using Cons.prems by (simp add: t1_def Let_def)
    from Cons.IH [OF this] t1 show ?thesis by auto
  next
    case False
    then show ?thesis using Cons.prems t1 active
      by (cases "outcome e") (auto simp: Let_def touch_def simp flip: t1_def)
  qed
qed simp

end
