(* ===== verification/Relay.thy ===== *)
theory Relay
  imports TlsRecord
begin

text \<open>
  The relay between client and Telegram (\<open>mtglib/internal/relay\<close>): two pumps that copy one
  direction each, in any interleaving with each other, the peers, the network and the
  cancellation of the context, and close ends of the connections when they finish.
\<close>

subsection \<open>Connections\<close>

text \<open>A connection as the relay sees it: what the peer has sent and was not read yet, whether
  the peer has finished sending, what was written to the peer, which of our ends are
  still open, and whether \<open>Close\<close> was called.\<close>

record rconn =
  incoming :: bytes
  peer_done :: bool
  written :: bytes
  can_read :: bool
  can_write :: bool
  conn_closed :: bool

definition fresh_conn :: rconn where
  "fresh_conn = \<lparr>incoming = [], peer_done = False, written = [], can_read = True, can_write = True, conn_closed = False\<rparr>"

definition conn_CloseRead :: "rconn \<Rightarrow> rconn" where
  "conn_CloseRead c = c\<lparr>can_read := False\<rparr>"

definition conn_CloseWrite :: "rconn \<Rightarrow> rconn" where
  "conn_CloseWrite c = c\<lparr>can_write := False\<rparr>"

definition conn_Close :: "rconn \<Rightarrow> rconn" where
  "conn_Close c = c\<lparr>can_read := False, can_write := False, conn_closed := True\<rparr>"

subsection \<open>A pump\<close>

text \<open>The buffer of a pump. MIPS builds take half of it, for which the bounds hold as well.\<close>

definition bufPoolSize :: nat where
  "bufPoolSize = MaxRecordPayloadSize"

text \<open>How reading ends: \<open>EOF\<close> is the end of the peer's stream and \<open>ShutEOF\<close> the same \<open>io.EOF\<close> after
  \<open>CloseRead\<close> on our side; any other error (timeout, reset, closed connection) is
  \<open>ReadError\<close>. A failing write leaves the bytes of the buffer it did not write.\<close>

datatype read_end = EOF | ShutEOF | ReadError

datatype copy_result = Ended read_end | WriteFailed bytes

text \<open>Where \<open>pump\<close> stands: in \<open>Read\<close>, in \<open>Write\<close> with the bytes in the buffer and the error the
  read gave with them, after the copy, after \<open>dst.CloseWrite\<close>, and after \<open>src.CloseRead\<close>.\<close>

datatype pump_stage =
    Reading
  | Writing bytes "read_end option"
  | Copied copy_result
  | WriteClosed copy_result
  | Returned copy_result

text \<open>A read of \<open>k\<close> bytes at most, with the error \<open>e\<close> it gives; \<open>None\<close> when no such read can happen.
  After \<open>CloseRead\<close> the kernel may still hand out what had arrived, after \<open>Close\<close> it does not.\<close>

definition read_ends :: "bytes \<Rightarrow> rconn \<Rightarrow> read_end option \<Rightarrow> bool" where
  "read_ends rest dst e = (case e of
       None \<Rightarrow> True
     | Some EOF \<Rightarrow> rest = [] \<and> peer_done dst \<and> \<not> conn_closed dst
     | Some ShutEOF \<Rightarrow> \<not> can_read dst
     | Some ReadError \<Rightarrow> True)"

definition pump_read :: "nat \<Rightarrow> read_end option \<Rightarrow> rconn \<Rightarrow> (pump_stage \<times> rconn) option" where
  "pump_read k e dst =
     (let x = take k (incoming dst); rest = drop k (incoming dst)
      in if k > bufPoolSize \<or> (x \<noteq> [] \<and> conn_closed dst) \<or> \<not> read_ends rest dst e then None
         else if x \<noteq> [] then Some (Writing x e, dst\<lparr>incoming := rest\<rparr>)
         else case e of None \<Rightarrow> None | Some e \<Rightarrow> Some (Copied (Ended e), dst))"

text \<open>A write of the buffer: all of it (\<open>None\<close>), or an error after \<open>j\<close> bytes (\<open>Some j\<close>), which can come at any
  time; a closed end takes nothing.\<close>

definition pump_write :: "nat option \<Rightarrow> bytes \<Rightarrow> read_end option \<Rightarrow> rconn \<Rightarrow> (pump_stage \<times> rconn) option" where
  "pump_write fail x e src = (case fail of
       None \<Rightarrow>
         if can_write src
         then Some (case e of None \<Rightarrow> Reading | Some e \<Rightarrow> Copied (Ended e), src\<lparr>written := written src @ x\<rparr>)
         else None
     | Some j \<Rightarrow>
         if j < length x \<and> (can_write src \<or> j = 0)
         then Some (Copied (WriteFailed (drop j x)), src\<lparr>written := written src @ take j x\<rparr>)
         else None)"

text \<open>The actions of \<open>pump src dst\<close>, which reads from \<open>dst\<close> and writes to \<open>src\<close>: the rounds of
  \<open>io.CopyBuffer\<close> and then the deferred calls.\<close>

datatype pump_act = PumpRead nat "read_end option" | PumpWrite "nat option" | PumpClose

type_synonym pump_state = "pump_stage \<times> rconn \<times> rconn"

fun pump :: "pump_act \<Rightarrow> pump_state \<Rightarrow> pump_state option" where
  "pump (PumpRead k e) (Reading, src, dst) = map_option (\<lambda>(st, dst). (st, src, dst)) (pump_read k e dst)"
| "pump (PumpWrite fail) (Writing x e, src, dst) = map_option (\<lambda>(st, src). (st, src, dst)) (pump_write fail x e src)"
| "pump PumpClose (Copied res, src, dst) = Some (WriteClosed res, src, conn_CloseWrite dst)"
| "pump PumpClose (WriteClosed res, src, dst) = Some (Returned res, conn_CloseRead src, dst)"
| "pump _ _ = None"

fun_cases pumpE: "pump a (st, src, dst) = Some s"

text \<open>Bytes that were read and not written: in the buffer, or lost with it.\<close>

fun lost :: "copy_result \<Rightarrow> bytes" where
  "lost (WriteFailed x) = x"
| "lost (Ended e) = []"

fun in_hand :: "pump_stage \<Rightarrow> bytes" where
  "in_hand Reading = []"
| "in_hand (Writing x e) = x"
| "in_hand (Copied res) = lost res"
| "in_hand (WriteClosed res) = lost res"
| "in_hand (Returned res) = lost res"

fun result :: "pump_stage \<Rightarrow> copy_result option" where
  "result (Copied res) = Some res"
| "result (WriteClosed res) = Some res"
| "result (Returned res) = Some res"
| "result _ = None"

fun closed_write :: "pump_stage \<Rightarrow> bool" where
  "closed_write (WriteClosed res) = True"
| "closed_write (Returned res) = True"
| "closed_write _ = False"

fun returned :: "pump_stage \<Rightarrow> bool" where
  "returned (Returned res) = True"
| "returned _ = False"

text \<open>Own steps a pump has left when its writes fail.\<close>

fun steps_left :: "pump_stage \<Rightarrow> nat" where
  "steps_left Reading = 4"
| "steps_left (Writing x e) = 3"
| "steps_left (Copied res) = 2"
| "steps_left (WriteClosed res) = 1"
| "steps_left (Returned res) = 0"

subsection \<open>The relay\<close>

text \<open>\<open>up\<close> is the pump from the client to Telegram, \<open>down\<close> the one back; \<open>relay_done\<close> is the
  return of \<open>Relay\<close>, which closes both connections. \<open>client_sent\<close> and \<open>telegram_sent\<close> are
  auxiliary: all that the two peers have sent so far.\<close>

record relay =
  telegram_conn :: rconn
  client_conn :: rconn
  up :: pump_stage
  down :: pump_stage
  relay_done :: bool
  client_sent :: bytes
  telegram_sent :: bytes

definition relay_start :: relay where
  "relay_start = \<lparr>telegram_conn = fresh_conn, client_conn = fresh_conn, up = Reading, down = Reading,
     relay_done = False, client_sent = [], telegram_sent = []\<rparr>"

text \<open>The peers send and finish; the pumps act; either connection is closed from outside
  (the context's \<open>AfterFunc\<close>, or whoever else holds the connection); and \<open>Relay\<close> returns when both
  pumps have.\<close>

inductive relay_step :: "relay \<Rightarrow> relay \<Rightarrow> bool" where
  client_sends: "\<not> peer_done (client_conn r) \<Longrightarrow>
    relay_step r (r\<lparr>client_conn := (client_conn r)\<lparr>incoming := incoming (client_conn r) @ b\<rparr>,
      client_sent := client_sent r @ b\<rparr>)"
| telegram_sends: "\<not> peer_done (telegram_conn r) \<Longrightarrow>
    relay_step r (r\<lparr>telegram_conn := (telegram_conn r)\<lparr>incoming := incoming (telegram_conn r) @ b\<rparr>,
      telegram_sent := telegram_sent r @ b\<rparr>)"
| client_finishes: "relay_step r (r\<lparr>client_conn := (client_conn r)\<lparr>peer_done := True\<rparr>\<rparr>)"
| telegram_finishes: "relay_step r (r\<lparr>telegram_conn := (telegram_conn r)\<lparr>peer_done := True\<rparr>\<rparr>)"
| pump_up: "pump a (up r, telegram_conn r, client_conn r) = Some (st, tg, cl) \<Longrightarrow>
    relay_step r (r\<lparr>telegram_conn := tg, client_conn := cl, up := st\<rparr>)"
| pump_down: "pump a (down r, client_conn r, telegram_conn r) = Some (st, cl, tg) \<Longrightarrow>
    relay_step r (r\<lparr>telegram_conn := tg, client_conn := cl, down := st\<rparr>)"
| telegram_closed: "relay_step r (r\<lparr>telegram_conn := conn_Close (telegram_conn r)\<rparr>)"
| client_closed: "relay_step r (r\<lparr>client_conn := conn_Close (client_conn r)\<rparr>)"
| return: "returned (up r) \<Longrightarrow> returned (down r) \<Longrightarrow>
    relay_step r (r\<lparr>telegram_conn := conn_Close (telegram_conn r), client_conn := conn_Close (client_conn r), relay_done := True\<rparr>)"

subsection \<open>Invariant\<close>

text \<open>One direction: \<open>sent\<close> is what the peer of \<open>dst\<close> has sent.\<close>

definition flow :: "bytes \<Rightarrow> pump_stage \<Rightarrow> rconn \<Rightarrow> rconn \<Rightarrow> bool" where
  "flow sent st src dst \<longleftrightarrow>
     sent = written src @ in_hand st @ incoming dst \<and> length (in_hand st) \<le> bufPoolSize \<and>
     (result st = Some (Ended EOF) \<or> (\<exists>x. st = Writing x (Some EOF)) \<longrightarrow> peer_done dst \<and> incoming dst = []) \<and>
     (closed_write st \<longrightarrow> \<not> can_write dst) \<and> (returned st \<longrightarrow> \<not> can_read src)"

definition relay_inv :: "relay \<Rightarrow> bool" where
  "relay_inv r \<longleftrightarrow>
     flow (client_sent r) (up r) (telegram_conn r) (client_conn r) \<and>
     flow (telegram_sent r) (down r) (client_conn r) (telegram_conn r) \<and>
     (relay_done r \<longrightarrow> returned (up r) \<and> returned (down r) \<and> conn_closed (client_conn r) \<and> conn_closed (telegram_conn r) \<and>
        \<not> can_read (client_conn r) \<and> \<not> can_write (client_conn r) \<and> \<not> can_read (telegram_conn r) \<and> \<not> can_write (telegram_conn r))"

lemmas close_defs = conn_CloseRead_def conn_CloseWrite_def conn_Close_def

text \<open>What a pump leaves alone, and its own direction.\<close>

lemma pump_frame:
  assumes "pump a (st, src, dst) = Some (st', src', dst')"
  shows "incoming src' = incoming src \<and> peer_done src' = peer_done src \<and> can_write src' = can_write src \<and> conn_closed src' = conn_closed src \<and>
    written dst' = written dst \<and> can_read dst' = can_read dst \<and> conn_closed dst' = conn_closed dst \<and> peer_done dst' = peer_done dst \<and>
    (can_read src' \<longrightarrow> can_read src) \<and> (can_write dst' \<longrightarrow> can_write dst) \<and> \<not> returned st"
  using assms
  by (elim pumpE) (auto simp: pump_read_def pump_write_def close_defs Let_def split: if_splits option.splits)

lemma pump_flow:
  assumes "pump a (st, src, dst) = Some (st', src', dst')" "flow sent st src dst"
  shows "flow sent st' src' dst'"
  using assms
  by (elim pumpE)
    (auto simp: flow_def pump_read_def pump_write_def read_ends_def close_defs Let_def min_def split: if_splits option.splits read_end.splits)

lemma flow_env:
  assumes "flow sent st src dst"
    and "written src' = written src" "incoming dst' = incoming dst" "peer_done dst \<longrightarrow> peer_done dst'"
    and "can_write dst' \<longrightarrow> can_write dst" "can_read src' \<longrightarrow> can_read src"
  shows "flow sent st src' dst'"
  using assms by (auto simp: flow_def)

lemma flow_sends:
  "flow sent st src dst \<Longrightarrow> \<not> peer_done dst \<Longrightarrow> flow (sent @ b) st src (dst\<lparr>incoming := incoming dst @ b\<rparr>)"
  by (auto simp: flow_def)

lemma relay_inv_step: "relay_step r r' \<Longrightarrow> relay_inv r \<Longrightarrow> relay_inv r'"
proof (induction rule: relay_step.induct)
  case (pump_up a r st tg cl)
  then show ?case
    using pump_frame [OF pump_up(1)] pump_flow [OF pump_up(1)]
      flow_env [of "telegram_sent r" "down r" "client_conn r" "telegram_conn r" cl tg]
    by (auto simp: relay_inv_def)
next
  case (pump_down a r st cl tg)
  then show ?case
    using pump_frame [OF pump_down(1)] pump_flow [OF pump_down(1)]
      flow_env [of "client_sent r" "up r" "telegram_conn r" "client_conn r" tg cl]
    by (auto simp: relay_inv_def)
next
  case (return r)
  then show ?case by (auto simp: relay_inv_def close_defs elim: flow_env)
qed (auto simp: relay_inv_def close_defs intro: flow_sends elim: flow_env)

interpretation rel: transition_system relay_start relay_step relay_inv
proof
  show "relay_inv relay_start" by (simp add: relay_inv_def relay_start_def fresh_conn_def flow_def)
qed (rule relay_inv_step)

text \<open>C9. The relay neither repeats nor reorders what it passes on, and loses only what a failing
  write leaves in one buffer: at every moment what a peer has sent is what was written to
  the other one, then what the pump holds, then what waits unread. A pump that finished
  because the peer did has passed on everything, and when \<open>Relay\<close> returns both pumps have
  finished and every end of both connections is closed.\<close>

theorem relay_faithful:
  assumes "relay_step\<^sup>*\<^sup>* relay_start r"
  shows "client_sent r = written (telegram_conn r) @ in_hand (up r) @ incoming (client_conn r) \<and>
    telegram_sent r = written (client_conn r) @ in_hand (down r) @ incoming (telegram_conn r) \<and>
    length (in_hand (up r)) \<le> bufPoolSize \<and> length (in_hand (down r)) \<le> bufPoolSize \<and>
    (result (up r) = Some (Ended EOF) \<longrightarrow> peer_done (client_conn r) \<and> written (telegram_conn r) = client_sent r) \<and>
    (result (down r) = Some (Ended EOF) \<longrightarrow> peer_done (telegram_conn r) \<and> written (client_conn r) = telegram_sent r) \<and>
    (relay_done r \<longrightarrow> returned (up r) \<and> returned (down r) \<and> \<not> can_read (client_conn r) \<and> \<not> can_write (client_conn r) \<and>
       \<not> can_read (telegram_conn r) \<and> \<not> can_write (telegram_conn r))"
proof -
  have "in_hand st = []" if "result st = Some (Ended EOF)" for st using that by (cases st) auto
  then show ?thesis using rel.reachable_inv [OF assms] by (auto simp: relay_inv_def flow_def)
qed

text \<open>A pump whose writes fail writes nothing and comes to its end.\<close>

lemma pump_cut:
  assumes "pump a (st, src, dst) = Some (st', src', dst')" "\<not> can_write src"
  shows "written src' = written src \<and> steps_left st' < steps_left st"
  using assms
  by (elim pumpE) (auto simp: pump_read_def pump_write_def close_defs Let_def split: if_splits option.splits)

lemma stopped_step:
  assumes "relay_step r r'" "\<not> can_write (client_conn r)"
  shows "\<not> can_write (client_conn r') \<and> written (client_conn r') = written (client_conn r)"
  using assms
  by (cases rule: relay_step.cases) (auto simp: close_defs dest: pump_frame pump_cut)

lemma stopped_steps:
  assumes "relay_step\<^sup>*\<^sup>* r r'" "\<not> can_write (client_conn r)"
  shows "\<not> can_write (client_conn r') \<and> written (client_conn r') = written (client_conn r)"
  using assms by (induction rule: rtranclp_induct) (auto dest: stopped_step)

text \<open>C39. The end of one direction is the end of both: as soon as the pump from the client to
  Telegram has made the first of its deferred calls, no byte from Telegram reaches the client
  any more, whatever happens afterwards. No write of the other pump succeeds, each of its steps
  brings it nearer to its end, and once the first pump has returned it need not wait for
  Telegram either: its read ends at once. So a client that sends its request and closes its
  sending side does not get the answer.\<close>

theorem half_close_loses_answer:
  assumes "relay_step\<^sup>*\<^sup>* relay_start r" "closed_write (up r)" "relay_step\<^sup>*\<^sup>* r r'"
  shows "written (client_conn r') = written (client_conn r) \<and>
    pump_write None x e (client_conn r') = None \<and>
    (pump a (down r', client_conn r', telegram_conn r') = Some (st, cl, tg) \<longrightarrow>
       written cl = written (client_conn r) \<and> steps_left st < steps_left (down r')) \<and>
    (returned (up r) \<and> down r = Reading \<longrightarrow>
       pump (PumpRead 0 (Some ShutEOF)) (Reading, client_conn r, telegram_conn r) =
         Some (Copied (Ended ShutEOF), client_conn r, telegram_conn r))"
proof -
  have r: "\<not> can_write (client_conn r)" "returned (up r) \<longrightarrow> \<not> can_read (telegram_conn r)"
    using rel.reachable_inv [OF assms(1)] assms(2) by (simp_all add: relay_inv_def flow_def)
  note r' = stopped_steps [OF assms(3) r(1)]
  then show ?thesis
    using r(2) pump_cut [of a "down r'" "client_conn r'" "telegram_conn r'" st cl tg]
    by (auto simp: pump_write_def pump_read_def read_ends_def)
qed

text \<open>The run of the example: request 1, end of the request, and the answer 2. Along the way the
  pump has read the request and not written it yet.\<close>

definition run_up :: "pump_act \<Rightarrow> relay \<Rightarrow> relay" where
  "run_up a r = (case pump a (up r, telegram_conn r, client_conn r) of
     None \<Rightarrow> r | Some (st, tg, cl) \<Rightarrow> r\<lparr>telegram_conn := tg, client_conn := cl, up := st\<rparr>)"

definition run_request :: relay where
  "run_request = relay_start\<lparr>client_conn := fresh_conn\<lparr>incoming := [1], peer_done := True\<rparr>, client_sent := [1]\<rparr>"

definition run_read :: relay where
  "run_read = run_up (PumpRead 4 None) run_request"

definition run_passed :: relay where
  "run_passed = fold run_up [PumpWrite None, PumpRead 4 (Some EOF), PumpClose, PumpClose] run_read"

definition run_answer :: relay where
  "run_answer = run_passed\<lparr>telegram_conn := (telegram_conn run_passed)\<lparr>incoming := [2]\<rparr>, telegram_sent := [2]\<rparr>"

lemma run_up_steps: "relay_step\<^sup>*\<^sup>* r0 r \<Longrightarrow> relay_step\<^sup>*\<^sup>* r0 (run_up a r)"
  by (auto simp: run_up_def split: option.splits intro: rtranclp.rtrancl_into_rtrancl pump_up)

lemma run_read_eq:
  "run_read = relay_start\<lparr>client_conn := fresh_conn\<lparr>peer_done := True\<rparr>, up := Writing [1] None, client_sent := [1]\<rparr>"
  by (simp add: run_read_def run_up_def run_request_def relay_start_def fresh_conn_def pump_read_def read_ends_def
      bufPoolSize_def record_consts)

lemma run_passed_eq:
  "run_passed = relay_start\<lparr>telegram_conn := fresh_conn\<lparr>written := [1], can_read := False\<rparr>,
     client_conn := fresh_conn\<lparr>peer_done := True, can_write := False\<rparr>, up := Returned (Ended EOF), client_sent := [1]\<rparr>"
  by (simp add: run_passed_def run_read_eq run_up_def relay_start_def fresh_conn_def pump_read_def pump_write_def read_ends_def
      bufPoolSize_def record_consts close_defs)

lemma run_reachable:
  "relay_step\<^sup>*\<^sup>* relay_start run_read" "relay_step\<^sup>*\<^sup>* relay_start run_passed" "relay_step\<^sup>*\<^sup>* run_passed run_answer"
proof -
  let ?r = "relay_start\<lparr>client_conn := fresh_conn\<lparr>incoming := [1]\<rparr>, client_sent := [1]\<rparr>"
  have "relay_step relay_start ?r"
    using relay_step.client_sends [of relay_start "[1]"] by (simp add: relay_start_def fresh_conn_def)
  moreover have "relay_step ?r run_request"
    using relay_step.client_finishes [of ?r] by (simp add: run_request_def relay_start_def)
  ultimately have "relay_step\<^sup>*\<^sup>* relay_start run_request" by (meson rtranclp.rtrancl_into_rtrancl rtranclp.rtrancl_refl)
  then show read: "relay_step\<^sup>*\<^sup>* relay_start run_read" unfolding run_read_def by (rule run_up_steps)
  then show "relay_step\<^sup>*\<^sup>* relay_start run_passed" unfolding run_passed_def by (simp add: run_up_steps)
  have "relay_step run_passed run_answer"
    using relay_step.telegram_sends [of run_passed "[2]"] by (simp add: run_answer_def run_passed_eq relay_start_def fresh_conn_def)
  then show "relay_step\<^sup>*\<^sup>* run_passed run_answer" by blast
qed

theorem relay_faithful_witness:
  "relay_step\<^sup>*\<^sup>* relay_start run_read \<and> client_sent run_read = written (telegram_conn run_read) @ [1] \<and>
   relay_step\<^sup>*\<^sup>* relay_start run_passed \<and> written (telegram_conn run_passed) = [1]"
proof -
  have "client_sent run_read = written (telegram_conn run_read) @ [1]"
    using relay_faithful [OF run_reachable(1)] by (simp add: run_read_eq fresh_conn_def)
  moreover have "written (telegram_conn run_passed) = [1]"
    using relay_faithful [OF run_reachable(2)] by (simp add: run_passed_eq)
  ultimately show ?thesis using run_reachable by simp
qed

theorem half_close_loses_answer_witness:
  "relay_step\<^sup>*\<^sup>* relay_start run_answer \<and> telegram_sent run_answer = [2] \<and> written (client_conn run_answer) = []"
proof -
  have "written (client_conn run_answer) = written (client_conn run_passed)"
    using half_close_loses_answer [OF run_reachable(2) _ run_reachable(3)] by (simp add: run_passed_eq)
  then show ?thesis using run_reachable by (auto simp: run_answer_def run_passed_eq fresh_conn_def)
qed

end
