(* ===== verification/TelegramCall.thy ===== *)
theory TelegramCall
  imports Obfuscation Manager Streams Conns
begin

text \<open>
  How a stream reaches Telegram or the fronting domain, the second half of
  \<open>mtglib/proxy.go\<close>: the obfuscated handshake of the client, the direct call of a data
  centre, the call through a middle proxy and the relay to the fronting domain. The lemmas
  show which data centre is called and that Telegram learns the one the client asked for.
\<close>

subsection \<open>Data\<close>

text \<open>The fields of \<open>Proxy\<close> that the calls read; \<open>nil\<close> public addresses are empty.\<close>

record call_opts =
  allowFallbackOnUnknownDC :: bool
  emitTraffic :: bool
  ourIPv4 :: ip
  ourIPv6 :: ip
  advertisedPort :: int
  domainFrontingHost :: string
  domainFrontingPort :: int
  domainFrontingProxyProtocol :: bool

datatype tg_conn = DirectConn string obfConn | MiddleConn middleConn middleChannel

text \<open>\<open>Some\<close> stream id when the connection is wrapped in a \<open>connTraffic\<close>.\<close>

record traffic_conn =
  tc_conn :: tg_conn
  tc_traffic :: "string option"

record eventConnectedToDC =
  ev_streamID :: string
  ev_remoteIP :: "ip option"
  ev_dc :: int

text \<open>The part of \<open>streamContext\<close> that the calls use.\<close>

record callCtx =
  cc_streamID :: string
  cc_dc :: int
  cc_adTag :: "bytes option"
  cc_remote :: net_addr
  telegramConn :: "traffic_conn option"

text \<open>What the outside contributes: the shuffles of the two lookups, the dialler, whether the
  write of the handshake fails, the random frames and the primitives, and what the middle
  proxy route needs.\<close>

record call_env =
  ce_shuffle1 :: shuffles
  ce_shuffle2 :: shuffles
  ce_dial :: "dcAddr \<Rightarrow> string option"
  ce_writeFails :: bool
  ce_draws :: "bytes list"
  ce_primitives :: primitives
  ce_http :: "string \<Rightarrow> http_result"
  ce_middle :: dial_env

text \<open>\<open>HandshakeUndrawn\<close>: none of the random frames is acceptable, so the generator goes on
  drawing.\<close>

datatype call_error =
    NoAddressesToCall string
  | NoAvailableAddresses int
  | CannotPerformHandshake
  | HandshakeUndrawn
  | CannotParseAddress string

text \<open>The effects on the outside: bytes written to a fresh connection, connections closed again
  and events sent.\<close>

datatype call_effect = SentTo string bytes | Closed string | ConnectedToDC eventConnectedToDC

subsection \<open>The client's handshake\<close>

definition doObfuscatedHandshake ::
    "primitives \<Rightarrow> bytes \<Rightarrow> bytes \<Rightarrow> callCtx \<Rightarrow> obf_error option \<times> obfConn option \<times> bytes \<times> callCtx" where
  "doObfuscatedHandshake pr key r ctx = (case ReadHandshake pr (Some key) r of
       (Inl e, r) \<Rightarrow> (Some e, None, r, ctx)
     | (Inr (dc, conn), r) \<Rightarrow> (None, Some conn, r, ctx\<lparr>cc_dc := dc\<rparr>))"

subsection \<open>Telegram\<close>

definition wrapTraffic :: "call_opts \<Rightarrow> tg_conn \<Rightarrow> callCtx \<Rightarrow> traffic_conn" where
  "wrapTraffic p conn ctx =
     \<lparr>tc_conn = conn, tc_traffic = (if emitTraffic p then Some (cc_streamID ctx) else None)\<rparr>"

definition doMiddleProxyCall ::
    "call_opts \<Rightarrow> call_env \<Rightarrow> bytes \<Rightarrow> manager \<Rightarrow> callCtx
      \<Rightarrow> dial_stream_error option \<times> call_effect list \<times> manager \<times> callCtx" where
  "doMiddleProxyCall p env tag m ctx =
     (let clientAddr = (case cc_remote ctx of TcpEnd t \<Rightarrow> Some t | OtherEnd \<Rightarrow> None);
          params = \<lparr>dp_DC = cc_dc ctx, dp_ClientAddr = clientAddr, PublicIPv4 = ourIPv4 p, PublicIPv6 = ourIPv6 p,
                    AdvertisedPort = advertisedPort p, dp_AdTag = tag\<rparr>
      in case DialProxyStream (ce_http env) (ce_middle env) params m of
           (Inl e, shut, m) \<Rightarrow> (Some e, map (\<lambda>a. Closed (ma_addr a)) shut, m, ctx)
         | (Inr (stream, ch, middleIP), shut, m) \<Rightarrow>
             (None, map (\<lambda>a. Closed (ma_addr a)) shut @
                [ConnectedToDC \<lparr>ev_streamID = cc_streamID ctx, ev_remoteIP = Some middleIP, ev_dc = cc_dc ctx\<rparr>],
              m, ctx\<lparr>telegramConn := Some (wrapTraffic p (MiddleConn stream ch) ctx)\<rparr>))"

text \<open>The loop over the addresses: the last dialling error, and the address that answered.\<close>

fun dial_first :: "(dcAddr \<Rightarrow> string option) \<Rightarrow> dcAddr list \<Rightarrow> string option \<Rightarrow> string option \<times> dcAddr option" where
  "dial_first dial [] err = (err, None)"
| "dial_first dial (addr # addresses) err = (case dial addr of
       None \<Rightarrow> (None, Some addr)
     | Some e \<Rightarrow> dial_first dial addresses (Some e))"

definition call_addresses :: "call_opts \<Rightarrow> call_env \<Rightarrow> telegram \<Rightarrow> callCtx \<Rightarrow> dcAddr list \<times> callCtx" where
  "call_addresses p env tg ctx =
     (let dcid = cc_dc ctx;
          lookupDC = (if dcid < 0 then - dcid else dcid);
          addresses = GetAddresses (ce_shuffle1 env) lookupDC tg
      in if addresses = [] \<and> allowFallbackOnUnknownDC p
         then (GetAddresses (ce_shuffle2 env) DefaultDC tg,
               ctx\<lparr>cc_dc := (if dcid < 0 then - DefaultDC else DefaultDC)\<rparr>)
         else (addresses, ctx))"

definition doDirectCall ::
    "call_opts \<Rightarrow> call_env \<Rightarrow> telegram \<Rightarrow> callCtx \<Rightarrow> call_error option \<times> call_effect list \<times> callCtx" where
  "doDirectCall p env tg ctx =
     (let (addresses, ctx) = call_addresses p env tg ctx
      in case dial_first (ce_dial env) addresses None of
           (Some e, _) \<Rightarrow> (Some (NoAddressesToCall e), [], ctx)
         | (None, None) \<Rightarrow> (Some (NoAvailableAddresses (cc_dc ctx)), [], ctx)
         | (None, Some foundAddr) \<Rightarrow>
             (case generateHandshake (ce_draws env) (cc_dc ctx) of
                None \<Rightarrow> (Some HandshakeUndrawn, [], ctx)
              | Some frame \<Rightarrow>
                  let address = dc_Address foundAddr;
                      (wire, tgConn) = SendHandshake (ce_primitives env) (dc_Secret foundAddr) frame
                  in if ce_writeFails env then (Some CannotPerformHandshake, [Closed address], ctx)
                     else
                       let ctx = ctx\<lparr>telegramConn := Some (wrapTraffic p (DirectConn address tgConn) ctx)\<rparr>
                       in case splitHostPort address of
                            None \<Rightarrow> (Some (CannotParseAddress address), [SentTo address wire, Closed address], ctx)
                          | Some (telegramHost, _) \<Rightarrow>
                              (None, [SentTo address wire, ConnectedToDC
                                 \<lparr>ev_streamID = cc_streamID ctx, ev_remoteIP = parseIP telegramHost, ev_dc = cc_dc ctx\<rparr>],
                               ctx)))"

text \<open>\<open>p.middleProxy\<close> is \<open>None\<close> when no middle proxy manager is configured.\<close>

definition doTelegramCall ::
    "call_opts \<Rightarrow> call_env \<Rightarrow> telegram \<Rightarrow> manager option \<Rightarrow> callCtx
      \<Rightarrow> call_error option \<times> call_effect list \<times> manager option \<times> callCtx" where
  "doTelegramCall p env tg middleProxy ctx = (case (cc_adTag ctx, middleProxy) of
       (Some tag, Some m) \<Rightarrow>
         (case doMiddleProxyCall p env tag m ctx of
            (None, effs, m, ctx) \<Rightarrow> (None, effs, Some m, ctx)
          | (Some _, effs, m, ctx) \<Rightarrow>
              let (err, effs', ctx) = doDirectCall p env tg ctx in (err, effs @ effs', Some m, ctx))
     | _ \<Rightarrow> let (err, effs, ctx) = doDirectCall p env tg ctx in (err, effs, middleProxy, ctx))"

subsection \<open>The fronting domain\<close>

definition domainFrontingAddressForHost :: "call_opts \<Rightarrow> string \<Rightarrow> string" where
  "domainFrontingAddressForHost p host =
     (let host = (if domainFrontingHost p \<noteq> [] then domainFrontingHost p else host)
      in joinHostPort host (itoa (domainFrontingPort p)))"

definition DomainFrontingAddress :: "call_opts \<Rightarrow> secret_set \<Rightarrow> string" where
  "DomainFrontingAddress p s = domainFrontingAddressForHost p (Host (ss_secrets s ! 0))"

text \<open>The relay to the fronting domain: the address that was dialled, the wrappers of that
  connection and the client's connection, rewound.\<close>

record front_relay =
  fr_address :: string
  fr_proxyProtocol :: "connProxyProtocol option"
  fr_traffic :: "string option"
  fr_client :: connRewind

definition doDomainFrontingForHost ::
    "call_opts \<Rightarrow> (string \<Rightarrow> bool) \<Rightarrow> string \<Rightarrow> streamContext \<Rightarrow> connRewind \<Rightarrow> string \<Rightarrow> world \<Rightarrow> front_relay option \<times> world" where
  "doDomainFrontingForHost p dials streamID c conn host w =
     (let w = finishPendingHandshake c w;
          conn = Rewind conn;
          address = domainFrontingAddressForHost p host
      in if \<not> dials address then (None, w)
         else (Some \<lparr>fr_address = address,
                     fr_proxyProtocol = (if domainFrontingProxyProtocol p then Some newConnProxyProtocol else None),
                     fr_traffic = (if emitTraffic p then Some streamID else None),
                     fr_client = conn\<rparr>, w))"

subsection \<open>The data centre that is called\<close>

definition called_dc :: "bool \<Rightarrow> int \<Rightarrow> int" where
  "called_dc fallback dcid =
     (if \<bar>dcid\<bar> \<in> set known_dcs \<or> \<not> fallback then dcid else if dcid < 0 then - 2 else 2)"

text \<open>What the theorems rely on: shuffling permutes, and \<open>rand.Read\<close> fills the whole frame.\<close>

definition fair_env :: "call_env \<Rightarrow> bool" where
  "fair_env env \<longleftrightarrow> (\<forall>i xs. mset (ce_shuffle1 env i xs) = mset xs) \<and> (\<forall>i xs. mset (ce_shuffle2 env i xs) = mset xs) \<and>
     list_all (\<lambda>d. length d = 64) (ce_draws env)"

text \<open>Whether the stream goes through a middle proxy.\<close>

definition middle_works :: "call_opts \<Rightarrow> call_env \<Rightarrow> manager option \<Rightarrow> callCtx \<Rightarrow> bool" where
  "middle_works p env mp ctx = (case (cc_adTag ctx, mp) of
     (Some tag, Some m) \<Rightarrow> fst (doMiddleProxyCall p env tag m ctx) = None | _ \<Rightarrow> False)"

lemma dial_first_found:
  "k < length as \<Longrightarrow> dial (as ! k) = None \<Longrightarrow> \<forall>j < k. dial (as ! j) \<noteq> None \<Longrightarrow> dial_first dial as err = (None, Some (as ! k))"
proof (induction as arbitrary: k err)
  case (Cons a as)
  show ?case
  proof (cases k)
    case (Suc j)
    then obtain e where "dial a = Some e" using Cons.prems(3) by fastforce
    moreover have "\<forall>i < j. dial (as ! i) \<noteq> None" using Cons.prems(3) Suc by fastforce
    ultimately show ?thesis using Cons.IH [of j "Some e"] Cons.prems(1,2) Suc by simp
  qed (use Cons.prems in simp)
qed simp

lemma dial_first_none: "\<forall>a \<in> set as. dial a \<noteq> None \<Longrightarrow> dial_first dial as err = ((if as = [] then err else dial (last as)), None)"
  by (induction as arbitrary: err) auto

lemma call_addresses_dc:
  assumes "public_ok (publicConfigs tg)" "fair_env env"
  shows "snd (call_addresses p env tg ctx) = ctx\<lparr>cc_dc := called_dc (allowFallbackOnUnknownDC p) (cc_dc ctx)\<rparr> \<and>
    (\<exists>sh \<in> {ce_shuffle1 env, ce_shuffle2 env}.
       fst (call_addresses p env tg ctx) = GetAddresses sh \<bar>called_dc (allowFallbackOnUnknownDC p) (cc_dc ctx)\<bar> tg) \<and>
    (fst (call_addresses p env tg ctx) = [] \<longleftrightarrow> \<bar>called_dc (allowFallbackOnUnknownDC p) (cc_dc ctx)\<bar> \<notin> set known_dcs)"
proof -
  have e1: "GetAddresses (ce_shuffle1 env) d tg = [] \<longleftrightarrow> d \<notin> set known_dcs"
    and e2: "GetAddresses (ce_shuffle2 env) d tg = [] \<longleftrightarrow> d \<notin> set known_dcs" for d
    using GetAddresses_empty [OF assms(1)] assms(2) by (auto simp: fair_env_def)
  have "(if cc_dc ctx < 0 then - cc_dc ctx else cc_dc ctx) = \<bar>cc_dc ctx\<bar>" by simp
  moreover have "2 \<in> set known_dcs" by (simp add: known_dcs_def)
  ultimately show ?thesis
    by (auto simp: call_addresses_def Let_def e1 e2 called_dc_def DefaultDC_def)
qed

lemma handshake_sent:
  assumes "generateHandshake draws dc = Some g" "list_all (\<lambda>d. length d = 64) draws" "- 32768 \<le> dc" "dc < 32768"
    "SendHandshake pr secret g = (w, a)"
  shows "length w = 64 \<and> (\<exists>b. paired a b \<and> (\<forall>r. ReadHandshake pr secret (w @ r) = (Inr (if dc = 0 then defaultDC else dc, b), r)))"
proof -
  note props = generateHandshake_props [OF assms(1,2)]
  have "length w = 64" using SendHandshake_wire(1) [where g = g and pr = pr and secret = secret] props assms(5) by simp
  moreover have "frame_dc g = (if dc = 0 then defaultDC else dc)" using frame_dc_put props assms(3,4) by blast
  moreover obtain b where b: "ReadHandshake pr secret (w @ []) = (Inr (frame_dc g, b), [])" "paired a b"
    using handshake_agree [OF _ _ assms(5)] props by blast
  moreover have "ReadHandshake pr secret (w @ r) = (Inr (frame_dc g, b), r)" for r
  proof -
    obtain c where c: "ReadHandshake pr secret (w @ r) = (Inr (frame_dc g, c), r)" "paired a c"
      using handshake_agree [OF _ _ assms(5)] props by blast
    then have "c = b" using b(2) by (cases b; cases c) (simp add: paired_def)
    then show ?thesis using c by simp
  qed
  ultimately show ?thesis by auto
qed

lemma direct_call_connected:
  fixes p :: call_opts
  assumes "public_ok (publicConfigs tg)" "fair_env env" "- 32768 \<le> cc_dc ctx" "cc_dc ctx < 32768" "cc_dc ctx \<noteq> 0"
  defines "d \<equiv> called_dc (allowFallbackOnUnknownDC p) (cc_dc ctx)" and "as \<equiv> fst (call_addresses p env tg ctx)"
  assumes k: "k < length as" "ce_dial env (as ! k) = None" "\<forall>j < k. ce_dial env (as ! j) \<noteq> None"
    and f: "\<exists>f \<in> set (ce_draws env). acceptable f" and ok: "\<not> ce_writeFails env"
    and sp: "splitHostPort (dc_Address (as ! k)) = Some (host, port)"
  shows "\<exists>w a b. doDirectCall p env tg ctx = (None,
        [SentTo (dc_Address (as ! k)) w,
         ConnectedToDC \<lparr>ev_streamID = cc_streamID ctx, ev_remoteIP = parseIP host, ev_dc = d\<rparr>],
        ctx\<lparr>cc_dc := d, telegramConn := Some (wrapTraffic p (DirectConn (dc_Address (as ! k)) a) ctx)\<rparr>) \<and>
      length w = 64 \<and> paired a b \<and>
      (\<forall>r. ReadHandshake (ce_primitives env) (dc_Secret (as ! k)) (w @ r) = (Inr (d, b), r))"
proof -
  have call: "call_addresses p env tg ctx = (as, ctx\<lparr>cc_dc := d\<rparr>)"
    using call_addresses_dc [OF assms(1,2), of p ctx] by (simp add: as_def d_def prod_eq_iff)
  have d: "- 32768 \<le> d" "d < 32768" "d \<noteq> 0" using assms(3-5) by (auto simp: d_def called_dc_def)
  obtain g where g: "generateHandshake (ce_draws env) d = Some g" using generateHandshake_total [OF f] by blast
  obtain w a where w: "SendHandshake (ce_primitives env) (dc_Secret (as ! k)) g = (w, a)" by fastforce
  have "length w = 64 \<and> (\<exists>b. paired a b \<and> (\<forall>r. ReadHandshake (ce_primitives env) (dc_Secret (as ! k)) (w @ r) = (Inr (d, b), r)))"
    using handshake_sent [OF g _ d(1,2) w] assms(2) d(3) by (simp add: fair_env_def)
  moreover have "doDirectCall p env tg ctx = (None,
        [SentTo (dc_Address (as ! k)) w,
         ConnectedToDC \<lparr>ev_streamID = cc_streamID ctx, ev_remoteIP = parseIP host, ev_dc = d\<rparr>],
        ctx\<lparr>cc_dc := d, telegramConn := Some (wrapTraffic p (DirectConn (dc_Address (as ! k)) a) ctx)\<rparr>)"
    using dial_first_found [OF k, of None] g w ok sp by (simp add: doDirectCall_def call wrapTraffic_def Let_def)
  ultimately show ?thesis by blast
qed

lemma direct_call_failed:
  fixes p :: call_opts and ctx :: callCtx
  assumes "public_ok (publicConfigs tg)" "fair_env env"
  defines "d \<equiv> called_dc (allowFallbackOnUnknownDC p) (cc_dc ctx)" and "as \<equiv> fst (call_addresses p env tg ctx)"
  assumes fails: "\<forall>a \<in> set as. ce_dial env a \<noteq> None"
  shows "doDirectCall p env tg ctx = (Some (if \<bar>d\<bar> \<in> set known_dcs then NoAddressesToCall (the (ce_dial env (last as)))
           else NoAvailableAddresses d), [], ctx\<lparr>cc_dc := d\<rparr>)"
proof -
  note addr = call_addresses_dc [OF assms(1,2), of p ctx, folded d_def as_def]
  have call: "call_addresses p env tg ctx = (as, ctx\<lparr>cc_dc := d\<rparr>)"
    using addr by (simp add: as_def prod_eq_iff)
  show ?thesis
  proof (cases "as = []")
    case False
    then obtain e where "ce_dial env (last as) = Some e" using fails by fastforce
    then show ?thesis using dial_first_none [OF fails, of None] False addr by (simp add: doDirectCall_def call)
  qed (use addr in \<open>simp add: doDirectCall_def call\<close>)
qed

lemma doMiddleProxyCall_failed:
  "doMiddleProxyCall p env tag m ctx = (Some e, effs, m', ctx') \<Longrightarrow> ctx' = ctx \<and> (\<forall>x \<in> set effs. \<exists>a. x = Closed a)"
  by (auto simp: doMiddleProxyCall_def Let_def split: sum.splits prod.splits)

lemma doTelegramCall_direct:
  assumes "\<not> middle_works p env mp ctx" "doDirectCall p env tg ctx = (err, effs, ctx')"
  shows "\<exists>shut mp'. doTelegramCall p env tg mp ctx = (err, map Closed shut @ effs, mp', ctx')"
proof -
  have "\<exists>shut. effs' = map Closed shut" if "\<forall>x \<in> set effs'. \<exists>a. x = Closed a" for effs'
    using that ex_map_conv [of effs' Closed] by blast
  then show ?thesis
    using assms doMiddleProxyCall_failed
    by (fastforce simp: doTelegramCall_def middle_works_def split: option.splits prod.splits)
qed

text \<open>Which data centre is called, and what a direct call leaves behind: the requested one with
  its sign when it is known, and otherwise, if that is allowed, the default one with the
  sign of the request. Only addresses of that data centre are dialled, in the offered order.
  When none answers, nothing was sent and the error is that of the last one, or names the
  unknown data centre; otherwise the first that answers gets the handshake and the event
  reports it.\<close>

lemma direct_call_spec:
  fixes p :: call_opts
  assumes "public_ok (publicConfigs tg)" "fair_env env" "- 32768 \<le> cc_dc ctx" "cc_dc ctx < 32768" "cc_dc ctx \<noteq> 0"
  defines "d \<equiv> called_dc (allowFallbackOnUnknownDC p) (cc_dc ctx)" and "as \<equiv> fst (call_addresses p env tg ctx)"
  shows "(\<exists>sh. as = GetAddresses sh \<bar>d\<bar> tg) \<and> (as = [] \<longleftrightarrow> \<bar>d\<bar> \<notin> set known_dcs) \<and>
    ((\<forall>a \<in> set as. ce_dial env a \<noteq> None) \<longrightarrow>
       doDirectCall p env tg ctx = (Some (if \<bar>d\<bar> \<in> set known_dcs then NoAddressesToCall (the (ce_dial env (last as)))
           else NoAvailableAddresses d), [], ctx\<lparr>cc_dc := d\<rparr>)) \<and>
    (\<forall>k host port. k < length as \<longrightarrow> ce_dial env (as ! k) = None \<longrightarrow> (\<forall>j < k. ce_dial env (as ! j) \<noteq> None) \<longrightarrow>
       (\<exists>f \<in> set (ce_draws env). acceptable f) \<longrightarrow> \<not> ce_writeFails env \<longrightarrow>
       splitHostPort (dc_Address (as ! k)) = Some (host, port) \<longrightarrow>
       (\<exists>w a. doDirectCall p env tg ctx = (None,
            [SentTo (dc_Address (as ! k)) w,
             ConnectedToDC \<lparr>ev_streamID = cc_streamID ctx, ev_remoteIP = parseIP host, ev_dc = d\<rparr>],
            ctx\<lparr>cc_dc := d, telegramConn := Some (wrapTraffic p (DirectConn (dc_Address (as ! k)) a) ctx)\<rparr>)))"
proof (intro conjI allI impI)
  note addr = call_addresses_dc [OF assms(1,2), of p ctx, folded d_def as_def]
  show "\<exists>sh. as = GetAddresses sh \<bar>d\<bar> tg" "as = [] \<longleftrightarrow> \<bar>d\<bar> \<notin> set known_dcs" using addr by auto
qed (use direct_call_failed [OF assms(1,2), of p ctx] direct_call_connected [OF assms(1-5), of _ p] in \<open>(simp add: d_def as_def; blast)+\<close>)

lemma paired_relay:
  assumes "paired a b" "paired a' b'" "concat rs = fst (obf_write_all ps a)" "concat qs = fst (obf_read_all rs b)"
    "concat ts = fst (obf_write_all qs a')"
  shows "fst (obf_read_all ts b') = concat ps"
  using paired_transfer [OF assms(1,3)] paired_transfer [OF assms(2,5)] assms(4) by simp

text \<open>C2. A client that asks for a data centre and cannot or need not use a middle proxy reaches it:
  the proxy reads the data centre out of the client's handshake, the peer that it dials
  reads the same one, sign included (or the default one instead of an unknown one), out of
  the proxy's handshake, and from then on whatever the client writes and the proxy forwards,
  in any pieces, the peer reads, and the other way round. Failed attempts at a middle proxy
  leave nothing behind but closed connections.\<close>

theorem client_reaches_telegram:
  fixes p :: call_opts and ctx :: callCtx
  assumes "public_ok (publicConfigs tg)" "fair_env env" "- 32768 \<le> dc" "dc < 32768"
    and client: "list_all (\<lambda>f. length f = 64) draws" "generateHandshake draws dc = Some g"
      "SendHandshake (ce_primitives env) (Some key) g = (w, a)"
  defines "ctx1 \<equiv> ctx\<lparr>cc_dc := (if dc = 0 then 2 else dc)\<rparr>"
  defines "as \<equiv> fst (call_addresses p env tg ctx1)"
  assumes direct: "\<not> middle_works p env mp ctx1" "\<exists>f \<in> set (ce_draws env). acceptable f" "\<not> ce_writeFails env"
    "k < length as" "ce_dial env (as ! k) = None" "\<forall>j < k. ce_dial env (as ! j) \<noteq> None"
    "splitHostPort (dc_Address (as ! k)) = Some (host, port)"
  shows "\<exists>b w' a' b' shut mp' ctx2.
    doObfuscatedHandshake (ce_primitives env) key (w @ r) ctx = (None, Some b, r, ctx1) \<and>
    doTelegramCall p env tg mp ctx1 = (None, map Closed shut @ [SentTo (dc_Address (as ! k)) w',
       ConnectedToDC \<lparr>ev_streamID = cc_streamID ctx, ev_remoteIP = parseIP host, ev_dc = cc_dc ctx2\<rparr>], mp', ctx2) \<and>
    telegramConn ctx2 = Some (wrapTraffic p (DirectConn (dc_Address (as ! k)) a') ctx) \<and>
    cc_dc ctx2 = called_dc (allowFallbackOnUnknownDC p) (if dc = 0 then 2 else dc) \<and>
    ReadHandshake (ce_primitives env) (dc_Secret (as ! k)) w' = (Inr (cc_dc ctx2, b'), []) \<and>
    (\<forall>ps rs qs ts. concat rs = fst (obf_write_all ps a) \<longrightarrow> concat qs = fst (obf_read_all rs b) \<longrightarrow>
       concat ts = fst (obf_write_all qs a') \<longrightarrow> fst (obf_read_all ts b') = concat ps) \<and>
    (\<forall>ps rs qs ts. concat rs = fst (obf_write_all ps b') \<longrightarrow> concat qs = fst (obf_read_all rs a') \<longrightarrow>
       concat ts = fst (obf_write_all qs b) \<longrightarrow> fst (obf_read_all ts a) = concat ps)"
proof -
  have dc1: "cc_dc ctx1 = (if dc = 0 then 2 else dc)" "cc_streamID ctx1 = cc_streamID ctx" by (simp_all add: ctx1_def)
  then have range: "- 32768 \<le> cc_dc ctx1" "cc_dc ctx1 < 32768" "cc_dc ctx1 \<noteq> 0" using assms(3,4) by auto
  obtain b where b: "paired a b" "ReadHandshake (ce_primitives env) (Some key) (w @ r) = (Inr (cc_dc ctx1, b), r)"
    using handshake_sent [OF client(2,1) assms(3,4) client(3)] dc1 by (auto simp: defaultDC_def)
  obtain w' a' b' where call: "doDirectCall p env tg ctx1 = (None, [SentTo (dc_Address (as ! k)) w',
         ConnectedToDC \<lparr>ev_streamID = cc_streamID ctx1, ev_remoteIP = parseIP host, ev_dc = called_dc (allowFallbackOnUnknownDC p) (cc_dc ctx1)\<rparr>],
        ctx1\<lparr>cc_dc := called_dc (allowFallbackOnUnknownDC p) (cc_dc ctx1),
             telegramConn := Some (wrapTraffic p (DirectConn (dc_Address (as ! k)) a') ctx1)\<rparr>)"
      and b': "paired a' b'" and rd: "\<And>r. ReadHandshake (ce_primitives env) (dc_Secret (as ! k)) (w' @ r) =
        (Inr (called_dc (allowFallbackOnUnknownDC p) (cc_dc ctx1), b'), r)"
    using direct_call_connected [OF assms(1,2) range direct(4-6) [unfolded as_def] direct(2,3) direct(7) [unfolded as_def]]
    unfolding as_def by blast
  obtain shut mp' where tg: "doTelegramCall p env tg mp ctx1 = (None, map Closed shut @ [SentTo (dc_Address (as ! k)) w',
         ConnectedToDC \<lparr>ev_streamID = cc_streamID ctx1, ev_remoteIP = parseIP host, ev_dc = called_dc (allowFallbackOnUnknownDC p) (cc_dc ctx1)\<rparr>],
        mp', ctx1\<lparr>cc_dc := called_dc (allowFallbackOnUnknownDC p) (cc_dc ctx1),
             telegramConn := Some (wrapTraffic p (DirectConn (dc_Address (as ! k)) a') ctx1)\<rparr>)"
    using doTelegramCall_direct [OF direct(1) call] by blast
  have "doObfuscatedHandshake (ce_primitives env) key (w @ r) ctx = (None, Some b, r, ctx1)"
    using b(2) dc1(1) by (simp add: doObfuscatedHandshake_def ctx1_def)
  moreover have "wrapTraffic p (DirectConn (dc_Address (as ! k)) a') ctx1 = wrapTraffic p (DirectConn (dc_Address (as ! k)) a') ctx"
    using dc1(2) by (simp add: wrapTraffic_def)
  moreover have "paired b a" "paired b' a'" using b(1) b' by (simp_all add: paired_def)
  moreover define ctx2 where "ctx2 = ctx1\<lparr>cc_dc := called_dc (allowFallbackOnUnknownDC p) (cc_dc ctx1),
             telegramConn := Some (wrapTraffic p (DirectConn (dc_Address (as ! k)) a') ctx1)\<rparr>"
  moreover have "ReadHandshake (ce_primitives env) (dc_Secret (as ! k)) w' = (Inr (cc_dc ctx2, b'), [])"
    using rd [of "[]"] by (simp add: ctx2_def)
  ultimately show ?thesis
    using tg dc1 paired_relay [OF b(1) b'] paired_relay [OF \<open>paired b' a'\<close> \<open>paired b a\<close>]
    by (rule_tac x = b in exI, rule_tac x = w' in exI, rule_tac x = a' in exI, rule_tac x = b' in exI,
        rule_tac x = shut in exI, rule_tac x = mp' in exI, rule_tac x = ctx2 in exI) (simp del: obf_write_all.simps)
qed

lemma release_slot: "gm_get (slots (release slot q)) s =
    (if s = slot then map_option (\<lambda>(a, _). (a, True)) (gm_get (slots q) s) else gm_get (slots q) s)"
  by (auto simp: release_def Let_def split: option.splits)

text \<open>C30. The fronting domain sees the client as if the proxy were not there: the address is the
  configured host or that of the secret, with the configured port; all bytes the client sent
  arrive there from the first one on, those the handshake had read included, after the
  proxy protocol header if that is switched on; and exactly the pending slot of this stream
  is given back.\<close>

theorem fronting_transparent:
  assumes "rewind_reads ns (newConnRewind raw) = (xs, ok, conn)"
    "doDomainFrontingForHost p dials streamID c conn host w = (Some f, w')"
    "rewind_reads ms (fr_client f) = (ys, False, conn')"
    "set (if domainFrontingHost p = [] then host else domainFrontingHost p) \<inter> {CHR ''['', CHR '']''} = {}"
  shows "splitHostPort (fr_address f) =
      Some (if domainFrontingHost p = [] then host else domainFrontingHost p, itoa (domainFrontingPort p)) \<and>
    (case fr_proxyProtocol f of None \<Rightarrow> concat ys = raw \<and> \<not> domainFrontingProxyProtocol p
     | Some pc \<Rightarrow> fst (protocol_writes header ys pc) = (if ys = [] then [] else header @ raw) \<and> domainFrontingProxyProtocol p) \<and>
    (\<forall>s. gm_get (slots (pend w')) s = (if releasePendingHandshake c = Some s
       then map_option (\<lambda>(a, _). (a, True)) (gm_get (slots (pend w)) s) else gm_get (slots (pend w)) s))"
proof -
  have f: "f = \<lparr>fr_address = domainFrontingAddressForHost p host,
                fr_proxyProtocol = (if domainFrontingProxyProtocol p then Some newConnProxyProtocol else None),
                fr_traffic = (if emitTraffic p then Some streamID else None), fr_client = Rewind conn\<rparr>"
      and w': "w' = finishPendingHandshake c w"
    using assms(2) by (auto simp: doDomainFrontingForHost_def Let_def split: if_splits)
  have "concat ys = raw" using rewind_replays [OF assms(1), of ms ys False conn'] assms(3) by (simp add: f)
  then show ?thesis
    using splitHostPort_join [OF assms(4) itoa_no_special] release_slot
    by (auto simp: f w' domainFrontingAddressForHost_def protocol_writes_once finishPendingHandshake_def split: option.splits)
qed

definition sample_call_opts :: call_opts where
  "sample_call_opts = \<lparr>allowFallbackOnUnknownDC = True, emitTraffic = True, ourIPv4 = [], ourIPv6 = [], advertisedPort = 443,
     domainFrontingHost = [], domainFrontingPort = 443, domainFrontingProxyProtocol = True\<rparr>"

definition sample_call_env :: call_env where
  "sample_call_env = \<lparr>ce_shuffle1 = (\<lambda>_ xs. xs), ce_shuffle2 = (\<lambda>_ xs. xs), ce_dial = (\<lambda>a. None), ce_writeFails = False,
     ce_draws = [replicate 64 0, replicate 64 1], ce_primitives = sample_primitives, ce_http = sample_http, ce_middle = sample_dial_env\<rparr>"

definition sample_telegram :: telegram where
  "sample_telegram = \<lparr>publicConfigs = \<lparr>set_v4 = None, set_v6 = None\<rparr>, tg_preferIP = PreferIPOnlyIPv4\<rparr>"

definition sample_ctx :: "int \<Rightarrow> callCtx" where
  "sample_ctx dc = \<lparr>cc_streamID = ''s'', cc_dc = dc, cc_adTag = None, cc_remote = OtherEnd, telegramConn = None\<rparr>"

lemma sample_call_ok:
  "public_ok (publicConfigs sample_telegram)" "fair_env sample_call_env" "\<exists>f \<in> set (ce_draws sample_call_env). acceptable f"
  "\<not> ce_writeFails sample_call_env" "ce_dial sample_call_env a = None"
proof -
  have "acceptable (replicate 64 1)" by code_simp
  then show "\<exists>f \<in> set (ce_draws sample_call_env). acceptable f" by (simp add: sample_call_env_def)
qed (simp_all add: sample_telegram_def public_ok_def addrs_of_def fair_env_def sample_call_env_def)

lemma sample_addresses:
  "fst (call_addresses sample_call_opts sample_call_env sample_telegram (sample_ctx (- 7))) =
     [\<lparr>dc_Network = ''tcp4'', dc_Address = ''149.154.167.51:443'', dc_Secret = None\<rparr>,
      \<lparr>dc_Network = ''tcp4'', dc_Address = ''95.161.76.100:443'', dc_Secret = None\<rparr>]"
  by code_simp

lemma sample_split: "splitHostPort ''149.154.167.51:443'' = Some (''149.154.167.51'', ''443'')"
  by code_simp

theorem client_reaches_telegram_witness:
  "\<exists>w' shut ev mp' ctx2 b'. doTelegramCall sample_call_opts sample_call_env sample_telegram None (sample_ctx (- 7)) =
       (None, map Closed shut @ [SentTo ''149.154.167.51:443'' w', ConnectedToDC ev], mp', ctx2) \<and>
     ReadHandshake sample_primitives None w' = (Inr (- 2, b'), [])"
proof -
  obtain g where g: "generateHandshake (ce_draws sample_call_env) (- 7) = Some g"
    using generateHandshake_total [OF sample_call_ok(3)] by blast
  obtain w a where w: "SendHandshake (ce_primitives sample_call_env) (Some [9]) g = (w, a)" by fastforce
  have ctx: "(sample_ctx 2)\<lparr>cc_dc := (if (- 7 :: int) = 0 then 2 else - 7)\<rparr> = sample_ctx (- 7)" by (simp add: sample_ctx_def)
  have nm: "\<not> middle_works sample_call_opts sample_call_env None (sample_ctx (- 7))" by (simp add: middle_works_def sample_ctx_def)
  have draws: "list_all (\<lambda>f. length f = 64) (ce_draws sample_call_env)" by (simp add: sample_call_env_def)
  have "called_dc (allowFallbackOnUnknownDC sample_call_opts) (if (- 7 :: int) = 0 then 2 else - 7) = - 2"
      "ce_primitives sample_call_env = sample_primitives"
    by (simp_all add: called_dc_def sample_call_opts_def known_dcs_def sample_call_env_def)
  note sample_facts = this
  have k: "0 < length (x # xs)" "\<forall>j < 0. ce_dial sample_call_env ((x # xs) ! j) \<noteq> None" for x :: dcAddr and xs by simp_all
  have addr: "dc_Address (((\<lparr>dc_Network = n, dc_Address = a, dc_Secret = None\<rparr> :: dcAddr) # xs) ! 0) = a"
      "dc_Secret (((\<lparr>dc_Network = n, dc_Address = a, dc_Secret = None\<rparr> :: dcAddr) # xs) ! 0) = None" for n a xs by simp_all
  have range: "- 32768 \<le> (- 7 :: int)" "(- 7 :: int) < 32768" by simp_all
  note end_to_end = client_reaches_telegram [where ctx = "sample_ctx 2" and p = sample_call_opts and mp = None and k = 0 and r = "[]",
      OF sample_call_ok(1,2) range draws g w, unfolded ctx sample_addresses addr sample_facts, OF nm sample_call_ok(3,4) k(1) sample_call_ok(5) k(2) sample_split]
  then show ?thesis by (elim exE conjE) (intro exI conjI; simp)
qed

definition sample_stream :: streamContext where
  "sample_stream = \<lparr>stage = Handshaking, clientIP = [1, 2, 3, 4], snapshot = secrets fresh_proxy, secretName = [],
     matchedSecretKey = [], adTag = None, releasePendingHandshake = None\<rparr>"

theorem fronting_transparent_witness:
  "\<exists>f w'. doDomainFrontingForHost sample_call_opts (\<lambda>_. True) ''s'' sample_stream
       (snd (snd (rewind_reads [(1, 2)] (newConnRewind [1, 2, 3])))) ''a.b'' (initial_world fresh_proxy) = (Some f, w') \<and>
     splitHostPort (fr_address f) = Some (''a.b'', itoa 443)"
proof -
  define conn where "conn = \<lparr>rw_raw = [2, 3], rw_buf = [1], rewound = False\<rparr>"
  have rd: "rewind_reads [(1, 2)] (newConnRewind [1, 2, 3]) = ([[1]], True, conn)" unfolding conn_def by code_simp
  obtain f w' where f: "doDomainFrontingForHost sample_call_opts (\<lambda>_. True) ''s'' sample_stream conn ''a.b'' (initial_world fresh_proxy) = (Some f, w')"
      "fr_client f = Rewind conn"
    by (simp add: doDomainFrontingForHost_def Let_def)
  have "rewind_reads [(1, 2), (9, 9), (9, 9)] (Rewind conn) = ([[1], [2, 3]], False, \<lparr>rw_raw = [], rw_buf = [], rewound = True\<rparr>)"
    unfolding conn_def by code_simp
  from fronting_transparent [OF rd f(1) this [folded f(2)]]
  have "splitHostPort (fr_address f) = Some (''a.b'', itoa 443)" by (simp add: sample_call_opts_def)
  then show ?thesis unfolding rd snd_conv using f(1) by blast
qed

end
