(* ===== verification/Doppel.thy ===== *)
theory Doppel
  imports ServerHello
begin

text \<open>
  The doppelganger (\<open>mtglib/internal/doppel\<close>), which makes the traffic to the client look
  like that of a web site: record sizes and their ramp-up, the connection that cuts
  written data into delayed TLS records, and the scouts that measure a real site.
  The delays only decide when a timer fires, and every firing time is possible here; the
  fitted distribution behind them is in theory \<open>Weibull\<close>.
\<close>

subsection \<open>Record sizes\<close>

definition TLSRecordSizeStart :: int where "TLSRecordSizeStart = 1450"
definition TLSRecordSizeAccel :: int where "TLSRecordSizeAccel = 4096"
definition TLSRecordSizeMax :: int where "TLSRecordSizeMax = 16384 - int SizeHeader"
definition TLSCounterAccelAfter :: int where "TLSCounterAccelAfter = 40"
definition TLSCounterMaxAfter :: int where "TLSCounterMaxAfter = TLSCounterAccelAfter + 20"
definition TLSRecordSizeResetAfter :: duration where "TLSRecordSizeResetAfter = 1000000000"
definition DRSNoise :: int where "DRSNoise = 100"

record dstats =
  sizeLastRequested :: go_time
  sizeCounter :: int
  drs :: bool

text \<open>\<open>now\<close> and \<open>now'\<close> are the two readings of the clock, \<open>draw n\<close> is what \<open>rand.IntN(n)\<close> returns.\<close>

definition stats_Size :: "go_time \<Rightarrow> go_time \<Rightarrow> (int \<Rightarrow> int) \<Rightarrow> dstats \<Rightarrow> int \<times> dstats" where
  "stats_Size now now' draw d =
     (let d = (if time_Sub now (sizeLastRequested d) > TLSRecordSizeResetAfter then d\<lparr>sizeCounter := 0\<rparr> else d)
      in if \<not> drs d then (TLSRecordSizeMax, d)
         else let d = d\<lparr>sizeLastRequested := now', sizeCounter := i64 (sizeCounter d + 1)\<rparr>
              in if sizeCounter d \<le> TLSCounterAccelAfter then (TLSRecordSizeStart - draw DRSNoise, d)
                 else if sizeCounter d \<le> TLSCounterMaxAfter then (TLSRecordSizeAccel - draw DRSNoise, d)
                 else (TLSRecordSizeMax, d))"

subsection \<open>The connection\<close>

text \<open>Where the sending goroutine is: at the \<open>select\<close>, waiting for data with the size of the next
  record, or returned.\<close>

datatype sender = AtSelect | AwaitData int | Returned

text \<open>\<open>ctx_over\<close> is the end of the context, \<open>net_out\<close> what reached the network and \<open>net_failed\<close>
  whether a write to it failed; \<open>submitted\<close> is auxiliary, all that \<open>Write\<close> accepted.\<close>

record doppelConn =
  writeStream :: bytes
  conn_done :: bool
  ctx_over :: bool
  dstats_of :: dstats
  sender :: sender
  net_out :: bytes
  net_failed :: bool
  submitted :: bytes

definition doppel_NewConn :: "dstats \<Rightarrow> doppelConn" where
  "doppel_NewConn st = \<lparr>writeStream = [], conn_done = False, ctx_over = False, dstats_of = st, sender = AtSelect,
     net_out = [], net_failed = False, submitted = []\<rparr>"

definition doppel_Write :: "bytes \<Rightarrow> doppelConn \<Rightarrow> doppelConn" where
  "doppel_Write p c = c\<lparr>writeStream := writeStream c @ p, submitted := submitted c @ p\<rparr>"

definition doppel_Stop :: "doppelConn \<Rightarrow> doppelConn" where
  "doppel_Stop c = c\<lparr>ctx_over := True, conn_done := True\<rparr>"

text \<open>The rounds of \<open>start\<close>: the timer fires, and a record is cut from the stream. \<open>buf\<close> is the
  pooled buffer; \<open>delivered\<close> is \<open>None\<close> when the network takes the record and the number of
  bytes that still got out when it fails.\<close>

definition doppel_timer :: "go_time \<Rightarrow> go_time \<Rightarrow> (int \<Rightarrow> int) \<Rightarrow> doppelConn \<Rightarrow> doppelConn" where
  "doppel_timer now now' draw c =
     (let (sz, st) = stats_Size now now' draw (dstats_of c) in c\<lparr>sender := AwaitData sz, dstats_of := st\<rparr>)"

definition doppel_emit :: "bytes \<Rightarrow> nat option \<Rightarrow> int \<Rightarrow> doppelConn \<Rightarrow> doppelConn" where
  "doppel_emit buf delivered sz c =
     (let chunk = take (nat sz) (writeStream c);
          n = length chunk;
          buf = take SizeHeader buf @ chunk @ drop (SizeHeader + n) buf;
          c = c\<lparr>writeStream := drop n (writeStream c)\<rparr>
      in if n = 0 then c\<lparr>sender := AtSelect\<rparr>
         else case WriteRecordInPlace buf n of
             Inl e \<Rightarrow> c\<lparr>sender := Returned, ctx_over := True, net_failed := True\<rparr>
           | Inr rec \<Rightarrow>
               (case delivered of
                  None \<Rightarrow> c\<lparr>sender := AtSelect, net_out := net_out c @ rec\<rparr>
                | Some k \<Rightarrow> c\<lparr>sender := Returned, ctx_over := True, net_failed := True,
                             net_out := net_out c @ take k rec\<rparr>))"

inductive doppel_step :: "doppelConn \<Rightarrow> doppelConn \<Rightarrow> bool" where
  writes: "p \<noteq> [] \<Longrightarrow> doppel_step c (doppel_Write p c)"
| fires: "sender c = AtSelect \<Longrightarrow> (\<And>n. 0 < n \<Longrightarrow> 0 \<le> draw n \<and> draw n < n) \<Longrightarrow> doppel_step c (doppel_timer now now' draw c)"
| emits: "sender c = AwaitData sz \<Longrightarrow> writeStream c \<noteq> [] \<or> conn_done c \<Longrightarrow> length buf = MaxRecordSize \<Longrightarrow>
    doppel_step c (doppel_emit buf delivered sz c)"
| returns: "sender c = AtSelect \<Longrightarrow> ctx_over c \<Longrightarrow> doppel_step c (c\<lparr>sender := Returned\<rparr>)"
| cancels: "doppel_step c (c\<lparr>ctx_over := True\<rparr>)"
| stops: "doppel_step c (doppel_Stop c)"

inductive_cases doppel_stepE: "doppel_step c c'"

subsection \<open>Lemmas\<close>

lemmas size_consts = TLSRecordSizeStart_def TLSRecordSizeAccel_def TLSRecordSizeMax_def TLSCounterAccelAfter_def
  TLSCounterMaxAfter_def DRSNoise_def record_consts

lemma stats_Size_bounds:
  assumes "stats_Size now now' draw d = (sz, d')" "0 \<le> draw 100 \<and> draw 100 < 100"
  shows "1350 < sz \<and> sz \<le> int MaxRecordPayloadSize \<and> drs d' = drs d"
  using assms by (auto simp: stats_Size_def size_consts Let_def split: if_splits)

definition cut_ok :: "tls_record list \<Rightarrow> bool" where
  "cut_ok ms \<longleftrightarrow> list_all (\<lambda>m. fst m = TypeApplicationData \<and> snd m \<noteq> [] \<and> length (snd m) \<le> MaxRecordPayloadSize) ms"

definition doppel_inv :: "doppelConn \<Rightarrow> bool" where
  "doppel_inv c \<longleftrightarrow>
     (\<forall>sz. sender c = AwaitData sz \<longrightarrow> 1350 < sz \<and> sz \<le> int MaxRecordPayloadSize) \<and>
     (net_failed c \<longrightarrow> sender c = Returned \<and> ctx_over c) \<and>
     (\<exists>ms. cut_ok ms \<and> submitted c = app_data ms @ writeStream c \<and> prefix (net_out c) (concat (map enc_record ms)) \<and>
        (\<not> net_failed c \<longrightarrow> net_out c = concat (map enc_record ms)))"

lemma WriteRecordInPlace_chunk:
  assumes "length buf = MaxRecordSize" "length chunk \<le> MaxRecordPayloadSize"
  shows "WriteRecordInPlace (take SizeHeader buf @ chunk @ drop (SizeHeader + length chunk) buf) (length chunk) =
    Inr (enc_record (TypeApplicationData, chunk))"
  using assms
  by (simp add: WriteRecordInPlace_def enc_record_def record_header_def put_be16_def record_consts)

lemma app_data_snoc: "app_data (ms @ [(TypeApplicationData, p)]) = app_data ms @ p"
  by (simp add: app_data_def)

lemma inv_emit:
  assumes "doppel_inv c" "sender c = AwaitData sz" "length buf = MaxRecordSize"
  shows "doppel_inv (doppel_emit buf delivered sz c)"
proof -
  obtain ms where ms: "cut_ok ms" "submitted c = app_data ms @ writeStream c" "net_out c = concat (map enc_record ms)"
      and nf: "\<not> net_failed c" and sz: "1350 < sz" "sz \<le> int MaxRecordPayloadSize"
    using assms(1,2) by (auto simp: doppel_inv_def)
  define chunk where "chunk = take (nat sz) (writeStream c)"
  show ?thesis
  proof (cases "chunk = []")
    case True
    then show ?thesis using ms nf assms(1) by (auto simp: doppel_emit_def chunk_def doppel_inv_def Let_def)
  next
    case False
    have len: "length chunk \<le> MaxRecordPayloadSize" using sz(2) by (simp add: chunk_def)
    have cut: "cut_ok (ms @ [(TypeApplicationData, chunk)])" using ms(1) False len by (simp add: cut_ok_def)
    have sub: "submitted c = app_data (ms @ [(TypeApplicationData, chunk)]) @ drop (length chunk) (writeStream c)"
      using ms(2) by (simp add: app_data_snoc chunk_def min_def)
    show ?thesis
      unfolding doppel_inv_def doppel_emit_def Let_def chunk_def [symmetric] WriteRecordInPlace_chunk [OF assms(3) len]
      using False ms(3) nf cut sub
      by (cases delivered) (auto intro!: exI [of _ "ms @ [(TypeApplicationData, chunk)]"] simp: take_is_prefix)
  qed
qed

lemma doppel_inv_frame:
  assumes "doppel_inv c" "net_failed c \<Longrightarrow> s = Returned \<and> ov"
    "\<And>sz. s = AwaitData sz \<Longrightarrow> 1350 < sz \<and> sz \<le> int MaxRecordPayloadSize"
  shows "doppel_inv (c\<lparr>sender := s, ctx_over := ov, conn_done := dn, dstats_of := st\<rparr>)"
  using assms by (auto simp: doppel_inv_def)

interpretation dop: transition_system "doppel_NewConn st" doppel_step doppel_inv for st
proof
  show "doppel_inv (doppel_NewConn st)"
    by (auto simp: doppel_inv_def doppel_NewConn_def cut_ok_def app_data_def intro: exI [of _ "[]"])
next
  fix c c' assume inv: "doppel_inv c" and "doppel_step c c'"
  from this(2) show "doppel_inv c'"
  proof (cases rule: doppel_step.cases)
    case (writes p)
    then show ?thesis using inv by (auto simp: doppel_inv_def doppel_Write_def)
  next
    case (fires draw now now')
    obtain sz st where ssz: "stats_Size now now' draw (dstats_of c) = (sz, st)" by fastforce
    have "1350 < sz \<and> sz \<le> int MaxRecordPayloadSize"
      using stats_Size_bounds [OF ssz] fires(3) [of 100] by simp
    then show ?thesis using inv fires(1,2) ssz by (auto simp: doppel_inv_def doppel_timer_def)
  next
    case (emits sz buf delivered)
    then show ?thesis using inv inv_emit by simp
  qed (use inv in \<open>auto simp: doppel_inv_def doppel_Stop_def\<close>)
qed

lemma emit_when_returned: "sender c = Returned \<Longrightarrow> doppel_step c c' \<Longrightarrow> sender c' = Returned \<and> net_out c' = net_out c"
  by (erule doppel_stepE) (simp_all add: doppel_Write_def doppel_Stop_def)

lemma returned_for_good: "doppel_step\<^sup>*\<^sup>* c c' \<Longrightarrow> sender c = Returned \<Longrightarrow> sender c' = Returned \<and> net_out c' = net_out c"
  by (induction rule: rtranclp_induct) (auto dest: emit_when_returned)

text \<open>C18. Cutting into records loses, doubles and reorders nothing: in every interleaving of
  writes, timers, failures and \<open>Stop\<close>, the network has got well-formed records of at most
  16379 bytes (the start of them if it failed), and a client that reads them gets a prefix of
  what was written, of which the rest is still queued. The record writer never refuses a
  record, and once the sender has returned nothing more is sent, so what is queued then is
  never delivered.\<close>

theorem doppel_transparent:
  assumes "doppel_step\<^sup>*\<^sup>* (doppel_NewConn st) c" "list_all (\<lambda>n. 0 < n) ns"
  shows "(\<exists>ms. cut_ok ms \<and> prefix (net_out c) (concat (map enc_record ms)) \<and> submitted c = app_data ms @ writeStream c \<and>
      (\<not> net_failed c \<longrightarrow> net_out c = concat (map enc_record ms) \<and>
         (\<exists>xs e c'. tls_reads ns (tls_New (net_out c) True wr) = (xs, e, c') \<and> prefix (concat xs) (submitted c) \<and>
            (e = None \<or> submitted c = concat xs @ writeStream c)))) \<and>
    (sender c = Returned \<longrightarrow> (\<forall>c2. doppel_step\<^sup>*\<^sup>* c c2 \<longrightarrow> net_out c2 = net_out c))"
proof
  obtain ms where ms: "cut_ok ms" "submitted c = app_data ms @ writeStream c" "prefix (net_out c) (concat (map enc_record ms))"
      "\<not> net_failed c \<longrightarrow> net_out c = concat (map enc_record ms)"
    using dop.reachable_inv [OF assms(1)] by (auto simp: doppel_inv_def)
  have "list_all record_ok ms"
    using ms(1) by (auto simp: cut_ok_def list_all_iff record_ok_def fits16_def record_consts)
  then have "at_records ms (tls_New (concat (map enc_record ms)) True wr)" by (simp add: at_records_def tls_New_def)
  from tls_reads_records [OF this assms(2)]
  show "\<exists>ms. cut_ok ms \<and> prefix (net_out c) (concat (map enc_record ms)) \<and> submitted c = app_data ms @ writeStream c \<and>
      (\<not> net_failed c \<longrightarrow> net_out c = concat (map enc_record ms) \<and>
         (\<exists>xs e c'. tls_reads ns (tls_New (net_out c) True wr) = (xs, e, c') \<and> prefix (concat xs) (submitted c) \<and>
            (e = None \<or> submitted c = concat xs @ writeStream c)))"
    using ms by (intro exI [of _ ms]) (auto simp: tls_New_def intro: prefix_prefix)
qed (use returned_for_good in blast)

subsection \<open>Scouts\<close>

text \<open>What a scout connection has seen; \<open>writeIndex\<close> is \<open>- 1\<close> until the client writes after the
  change cipher record.\<close>

record scoutConnResult =
  timestamp :: go_time
  recordType :: byte
  payloadLen :: int

record scoutConnCollected =
  sc_data :: "scoutConnResult list"
  writeIndex :: int

definition NewScoutConnCollected :: scoutConnCollected where
  "NewScoutConnCollected = \<lparr>sc_data = [], writeIndex = - 1\<rparr>"

definition collected_Add :: "go_time \<Rightarrow> byte \<Rightarrow> int \<Rightarrow> scoutConnCollected \<Rightarrow> scoutConnCollected" where
  "collected_Add now rec payload s =
     s\<lparr>sc_data := sc_data s @ [\<lparr>timestamp = now, recordType = rec, payloadLen = payload\<rparr>]\<rparr>"

definition MarkWrite :: "scoutConnCollected \<Rightarrow> scoutConnCollected" where
  "MarkWrite s = (if writeIndex s < 0 then s\<lparr>writeIndex := int (length (sc_data s))\<rparr> else s)"

record scoutConn =
  sc_raw :: bytes
  rawBuf :: bytes
  seenCCS :: bool
  results :: scoutConnCollected

definition NewScoutConn :: "bytes \<Rightarrow> scoutConnCollected \<Rightarrow> scoutConn" where
  "NewScoutConn raw coll = \<lparr>sc_raw = raw, rawBuf = [], seenCCS = False, results = coll\<rparr>"

text \<open>\<open>Read\<close> into \<open>n\<close> bytes: a record is read only when the buffer is empty, and leaves at least its
  header there, so the loop turns once at most.\<close>

definition scoutConn_Read :: "go_time \<Rightarrow> nat \<Rightarrow> scoutConn \<Rightarrow> (tls_error + bytes) \<times> scoutConn" where
  "scoutConn_Read now n s =
     (if rawBuf s \<noteq> [] \<or> n = 0 then (Inr (take n (rawBuf s)), s\<lparr>rawBuf := drop n (rawBuf s)\<rparr>)
      else case ReadRecord (sc_raw s) [] of
          (Inl e, raw, _) \<Rightarrow> (Inl e, s\<lparr>sc_raw := raw\<rparr>)
        | (Inr (t, len), raw, payload) \<Rightarrow>
            let s = s\<lparr>sc_raw := raw, seenCCS := seenCCS s \<or> t = TypeChangeCipherSpec,
                      results := collected_Add now t (int len) (results s)\<rparr>;
                buf = [t] @ TLSVersion @ put_be16 (word_of_nat len) @ payload
            in (Inr (take n buf), s\<lparr>rawBuf := drop n buf\<rparr>))"

definition scoutConn_Write :: "bytes \<Rightarrow> scoutConn \<Rightarrow> bytes \<times> scoutConn" where
  "scoutConn_Write p s = (p, if seenCCS s then s\<lparr>results := MarkWrite (results s)\<rparr> else s)"

fun scout_reads :: "(go_time \<times> nat) list \<Rightarrow> scoutConn \<Rightarrow> bytes list \<times> tls_error option \<times> scoutConn" where
  "scout_reads [] s = ([], None, s)"
| "scout_reads ((now, n) # ns) s = (case scoutConn_Read now n s of
      (Inl e, s) \<Rightarrow> ([], Some e, s)
    | (Inr x, s) \<Rightarrow> let (xs, e, s) = scout_reads ns s in (x # xs, e, s))"

text \<open>\<open>learn\<close>: the gaps between application data records and the size of the certificate chain.\<close>

record scoutResult =
  Durations :: "duration list"
  CertSize :: int

fun learn_durations :: "scoutConnResult option \<Rightarrow> go_time option \<Rightarrow> scoutConnResult list \<Rightarrow> duration list" where
  "learn_durations prev lst [] = []"
| "learn_durations prev lst (v # vs) =
     (if recordType v \<noteq> TypeApplicationData then learn_durations (Some v) lst vs
      else let lst = (case lst of Some t \<Rightarrow> t | None \<Rightarrow> (case prev of Some w \<Rightarrow> timestamp w | None \<Rightarrow> timestamp v))
           in time_Sub (timestamp v) lst # learn_durations (Some v) (Some (timestamp v)) vs)"

fun learn_cert :: "bool \<Rightarrow> scoutConnResult list \<Rightarrow> int" where
  "learn_cert ccs [] = 0"
| "learn_cert ccs (v # vs) =
     (if recordType v = TypeChangeCipherSpec then learn_cert True vs
      else (if ccs \<and> recordType v = TypeApplicationData then payloadLen v else 0) + learn_cert ccs vs)"

definition learn_result :: "scoutConnCollected \<Rightarrow> scoutResult" where
  "learn_result s =
     (let boundary = (if writeIndex s < 0 then length (sc_data s) else nat (writeIndex s))
      in \<lparr>Durations = learn_durations None None (sc_data s), CertSize = learn_cert False (take boundary (sc_data s))\<rparr>)"

text \<open>\<open>fetched url\<close> is what the HTTP request left in the collector, or its error.\<close>

datatype scout_error = NotHttps string | RequestFailed string

definition scout_learn :: "(string \<Rightarrow> string + scoutConnCollected) \<Rightarrow> string \<Rightarrow> scout_error + scoutResult" where
  "scout_learn fetched url =
     (if take 8 url \<noteq> ''https://'' then Inl (NotHttps url)
      else case fetched url of Inl e \<Rightarrow> Inl (RequestFailed e) | Inr s \<Rightarrow> Inr (learn_result s))"

fun scout_Learn :: "(string \<Rightarrow> string + scoutConnCollected) \<Rightarrow> string list \<Rightarrow> scoutResult \<Rightarrow> scout_error + scoutResult" where
  "scout_Learn fetched [] combined = Inr combined"
| "scout_Learn fetched (url # urls) combined = (case scout_learn fetched url of
      Inl e \<Rightarrow> Inl e
    | Inr learned \<Rightarrow> scout_Learn fetched urls
        \<lparr>Durations = Durations combined @ Durations learned,
         CertSize = (if CertSize learned > 0 \<and> CertSize combined = 0 then CertSize learned else CertSize combined)\<rparr>)"

subsection \<open>The ganger\<close>

definition DoppelGangerMaxDurations :: nat where "DoppelGangerMaxDurations = 4096"
definition MinCertSizesToCalculate :: nat where "MinCertSizesToCalculate = 3"
definition MinDurationsToCalculate :: nat where "MinDurationsToCalculate = 100"

text \<open>The fields the loop of \<open>run\<close> works on; \<open>collecting\<close> is off while new statistics are computed.\<close>

record ganger =
  g_stats :: dstats
  durations :: "duration list"
  certSizes :: "int list"
  g_noiseParams :: "noiseParams option"
  collecting :: bool

definition NewGanger :: "bool \<Rightarrow> ganger" where
  "NewGanger useDrs = \<lparr>g_stats = \<lparr>sizeLastRequested = 0, sizeCounter = 0, drs = useDrs\<rparr>, durations = [], certSizes = [],
     g_noiseParams = None, collecting = True\<rparr>"

definition get_NoiseParams :: "ganger \<Rightarrow> noiseParams" where
  "get_NoiseParams g = (case g_noiseParams g of None \<Rightarrow> \<lparr>Mean = 0, Jitter = 0\<rparr> | Some p \<Rightarrow> p)"

fun sum_sizes :: "int \<Rightarrow> int list \<Rightarrow> int" where
  "sum_sizes acc [] = acc"
| "sum_sizes acc (s # ss) = sum_sizes (i64 (acc + s)) ss"

fun max_dev :: "int \<Rightarrow> int \<Rightarrow> int list \<Rightarrow> int" where
  "max_dev mean acc [] = acc"
| "max_dev mean acc (s # ss) =
     (let d = i64 (s - mean); d = (if d < 0 then i64 (- d) else d) in max_dev mean (if d > acc then d else acc) ss)"

definition updateNoiseParams :: "ganger \<Rightarrow> ganger" where
  "updateNoiseParams g =
     (if certSizes g = [] then g
      else let mean = go_div (sum_sizes 0 (certSizes g)) (int (length (certSizes g)));
               maxDev = max_dev mean 0 (certSizes g)
           in g\<lparr>g_noiseParams := Some \<lparr>Mean = mean, Jitter = (if maxDev < 100 then 100 else maxDev)\<rparr>\<rparr>)"

definition keep_last :: "nat \<Rightarrow> 'a list \<Rightarrow> 'a list" where
  "keep_last n xs = drop (length xs - n) xs"

text \<open>A raid: the outcomes of its repeats, failed ones skipped.\<close>

fun runScoutRaid :: "(scout_error + scoutResult) list \<Rightarrow> duration list \<times> int list" where
  "runScoutRaid [] = ([], [])"
| "runScoutRaid (Inl e # rs) = runScoutRaid rs"
| "runScoutRaid (Inr learned # rs) =
     (case runScoutRaid rs of (ds, cs) \<Rightarrow>
        (Durations learned @ ds, if CertSize learned > 0 then CertSize learned # cs else cs))"

definition ganger_collect :: "duration list \<times> int list \<Rightarrow> ganger \<Rightarrow> ganger" where
  "ganger_collect result g =
     (let g = g\<lparr>durations := keep_last DoppelGangerMaxDurations (durations g @ fst result),
                certSizes := keep_last DoppelGangerMaxDurations (certSizes g @ snd result)\<rparr>;
          g = (if length (certSizes g) \<ge> MinCertSizesToCalculate then updateNoiseParams g else g)
      in if length (durations g) < MinDurationsToCalculate then g else g\<lparr>collecting := False\<rparr>)"

definition ganger_updated :: "dstats \<Rightarrow> ganger \<Rightarrow> ganger" where
  "ganger_updated st g = g\<lparr>g_stats := st, collecting := True\<rparr>"

text \<open>What the scouts may report: positive sizes far below the width of an integer.\<close>

definition raid_ok :: "duration list \<times> int list \<Rightarrow> bool" where
  "raid_ok r \<longleftrightarrow> list_all (\<lambda>s. 0 < s \<and> s < 2 ^ 40) (snd r)"

inductive ganger_step :: "ganger \<Rightarrow> ganger \<Rightarrow> bool" where
  collects: "collecting g \<Longrightarrow> raid_ok r \<Longrightarrow> ganger_step g (ganger_collect r g)"
| updates: "\<not> collecting g \<Longrightarrow> ganger_step g (ganger_updated \<lparr>sizeLastRequested = 0, sizeCounter = 0, drs = drs (g_stats g)\<rparr> g)"

definition noise_ok :: "int list \<Rightarrow> noiseParams \<Rightarrow> bool" where
  "noise_ok ss p \<longleftrightarrow> 0 < Mean p \<and> Mean p < 2 ^ 40 \<and> 100 \<le> Jitter p \<and> Jitter p < 2 ^ 41 \<and>
     list_all (\<lambda>s. \<bar>s - Mean p\<bar> \<le> Jitter p) ss \<and> (100 < Jitter p \<longrightarrow> (\<exists>s \<in> set ss. \<bar>s - Mean p\<bar> = Jitter p)) \<and>
     (\<exists>s \<in> set ss. s \<le> Mean p) \<and> (\<exists>s \<in> set ss. Mean p \<le> s)"

definition ganger_inv :: "ganger \<Rightarrow> bool" where
  "ganger_inv g \<longleftrightarrow> length (durations g) \<le> DoppelGangerMaxDurations \<and> length (certSizes g) \<le> DoppelGangerMaxDurations \<and>
     list_all (\<lambda>s. 0 < s \<and> s < 2 ^ 40) (certSizes g) \<and>
     (case g_noiseParams g of None \<Rightarrow> length (certSizes g) < MinCertSizesToCalculate | Some p \<Rightarrow> MinCertSizesToCalculate \<le> length (certSizes g) \<and> noise_ok (certSizes g) p)"

lemma sum_sizes_eq:
  "list_all (\<lambda>s. 0 < s) ss \<Longrightarrow> 0 \<le> acc \<Longrightarrow> acc + sum_list ss < 2 ^ 63 \<Longrightarrow> sum_sizes acc ss = acc + sum_list ss"
proof (induction ss arbitrary: acc)
  case (Cons s ss)
  have "0 \<le> sum_list ss" using Cons.prems(1) by (intro sum_list_nonneg) (auto simp: list_all_iff intro: less_imp_le)
  then have "in_i64 (acc + s)" using Cons.prems by (simp add: in_i64_def)
  then show ?case using Cons by (simp add: add.assoc)
qed simp

lemma sum_list_lower: "\<forall>x \<in> set xs. m \<le> x \<Longrightarrow> m * int (length xs) \<le> (sum_list xs :: int)"
  by (induction xs) (auto simp: algebra_simps)

lemma sum_list_upper: "\<forall>x \<in> set xs. x \<le> m \<Longrightarrow> (sum_list xs :: int) \<le> m * int (length xs)"
  by (induction xs) (auto simp: algebra_simps)

lemma mean_between:
  assumes "ss \<noteq> []"
  defines "m \<equiv> (sum_list ss :: int) div int (length ss)"
  shows "(\<exists>s \<in> set ss. s \<le> m) \<and> (\<exists>s \<in> set ss. m \<le> s)"
proof
  have n: "0 < int (length ss)" using assms(1) by simp
  have "Min (set ss) \<in> set ss" "\<forall>x \<in> set ss. Min (set ss) \<le> x" using assms(1) by simp_all
  moreover from sum_list_lower [OF this(2)] have "Min (set ss) \<le> m"
    unfolding m_def using n zdiv_mono1 [of "Min (set ss) * int (length ss)" "sum_list ss" "int (length ss)"] by simp
  ultimately show "\<exists>s \<in> set ss. s \<le> m" by blast
  have "Max (set ss) \<in> set ss" "\<forall>x \<in> set ss. x \<le> Max (set ss)" using assms(1) by simp_all
  moreover from sum_list_upper [OF this(2)] have "m \<le> Max (set ss)"
    unfolding m_def using n zdiv_mono1 [of "sum_list ss" "Max (set ss) * int (length ss)" "int (length ss)"] by simp
  ultimately show "\<exists>s \<in> set ss. m \<le> s" by blast
qed

lemma max_dev_props:
  "list_all (\<lambda>s. \<bar>s - mean\<bar> < 2 ^ 62) ss \<Longrightarrow> acc \<le> max_dev mean acc ss \<and> list_all (\<lambda>s. \<bar>s - mean\<bar> \<le> max_dev mean acc ss) ss \<and>
     (max_dev mean acc ss = acc \<or> (\<exists>s \<in> set ss. \<bar>s - mean\<bar> = max_dev mean acc ss))"
proof (induction ss arbitrary: acc)
  case (Cons s ss)
  then have "in_i64 (s - mean)" "in_i64 (- (s - mean))" by (auto simp: in_i64_def)
  then have step: "max_dev mean acc (s # ss) = max_dev mean (max acc \<bar>s - mean\<bar>) ss" by (auto simp: max_def abs_if Let_def)
  from Cons.IH [of "max acc \<bar>s - mean\<bar>"] Cons.prems show ?case
    unfolding step by (auto simp: max_def simp del: max_dev.simps split: if_splits)
qed simp

lemma updateNoiseParams_ok:
  assumes "list_all (\<lambda>s. 0 < s \<and> s < 2 ^ 40) (certSizes g)" "certSizes g \<noteq> []" "length (certSizes g) \<le> DoppelGangerMaxDurations"
  shows "\<exists>p. updateNoiseParams g = g\<lparr>g_noiseParams := Some p\<rparr> \<and> noise_ok (certSizes g) p"
proof -
  let ?ss = "certSizes g" let ?m = "sum_list ?ss div int (length ?ss)"
  have pos: "list_all (\<lambda>s. 0 < s) ?ss" "\<forall>s \<in> set ?ss. s \<le> 2 ^ 40" using assms(1) by (auto simp: list_all_iff)
  have "sum_list ?ss \<le> 2 ^ 40 * int (length ?ss)" using sum_list_upper [OF pos(2)] .
  also have "\<dots> \<le> 2 ^ 40 * 4096" using assms(3) by (simp add: DoppelGangerMaxDurations_def)
  finally have sum: "sum_list ?ss < 2 ^ 63" by simp
  have nn: "0 \<le> sum_list ?ss" using pos(1) by (intro sum_list_nonneg) (auto simp: list_all_iff intro: less_imp_le)
  have mean: "go_div (sum_sizes 0 ?ss) (int (length ?ss)) = ?m"
    using sum_sizes_eq [OF pos(1), of 0] go_div_nonneg [OF nn, of "int (length ?ss)"] sum assms(2) by simp
  obtain lo hi where lo: "lo \<in> set ?ss" "lo \<le> ?m" and hi: "hi \<in> set ?ss" "?m \<le> hi" using mean_between [OF assms(2)] by blast
  have m: "0 < ?m" "?m < 2 ^ 40" using lo hi assms(1) by (auto simp: list_all_iff)
  have dev: "list_all (\<lambda>s. \<bar>s - ?m\<bar> < 2 ^ 62) ?ss" using assms(1) m by (fastforce simp: list_all_iff)
  note props = max_dev_props [OF dev, of 0]
  let ?p = "\<lparr>Mean = ?m, Jitter = (if max_dev ?m 0 ?ss < 100 then 100 else max_dev ?m 0 ?ss)\<rparr>"
  have "max_dev ?m 0 ?ss < 2 ^ 41" using props assms(1) m by (fastforce simp: list_all_iff)
  then have "noise_ok ?ss ?p" using props m lo hi by (auto simp: noise_ok_def list_all_iff)
  moreover have "updateNoiseParams g = g\<lparr>g_noiseParams := Some ?p\<rparr>" using assms(2) by (simp add: updateNoiseParams_def mean Let_def)
  ultimately show ?thesis by blast
qed

lemma keep_last_props: "length (keep_last n xs) = min n (length xs) \<and> set (keep_last n xs) \<subseteq> set xs"
  by (auto simp: keep_last_def dest: in_set_dropD)

lemma ganger_collect_inv:
  assumes "ganger_inv g" "raid_ok r"
  shows "ganger_inv (ganger_collect r g)"
proof -
  define g1 where "g1 = g\<lparr>durations := keep_last DoppelGangerMaxDurations (durations g @ fst r),
      certSizes := keep_last DoppelGangerMaxDurations (certSizes g @ snd r)\<rparr>"
  have "list_all (\<lambda>s. 0 < s \<and> s < 2 ^ 40) (certSizes g @ snd r)" using assms by (simp add: ganger_inv_def raid_ok_def)
  then have sizes: "list_all (\<lambda>s. 0 < s \<and> s < 2 ^ 40) (certSizes g1)"
    using keep_last_props [of DoppelGangerMaxDurations "certSizes g @ snd r"] by (fastforce simp: g1_def list_all_iff)
  have lens: "length (durations g1) \<le> DoppelGangerMaxDurations" "length (certSizes g1) \<le> DoppelGangerMaxDurations"
    by (simp_all add: g1_def keep_last_props)
  show ?thesis
  proof (cases "length (certSizes g1) \<ge> MinCertSizesToCalculate")
    case True
    then have "certSizes g1 \<noteq> []" by (auto simp: MinCertSizesToCalculate_def)
    from updateNoiseParams_ok [OF sizes this lens(2)] obtain p where "updateNoiseParams g1 = g1\<lparr>g_noiseParams := Some p\<rparr>" "noise_ok (certSizes g1) p"
      by blast
    then show ?thesis using True sizes lens by (simp add: ganger_collect_def g1_def [symmetric] ganger_inv_def Let_def)
  next
    case False
    have "g_noiseParams g = None"
      using False assms(1)
      by (auto simp: ganger_inv_def g1_def keep_last_props MinCertSizesToCalculate_def DoppelGangerMaxDurations_def split: option.splits)
    then show ?thesis using False sizes lens by (simp add: ganger_collect_def g1_def [symmetric] ganger_inv_def Let_def) (simp add: g1_def)
  qed
qed
interpretation gang: transition_system "NewGanger d" ganger_step ganger_inv for d
proof
  show "ganger_inv (NewGanger d)" by (simp add: ganger_inv_def NewGanger_def MinCertSizesToCalculate_def)
  show "ganger_inv g'" if "ganger_inv g" "ganger_step g g'" for g g'
    using that(2,1)
  proof cases
    case (collects r)
    then show ?thesis using that(1) ganger_collect_inv by simp
  qed (auto simp: ganger_inv_def ganger_updated_def split: option.splits)
qed

lemma noise_size_within:
  assumes "noise_ok ss p" "\<And>n. 0 < n \<Longrightarrow> 0 \<le> draw n \<and> draw n < n"
  shows "1000 \<le> noise_size draw p \<and> noise_size draw p \<le> max 1000 (Mean p + Jitter p - 1)"
  using noise_size_bounds [where draw = draw and noise = p, OF assms(2)] assms(1) by (auto simp: noise_ok_def split: if_splits)

text \<open>The noise imitates the certificates that were measured: in every state the ganger can reach
  it keeps at most 4096 samples, the noise parameters exist as soon as there are three, every sample
  lies within the jitter of the mean, which is at least 100, and the size of the noise is between
  1000 bytes and the mean plus the jitter. While the chains have at most 8190 bytes the noise
  always fits its record, so that the server hello has all three records.\<close>

lemma noise_covers_samples:
  assumes "ganger_step\<^sup>*\<^sup>* (NewGanger d) g" "\<And>n. 0 < n \<Longrightarrow> 0 \<le> draw n \<and> draw n < n" "\<And>n. length (fill n) = n"
  shows "length (certSizes g) \<le> 4096 \<and>
    (length (certSizes g) < 3 \<longrightarrow> get_NoiseParams g = \<lparr>Mean = 0, Jitter = 0\<rparr>) \<and>
    (3 \<le> length (certSizes g) \<longrightarrow> (let p = get_NoiseParams g in
       100 \<le> Jitter p \<and> list_all (\<lambda>s. \<bar>s - Mean p\<bar> \<le> Jitter p) (certSizes g) \<and>
       1000 \<le> noise_size draw p \<and> noise_size draw p \<le> max 1000 (Mean p + Jitter p - 1))) \<and>
    (list_all (\<lambda>s. s \<le> 8190) (certSizes g) \<longrightarrow>
       (\<exists>x. x \<noteq> [] \<and> generateNoise draw fill (get_NoiseParams g) = enc_record (TypeApplicationData, x)))"
proof -
  have inv: "ganger_inv g" by (rule gang.reachable_inv [OF assms(1)])
  have noise: "g_noiseParams g = (if length (certSizes g) < 3 then None else Some (get_NoiseParams g))"
      "3 \<le> length (certSizes g) \<Longrightarrow> noise_ok (certSizes g) (get_NoiseParams g)"
    using inv by (auto simp: ganger_inv_def get_NoiseParams_def MinCertSizesToCalculate_def split: option.splits)
  have "noise_size draw (get_NoiseParams g) \<in> {1..int MaxRecordPayloadSize}" if small: "list_all (\<lambda>s. s \<le> 8190) (certSizes g)"
  proof (cases "3 \<le> length (certSizes g)")
    case True
    note p = noise(2) [OF True]
    have "Mean (get_NoiseParams g) \<le> 8190" using p small by (auto simp: noise_ok_def list_all_iff)
    moreover have "Jitter (get_NoiseParams g) \<le> 8190"
    proof (cases "100 < Jitter (get_NoiseParams g)")
      case far: True
      then obtain s where "s \<in> set (certSizes g)" "\<bar>s - Mean (get_NoiseParams g)\<bar> = Jitter (get_NoiseParams g)"
        using p unfolding noise_ok_def by blast
      moreover have "0 < s" "s \<le> 8190" using inv small calculation(1) by (auto simp: ganger_inv_def list_all_iff)
      moreover have "0 < Mean (get_NoiseParams g)" using p by (simp add: noise_ok_def)
      ultimately show ?thesis using \<open>Mean (get_NoiseParams g) \<le> 8190\<close> by linarith
    qed simp
    ultimately show ?thesis using noise_size_within [OF p assms(2)] by (auto simp: record_consts)
  next
    case False
    then show ?thesis using noise(1) assms(2) [of 2200] by (simp add: get_NoiseParams_def noise_size_def record_consts)
  qed
  then have "\<exists>x. x \<noteq> [] \<and> generateNoise draw fill (get_NoiseParams g) = enc_record (TypeApplicationData, x)"
    if small: "list_all (\<lambda>s. s \<le> 8190) (certSizes g)"
    using small assms(3) [of "nat (noise_size draw (get_NoiseParams g))"]
    by (intro exI [of _ "fill (nat (noise_size draw (get_NoiseParams g)))"]) (auto simp: generateNoise_def WriteRecord_ok)
  moreover have "length (certSizes g) \<le> 4096" using inv by (simp add: ganger_inv_def DoppelGangerMaxDurations_def)
  moreover have "get_NoiseParams g = \<lparr>Mean = 0, Jitter = 0\<rparr>" if "length (certSizes g) < 3"
    using noise(1) that by (simp add: get_NoiseParams_def)
  moreover have "let p = get_NoiseParams g in 100 \<le> Jitter p \<and> list_all (\<lambda>s. \<bar>s - Mean p\<bar> \<le> Jitter p) (certSizes g) \<and>
       1000 \<le> noise_size draw p \<and> noise_size draw p \<le> max 1000 (Mean p + Jitter p - 1)" if "3 \<le> length (certSizes g)"
    using noise(2) [OF that] noise_size_within [OF noise(2) [OF that] assms(2)] by (simp add: noise_ok_def Let_def)
  ultimately show ?thesis by blast
qed

subsection \<open>What the scouts measure\<close>

definition seen_records :: "scoutConn \<Rightarrow> (byte \<times> int) list" where
  "seen_records s = map (\<lambda>r. (recordType r, payloadLen r)) (sc_data (results s))"

definition record_sizes :: "tls_record list \<Rightarrow> (byte \<times> int) list" where
  "record_sizes ms = map (\<lambda>m. (fst m, int (length (snd m)))) ms"

lemma scoutConn_Read_step:
  assumes "list_all record_ok ms" "sc_raw s = concat (map enc_record ms)" "0 < n" "scoutConn_Read now n s = (res, s')"
  shows "(res = Inl RecordHeaderMissing \<and> rawBuf s = [] \<and> ms = [] \<and> results s' = results s) \<or>
    (\<exists>x ms1 ms2. res = Inr x \<and> x \<noteq> [] \<and> ms = ms1 @ ms2 \<and> sc_raw s' = concat (map enc_record ms2) \<and>
       rawBuf s @ concat (map enc_record ms1) = x @ rawBuf s' \<and> seen_records s' = seen_records s @ record_sizes ms1 \<and>
       writeIndex (results s') = writeIndex (results s) \<and>
       (seenCCS s' \<longleftrightarrow> seenCCS s \<or> TypeChangeCipherSpec \<in> fst ` set ms1))"
proof (cases "rawBuf s = []")
  case False
  then show ?thesis using assms
    by (rule_tac disjI2, rule_tac exI [of _ "take n (rawBuf s)"], rule_tac exI [of _ "[]"], rule_tac exI [of _ ms])
      (auto simp: scoutConn_Read_def record_sizes_def seen_records_def)
next
  case True
  show ?thesis
  proof (cases ms)
    case Nil
    then have "ReadRecord (sc_raw s) [] = (Inl RecordHeaderMissing, [], [])"
      using assms(2) by (simp add: ReadRecord_def read_full_def record_consts)
    then show ?thesis using assms(3,4) True Nil by (auto simp: scoutConn_Read_def)
  next
    case (Cons m ms2)
    obtain t p where m: "m = (t, p)" by (cases m)
    have "ReadRecord (sc_raw s) [] = (Inr (t, length p), concat (map enc_record ms2), p)"
      using assms(1,2) by (simp add: Cons m ReadRecord_enc record_ok_def)
    then show ?thesis using assms(3,4) True Cons m
      by (rule_tac disjI2, rule_tac exI [of _ "take n (enc_record m)"], rule_tac exI [of _ "[m]"], rule_tac exI [of _ ms2])
        (auto simp: scoutConn_Read_def Let_def enc_record_def record_header_def seen_records_def record_sizes_def collected_Add_def
          TLSVersion_def)
  qed
qed

lemma scout_reads_records:
  assumes "list_all record_ok ms" "sc_raw s = concat (map enc_record ms)" "list_all (\<lambda>(now, n). 0 < n) ns" "scout_reads ns s = (xs, e, s')"
  shows "\<exists>ms1 ms2. ms = ms1 @ ms2 \<and> rawBuf s @ concat (map enc_record ms1) = concat xs @ rawBuf s' \<and>
     seen_records s' = seen_records s @ record_sizes ms1 \<and> writeIndex (results s') = writeIndex (results s) \<and>
     (e = None \<longrightarrow> sc_raw s' = concat (map enc_record ms2)) \<and>
     (e \<noteq> None \<longrightarrow> e = Some RecordHeaderMissing \<and> ms2 = [] \<and> rawBuf s' = []) \<and>
     (e = None \<longrightarrow> (seenCCS s' \<longleftrightarrow> seenCCS s \<or> TypeChangeCipherSpec \<in> fst ` set ms1))"
  using assms
proof (induction ns arbitrary: ms s xs)
  case Nil
  then show ?case by (rule_tac exI [of _ "[]"], rule_tac exI [of _ ms]) (auto simp: record_sizes_def)
next
  case (Cons nn ns)
  obtain now n where nn: "nn = (now, n)" by (cases nn)
  obtain res s1 where rd: "scoutConn_Read now n s = (res, s1)" by fastforce
  have "0 < n" using Cons.prems(3) nn by simp
  from scoutConn_Read_step [OF Cons.prems(1,2) this rd] show ?case
  proof (elim disjE exE conjE)
    assume "res = Inl RecordHeaderMissing" "rawBuf s = []" "ms = []" "results s1 = results s"
    moreover from this have "s' = s1" "xs = []" "e = Some RecordHeaderMissing" using Cons.prems(4) rd nn by auto
    moreover have "rawBuf s1 = rawBuf s" using rd calculation by (auto simp: scoutConn_Read_def Let_def split: if_splits prod.splits sum.splits)
    ultimately show ?thesis by (auto simp: seen_records_def record_sizes_def)
  next
    fix x ms1 ms2
    assume h: "res = Inr x" "ms = ms1 @ ms2" "sc_raw s1 = concat (map enc_record ms2)"
      "rawBuf s @ concat (map enc_record ms1) = x @ rawBuf s1" "seen_records s1 = seen_records s @ record_sizes ms1"
      "writeIndex (results s1) = writeIndex (results s)" "seenCCS s1 \<longleftrightarrow> seenCCS s \<or> TypeChangeCipherSpec \<in> fst ` set ms1"
    obtain ys where ys: "scout_reads ns s1 = (ys, e, s')" "xs = x # ys"
      using Cons.prems(4) rd nn h(1) by (auto split: prod.splits)
    have ok: "list_all record_ok ms2" "list_all (\<lambda>(now, n). 0 < n) ns" using Cons.prems(1,3) h(2) by simp_all
    from Cons.IH [OF ok(1) h(3) ok(2) ys(1)] show ?thesis
    proof (elim exE conjE)
      fix ms3 ms4
      assume t: "ms2 = ms3 @ ms4" "rawBuf s1 @ concat (map enc_record ms3) = concat ys @ rawBuf s'"
        "seen_records s' = seen_records s1 @ record_sizes ms3" "writeIndex (results s') = writeIndex (results s1)"
        "e = None \<longrightarrow> sc_raw s' = concat (map enc_record ms4)" "e \<noteq> None \<longrightarrow> e = Some RecordHeaderMissing \<and> ms4 = [] \<and> rawBuf s' = []"
        "e = None \<longrightarrow> (seenCCS s' \<longleftrightarrow> seenCCS s1 \<or> TypeChangeCipherSpec \<in> fst ` set ms3)"
      have "rawBuf s @ concat (map enc_record ms1) @ concat (map enc_record ms3) = x @ concat ys @ rawBuf s'"
        using h(4) t(2) by (metis append.assoc)
      then show ?thesis using h(1,2,3,5-7) t(1,3-7) ys(2)
        by (rule_tac exI [of _ "ms1 @ ms3"], rule_tac exI [of _ ms4]) (simp add: record_sizes_def image_Un)
    qed
  qed
qed

lemma learn_cert_plain: "list_all (\<lambda>v. recordType v \<noteq> TypeChangeCipherSpec) vs \<Longrightarrow>
    learn_cert ccs vs = (if ccs then sum_list (map payloadLen (filter (\<lambda>v. recordType v = TypeApplicationData) vs)) else 0)"
  by (induction vs) auto

lemma learn_cert_append: "list_all (\<lambda>v. recordType v \<noteq> TypeChangeCipherSpec) vs \<Longrightarrow> learn_cert ccs (vs @ ws) = learn_cert ccs vs + learn_cert ccs ws"
  by (induction vs) auto

lemma record_sizes_match:
  assumes "map (\<lambda>r. (recordType r, payloadLen r)) vs = record_sizes ms"
  shows "sum_list (map payloadLen (filter (\<lambda>v. recordType v = TypeApplicationData) vs)) = int (length (app_data ms))"
  using assms
proof (induction ms arbitrary: vs)
  case (Cons m ms)
  then obtain v vs' where "vs = v # vs'" by (auto simp: record_sizes_def)
  then show ?case using Cons.prems Cons.IH [of vs'] by (auto simp: record_sizes_def app_data_def)
qed (simp add: record_sizes_def app_data_def)

lemma enc_record_nonempty: "enc_record m \<noteq> []"
  by (simp add: enc_record_def record_header_def)

text \<open>A scout sees through the handshake of a real site without disturbing it: reads of any sizes
  hand the client exactly the bytes the server sent, and when the client's first write follows the server's
  flight, the certificate size that is learned is the number of application data bytes between the
  change cipher record and that write, whatever the server sends afterwards.\<close>

lemma scout_measures_chain:
  assumes "list_all record_ok ms1" "list_all record_ok ms2" "ms1 = pre @ (TypeChangeCipherSpec, x) # body"
    "TypeChangeCipherSpec \<notin> fst ` set (pre @ body)"
    "list_all (\<lambda>(now, n). 0 < n) ns1" "list_all (\<lambda>(now, n). 0 < n) ns2"
    "scout_reads ns1 (NewScoutConn (concat (map enc_record ms1)) NewScoutConnCollected) = (xs, None, s1)"
    "concat xs = concat (map enc_record ms1)" "scoutConn_Write p s1 = (p', s2)"
    "scout_reads ns2 (s2\<lparr>sc_raw := concat (map enc_record ms2)\<rparr>) = (ys, e, s3)"
  shows "p' = p \<and> prefix (concat ys) (concat (map enc_record ms2)) \<and>
    CertSize (learn_result (results s3)) = int (length (app_data body))"
proof -
  obtain ma mb where a: "ms1 = ma @ mb" "concat (map enc_record ma) = concat xs @ rawBuf s1" "seen_records s1 = record_sizes ma"
      "writeIndex (results s1) = - 1" "sc_raw s1 = concat (map enc_record mb)" "seenCCS s1 \<longleftrightarrow> TypeChangeCipherSpec \<in> fst ` set ma"
    using scout_reads_records [OF assms(1) _ assms(5,7)] by (auto simp: NewScoutConn_def seen_records_def NewScoutConnCollected_def)
  have "concat xs @ rawBuf s1 @ concat (map enc_record mb) = concat (map enc_record ma) @ concat (map enc_record mb)"
    by (simp only: a(2) append_assoc)
  also have "\<dots> = concat xs" by (simp only: assms(8) a(1) map_append concat_append)
  finally have "rawBuf s1 @ concat (map enc_record mb) = []" by (simp only: append_self_conv)
  then have mb: "mb = []" "rawBuf s1 = []" using enc_record_nonempty by (cases mb, simp_all)
  have s2: "p' = p" "s2 = s1\<lparr>results := (results s1)\<lparr>writeIndex := int (length (sc_data (results s1)))\<rparr>\<rparr>"
    using assms(3,9) a mb by (auto simp: scoutConn_Write_def MarkWrite_def)
  have data: "length (sc_data (results s1)) = length ms1" 
    using arg_cong [OF a(3), of length] a(1) mb by (simp add: seen_records_def record_sizes_def)
  let ?s = "s2\<lparr>sc_raw := concat (map enc_record ms2)\<rparr>"
  have s: "sc_raw ?s = concat (map enc_record ms2)" "rawBuf ?s = []" "seen_records ?s = record_sizes ms1" "writeIndex (results ?s) = int (length ms1)"
    using a(1,3) mb s2(2) data by (simp_all add: seen_records_def)
  from scout_reads_records [OF assms(2) s(1) assms(6,10), unfolded s] obtain mc md where c: "ms2 = mc @ md" "concat (map enc_record mc) = concat ys @ rawBuf s3"
      "seen_records s3 = record_sizes ms1 @ record_sizes mc" "writeIndex (results s3) = int (length ms1)"
    by (elim exE conjE) simp
  have "map (\<lambda>r. (recordType r, payloadLen r)) (take (length ms1) (sc_data (results s3))) = record_sizes ms1"
    using c(3) by (simp add: seen_records_def take_map [symmetric] record_sizes_def)
  then obtain vp vc vb where v: "take (length ms1) (sc_data (results s3)) = vp @ vc # vb"
      "map (\<lambda>r. (recordType r, payloadLen r)) vp = record_sizes pre" "recordType vc = TypeChangeCipherSpec"
      "map (\<lambda>r. (recordType r, payloadLen r)) vb = record_sizes body"
    using assms(3) by (auto simp: record_sizes_def map_eq_append_conv map_eq_Cons_conv)
  have plain: "list_all (\<lambda>v. recordType v \<noteq> TypeChangeCipherSpec) vs" if "map (\<lambda>r. (recordType r, payloadLen r)) vs = record_sizes ms"
      "TypeChangeCipherSpec \<notin> fst ` set ms" for vs ms
    using that by (induction ms arbitrary: vs) (auto simp: record_sizes_def)
  have "learn_cert False (vp @ vc # vb) = int (length (app_data body))"
    using plain [OF v(2)] plain [OF v(4)] assms(4) v(3) record_sizes_match [OF v(4)] by (simp add: learn_cert_append learn_cert_plain image_Un)
  then show ?thesis using s2(1) c v(1) by (auto simp: learn_result_def Let_def)
qed

subsection \<open>Witnesses\<close>

definition sample_stats :: dstats where
  "sample_stats = \<lparr>sizeLastRequested = 0, sizeCounter = 0, drs = True\<rparr>"

text \<open>A connection that is stopped with a byte in the queue.\<close>

definition stopped_conn :: doppelConn where
  "stopped_conn = (doppel_Stop (doppel_Write [7] (doppel_NewConn sample_stats)))\<lparr>sender := Returned\<rparr>"

lemma stopped_reachable: "doppel_step\<^sup>*\<^sup>* (doppel_NewConn sample_stats) stopped_conn"
proof -
  let ?w = "doppel_Write [7] (doppel_NewConn sample_stats)"
  have "doppel_step (doppel_NewConn sample_stats) ?w" by (rule doppel_step.writes) simp
  moreover have "doppel_step ?w (doppel_Stop ?w)" by (rule doppel_step.stops)
  moreover have "doppel_step (doppel_Stop ?w) stopped_conn"
    unfolding stopped_conn_def by (rule doppel_step.returns) (simp_all add: doppel_Stop_def doppel_Write_def doppel_NewConn_def)
  ultimately show ?thesis by (metis converse_rtranclp_into_rtranclp rtranclp.rtrancl_refl)
qed

theorem doppel_transparent_witness:
  "submitted stopped_conn = [7] \<and> net_out ` Collect (doppel_step\<^sup>*\<^sup>* stopped_conn) = {[]}"
proof -
  have c: "sender stopped_conn = Returned" "net_out stopped_conn = []" "submitted stopped_conn = [7]"
    by (simp_all add: stopped_conn_def doppel_Stop_def doppel_Write_def doppel_NewConn_def)
  have pos: "list_all (\<lambda>n. 0 < n) [1 :: nat]" by simp
  have "net_out c2 = []" if "doppel_step\<^sup>*\<^sup>* stopped_conn c2" for c2
    using conjunct2 [OF doppel_transparent [OF stopped_reachable pos, where wr = True]] that c(1,2) by metis
  moreover have "stopped_conn \<in> Collect (doppel_step\<^sup>*\<^sup>* stopped_conn)" by simp
  ultimately have "net_out ` Collect (doppel_step\<^sup>*\<^sup>* stopped_conn) = {[]}"
    by (intro subset_antisym subsetI) (auto simp: image_iff)
  then show ?thesis using c(3) by blast
qed

definition sample_flight :: "tls_record list" where
  "sample_flight = [(TypeChangeCipherSpec, [1]), (TypeApplicationData, [7, 8, 9])]"

definition sample_scout :: "bytes list \<times> tls_error option \<times> scoutConn" where
  "sample_scout = scout_reads [(1, 6), (2, 8)] (NewScoutConn (concat (map enc_record sample_flight)) NewScoutConnCollected)"

end
