(* ===== verification/Breaker.thy ===== *)
theory Breaker
  imports Prelude
begin

text \<open>
  The circuit breaker around a proxy dialer (\<open>network/circuit_breaker.go\<close>): its three states,
  timers and counters, with every dial split at the points where other goroutines can run.
  The lemmas show which events move it from one state to another, that it always leaves the
  open state again, and how a cancelled probe blocks it.
\<close>

subsection \<open>State\<close>

datatype cb_mode = CbClosed | CbHalfOpened | CbOpened

text \<open>A \<open>time.AfterFunc\<close> timer: the field is \<open>nil\<close>, runs, or has fired and started its callback,
  which may still be waiting for the mutex.\<close>

datatype cb_timer = NoTimer | Running | Fired

text \<open>\<open>closedDials\<close>, \<open>entering\<close> and \<open>probes\<close> are the dials in flight: inside \<open>doClosed\<close>, before the
  compare-and-swap of \<open>doHalfOpened\<close>, and behind it. \<open>lateTries\<close> and \<open>lateResets\<close> are callbacks
  that wait for the mutex.\<close>

record breaker =
  cb_state :: cb_mode
  halfOpenAttempts :: u32
  failuresCount :: u32
  openThreshold :: u32
  halfOpenTimer :: cb_timer
  failuresCleanupTimer :: cb_timer
  closedDials :: nat
  entering :: nat
  probes :: nat
  lateTries :: nat
  lateResets :: nat

subsection \<open>Operations\<close>

definition ensureTimer :: "cb_timer \<Rightarrow> cb_timer" where
  "ensureTimer t = (if t = NoTimer then Running else t)"

definition switchState :: "cb_mode \<Rightarrow> breaker \<Rightarrow> breaker" where
  "switchState st c =
     (let c = (case st of
            CbClosed \<Rightarrow> c\<lparr>halfOpenTimer := NoTimer, failuresCleanupTimer := ensureTimer (failuresCleanupTimer c)\<rparr>
          | CbHalfOpened \<Rightarrow> c\<lparr>failuresCleanupTimer := NoTimer, halfOpenTimer := NoTimer\<rparr>
          | CbOpened \<Rightarrow> c\<lparr>failuresCleanupTimer := NoTimer, halfOpenTimer := ensureTimer (halfOpenTimer c)\<rparr>)
      in c\<lparr>failuresCount := 0, halfOpenAttempts := 0, cb_state := st\<rparr>)"

definition newCircuitBreakerDialer :: "u32 \<Rightarrow> breaker" where
  "newCircuitBreakerDialer threshold = switchState CbClosed
     \<lparr>cb_state = CbClosed, halfOpenAttempts = 0, failuresCount = 0, openThreshold = threshold, halfOpenTimer = NoTimer,
      failuresCleanupTimer = NoTimer, closedDials = 0, entering = 0, probes = 0, lateTries = 0, lateResets = 0\<rparr>"

text \<open>The end of a dial: the context is over, the dialer succeeded, or it failed.\<close>

datatype dial_outcome = CtxDone | DialOk | DialErr

text \<open>\<open>DialContext\<close> up to the call of the base dialer; \<open>None\<close> for a refusal.\<close>

definition cb_DialContext :: "breaker \<Rightarrow> breaker option" where
  "cb_DialContext c = (case cb_state c of
       CbClosed \<Rightarrow> Some (c\<lparr>closedDials := closedDials c + 1\<rparr>)
     | CbHalfOpened \<Rightarrow> Some (c\<lparr>entering := entering c + 1\<rparr>)
     | CbOpened \<Rightarrow> None)"

definition doClosed_end :: "dial_outcome \<Rightarrow> breaker \<Rightarrow> breaker" where
  "doClosed_end out c =
     (let c = c\<lparr>closedDials := closedDials c - 1\<rparr>
      in case out of
           CtxDone \<Rightarrow> c
         | DialOk \<Rightarrow> switchState CbClosed c
         | DialErr \<Rightarrow>
             let c = c\<lparr>failuresCount := failuresCount c + 1\<rparr>
             in if cb_state c = CbClosed \<and> failuresCount c \<ge> openThreshold c then switchState CbOpened c else c)"

text \<open>The compare-and-swap of \<open>doHalfOpened\<close>: the flag tells whether the dial is let through.\<close>

definition doHalfOpened_enter :: "breaker \<Rightarrow> bool \<times> breaker" where
  "doHalfOpened_enter c =
     (let c = c\<lparr>entering := entering c - 1\<rparr>
      in if halfOpenAttempts c = 0 then (True, c\<lparr>halfOpenAttempts := 1, probes := probes c + 1\<rparr>) else (False, c))"

definition doHalfOpened_end :: "dial_outcome \<Rightarrow> breaker \<Rightarrow> breaker" where
  "doHalfOpened_end out c =
     (let c = c\<lparr>probes := probes c - 1\<rparr>
      in case out of
           CtxDone \<Rightarrow> c
         | _ \<Rightarrow> if cb_state c \<noteq> CbHalfOpened then c
                else if out = DialOk then switchState CbClosed c else switchState CbOpened c)"

definition resetFailures :: "breaker \<Rightarrow> breaker" where
  "resetFailures c =
     (let c = c\<lparr>lateResets := lateResets c - 1, failuresCleanupTimer := NoTimer\<rparr>
      in if cb_state c = CbClosed then switchState CbClosed c else c)"

definition tryHalfOpen :: "breaker \<Rightarrow> breaker" where
  "tryHalfOpen c =
     (let c = c\<lparr>lateTries := lateTries c - 1\<rparr>
      in if cb_state c = CbOpened then switchState CbHalfOpened c else c)"

subsection \<open>Interleavings\<close>

inductive timer_step :: "breaker \<Rightarrow> breaker \<Rightarrow> bool" where
  half_fires: "halfOpenTimer c = Running \<Longrightarrow> timer_step c (c\<lparr>halfOpenTimer := Fired, lateTries := lateTries c + 1\<rparr>)"
| cleanup_fires: "failuresCleanupTimer c = Running \<Longrightarrow>
    timer_step c (c\<lparr>failuresCleanupTimer := Fired, lateResets := lateResets c + 1\<rparr>)"
| tries: "0 < lateTries c \<Longrightarrow> timer_step c (tryHalfOpen c)"
| resets: "0 < lateResets c \<Longrightarrow> timer_step c (resetFailures c)"

inductive cb_step :: "breaker \<Rightarrow> breaker \<Rightarrow> bool" where
  dials: "cb_DialContext c = Some c' \<Longrightarrow> cb_step c c'"
| closed_ends: "0 < closedDials c \<Longrightarrow> cb_step c (doClosed_end out c)"
| enters: "0 < entering c \<Longrightarrow> cb_step c (snd (doHalfOpened_enter c))"
| probe_ends: "0 < probes c \<Longrightarrow> cb_step c (doHalfOpened_end out c)"
| timers: "timer_step c c' \<Longrightarrow> cb_step c c'"

inductive_cases timer_stepE: "timer_step c c'"
inductive_cases cb_stepE: "cb_step c c'"

subsection \<open>Invariant\<close>

definition cb_inv :: "breaker \<Rightarrow> bool" where
  "cb_inv c \<longleftrightarrow> (case cb_state c of
       CbClosed \<Rightarrow> (failuresCount c = 0 \<or> failuresCount c < openThreshold c) \<and> halfOpenTimer c = NoTimer \<and>
         (failuresCleanupTimer c = Running \<or> failuresCleanupTimer c = Fired \<and> 0 < lateResets c)
     | CbHalfOpened \<Rightarrow> halfOpenTimer c = NoTimer \<and> failuresCleanupTimer c = NoTimer
     | CbOpened \<Rightarrow> failuresCleanupTimer c = NoTimer \<and>
         (halfOpenTimer c = Running \<or> halfOpenTimer c = Fired \<and> 0 < lateTries c))"

lemmas cb_ops = switchState_def ensureTimer_def cb_DialContext_def doClosed_end_def doHalfOpened_enter_def doHalfOpened_end_def
  resetFailures_def tryHalfOpen_def Let_def

lemma switchState_inv: 
  "(st = CbClosed \<Longrightarrow> failuresCleanupTimer c \<noteq> Fired \<or> 0 < lateResets c) \<Longrightarrow>
   (st = CbOpened \<Longrightarrow> halfOpenTimer c \<noteq> Fired \<or> 0 < lateTries c) \<Longrightarrow> cb_inv (switchState st c)"
  by (cases st; cases "failuresCleanupTimer c"; cases "halfOpenTimer c") (simp_all add: cb_inv_def switchState_def ensureTimer_def)

lemma cb_inv_timer: "cb_inv c \<Longrightarrow> timer_step c c' \<Longrightarrow> cb_inv c'"
  by (erule timer_stepE; cases "cb_state c") (auto simp: cb_inv_def cb_ops)

lemma cb_inv_step: "cb_inv c \<Longrightarrow> cb_step c c' \<Longrightarrow> cb_inv c'"
proof (erule cb_stepE)
  show "cb_inv c \<Longrightarrow> cb_DialContext c = Some c' \<Longrightarrow> cb_inv c'"
    by (cases "cb_state c") (auto simp: cb_inv_def cb_ops)
  show "cb_inv c \<Longrightarrow> c' = doClosed_end out c \<Longrightarrow> cb_inv c'" for out
    by (cases "cb_state c"; cases out) (auto simp: cb_inv_def cb_ops)
  show "cb_inv c \<Longrightarrow> c' = snd (doHalfOpened_enter c) \<Longrightarrow> cb_inv c'"
    by (cases "cb_state c") (auto simp: cb_inv_def cb_ops)
  show "cb_inv c \<Longrightarrow> c' = doHalfOpened_end out c \<Longrightarrow> cb_inv c'" for out
    by (cases "cb_state c"; cases out) (auto simp: cb_inv_def cb_ops)
qed (rule cb_inv_timer)

interpretation cb: transition_system "newCircuitBreakerDialer n" cb_step cb_inv for n
  by unfold_locales (simp_all add: newCircuitBreakerDialer_def switchState_inv cb_inv_step)

subsection \<open>Properties\<close>

lemma timer_step_state:
  "timer_step c c' \<Longrightarrow> cb_state c' \<noteq> cb_state c \<Longrightarrow> cb_state c = CbOpened \<and> cb_state c' = CbHalfOpened \<and> halfOpenAttempts c' = 0"
  by (erule timer_stepE) (auto simp: cb_ops split: if_splits)

lemma doClosed_end_state:
  "cb_state (doClosed_end out c) \<noteq> cb_state c \<Longrightarrow>
     out = DialOk \<and> cb_state (doClosed_end out c) = CbClosed \<or>
     out = DialErr \<and> cb_state c = CbClosed \<and> cb_state (doClosed_end out c) = CbOpened \<and> failuresCount c + 1 \<ge> openThreshold c"
  by (cases out) (auto simp: cb_ops split: if_splits)

lemma doHalfOpened_end_state:
  "cb_state (doHalfOpened_end out c) \<noteq> cb_state c \<Longrightarrow>
     cb_state c = CbHalfOpened \<and> (out = DialOk \<and> cb_state (doHalfOpened_end out c) = CbClosed \<or>
       out = DialErr \<and> cb_state (doHalfOpened_end out c) = CbOpened)"
  by (cases out) (auto simp: cb_ops split: if_splits)

lemma open_recovers:
  assumes "cb_inv c" "cb_state c = CbOpened"
  shows "\<exists>c'. timer_step\<^sup>*\<^sup>* c c' \<and> cb_state c' = CbHalfOpened \<and> halfOpenAttempts c' = 0"
proof -
  obtain c1 where c1: "timer_step\<^sup>*\<^sup>* c c1" "0 < lateTries c1" "cb_state c1 = CbOpened"
  proof (cases "halfOpenTimer c = Running")
    case True
    then have "timer_step c (c\<lparr>halfOpenTimer := Fired, lateTries := lateTries c + 1\<rparr>)" by (rule timer_step.half_fires)
    then show ?thesis using assms(2) by (intro that [of "c\<lparr>halfOpenTimer := Fired, lateTries := lateTries c + 1\<rparr>"]) auto
  next
    case False
    then show ?thesis using assms by (intro that [of c]) (auto simp: cb_inv_def)
  qed
  have "timer_step c1 (tryHalfOpen c1)" using c1(2) by (rule timer_step.tries)
  then have "timer_step\<^sup>*\<^sup>* c (tryHalfOpen c1)" using c1(1) by simp
  then show ?thesis using c1(3) by (intro exI [of _ "tryHalfOpen c1"]) (simp add: cb_ops)
qed

text \<open>C32. The states of the circuit breaker, in every interleaving of dials, cancellations and
  timers: it opens only when a dial fails as the last of the allowed failures, or when the
  probe of the half-open state fails; it closes only when a dial succeeds; it becomes half-open
  only from the open state and by its timer. While it is closed fewer failures than the
  threshold are counted; while it is open every dial is refused, and its timer alone, whatever
  else happens or not, leads to a half-open state that lets a dial through.\<close>

theorem breaker_states:
  assumes "cb_step\<^sup>*\<^sup>* (newCircuitBreakerDialer n) c"
  shows "(cb_state c = CbClosed \<longrightarrow> failuresCount c = 0 \<or> failuresCount c < openThreshold c) \<and>
    (cb_state c = CbOpened \<longrightarrow> cb_DialContext c = None \<and>
       (\<exists>c'. timer_step\<^sup>*\<^sup>* c c' \<and> cb_state c' = CbHalfOpened \<and> halfOpenAttempts c' = 0)) \<and>
    (\<forall>c'. cb_step c c' \<longrightarrow> cb_state c' \<noteq> cb_state c \<longrightarrow> (case cb_state c' of
         CbOpened \<Rightarrow> c' = doClosed_end DialErr c \<and> cb_state c = CbClosed \<and> failuresCount c + 1 \<ge> openThreshold c \<or>
           c' = doHalfOpened_end DialErr c \<and> cb_state c = CbHalfOpened
       | CbClosed \<Rightarrow> c' = doClosed_end DialOk c \<or> c' = doHalfOpened_end DialOk c \<and> cb_state c = CbHalfOpened
       | CbHalfOpened \<Rightarrow> cb_state c = CbOpened \<and> timer_step c c'))"
proof -
  have inv: "cb_inv c" by (rule cb.reachable_inv [OF assms])
  have moves: "case cb_state c' of
         CbOpened \<Rightarrow> c' = doClosed_end DialErr c \<and> cb_state c = CbClosed \<and> failuresCount c + 1 \<ge> openThreshold c \<or>
           c' = doHalfOpened_end DialErr c \<and> cb_state c = CbHalfOpened
       | CbClosed \<Rightarrow> c' = doClosed_end DialOk c \<or> c' = doHalfOpened_end DialOk c \<and> cb_state c = CbHalfOpened
       | CbHalfOpened \<Rightarrow> cb_state c = CbOpened \<and> timer_step c c'" if "cb_step c c'" "cb_state c' \<noteq> cb_state c" for c'
    using that
  proof cases
    case dials
    then show ?thesis using that(2) by (auto simp: cb_DialContext_def split: cb_mode.splits)
  next
    case (closed_ends out)
    then show ?thesis using doClosed_end_state [of out c] that(2) by auto
  next
    case enters
    then show ?thesis using that(2) by (auto simp: doHalfOpened_enter_def Let_def split: if_splits)
  next
    case (probe_ends out)
    then show ?thesis using doHalfOpened_end_state [of out c] that(2) by auto
  next
    case timers
    then show ?thesis using timer_step_state [OF timers that(2)] by simp
  qed
  moreover have "cb_state c = CbOpened \<Longrightarrow> cb_DialContext c = None" by (simp add: cb_DialContext_def)
  moreover have "cb_state c = CbClosed \<Longrightarrow> failuresCount c = 0 \<or> failuresCount c < openThreshold c"
    using inv by (simp add: cb_inv_def)
  ultimately show ?thesis using open_recovers [OF inv] by blast
qed

definition blocked :: "breaker \<Rightarrow> bool" where
  "blocked c \<longleftrightarrow> cb_state c = CbHalfOpened \<and> halfOpenAttempts c \<noteq> 0 \<and> probes c = 0 \<and> closedDials c = 0 \<and>
     halfOpenTimer c = NoTimer \<and> failuresCleanupTimer c = NoTimer"

lemma blocked_step: "cb_step c c' \<Longrightarrow> blocked c \<Longrightarrow> blocked c'"
  by (erule cb_stepE; (erule timer_stepE)?) (auto simp: blocked_def cb_ops split: cb_mode.splits)

lemma blocked_steps: "cb_step\<^sup>*\<^sup>* c c' \<Longrightarrow> blocked c \<Longrightarrow> blocked c'"
  by (induction rule: rtranclp_induct) (auto intro: blocked_step)

text \<open>C38. A cancelled probe blocks the breaker for good: when the context of the only dial in flight
  ends while the breaker is half-open, the attempt stays counted and no timer is left, so that
  in all continuations the breaker remains half-open and refuses every dial.\<close>

theorem cancelled_probe_blocks:
  assumes "cb_step\<^sup>*\<^sup>* (newCircuitBreakerDialer n) c" "cb_state c = CbHalfOpened" "halfOpenAttempts c = 1" "probes c = 1"
    "closedDials c = 0" "cb_step\<^sup>*\<^sup>* (doHalfOpened_end CtxDone c) c'"
  shows "cb_state c' = CbHalfOpened \<and> probes c' = 0 \<and> \<not> fst (doHalfOpened_enter c')"
proof -
  have "cb_inv c" by (rule cb.reachable_inv [OF assms(1)])
  then have "blocked (doHalfOpened_end CtxDone c)"
    using assms(2-5) by (simp add: blocked_def doHalfOpened_end_def cb_inv_def)
  from blocked_steps [OF assms(6) this] show ?thesis by (simp add: blocked_def doHalfOpened_enter_def Let_def)
qed

subsection \<open>A run of the breaker\<close>

definition cb_run1 :: breaker where "cb_run1 = the (cb_DialContext (newCircuitBreakerDialer 1))"
definition cb_run2 :: breaker where "cb_run2 = doClosed_end DialErr cb_run1"
definition cb_run3 :: breaker where "cb_run3 = cb_run2\<lparr>halfOpenTimer := Fired, lateTries := lateTries cb_run2 + 1\<rparr>"
definition cb_run4 :: breaker where "cb_run4 = tryHalfOpen cb_run3"
definition cb_run5 :: breaker where "cb_run5 = the (cb_DialContext cb_run4)"
definition cb_run6 :: breaker where "cb_run6 = snd (doHalfOpened_enter cb_run5)"

lemmas cb_run_defs = cb_run1_def cb_run2_def cb_run3_def cb_run4_def cb_run5_def cb_run6_def newCircuitBreakerDialer_def cb_ops

lemma cb_run_reachable:
  "cb_step\<^sup>*\<^sup>* (newCircuitBreakerDialer 1) cb_run2" "cb_step\<^sup>*\<^sup>* (newCircuitBreakerDialer 1) cb_run6"
proof -
  have "cb_step (newCircuitBreakerDialer 1) cb_run1" by (rule cb_step.dials) (simp add: cb_run_defs)
  moreover have "cb_step cb_run1 cb_run2" unfolding cb_run2_def by (rule cb_step.closed_ends) (simp add: cb_run_defs)
  ultimately show two: "cb_step\<^sup>*\<^sup>* (newCircuitBreakerDialer 1) cb_run2" by simp
  have "cb_step cb_run2 cb_run3" unfolding cb_run3_def
    by (rule cb_step.timers, rule timer_step.half_fires) (simp add: cb_run_defs)
  moreover have "cb_step cb_run3 cb_run4" unfolding cb_run4_def
    by (rule cb_step.timers, rule timer_step.tries) (simp add: cb_run3_def)
  moreover have "cb_step cb_run4 cb_run5" by (rule cb_step.dials) (simp add: cb_run_defs)
  moreover have "cb_step cb_run5 cb_run6" unfolding cb_run6_def by (rule cb_step.enters) (simp add: cb_run_defs)
  ultimately show "cb_step\<^sup>*\<^sup>* (newCircuitBreakerDialer 1) cb_run6" using two by (meson rtranclp.rtrancl_into_rtrancl)
qed

theorem breaker_states_witness:
  "cb_DialContext cb_run2 = None \<and> (\<exists>c'. timer_step\<^sup>*\<^sup>* cb_run2 c' \<and> cb_state c' = CbHalfOpened)"
proof -
  have "cb_state cb_run2 = CbOpened" by (simp add: cb_run_defs)
  then show ?thesis using breaker_states [OF cb_run_reachable(1)] by blast
qed

theorem cancelled_probe_blocks_witness:
  "cb_state (doHalfOpened_end CtxDone cb_run6) = CbHalfOpened \<and> \<not> fst (doHalfOpened_enter (doHalfOpened_end CtxDone cb_run6))"
proof -
  have "cb_state cb_run6 = CbHalfOpened" "halfOpenAttempts cb_run6 = 1" "probes cb_run6 = 1" "closedDials cb_run6 = 0"
    by (simp_all add: cb_run_defs)
  from cancelled_probe_blocks [OF cb_run_reachable(2) this] show ?thesis by blast
qed

end
