(* ===== verification/NetDial.thy ===== *)
theory NetDial
  imports Telegram
begin

text \<open>
  The dialers above the circuit breaker: the load balancing SOCKS5 dialer
  (\<open>network/load_balanced_socks5.go\<close>), the network with its cached DNS-over-HTTPS lookups
  (\<open>network/network.go\<close>, \<open>dns_resolver.go\<close>) and the joined networks of
  \<open>network/v2/multi_network.go\<close>. Dialling, the lookups and random choices are arguments.
\<close>

subsection \<open>Load balancing\<close>

text \<open>The loop of \<open>DialContext\<close>: it starts at a random dialer and goes round once. \<open>None\<close> is a panic
  for an index out of range; otherwise the dialers tried and the connection, or the error.\<close>

definition lb_ahead :: "nat \<Rightarrow> nat \<Rightarrow> nat \<Rightarrow> nat" where
  "lb_ahead n start i = (if i \<le> start then start - i else start + n - i)"

lemma lb_ahead_next: "i < n \<Longrightarrow> start < n \<Longrightarrow> i \<noteq> start \<Longrightarrow> Suc (lb_ahead n start ((i + 1) mod n)) = lb_ahead n start i"
  by (cases "i + 1 = n") (auto simp: lb_ahead_def)

lemma lb_ahead_less: "i < n \<Longrightarrow> start < n \<Longrightarrow> lb_ahead n start i < n"
  by (auto simp: lb_ahead_def)

lemma next_index: "i < n \<Longrightarrow> Suc i mod n < (n :: nat)"
  by (cases n) simp_all

function lb_loop :: "('d \<Rightarrow> 'c option) \<Rightarrow> 'd list \<Rightarrow> nat \<Rightarrow> bool \<Rightarrow> nat \<Rightarrow> (nat list \<times> 'c option) option" where
  "lb_loop dial dialers start moved i =
     (if i = start \<and> moved then Some ([], None)
      else if \<not> (i < length dialers \<and> start < length dialers) then None
      else case dial (dialers ! i) of
          Some conn \<Rightarrow> Some ([i], Some conn)
        | None \<Rightarrow> map_option (\<lambda>(tried, c). (i # tried, c)) (lb_loop dial dialers start True ((i + 1) mod length dialers)))"
  by pat_completeness auto
termination
proof (relation "measure (\<lambda>(dial, dialers, start, moved, i).
    if moved then lb_ahead (length dialers) start i else length dialers)", goal_cases)
  case (2 dial dialers start moved i)
  then have i: "i < length dialers" "start < length dialers" and m: "i \<noteq> start \<or> \<not> moved" by auto
  have "lb_ahead (length dialers) start ((i + 1) mod length dialers) < length dialers"
    using i next_index [OF i(1)] by (intro lb_ahead_less) simp_all
  then show ?case using i m lb_ahead_next [OF i] by (cases moved) auto
qed simp

declare lb_loop.simps [simp del]

definition lb_DialContext :: "(nat \<Rightarrow> nat) \<Rightarrow> ('d \<Rightarrow> 'c option) \<Rightarrow> 'd list \<Rightarrow> (nat list \<times> 'c option) option" where
  "lb_DialContext draw dial dialers =
     (if dialers = [] then None else let start = draw (length dialers) in lb_loop dial dialers start False start)"

text \<open>The order in which the dialers are tried.\<close>

definition lb_order :: "nat \<Rightarrow> nat \<Rightarrow> nat list" where
  "lb_order n start = map (\<lambda>k. (start + k) mod n) [0..<n]"

fun first_working :: "('d \<Rightarrow> 'c option) \<Rightarrow> 'd list \<Rightarrow> nat list \<Rightarrow> nat list \<times> 'c option" where
  "first_working dial ds [] = ([], None)"
| "first_working dial ds (i # is) = (case dial (ds ! i) of
      Some c \<Rightarrow> ([i], Some c)
    | None \<Rightarrow> (case first_working dial ds is of (tried, c) \<Rightarrow> (i # tried, c)))"

lemma lb_loop_moved:
  assumes "i < length ds" "start < length ds"
  shows "lb_loop dial ds start True i =
    Some (first_working dial ds (map (\<lambda>k. (i + k) mod length ds) [0..<lb_ahead (length ds) start i]))"
  using assms(1)
proof (induction "lb_ahead (length ds) start i" arbitrary: i)
  case 0
  then have "i = start" using assms(2) by (auto simp: lb_ahead_def split: if_splits)
  then show ?case using 0 by (simp add: lb_loop.simps)
next
  case (Suc m)
  let ?n = "length ds" let ?j = "(i + 1) mod length ds"
  have ne: "i \<noteq> start" using Suc(2) by (auto simp: lb_ahead_def)
  have j: "?j < ?n" "lb_ahead ?n start ?j = m" using lb_ahead_next [OF Suc(3) assms(2) ne] Suc(2) next_index [OF Suc(3)] by simp_all
  have "map (\<lambda>k. (i + k) mod ?n) [0..<Suc m] = i # map (\<lambda>k. (?j + k) mod ?n) [0..<m]"
    using Suc(3) by (simp add: upt_conv_Cons map_Suc_upt [symmetric] mod_add_left_eq del: upt_Suc)
  then show ?case
    using Suc(1) [OF j(2) [symmetric] j(1)] Suc(2,3) ne assms(2) j(2)
    by (subst lb_loop.simps) (simp split: option.splits prod.splits del: upt_Suc)
qed

lemma lb_loop_order:
  assumes "start < length ds"
  shows "lb_loop dial ds start False start = Some (first_working dial ds (lb_order (length ds) start))"
proof -
  let ?n = "length ds" let ?j = "(start + 1) mod length ds"
  obtain m where m: "?n = Suc m" using assms by (cases ?n) auto
  have "lb_ahead ?n start ?j = m" using assms m by (cases "start + 1 = ?n") (auto simp: lb_ahead_def)
  moreover have "lb_order ?n start = start # map (\<lambda>k. (?j + k) mod ?n) [0..<m]"
    using assms unfolding lb_order_def m
    by (simp add: upt_conv_Cons map_Suc_upt [symmetric] mod_add_left_eq del: upt_Suc)
  ultimately show ?thesis
    using assms lb_loop_moved [of ?j ds start dial] next_index [OF assms]
    by (subst lb_loop.simps) (simp split: option.splits prod.splits del: upt_Suc)
qed
lemma first_working_props:
  "case first_working dial ds idx of (tried, c) \<Rightarrow> prefix tried idx \<and>
     (c = None \<longleftrightarrow> (\<forall>i \<in> set idx. dial (ds ! i) = None)) \<and> (c = None \<longrightarrow> tried = idx) \<and>
     (c \<noteq> None \<longrightarrow> tried \<noteq> [] \<and> c = dial (ds ! last tried) \<and> (\<forall>i \<in> set (butlast tried). dial (ds ! i) = None))"
  by (induction idx) (auto split: option.splits prod.splits)

lemma lb_order_props:
  assumes "start < n"
  shows "length (lb_order n start) = n \<and> hd (lb_order n start) = start \<and> distinct (lb_order n start) \<and> set (lb_order n start) = {0..<n}"
proof -
  have inj: "inj_on (\<lambda>k. (start + k) mod n) {0..<n}"
  proof (rule inj_onI)
    have wrap: "(start + k) mod n = (if start + k < n then start + k else start + k - n)" if "k < n" for k
      using that assms by (simp add: le_mod_geq)
    fix a b assume "a \<in> {0..<n}" "b \<in> {0..<n}" "(start + a) mod n = (start + b) mod n"
    then show "a = b" by (simp add: wrap split: if_splits)
  qed
  have "(\<lambda>k. (start + k) mod n) ` {0..<n} = {0..<n}"
    using assms inj by (intro endo_inj_surj) auto
  then show ?thesis using assms inj by (simp add: lb_order_def distinct_map hd_map)
qed
text \<open>C33. The load balancing dialer ends and misses nobody: whatever dialer it starts with, it goes
  round the circle, tries no dialer twice, hands out the connection of the first that works
  without trying any other, and gives up only when all of them have failed.\<close>

theorem lb_DialContext_round:
  assumes "dialers \<noteq> []" "draw (length dialers) < length dialers"
  shows "\<exists>tried c. lb_DialContext draw dial dialers = Some (tried, c) \<and> distinct tried \<and>
    prefix tried (map (\<lambda>k. (draw (length dialers) + k) mod length dialers) [0..<length dialers]) \<and>
    (c = None \<longleftrightarrow> (\<forall>d \<in> set dialers. dial d = None)) \<and> (c = None \<longrightarrow> set tried = {0..<length dialers}) \<and>
    (c \<noteq> None \<longrightarrow> tried \<noteq> [] \<and> c = dial (dialers ! last tried) \<and> (\<forall>i \<in> set (butlast tried). dial (dialers ! i) = None))"
proof -
  let ?o = "lb_order (length dialers) (draw (length dialers))"
  obtain tried c where fw: "first_working dial dialers ?o = (tried, c)" by fastforce
  have run: "lb_DialContext draw dial dialers = Some (tried, c)"
    using lb_loop_order [OF assms(2), of dial] assms(1) fw by (simp add: lb_DialContext_def Let_def)
  note ord = lb_order_props [OF assms(2)]
  have all: "(\<forall>i \<in> set ?o. dial (dialers ! i) = None) \<longleftrightarrow> (\<forall>d \<in> set dialers. dial d = None)"
    using ord by (auto simp: all_set_conv_all_nth)
  have "distinct tried" using ord first_working_props [where dial = dial and ds = dialers and idx = ?o] fw
    by (auto simp: prefix_def)
  then show ?thesis
    using run first_working_props [where dial = dial and ds = dialers and idx = ?o] fw all ord by (auto simp: lb_order_def [symmetric])
qed

definition sample_dial :: "nat \<Rightarrow> bool option" where
  "sample_dial d = (if d = 7 then Some True else None)"

theorem lb_DialContext_round_witness:
  "\<exists>tried. lb_DialContext (\<lambda>n. 1) sample_dial [7, 8, 9] = Some (tried, Some True) \<and> prefix tried [1, 2, 0]"
proof -
  have pre: "[7, 8, 9 :: nat] \<noteq> []" "(\<lambda>n. 1 :: nat) (length [7, 8, 9 :: nat]) < length [7, 8, 9 :: nat]" by simp_all
  have order: "map (\<lambda>k. ((\<lambda>n. 1 :: nat) (length [7, 8, 9 :: nat]) + k) mod length [7, 8, 9 :: nat]) [0..<length [7, 8, 9 :: nat]] = [1, 2, 0]"
    by code_simp
  have "\<not> (\<forall>d \<in> set [7, 8, 9]. sample_dial d = None)" by (simp add: sample_dial_def)
  moreover have "sample_dial d \<noteq> None \<Longrightarrow> sample_dial d = Some True" for d by (simp add: sample_dial_def split: if_splits)
  ultimately show ?thesis using lb_DialContext_round [OF pre, of sample_dial, unfolded order] by metis
qed

subsection \<open>Joined networks\<close>

text \<open>The errors are joined behind \<open>ErrCannotDial\<close>.\<close>

datatype 'e multi_error = ErrCannotDial "'e list"

fun multi_loop :: "('n \<Rightarrow> 'e + 'c) \<Rightarrow> 'n list \<Rightarrow> 'e list \<Rightarrow> 'e multi_error + 'c" where
  "multi_loop dial [] errs = Inl (ErrCannotDial errs)"
| "multi_loop dial (ntw # networks) errs = (case dial ntw of Inr conn \<Rightarrow> Inr conn | Inl e \<Rightarrow> multi_loop dial networks (errs @ [e]))"

definition multi_DialContext :: "('n list \<Rightarrow> 'n list) \<Rightarrow> ('n \<Rightarrow> 'e + 'c) \<Rightarrow> 'n list \<Rightarrow> 'e multi_error + 'c" where
  "multi_DialContext shuffle dial networks = multi_loop dial (if length networks > 1 then shuffle networks else networks) []"

definition multi_Join :: "'n list \<Rightarrow> 'n list option" where
  "multi_Join networks = (if networks = [] then None else Some networks)"

lemma multi_loop_props:
  "case multi_loop dial ns errs of
      Inr conn \<Rightarrow> \<exists>n \<in> set ns. dial n = Inr conn
    | Inl (ErrCannotDial es) \<Rightarrow> (\<forall>n \<in> set ns. \<exists>e. dial n = Inl e) \<and> map Inl es = map Inl errs @ map dial ns"
  by (induction dial ns errs rule: multi_loop.induct) (auto split: sum.splits multi_error.splits)

subsection \<open>Cached lookups\<close>

definition dnsResolverKeepTime :: duration where "dnsResolverKeepTime = 600000000000"

record dnsResolverCacheEntry =
  ce_ips :: "string list"
  createdAt :: go_time

definition entry_Ok :: "go_time \<Rightarrow> dnsResolverCacheEntry \<Rightarrow> bool" where
  "entry_Ok now c \<longleftrightarrow> max (- (2 ^ 63)) (min (2 ^ 63 - 1) (now - createdAt c)) < dnsResolverKeepTime"

type_synonym dns_cache = "(string, dnsResolverCacheEntry) gomap"

datatype family = FamA | FamAAAA

definition dns_key :: "family \<Rightarrow> string \<Rightarrow> string" where
  "dns_key f hostname = (case f of FamA \<Rightarrow> CHR 0x00 | FamAAAA \<Rightarrow> CHR 0x01) # hostname"

text \<open>\<open>LookupA\<close> and \<open>LookupAAAA\<close>, which differ in the key and the record type only. \<open>answer\<close> is what the
  resolver answers if it is asked (\<open>None\<close> for an error), \<open>now\<close> and \<open>now'\<close> the readings of the clock.\<close>

definition dns_hit :: "family \<Rightarrow> go_time \<Rightarrow> string \<Rightarrow> dns_cache \<Rightarrow> dnsResolverCacheEntry option" where
  "dns_hit f now hostname cache = (case gm_get cache (dns_key f hostname) of
       Some entry \<Rightarrow> if entry_Ok now entry then Some entry else None
     | None \<Rightarrow> None)"

definition dns_Lookup :: "family \<Rightarrow> go_time \<Rightarrow> go_time \<Rightarrow> string list option \<Rightarrow> string \<Rightarrow> dns_cache \<Rightarrow> string list \<times> dns_cache" where
  "dns_Lookup f now now' answer hostname cache = (case dns_hit f now hostname cache of
       Some entry \<Rightarrow> (ce_ips entry, cache)
     | None \<Rightarrow> (case answer of
           None \<Rightarrow> ([], cache)
         | Some ips \<Rightarrow> (ips, gm_put (dns_key f hostname) \<lparr>ce_ips = ips, createdAt = now'\<rparr> cache)))"

text \<open>\<open>asked\<close> is auxiliary: the questions the resolver has answered and when.\<close>

record dns_state =
  dns_cache_of :: dns_cache
  asked :: "(family \<times> string \<times> string list \<times> go_time) list"

inductive dns_step :: "dns_state \<Rightarrow> dns_state \<Rightarrow> bool" where
  lookup: "dns_Lookup f now now' answer hostname (dns_cache_of s) = (ips, cache) \<Longrightarrow>
    dns_step s (s\<lparr>dns_cache_of := cache,
      asked := asked s @ (if dns_hit f now hostname (dns_cache_of s) = None \<and> answer \<noteq> None then [(f, hostname, the answer, now')] else [])\<rparr>)"

definition dns_start :: dns_state where
  "dns_start = \<lparr>dns_cache_of = [], asked = []\<rparr>"

definition dns_inv :: "dns_state \<Rightarrow> bool" where
  "dns_inv s \<longleftrightarrow> (\<forall>f h e. gm_get (dns_cache_of s) (dns_key f h) = Some e \<longrightarrow> (f, h, ce_ips e, createdAt e) \<in> set (asked s))"

lemma dns_key_inj: "dns_key f h = dns_key f' h' \<longleftrightarrow> f = f' \<and> h = h'"
  by (cases f; cases f') (auto simp: dns_key_def)

interpretation dns: transition_system dns_start dns_step dns_inv
proof
  show "dns_inv dns_start" by (simp add: dns_inv_def dns_start_def)
  show "dns_inv t" if "dns_inv s" "dns_step s t" for s t
    using that(2,1)
    by cases (auto simp: dns_inv_def dns_Lookup_def dns_key_inj split: option.splits if_splits)
qed

text \<open>What a lookup returns: in every history of lookups, the addresses are either the answer to
  this very question or, without asking, an answer to the same question for the same address family
  that is less than ten minutes old; they are empty only if that answer was, or if the resolver
  failed. Errors are never cached.\<close>

lemma dns_Lookup_recent:
  assumes "dns_step\<^sup>*\<^sup>* dns_start s" "dns_Lookup f now now' answer hostname (dns_cache_of s) = (ips, cache)"
    "\<forall>e \<in> set (asked s). \<bar>now - snd (snd (snd e))\<bar> < 2 ^ 63"
  shows "(\<exists>t. (f, hostname, ips, t) \<in> set (asked s) \<and> now - t < dnsResolverKeepTime \<and> cache = dns_cache_of s) \<or>
    answer = Some ips \<and> gm_get cache (dns_key f hostname) = Some \<lparr>ce_ips = ips, createdAt = now'\<rparr> \<or>
    answer = None \<and> ips = [] \<and> cache = dns_cache_of s"
proof (cases "dns_hit f now hostname (dns_cache_of s)")
  case None
  then show ?thesis using assms(2) by (cases answer) (auto simp: dns_Lookup_def)
next
  case (Some e)
  then have e: "gm_get (dns_cache_of s) (dns_key f hostname) = Some e" "entry_Ok now e"
    by (auto simp: dns_hit_def split: option.splits if_splits)
  have logged: "(f, hostname, ce_ips e, createdAt e) \<in> set (asked s)"
    using dns.reachable_inv [OF assms(1)] e(1) by (simp add: dns_inv_def)
  then have "\<bar>now - createdAt e\<bar> < 2 ^ 63" using assms(3) by fastforce
  then have "now - createdAt e < dnsResolverKeepTime"
    using e(2) by (auto simp: entry_Ok_def min_def max_def split: if_splits)
  then show ?thesis using assms(2) Some logged by (auto simp: dns_Lookup_def)
qed

subsection \<open>Dialling by name\<close>

datatype net_error = CannotResolve | CannotDialTo "string option" | UnsupportedNetwork string

text \<open>The lookups run concurrently; \<open>a_first\<close> tells whose result is appended first.\<close>

definition dnsResolve ::
    "bool \<Rightarrow> (family \<Rightarrow> string \<Rightarrow> dns_cache \<Rightarrow> string list \<times> dns_cache) \<Rightarrow> string \<Rightarrow> string \<Rightarrow> dns_cache \<Rightarrow> (net_error + string list) \<times> dns_cache" where
  "dnsResolve a_first lookup protocol address cache =
     (if parseIP address \<noteq> None then (Inr [address], cache)
      else let (as, cache) = (if protocol \<in> {''tcp'', ''tcp4''} then lookup FamA address cache else ([], cache));
               (aaaas, cache) = (if protocol \<in> {''tcp'', ''tcp6''} then lookup FamAAAA address cache else ([], cache));
               ips = (if a_first then as @ aaaas else aaaas @ as)
           in if ips = [] then (Inl CannotResolve, cache) else (Inr ips, cache))"

fun net_loop :: "(string \<Rightarrow> string + 'c) \<Rightarrow> string \<Rightarrow> string list \<Rightarrow> string option \<Rightarrow> net_error + 'c" where
  "net_loop dial port [] err = Inl (CannotDialTo err)"
| "net_loop dial port (v # ips) err = (case dial (joinHostPort v port) of
      Inr conn \<Rightarrow> Inr conn
    | Inl e \<Rightarrow> net_loop dial port ips (Some e))"

definition net_DialContext ::
    "bool \<Rightarrow> (family \<Rightarrow> string \<Rightarrow> dns_cache \<Rightarrow> string list \<times> dns_cache) \<Rightarrow> (string list \<Rightarrow> string list) \<Rightarrow> (string \<Rightarrow> string + 'c)
      \<Rightarrow> string \<Rightarrow> string \<Rightarrow> dns_cache \<Rightarrow> (net_error + 'c) \<times> dns_cache" where
  "net_DialContext a_first lookup shuffle dial protocol address cache =
     (let (host, port) = (case splitHostPort address of Some hp \<Rightarrow> hp | None \<Rightarrow> ([], []))
      in case dnsResolve a_first lookup protocol host cache of
           (Inl e, cache) \<Rightarrow> (Inl e, cache)
         | (Inr ips, cache) \<Rightarrow> (net_loop dial port (shuffle ips) None, cache))"

subsection \<open>The second network\<close>

text \<open>\<open>network/v2\<close>: \<open>DialContext\<close> returns the connection together with the error of the socket options.\<close>

datatype 'e v2_error = V2Unsupported string | V2Dial 'e | V2Options 'e

definition v2_DialContext :: "(string \<Rightarrow> string \<Rightarrow> 'e + 'c) \<Rightarrow> ('c \<Rightarrow> 'e option) \<Rightarrow> string \<Rightarrow> string \<Rightarrow> 'c option \<times> 'e v2_error option" where
  "v2_DialContext dial setOptions network address =
     (if network \<notin> {''tcp'', ''tcp4'', ''tcp6''} then (None, Some (V2Unsupported network))
      else case dial network address of
          Inl e \<Rightarrow> (None, Some (V2Dial e))
        | Inr conn \<Rightarrow> (Some conn, map_option V2Options (setOptions conn)))"

lemma v2_DialContext_open_with_error:
  "dial ''tcp'' address = Inr conn \<Longrightarrow> setOptions conn = Some e \<Longrightarrow>
     v2_DialContext dial setOptions ''tcp'' address = (Some conn, Some (V2Options e))"
  by (simp add: v2_DialContext_def)

lemma net_loop_props:
  "case net_loop dial port ips err of
      Inr conn \<Rightarrow> \<exists>v \<in> set ips. dial (joinHostPort v port) = Inr conn
    | Inl e \<Rightarrow> (\<forall>v \<in> set ips. \<exists>x. dial (joinHostPort v port) = Inl x) \<and>
        e = CannotDialTo (if ips = [] then err else Some (projl (dial (joinHostPort (last ips) port))))"
  by (induction dial port ips err rule: net_loop.induct) (auto split: sum.splits)
end
