(* ===== verification/Serve.thy ===== *)
theory Serve
  imports TelegramCall
begin

text \<open>
  How a proxy is built and fed: the options (\<open>mtglib/proxy_opts.go\<close>), \<open>NewProxy\<close> and the accept
  loop of \<open>mtglib/proxy.go\<close> and \<open>accept.go\<close>, with the retry policy of \<open>internal/acceptretry\<close> and the
  throttled log line of \<open>internal/logthrottle\<close>. The lemmas show that a new proxy is in the state
  the other theories start from, and what happens to every connection that is accepted.
\<close>

subsection \<open>Options\<close>

text \<open>\<open>Some ()\<close> stands for a collaborator that is set; the options that only reach the network, the
  logger or the API server are left out.\<close>

record proxyOpts =
  po_Network :: "unit option"
  po_AntiReplayCache :: "unit option"
  po_IPBlocklist :: "unit option"
  po_IPAllowlist :: "unit option"
  po_EventStream :: "unit option"
  po_Logger :: "unit option"
  po_Secret :: secret
  po_Secrets :: "(string, secret) gomap"
  po_SecretAdTags :: "(string, ad_tag) gomap"
  po_GlobalAdTag :: "ad_tag option"
  po_SecretLimits :: "(string, secret_limits) gomap"
  po_Concurrency :: nat
  po_IdleTimeout :: duration
  po_HandshakeTimeout :: duration
  po_TolerateTimeSkewness :: duration
  po_PreferIP :: string
  po_DomainFrontingPort :: nat
  po_DomainFrontingHost :: string
  po_DomainFrontingProxyProtocol :: bool
  po_AllowFallbackOnUnknownDC :: bool
  po_EmitTraffic :: bool
  po_PublicIPv4 :: ip
  po_PublicIPv6 :: ip
  po_AdvertisedPort :: int
  po_PendingHandshakesPerIP :: nat
  po_PendingHandshakesDryRun :: bool
  po_UsageStateFile :: string
  po_ThrottleMaxConnections :: nat
  po_ThrottleCheckInterval :: duration

datatype opts_error =
    ErrNetworkIsNotDefined
  | ErrAntiReplayCacheIsNotDefined
  | ErrIPBlocklistIsNotDefined
  | ErrIPAllowlistIsNotDefined
  | ErrEventStreamIsNotDefined
  | ErrLoggerIsNotDefined
  | ErrOptsSecretInvalid

definition getSecrets :: "proxyOpts \<Rightarrow> (string, secret) gomap" where
  "getSecrets p =
     (if po_Secrets p \<noteq> [] then po_Secrets p
      else if secret_Valid (po_Secret p) then [(''default'', po_Secret p)] else [])"

definition opts_valid :: "proxyOpts \<Rightarrow> opts_error option" where
  "opts_valid p =
     (if po_Network p = None then Some ErrNetworkIsNotDefined
      else if po_AntiReplayCache p = None then Some ErrAntiReplayCacheIsNotDefined
      else if po_IPBlocklist p = None then Some ErrIPBlocklistIsNotDefined
      else if po_IPAllowlist p = None then Some ErrIPAllowlistIsNotDefined
      else if po_EventStream p = None then Some ErrEventStreamIsNotDefined
      else if po_Logger p = None then Some ErrLoggerIsNotDefined
      else if getSecrets p = [] then Some ErrOptsSecretInvalid
      else if \<exists>(n, s) \<in> set (getSecrets p). \<not> secret_Valid s then Some ErrOptsSecretInvalid
      else None)"

definition getConcurrency :: "proxyOpts \<Rightarrow> nat" where
  "getConcurrency p = (if po_Concurrency p = 0 then 4096 else po_Concurrency p)"

definition getDomainFrontingPort :: "proxyOpts \<Rightarrow> nat" where
  "getDomainFrontingPort p = (if po_DomainFrontingPort p = 0 then 443 else po_DomainFrontingPort p)"

definition getTolerateTimeSkewness :: "proxyOpts \<Rightarrow> duration" where
  "getTolerateTimeSkewness p = (if po_TolerateTimeSkewness p = 0 then 3000000000 else po_TolerateTimeSkewness p)"

definition getPreferIP :: "proxyOpts \<Rightarrow> string" where
  "getPreferIP p = (if po_PreferIP p = [] then ''prefer-ipv6'' else po_PreferIP p)"

definition getHandshakeTimeout :: "proxyOpts \<Rightarrow> duration" where
  "getHandshakeTimeout p = (if po_HandshakeTimeout p = 0 then 10000000000 else po_HandshakeTimeout p)"

definition getIdleTimeout :: "proxyOpts \<Rightarrow> duration" where
  "getIdleTimeout p = (if po_IdleTimeout p = 0 then 300000000000 else po_IdleTimeout p)"

definition getThrottleCheckInterval :: "proxyOpts \<Rightarrow> duration" where
  "getThrottleCheckInterval p = (if po_ThrottleCheckInterval p = 0 then 5000000000 else po_ThrottleCheckInterval p)"

subsection \<open>A new proxy\<close>

datatype new_error = InvalidSettings opts_error | CannotBuildTelegram

text \<open>What \<open>NewProxy\<close> builds, with the parts of the other theories as its components.\<close>

record instance_state =
  in_proxy :: proxy
  in_call :: call_opts
  in_serve :: serve_opts
  in_telegram :: telegram
  in_manager :: manager
  in_warm :: bool
  in_tolerance :: duration
  in_idle :: duration
  in_handshake :: duration
  in_concurrency :: nat

text \<open>\<open>uni\<close>, \<open>unmarshal\<close>, \<open>file\<close> and \<open>zone\<close> are the case table, the JSON decoder, the content of the usage
  file and the local time zone.\<close>

definition NewProxy ::
    "(string \<Rightarrow> string) \<Rightarrow> (bytes \<Rightarrow> (string, usageRecord) gomap option) \<Rightarrow> file_read \<Rightarrow> zone \<Rightarrow> go_time \<Rightarrow> proxyOpts
      \<Rightarrow> new_error + instance_state" where
  "NewProxy uni unmarshal file zone now opts = (case opts_valid opts of
       Some e \<Rightarrow> Inl (InvalidSettings e)
     | None \<Rightarrow>
         (case telegram_New uni (getPreferIP opts) of
            None \<Rightarrow> Inl CannotBuildTelegram
          | Some tg \<Rightarrow>
              let initialSet = buildSecretSet (getSecrets opts) (po_SecretAdTags opts) (po_GlobalAdTag opts) (po_SecretLimits opts);
                  st = fold PreRegister (ss_names initialSet) (NewProxyStats now);
                  st = (if po_UsageStateFile opts \<noteq> [] then snd (LoadUsage unmarshal file st) else st);
                  st = (if po_ThrottleMaxConnections opts > 0
                        then SetThrottle (i64 (int (po_ThrottleMaxConnections opts))) (getThrottleCheckInterval opts) st else st)
              in Inr \<lparr>in_proxy = \<lparr>secrets = initialSet, stats = st, liveConns = [], closed = []\<rparr>,
                      in_call = \<lparr>allowFallbackOnUnknownDC = po_AllowFallbackOnUnknownDC opts, emitTraffic = po_EmitTraffic opts,
                                 ourIPv4 = po_PublicIPv4 opts, ourIPv6 = po_PublicIPv6 opts, advertisedPort = po_AdvertisedPort opts,
                                 domainFrontingHost = po_DomainFrontingHost opts, domainFrontingPort = int (getDomainFrontingPort opts),
                                 domainFrontingProxyProtocol = po_DomainFrontingProxyProtocol opts\<rparr>,
                      in_serve = \<lparr>pendingHandshakesPerIP = word_of_nat (min (po_PendingHandshakesPerIP opts) 4294967295),
                                  pendingHandshakesDryRun = po_PendingHandshakesDryRun opts, zoneInfo = zone\<rparr>,
                      in_telegram = tg,
                      in_manager = NewManager (getPreferIP opts),
                      in_warm = (po_GlobalAdTag opts \<noteq> None \<or> po_SecretAdTags opts \<noteq> []),
                      in_tolerance = getTolerateTimeSkewness opts, in_idle = getIdleTimeout opts,
                      in_handshake = getHandshakeTimeout opts, in_concurrency = getConcurrency opts\<rparr>))"

subsection \<open>Accepting connections\<close>

definition MinDelay :: duration where "MinDelay = 5000000"
definition MaxDelay :: duration where "MaxDelay = 1000000000"

datatype errno = EMFILE | ENFILE | ENOBUFS | ENOMEM | ECONNABORTED | ECONNRESET | OtherErrno nat

text \<open>What \<open>errors.Is\<close> and \<open>errors.As\<close> find in an error of \<open>Accept\<close>.\<close>

record accept_error =
  is_closed :: bool
  is_timeout :: bool
  errno_of :: "errno option"

definition IsTemporary :: "accept_error option \<Rightarrow> bool" where
  "IsTemporary err = (case err of
       None \<Rightarrow> False
     | Some e \<Rightarrow>
         if is_closed e then False
         else if is_timeout e then True
         else errno_of e \<in> Some ` {EMFILE, ENFILE, ENOBUFS, ENOMEM, ECONNABORTED, ECONNRESET})"

definition NextDelay :: "duration \<Rightarrow> duration" where
  "NextDelay previous = (if previous = 0 then MinDelay else min (i64 (previous * 2)) MaxDelay)"

text \<open>One call of \<open>Accept\<close>: its result, whether the context is over when it returns, and whether it
  ends during the pause that may follow.\<close>

record 'c accept_call =
  ac_result :: "accept_error + 'c"
  ac_over :: bool
  ac_overInPause :: bool

datatype 'c accepted = Conn 'c | AcceptFailed accept_error | ContextOver

text \<open>The loop of \<open>acceptWithRetry\<close> over the calls to come: its result, the pauses it made and the calls
  left; \<open>None\<close> when it still waits for a connection.\<close>

fun acceptWithRetry :: "duration \<Rightarrow> 'c accept_call list \<Rightarrow> ('c accepted \<times> 'c accept_call list) option \<times> duration list" where
  "acceptWithRetry delay [] = (None, [])"
| "acceptWithRetry delay (a # as) = (case ac_result a of
      Inr conn \<Rightarrow> (Some (Conn conn, as), [])
    | Inl e \<Rightarrow>
        if ac_over a \<or> \<not> IsTemporary (Some e) then (Some (AcceptFailed e, as), [])
        else let delay = NextDelay delay
             in if ac_overInPause a then (Some (ContextOver, as), [delay])
                else case acceptWithRetry delay as of (r, ds) \<Rightarrow> (r, delay # ds))"

text \<open>The answer of the worker pool to \<open>Invoke\<close>, and what \<open>Serve\<close> did with a connection.\<close>

datatype pool_answer = PoolTook | PoolClosed | PoolOverload | PoolOther

datatype fate = Handed | AllowlistRejected | BlocklistRejected | ConcurrencyLimited | Dropped

datatype serve_result = ServeReturned | ServeFailed accept_error | ServeWaiting

definition handle_conn :: "(ip \<Rightarrow> bool) \<Rightarrow> (ip \<Rightarrow> bool) \<Rightarrow> pool_answer \<Rightarrow> ip \<Rightarrow> fate \<times> bool" where
  "handle_conn allowlist blocklist answer ipAddr =
     (if \<not> allowlist ipAddr then (AllowlistRejected, True)
      else if blocklist ipAddr then (BlocklistRejected, True)
      else case answer of
          PoolTook \<Rightarrow> (Handed, True)
        | PoolClosed \<Rightarrow> (Dropped, False)
        | PoolOverload \<Rightarrow> (ConcurrencyLimited, True)
        | PoolOther \<Rightarrow> (Dropped, True))"

lemma acceptWithRetry_shrinks: "acceptWithRetry d as = (Some (r, as'), ds) \<Longrightarrow> length as' < length as"
proof (induction d as arbitrary: ds rule: acceptWithRetry.induct)
  case (2 d a as)
  then show ?case by (auto simp: Let_def split: sum.splits if_splits prod.splits) fastforce
qed simp

text \<open>\<open>Serve\<close>: the connections it took with their fates, and how it ended. The lists are updated and the pool fills
  up while it runs: what they answer depends on the moment, counted by the calls still to come, and each connection
  is recorded with the moment it was handled at. \<open>over e\<close> tells whether the context is over when the error \<open>e\<close> comes back.\<close>

function serve_loop ::
    "(nat \<Rightarrow> ip \<Rightarrow> bool) \<Rightarrow> (nat \<Rightarrow> ip \<Rightarrow> bool) \<Rightarrow> (nat \<Rightarrow> pool_answer) \<Rightarrow> (accept_error \<Rightarrow> bool) \<Rightarrow> ip accept_call list \<Rightarrow>
     ((nat \<times> ip) \<times> fate) list \<times> serve_result" where
  "serve_loop allowlist blocklist answer over as = (case acceptWithRetry 0 as of
      (None, _) \<Rightarrow> ([], ServeWaiting)
    | (Some (ContextOver, _), _) \<Rightarrow> ([], ServeReturned)
    | (Some (AcceptFailed e, _), _) \<Rightarrow> ([], if over e then ServeReturned else ServeFailed e)
    | (Some (Conn ipAddr, as'), _) \<Rightarrow>
        let now = length as'
        in (case handle_conn (allowlist now) (blocklist now) (answer now) ipAddr of
              (f, go) \<Rightarrow> if \<not> go then ([((now, ipAddr), f)], ServeReturned)
                         else case serve_loop allowlist blocklist answer over as' of (fs, r) \<Rightarrow> (((now, ipAddr), f) # fs, r)))"
  by pat_completeness auto
termination
  by (relation "measure (\<lambda>(_, _, _, _, as). length as)") (auto dest: acceptWithRetry_shrinks [OF sym])

declare serve_loop.simps [simp del]

subsection \<open>The throttled log line\<close>

record throttle =
  th_interval :: duration
  th_last :: "go_time option"
  th_suppressed :: int

definition throttle_New :: "duration \<Rightarrow> throttle" where
  "throttle_New interval = \<lparr>th_interval = interval, th_last = None, th_suppressed = 0\<rparr>"

definition throttle_Allow :: "go_time \<Rightarrow> throttle \<Rightarrow> (bool \<times> int) \<times> throttle" where
  "throttle_Allow now t =
     (case th_last t of
        Some l \<Rightarrow> if max (- (2 ^ 63)) (min (2 ^ 63 - 1) (now - l)) < th_interval t
                  then ((False, 0), t\<lparr>th_suppressed := i64 (th_suppressed t + 1)\<rparr>)
                  else ((True, th_suppressed t), t\<lparr>th_last := Some now, th_suppressed := 0\<rparr>)
      | None \<Rightarrow> ((True, th_suppressed t), t\<lparr>th_last := Some now, th_suppressed := 0\<rparr>))"

fun throttle_run :: "go_time list \<Rightarrow> throttle \<Rightarrow> (bool \<times> int) list \<times> throttle" where
  "throttle_run [] t = ([], t)"
| "throttle_run (now # ns) t = (let (r, t) = throttle_Allow now t; (rs, t) = throttle_run ns t in (r # rs, t))"


subsection \<open>A new proxy is well-formed\<close>

lemma counters_kept_restore:
  "counters_kept st (fold restore_record rs st) \<and> (gm_ok (users st) \<longrightarrow> gm_ok (users (fold restore_record rs st)))"
proof (induction rs arbitrary: st)
  case (Cons r rs)
  have "counters_kept st (restore_record r st)"
    unfolding restore_record_def by (rule counters_kept_with_stats) (simp add: same_counters_def)
  moreover have "gm_ok (users st) \<longrightarrow> gm_ok (users (restore_record r st))" by (simp add: restore_record_def)
  ultimately show ?case using Cons.IH [of "restore_record r st"] counters_kept_trans by auto
qed simp

lemma counters_kept_LoadUsage:
  "counters_kept st (snd (LoadUsage unmarshal file st)) \<and> (gm_ok (users st) \<longrightarrow> gm_ok (users (snd (LoadUsage unmarshal file st))))"
  using counters_kept_restore by (auto simp: LoadUsage_def split: file_read.splits option.splits)

definition initial_stats :: "(bytes \<Rightarrow> (string, usageRecord) gomap option) \<Rightarrow> file_read \<Rightarrow> go_time \<Rightarrow> proxyOpts \<Rightarrow> proxyStats" where
  "initial_stats unmarshal file now opts =
     (let st = fold PreRegister (sort (gm_keys (getSecrets opts))) (NewProxyStats now);
          st = (if po_UsageStateFile opts \<noteq> [] then snd (LoadUsage unmarshal file st) else st)
      in if po_ThrottleMaxConnections opts > 0
         then SetThrottle (i64 (int (po_ThrottleMaxConnections opts))) (getThrottleCheckInterval opts) st else st)"

lemma initial_stats_ok:
  "gm_ok (users (initial_stats um file now opts)) \<and> set (gm_keys (getSecrets opts)) \<subseteq> dom (gm_get (users (initial_stats um file now opts))) \<and>
   connections (gm_get0 zero_stats (users (initial_stats um file now opts)) n) = 0"
proof -
  let ?names = "sort (gm_keys (getSecrets opts))"
  define st where "st = fold PreRegister ?names (NewProxyStats now)"
  define st' where "st' = (if po_UsageStateFile opts \<noteq> [] then snd (LoadUsage um file st) else st)"
  have st: "counters_kept (NewProxyStats now) st" "set (gm_keys (getSecrets opts)) \<subseteq> dom (gm_get (users st))" "gm_ok (users st)"
    using fold_PreRegister [of "NewProxyStats now" ?names] by (simp_all add: st_def NewProxyStats_def)
  moreover have st': "counters_kept st st'" "gm_ok (users st')" using counters_kept_LoadUsage [of st um "file"] st(3) by (auto simp: st'_def)
  ultimately have "counters_kept (NewProxyStats now) st'" using counters_kept_trans by blast
  then have "connections (gm_get0 zero_stats (users st') n) = 0"
    by (simp add: counters_kept_def same_counters_def NewProxyStats_def gm_get0_def [of _ "[]"] zero_stats_def)
  moreover have "users (initial_stats um file now opts) = users st'"
    by (simp add: initial_stats_def st'_def st_def SetThrottle_def Let_def)
  ultimately show ?thesis using st st' counters_kept_dom [OF st'(1)] by auto
qed

lemma getSecrets_ok: "gm_ok (po_Secrets opts) \<Longrightarrow> gm_ok (getSecrets opts)"
  by (simp add: getSecrets_def)

lemma gm_get0_in: "n \<in> set (gm_keys m) \<Longrightarrow> (n, gm_get0 z m n) \<in> set m"
  by (induction m) (auto simp: gm_get0_def)

lemma opts_valid_None:
  assumes "gm_ok (po_Secrets opts)" "opts_valid opts = None"
  shows "getSecrets opts \<noteq> [] \<and> (\<forall>n \<in> set (gm_keys (getSecrets opts)). secret_Valid (gm_get0 empty_secret (getSecrets opts) n))"
proof -
  have s: "getSecrets opts \<noteq> []" "\<forall>(n, x) \<in> set (getSecrets opts). secret_Valid x"
    using assms(2) by (auto simp: opts_valid_def split: if_splits)
  moreover have "secret_Valid (gm_get0 empty_secret (getSecrets opts) n)" if "n \<in> set (gm_keys (getSecrets opts))" for n
    using s(2) gm_get0_in [OF that, of empty_secret] by fast
  ultimately show ?thesis by blast
qed

lemma NewProxy_built:
  assumes "gm_ok (po_Secrets opts)" "NewProxy uni unmarshal file zone now opts = Inr inst"
  shows "opts_valid opts = None \<and> preference_of (toLower uni (getPreferIP opts)) = Some (tg_preferIP (in_telegram inst)) \<and>
    public_ok (publicConfigs (in_telegram inst)) \<and> mgr_inv (getPreferIP opts) (in_manager inst) \<and>
    world_ok (in_proxy inst) \<and> ss_names (secrets (in_proxy inst)) = sort (gm_keys (getSecrets opts)) \<and>
    0 < in_concurrency inst \<and> 0 < domainFrontingPort (in_call inst) \<and>
    (\<forall>w. (serve_step (in_serve inst))\<^sup>*\<^sup>* (initial_world (in_proxy inst)) w \<longrightarrow> world_inv w)"
proof -
  obtain tg where v: "opts_valid opts = None" "telegram_New uni (getPreferIP opts) = Some tg"
    using assms(2) by (auto simp: NewProxy_def split: option.splits)
  define set0 where "set0 = buildSecretSet (getSecrets opts) (po_SecretAdTags opts) (po_GlobalAdTag opts) (po_SecretLimits opts)"
  have parts: "in_proxy inst = \<lparr>secrets = set0, stats = initial_stats unmarshal file now opts, liveConns = [], closed = []\<rparr>"
      "in_telegram inst = tg" "in_manager inst = NewManager (getPreferIP opts)" "0 < in_concurrency inst" "0 < domainFrontingPort (in_call inst)"
    using assms(2) v by (auto simp: NewProxy_def set0_def initial_stats_def Let_def getConcurrency_def getDomainFrontingPort_def split: if_splits)
  have tg: "preference_of (toLower uni (getPreferIP opts)) = Some (tg_preferIP tg)" "public_ok (publicConfigs tg)"
    using v(2) by (auto simp: telegram_New_eq public_ok_def addrs_of_def)
  have wf: "wf_secret_set set0" unfolding set0_def by (rule wf_buildSecretSet) (rule getSecrets_ok [OF assms(1)])
  have names: "ss_names set0 = sort (gm_keys (getSecrets opts))" by (simp add: set0_def)
  have "length (ss_names set0) = length (getSecrets opts)" by (simp add: set0_def)
  then have "\<forall>s \<in> set (ss_secrets set0). secret_Valid s" "ss_names set0 \<noteq> []"
    using opts_valid_None [OF assms(1) v(1)] by (auto simp: set0_def simp del: buildSecretSet_sel(1))
  then have "world_ok (in_proxy inst)"
    using wf initial_stats_ok [of unmarshal "file" now opts] by (simp add: world_ok_def proxy_ok_def parts(1) names)
  moreover from this have "world_inv w" if "(serve_step (in_serve inst))\<^sup>*\<^sup>* (initial_world (in_proxy inst)) w" for w
    using serve.reachable_inv [OF that] by simp
  moreover have "mgr_inv (getPreferIP opts) (in_manager inst)" unfolding parts(3) by (rule mgr.inv_start)
  ultimately show ?thesis using v(1) tg parts names by simp
qed

text \<open>\<open>NewProxy\<close> either reports what is missing or builds a proxy that every other result applies to: it
  fails exactly for the first collaborator that is not set, for secrets that are missing or invalid, or for
  an unknown IP preference; otherwise the snapshot is well-formed, all secrets are registered, no
  connection is counted whatever the usage file contains, the limits are positive, and along every run of
  the streams from there the counters and the registry are exact.\<close>

lemma NewProxy_establishes:
  assumes "gm_ok (po_Secrets opts)"
  shows "case NewProxy uni unmarshal file zone now opts of
      Inl (InvalidSettings e) \<Rightarrow> opts_valid opts = Some e
    | Inl CannotBuildTelegram \<Rightarrow> opts_valid opts = None \<and> preference_of (toLower uni (getPreferIP opts)) = None
    | Inr inst \<Rightarrow> opts_valid opts = None \<and> preference_of (toLower uni (getPreferIP opts)) = Some (tg_preferIP (in_telegram inst)) \<and>
        public_ok (publicConfigs (in_telegram inst)) \<and> mgr_inv (getPreferIP opts) (in_manager inst) \<and>
        world_ok (in_proxy inst) \<and> ss_names (secrets (in_proxy inst)) = sort (gm_keys (getSecrets opts)) \<and>
        0 < in_concurrency inst \<and> 0 < domainFrontingPort (in_call inst) \<and>
        (\<forall>w. (serve_step (in_serve inst))\<^sup>*\<^sup>* (initial_world (in_proxy inst)) w \<longrightarrow> world_inv w)"
proof (cases "NewProxy uni unmarshal file zone now opts")
  case (Inl e)
  then show ?thesis
    by (cases e) (auto simp: NewProxy_def telegram_New_eq Let_def split: option.splits)
next
  case (Inr inst)
  with NewProxy_built [OF assms Inr] show ?thesis by simp
qed

subsection \<open>The accept loop\<close>

lemma NextDelay_bounds: "0 \<le> d \<Longrightarrow> d \<le> MaxDelay \<Longrightarrow> d = 0 \<or> MinDelay \<le> d \<Longrightarrow> MinDelay \<le> NextDelay d \<and> NextDelay d \<le> MaxDelay"
  by (auto simp: NextDelay_def MinDelay_def MaxDelay_def in_i64_def min_def)

lemma acceptWithRetry_pauses:
  "0 \<le> d \<Longrightarrow> d \<le> MaxDelay \<Longrightarrow> d = 0 \<or> MinDelay \<le> d \<Longrightarrow> list_all (\<lambda>x. MinDelay \<le> x \<and> x \<le> MaxDelay) (snd (acceptWithRetry d as))"
proof (induction d as rule: acceptWithRetry.induct)
  case (2 d a as)
  have "MinDelay \<le> NextDelay d \<and> NextDelay d \<le> MaxDelay" using NextDelay_bounds 2(2-4) by blast
  moreover have "0 \<le> MinDelay" by (simp add: MinDelay_def)
  ultimately show ?case using 2(1) by (auto simp: Let_def split: sum.splits prod.splits)
qed simp

definition survivable :: "'c accept_call \<Rightarrow> bool" where
  "survivable a \<longleftrightarrow> (case ac_result a of Inr _ \<Rightarrow> True | Inl e \<Rightarrow> IsTemporary (Some e) \<and> \<not> ac_over a \<and> \<not> ac_overInPause a)"

text \<open>The connections that arrive, each with the number of calls still to come.\<close>

fun arrivals :: "'c accept_call list \<Rightarrow> (nat \<times> 'c) list" where
  "arrivals [] = []"
| "arrivals (a # as) = (case ac_result a of Inr c \<Rightarrow> (length as, c) # arrivals as | Inl _ \<Rightarrow> arrivals as)"

lemma acceptWithRetry_arrivals:
  "case fst (acceptWithRetry d as) of
      None \<Rightarrow> arrivals as = []
    | Some (Conn c, as') \<Rightarrow> arrivals as = (length as', c) # arrivals as' \<and> (list_all survivable as \<longrightarrow> list_all survivable as')
    | Some (_, as') \<Rightarrow> \<not> list_all survivable as"
proof (induction d as rule: acceptWithRetry.induct)
  case (2 d a as)
  then show ?case
    by (auto simp: survivable_def Let_def split: sum.splits option.splits prod.splits accepted.splits) blast+
qed simp

definition pool_open :: "(nat \<Rightarrow> pool_answer) \<Rightarrow> nat \<Rightarrow> bool" where
  "pool_open answer n \<longleftrightarrow> (\<forall>k < n. answer k \<noteq> PoolClosed)"

definition fate_ok :: "(nat \<Rightarrow> ip \<Rightarrow> bool) \<Rightarrow> (nat \<Rightarrow> ip \<Rightarrow> bool) \<Rightarrow> (nat \<times> ip) \<times> fate \<Rightarrow> bool" where
  "fate_ok allow block cf \<longleftrightarrow> (case cf of ((n, c), f) \<Rightarrow>
     (f = AllowlistRejected \<longleftrightarrow> \<not> allow n c) \<and> (f = BlocklistRejected \<longleftrightarrow> allow n c \<and> block n c))"

lemma handle_conn_fate:
  "fate_ok allow block ((n, c), fst (handle_conn (allow n) (block n) ans c)) \<and> (snd (handle_conn (allow n) (block n) ans c) \<or> ans = PoolClosed)"
  by (cases ans) (auto simp: fate_ok_def handle_conn_def)

lemma serve_loop_fates:
  "serve_loop allow block answer over as = (fs, r) \<Longrightarrow> prefix (map fst fs) (arrivals as) \<and> list_all (fate_ok allow block) fs \<and>
     (list_all survivable as \<longrightarrow> pool_open answer (length as) \<longrightarrow> map fst fs = arrivals as \<and> r = ServeWaiting)"
proof (induction as arbitrary: fs r rule: length_induct)
  case (1 as)
  obtain out ds where acc: "acceptWithRetry 0 as = (out, ds)" by fastforce
  note arr = acceptWithRetry_arrivals [where d = 0 and as = as, unfolded acc fst_conv]
  show ?case
  proof (cases out)
    case None
    then show ?thesis using 1(2) acc arr by (subst (asm) serve_loop.simps) simp
  next
    case (Some ra)
    obtain res as' where ra: "ra = (res, as')" by (cases ra)
    show ?thesis
    proof (cases res)
      case (Conn c)
      have short: "length as' < length as" using acceptWithRetry_shrinks [where d = 0 and as = as] acc Some ra by simp
      let ?n = "length as'"
      obtain f go where h: "handle_conn (allow ?n) (block ?n) (answer ?n) c = (f, go)" by fastforce
      obtain gs r' where rest: "serve_loop allow block answer over as' = (gs, r')" by fastforce
      have run: "(fs, r) = (if go then (((?n, c), f) # gs, r') else ([((?n, c), f)], ServeReturned))"
        using 1(2) acc Some ra Conn h rest by (subst (asm) serve_loop.simps) (auto simp: Let_def split: if_splits)
      have ih: "prefix (map fst gs) (arrivals as') \<and> list_all (fate_ok allow block) gs \<and>
          (list_all survivable as' \<longrightarrow> pool_open answer (length as') \<longrightarrow> map fst gs = arrivals as' \<and> r' = ServeWaiting)"
        using 1(1) short rest by blast
      have "pool_open answer (length as) \<Longrightarrow> go \<and> pool_open answer (length as')"
        using handle_conn_fate [of allow block ?n c "answer ?n"] h short by (auto simp: pool_open_def)
      moreover have "fate_ok allow block ((?n, c), f)" using handle_conn_fate [of allow block ?n c "answer ?n"] h by simp
      moreover have "arrivals as = (?n, c) # arrivals as'" "list_all survivable as \<longrightarrow> list_all survivable as'" using arr Some ra Conn by simp_all
      ultimately show ?thesis using ih run by (auto split: if_splits)
    qed (use 1(2) acc arr Some ra in \<open>(subst (asm) serve_loop.simps, simp)+\<close>)
  qed
qed

text \<open>C14. The accept loop neither goes deaf nor lets anyone slip by: connections get their fate in the order of
  arrival, exactly those then outside the allowlist or on the blocklist are turned away, and as long as errors
  are temporary and the pool is open every connection is handled and the loop keeps waiting; the pauses after
  temporary errors last between 5 milliseconds and one second.\<close>

theorem serve_loop_spec:
  assumes "serve_loop allowlist blocklist answer over as = (fs, r)"
  shows "prefix (map fst fs) (arrivals as) \<and>
    (\<forall>((n, c), f) \<in> set fs. (f = AllowlistRejected \<longleftrightarrow> \<not> allowlist n c) \<and> (f = BlocklistRejected \<longleftrightarrow> allowlist n c \<and> blocklist n c)) \<and>
    (list_all survivable as \<and> pool_open answer (length as) \<longrightarrow> map fst fs = arrivals as \<and> r = ServeWaiting) \<and>
    (\<forall>d \<in> set (snd (acceptWithRetry 0 as)). 5000000 \<le> d \<and> d \<le> 1000000000)"
proof -
  have "list_all (\<lambda>x. MinDelay \<le> x \<and> x \<le> MaxDelay) (snd (acceptWithRetry 0 as))"
    by (rule acceptWithRetry_pauses) (simp_all add: MaxDelay_def)
  then show ?thesis using serve_loop_fates [OF assms] by (auto simp: fate_ok_def list_all_iff MinDelay_def MaxDelay_def)
qed

subsection \<open>The log line\<close>

definition reported :: "(bool \<times> int) list \<Rightarrow> int" where
  "reported rs = sum_list (map snd rs)"

lemma throttle_run_counts:
  assumes "0 \<le> th_suppressed t" "th_suppressed t + int (length ns) < 2 ^ 63" "throttle_run ns t = (rs, t')"
  shows "reported rs + th_suppressed t' = th_suppressed t + int (length (filter (\<lambda>r. \<not> fst r) rs)) \<and> length rs = length ns"
  using assms
proof (induction ns arbitrary: t rs)
  case (Cons n ns)
  obtain r t1 where a: "throttle_Allow n t = (r, t1)" by fastforce
  obtain rs' where b: "throttle_run ns t1 = (rs', t')" "rs = r # rs'" using Cons.prems(3) a by (auto split: prod.splits)
  have "in_i64 (th_suppressed t + 1)" using Cons.prems(1,2) by (auto simp: in_i64_def)
  then have "r = (True, th_suppressed t) \<and> th_suppressed t1 = 0 \<or> r = (False, 0) \<and> th_suppressed t1 = th_suppressed t + 1"
    using a by (auto simp: throttle_Allow_def split: option.splits if_splits)
  then show ?case
    using Cons.IH [of t1 rs'] b Cons.prems(1,2) by (auto simp: reported_def)
qed (simp add: reported_def)

subsection \<open>Witnesses\<close>

definition sample_calls :: "ip accept_call list" where
  "sample_calls = [\<lparr>ac_result = Inl \<lparr>is_closed = False, is_timeout = False, errno_of = Some EMFILE\<rparr>, ac_over = False, ac_overInPause = False\<rparr>,
     \<lparr>ac_result = Inr [1, 2, 3, 4], ac_over = False, ac_overInPause = False\<rparr>]"

theorem serve_loop_spec_witness:
  "map fst (fst (serve_loop (\<lambda>_ _. True) (\<lambda>_ _. False) (\<lambda>_. PoolTook) (\<lambda>_. False) sample_calls)) = [(0, [1, 2, 3, 4])]"
proof -
  obtain fs r where run: "serve_loop (\<lambda>_ _. True) (\<lambda>_ _. False) (\<lambda>_. PoolTook) (\<lambda>_. False) sample_calls = (fs, r)" by fastforce
  have "list_all survivable sample_calls" "pool_open (\<lambda>_. PoolTook) (length sample_calls)" "arrivals sample_calls = [(0, [1, 2, 3, 4])]"
    by (simp_all add: sample_calls_def survivable_def IsTemporary_def pool_open_def)
  then show ?thesis using serve_loop_spec [OF run] run by simp
qed
end
