(* ===== verification/Metrics.thy ===== *)
theory Metrics
  imports NetText Encoding
begin

text \<open>
  Events and metrics: the events of \<open>mtglib/events.go\<close>, their routing in \<open>events/event_stream.go\<close>, and the
  two observers that turn them into metrics, \<open>stats/prometheus.go\<close> and \<open>stats/statsd.go\<close>. A stream id selects
  its channel, so the maps of the processors of all channels are one map here. What both
  observers promise is a locale; the lemmas show that the connection gauges are exact for
  orderly events and what a lost event does to them.
\<close>

subsection \<open>Events\<close>

datatype event =
    EventStart string ip
  | EventConnectedToDC string ip int
  | EventTraffic string nat bool
  | EventFinish string
  | EventDomainFronting string
  | EventConcurrencyLimited
  | EventIPBlocklisted ip bool
  | EventReplayAttack string
  | EventThrottled string string
  | EventPendingHandshakeLimit string string
  | EventIPListSize int bool

fun event_StreamID :: "event \<Rightarrow> string" where
  "event_StreamID (EventStart sid _) = sid"
| "event_StreamID (EventConnectedToDC sid _ _) = sid"
| "event_StreamID (EventTraffic sid _ _) = sid"
| "event_StreamID (EventFinish sid) = sid"
| "event_StreamID (EventDomainFronting sid) = sid"
| "event_StreamID (EventReplayAttack sid) = sid"
| "event_StreamID (EventThrottled sid _) = sid"
| "event_StreamID (EventPendingHandshakeLimit sid _) = sid"
| "event_StreamID _ = []"

subsection \<open>The event stream\<close>

text \<open>\<open>Send\<close>: the channel that gets the event, or \<open>None\<close> when one of the contexts is over and \<open>select\<close> takes
  that branch. \<open>hash\<close> is xxhash, \<open>rnd\<close> the random number for events without a stream.\<close>

definition event_Send :: "(string \<Rightarrow> u32) \<Rightarrow> u32 \<Rightarrow> nat \<Rightarrow> bool \<Rightarrow> event \<Rightarrow> nat option" where
  "event_Send hash rnd chans givenUp evt =
     (let chanNo = (if event_StreamID evt \<noteq> [] then hash (event_StreamID evt) else rnd)
      in if givenUp then None else Some (unat chanNo mod chans))"

text \<open>\<open>eventStreamProcessor\<close>: the events it hands to its observer.\<close>

definition processor_passes :: "event \<Rightarrow> bool" where
  "processor_passes evt = (case evt of EventThrottled _ _ \<Rightarrow> False | _ \<Rightarrow> True)"

subsection \<open>Streams and metrics\<close>

record streamInfo =
  isDomainFronted :: bool
  tags :: "(string, string) gomap"

definition info_T :: "streamInfo \<Rightarrow> string \<Rightarrow> string" where
  "info_T info key = gm_get0 [] (tags info) key"

type_synonym stream_table = "(string, streamInfo) gomap"

definition getDirection :: "bool \<Rightarrow> string" where
  "getDirection isRead = (if isRead then ''to_client'' else ''from_client'')"

definition ip_family :: "ip \<Rightarrow> string" where
  "ip_family a = (if ip_To4 a \<noteq> None then ''ipv4'' else ''ipv6'')"

text \<open>A metric is a name with label values.\<close>

type_synonym metric = "string \<times> string list"

definition clientConnections :: "string \<Rightarrow> metric" where
  "clientConnections fam = (''client_connections'', [fam])"

definition telegramConnections :: "string \<Rightarrow> string \<Rightarrow> metric" where
  "telegramConnections tgip dc = (''telegram_connections'', [tgip, dc])"

definition domainFrontingConnections :: "string \<Rightarrow> metric" where
  "domainFrontingConnections fam = (''domain_fronting_connections'', [fam])"

subsection \<open>The Prometheus observer\<close>

record prometheus =
  prom_streams :: stream_table
  prom_values :: "metric \<Rightarrow> int"

definition prom_add :: "metric \<Rightarrow> int \<Rightarrow> prometheus \<Rightarrow> prometheus" where
  "prom_add m n p = p\<lparr>prom_values := (prom_values p)(m := prom_values p m + n)\<rparr>"

definition prom_set :: "metric \<Rightarrow> int \<Rightarrow> prometheus \<Rightarrow> prometheus" where
  "prom_set m n p = p\<lparr>prom_values := (prom_values p)(m := n)\<rparr>"

definition prom_EventStart :: "string \<Rightarrow> ip \<Rightarrow> prometheus \<Rightarrow> prometheus" where
  "prom_EventStart sid remoteIP p =
     (let info = \<lparr>isDomainFronted = False, tags = [(''ip_family'', ip_family remoteIP)]\<rparr>;
          p = p\<lparr>prom_streams := gm_put sid info (prom_streams p)\<rparr>
      in prom_add (clientConnections (info_T info ''ip_family'')) 1 p)"

definition prom_EventConnectedToDC :: "string \<Rightarrow> ip \<Rightarrow> int \<Rightarrow> prometheus \<Rightarrow> prometheus" where
  "prom_EventConnectedToDC sid remoteIP dc p = (case gm_get (prom_streams p) sid of
       None \<Rightarrow> p
     | Some info \<Rightarrow>
         let info = info\<lparr>tags := gm_put ''dc'' (itoa dc) (gm_put ''telegram_ip'' (ip_String remoteIP) (tags info))\<rparr>;
             p = p\<lparr>prom_streams := gm_put sid info (prom_streams p)\<rparr>
         in prom_add (telegramConnections (info_T info ''telegram_ip'') (info_T info ''dc'')) 1 p)"

definition prom_EventDomainFronting :: "string \<Rightarrow> prometheus \<Rightarrow> prometheus" where
  "prom_EventDomainFronting sid p = (case gm_get (prom_streams p) sid of
       None \<Rightarrow> p
     | Some info \<Rightarrow>
         let info = info\<lparr>isDomainFronted := True\<rparr>;
             p = p\<lparr>prom_streams := gm_put sid info (prom_streams p)\<rparr>
         in prom_add (domainFrontingConnections (info_T info ''ip_family'')) 1 (prom_add (''domain_fronting'', []) 1 p))"

definition prom_EventTraffic :: "string \<Rightarrow> nat \<Rightarrow> bool \<Rightarrow> prometheus \<Rightarrow> prometheus" where
  "prom_EventTraffic sid traffic isRead p = (case gm_get (prom_streams p) sid of
       None \<Rightarrow> p
     | Some info \<Rightarrow>
         let direction = getDirection isRead
         in if isDomainFronted info then prom_add (''domain_fronting_traffic'', [direction]) (int traffic) p
            else prom_add (''telegram_traffic'', [info_T info ''telegram_ip'', info_T info ''dc'', direction]) (int traffic) p)"

definition prom_EventFinish :: "string \<Rightarrow> prometheus \<Rightarrow> prometheus" where
  "prom_EventFinish sid p = (case gm_get (prom_streams p) sid of
       None \<Rightarrow> p
     | Some info \<Rightarrow>
         let p = prom_add (clientConnections (info_T info ''ip_family'')) (- 1) p;
             p = (if isDomainFronted info then prom_add (domainFrontingConnections (info_T info ''ip_family'')) (- 1) p
                  else case gm_get (tags info) ''telegram_ip'' of
                      Some telegramIP \<Rightarrow> prom_add (telegramConnections telegramIP (info_T info ''dc'')) (- 1) p
                    | None \<Rightarrow> p)
         in p\<lparr>prom_streams := gm_del sid (prom_streams p)\<rparr>)"

definition list_tag :: "bool \<Rightarrow> string" where
  "list_tag isBlockList = (if \<not> isBlockList then ''allowlist'' else ''blocklist'')"

fun prom_handle :: "event \<Rightarrow> prometheus \<Rightarrow> prometheus" where
  "prom_handle (EventStart sid remoteIP) p = prom_EventStart sid remoteIP p"
| "prom_handle (EventConnectedToDC sid remoteIP dc) p = prom_EventConnectedToDC sid remoteIP dc p"
| "prom_handle (EventDomainFronting sid) p = prom_EventDomainFronting sid p"
| "prom_handle (EventTraffic sid n isRead) p = prom_EventTraffic sid n isRead p"
| "prom_handle (EventFinish sid) p = prom_EventFinish sid p"
| "prom_handle EventConcurrencyLimited p = prom_add (''concurrency_limited'', []) 1 p"
| "prom_handle (EventIPBlocklisted _ isBlockList) p = prom_add (''ip_blocklisted'', [list_tag isBlockList]) 1 p"
| "prom_handle (EventReplayAttack _) p = prom_add (''replay_attacks'', []) 1 p"
| "prom_handle (EventPendingHandshakeLimit _ action) p = prom_add (''pending_handshake_limit'', [action]) 1 p"
| "prom_handle (EventIPListSize n isBlockList) p = prom_set (''iplist_size'', [list_tag isBlockList]) n p"
| "prom_handle (EventThrottled _ _) p = p"

definition prom_New :: prometheus where
  "prom_New = \<lparr>prom_streams = [], prom_values = (\<lambda>_. 0)\<rparr>"

subsection \<open>The statsd observer\<close>

text \<open>The commands sent to the server, the last one first; tag names are implied by the metric.\<close>

datatype statsd_cmd = GaugeDelta metric int | Incr metric int | SetGauge metric int

record statsd =
  sd_streams :: stream_table
  sd_sent :: "statsd_cmd list"

definition sd_send :: "statsd_cmd \<Rightarrow> statsd \<Rightarrow> statsd" where
  "sd_send c s = s\<lparr>sd_sent := c # sd_sent s\<rparr>"

definition sd_EventStart :: "string \<Rightarrow> ip \<Rightarrow> statsd \<Rightarrow> statsd" where
  "sd_EventStart sid remoteIP s =
     (let info = \<lparr>isDomainFronted = False, tags = [(''ip_family'', ip_family remoteIP)]\<rparr>;
          s = s\<lparr>sd_streams := gm_put sid info (sd_streams s)\<rparr>
      in sd_send (GaugeDelta (clientConnections (info_T info ''ip_family'')) 1) s)"

definition sd_EventConnectedToDC :: "string \<Rightarrow> ip \<Rightarrow> int \<Rightarrow> statsd \<Rightarrow> statsd" where
  "sd_EventConnectedToDC sid remoteIP dc s = (case gm_get (sd_streams s) sid of
       None \<Rightarrow> s
     | Some info \<Rightarrow>
         let info = info\<lparr>tags := gm_put ''dc'' (itoa dc) (gm_put ''telegram_ip'' (ip_String remoteIP) (tags info))\<rparr>;
             s = s\<lparr>sd_streams := gm_put sid info (sd_streams s)\<rparr>
         in sd_send (GaugeDelta (telegramConnections (info_T info ''telegram_ip'') (info_T info ''dc'')) 1) s)"

definition sd_EventDomainFronting :: "string \<Rightarrow> statsd \<Rightarrow> statsd" where
  "sd_EventDomainFronting sid s = (case gm_get (sd_streams s) sid of
       None \<Rightarrow> s
     | Some info \<Rightarrow>
         let info = info\<lparr>isDomainFronted := True\<rparr>;
             s = s\<lparr>sd_streams := gm_put sid info (sd_streams s)\<rparr>
         in sd_send (GaugeDelta (domainFrontingConnections (info_T info ''ip_family'')) 1) (sd_send (Incr (''domain_fronting'', []) 1) s))"

definition sd_EventTraffic :: "string \<Rightarrow> nat \<Rightarrow> bool \<Rightarrow> statsd \<Rightarrow> statsd" where
  "sd_EventTraffic sid traffic isRead s = (case gm_get (sd_streams s) sid of
       None \<Rightarrow> s
     | Some info \<Rightarrow>
         let direction = getDirection isRead
         in if isDomainFronted info then sd_send (Incr (''domain_fronting_traffic'', [direction]) (i64 (int traffic))) s
            else sd_send (Incr (''telegram_traffic'', [info_T info ''telegram_ip'', info_T info ''dc'', direction]) (i64 (int traffic))) s)"

definition sd_EventFinish :: "string \<Rightarrow> statsd \<Rightarrow> statsd" where
  "sd_EventFinish sid s = (case gm_get (sd_streams s) sid of
       None \<Rightarrow> s
     | Some info \<Rightarrow>
         let s = sd_send (GaugeDelta (clientConnections (info_T info ''ip_family'')) (- 1)) s;
             s = (if isDomainFronted info then sd_send (GaugeDelta (domainFrontingConnections (info_T info ''ip_family'')) (- 1)) s
                  else if gm_get (tags info) ''telegram_ip'' \<noteq> None
                  then sd_send (GaugeDelta (telegramConnections (info_T info ''telegram_ip'') (info_T info ''dc'')) (- 1)) s else s)
         in s\<lparr>sd_streams := gm_del sid (sd_streams s)\<rparr>)"

fun sd_handle :: "event \<Rightarrow> statsd \<Rightarrow> statsd" where
  "sd_handle (EventStart sid remoteIP) s = sd_EventStart sid remoteIP s"
| "sd_handle (EventConnectedToDC sid remoteIP dc) s = sd_EventConnectedToDC sid remoteIP dc s"
| "sd_handle (EventDomainFronting sid) s = sd_EventDomainFronting sid s"
| "sd_handle (EventTraffic sid n isRead) s = sd_EventTraffic sid n isRead s"
| "sd_handle (EventFinish sid) s = sd_EventFinish sid s"
| "sd_handle EventConcurrencyLimited s = sd_send (Incr (''concurrency_limited'', []) 1) s"
| "sd_handle (EventIPBlocklisted _ isBlockList) s = sd_send (Incr (''ip_blocklisted'', [list_tag isBlockList]) 1) s"
| "sd_handle (EventReplayAttack _) s = sd_send (Incr (''replay_attacks'', []) 1) s"
| "sd_handle (EventPendingHandshakeLimit _ action) s = sd_send (Incr (''pending_handshake_limit'', [action]) 1) s"
| "sd_handle (EventIPListSize n isBlockList) s = sd_send (SetGauge (''iplist_size'', [list_tag isBlockList]) n) s"
| "sd_handle (EventThrottled _ _) s = s"

definition sd_New :: statsd where
  "sd_New = \<lparr>sd_streams = [], sd_sent = []\<rparr>"

text \<open>What the server shows for a gauge after these commands.\<close>

fun server_gauge :: "statsd_cmd list \<Rightarrow> metric \<Rightarrow> int" where
  "server_gauge [] m = 0"
| "server_gauge (GaugeDelta m' n # cs) m = server_gauge cs m + (if m' = m then n else 0)"
| "server_gauge (SetGauge m' n # cs) m = (if m' = m then n else server_gauge cs m)"
| "server_gauge (Incr m' n # cs) m = server_gauge cs m"

text \<open>The statsd observer finishes the streams that are left when it shuts down, in any order.\<close>

definition sd_Shutdown :: "(string list \<Rightarrow> string list) \<Rightarrow> statsd \<Rightarrow> statsd" where
  "sd_Shutdown order s = fold sd_EventFinish (order (gm_keys (sd_streams s))) s"

text \<open>The Prometheus observer forgets its streams on shutdown and leaves the gauges as they are.\<close>

definition prom_Shutdown :: "prometheus \<Rightarrow> prometheus" where
  "prom_Shutdown p = p\<lparr>prom_streams := []\<rparr>"

subsection \<open>Several observers\<close>

datatype observer = PromObserver prometheus | StatsdObserver statsd | NoopObserver

fun observer_handle :: "event \<Rightarrow> observer \<Rightarrow> observer" where
  "observer_handle evt (PromObserver p) = PromObserver (prom_handle evt p)"
| "observer_handle evt (StatsdObserver s) = StatsdObserver (sd_handle evt s)"
| "observer_handle evt NoopObserver = NoopObserver"

fun observer_Shutdown :: "(string list \<Rightarrow> string list) \<Rightarrow> observer \<Rightarrow> observer" where
  "observer_Shutdown order (PromObserver p) = PromObserver (prom_Shutdown p)"
| "observer_Shutdown order (StatsdObserver s) = StatsdObserver (sd_Shutdown order s)"
| "observer_Shutdown order NoopObserver = NoopObserver"

text \<open>The observers work at the same time on states of their own, so their order does not matter.\<close>

definition multi_handle :: "event \<Rightarrow> observer list \<Rightarrow> observer list" where
  "multi_handle evt observers = map (observer_handle evt) observers"

definition multi_Shutdown :: "(string list \<Rightarrow> string list) \<Rightarrow> observer list \<Rightarrow> observer list" where
  "multi_Shutdown order observers = map (observer_Shutdown order) observers"

text \<open>\<open>NewEventStream\<close>: no observer means the one that does nothing.\<close>

definition stream_observers :: "observer list \<Rightarrow> observer list" where
  "stream_observers observers = (if observers = [] then [NoopObserver] else observers)"

text \<open>The events a run of the proxy sends, each with the outcome of \<open>select\<close>, as the observers see them.\<close>

definition processor_step :: "(string \<Rightarrow> u32) \<Rightarrow> u32 \<Rightarrow> nat \<Rightarrow> event \<times> bool \<Rightarrow> observer list \<Rightarrow> observer list" where
  "processor_step hash rnd chans sent observers = (case event_Send hash rnd chans (snd sent) (fst sent) of
       None \<Rightarrow> observers
     | Some _ \<Rightarrow> if processor_passes (fst sent) then multi_handle (fst sent) observers else observers)"

subsection \<open>What an observer promises\<close>

text \<open>The table of streams, and by how much an event moves a connection gauge.\<close>

fun track :: "event \<Rightarrow> stream_table \<Rightarrow> stream_table" where
  "track (EventStart sid a) m = gm_put sid \<lparr>isDomainFronted = False, tags = [(''ip_family'', ip_family a)]\<rparr> m"
| "track (EventConnectedToDC sid a dc) m = (case gm_get m sid of None \<Rightarrow> m | Some i \<Rightarrow>
     gm_put sid (i\<lparr>tags := gm_put ''dc'' (itoa dc) (gm_put ''telegram_ip'' (ip_String a) (tags i))\<rparr>) m)"
| "track (EventDomainFronting sid) m = (case gm_get m sid of None \<Rightarrow> m | Some i \<Rightarrow> gm_put sid (i\<lparr>isDomainFronted := True\<rparr>) m)"
| "track (EventFinish sid) m = (if gm_get m sid = None then m else gm_del sid m)"
| "track _ m = m"

definition on_family :: "string \<Rightarrow> streamInfo \<Rightarrow> bool" where
  "on_family fam i \<longleftrightarrow> info_T i ''ip_family'' = fam"

definition on_front :: "string \<Rightarrow> streamInfo \<Rightarrow> bool" where
  "on_front fam i \<longleftrightarrow> isDomainFronted i \<and> info_T i ''ip_family'' = fam"

definition on_telegram :: "string \<Rightarrow> string \<Rightarrow> streamInfo \<Rightarrow> bool" where
  "on_telegram a d i \<longleftrightarrow> \<not> isDomainFronted i \<and> gm_get (tags i) ''telegram_ip'' = Some a \<and> info_T i ''dc'' = d"

definition counts_in :: "metric \<Rightarrow> streamInfo \<Rightarrow> bool" where
  "counts_in x i \<longleftrightarrow> (\<exists>fam. x = clientConnections fam \<and> on_family fam i) \<or>
     (\<exists>fam. x = domainFrontingConnections fam \<and> on_front fam i) \<or> (\<exists>a d. x = telegramConnections a d \<and> on_telegram a d i)"

definition is_gauge :: "metric \<Rightarrow> bool" where
  "is_gauge x \<longleftrightarrow> (\<exists>fam. x = clientConnections fam) \<or> (\<exists>fam. x = domainFrontingConnections fam) \<or> (\<exists>a d. x = telegramConnections a d)"

fun delta :: "event \<Rightarrow> stream_table \<Rightarrow> metric \<Rightarrow> int" where
  "delta (EventStart sid a) m x = of_bool (x = clientConnections (ip_family a))"
| "delta (EventConnectedToDC sid a dc) m x = (case gm_get m sid of None \<Rightarrow> 0 | Some i \<Rightarrow> of_bool (x = telegramConnections (ip_String a) (itoa dc)))"
| "delta (EventDomainFronting sid) m x = (case gm_get m sid of None \<Rightarrow> 0 | Some i \<Rightarrow> of_bool (x = domainFrontingConnections (info_T i ''ip_family'')))"
| "delta (EventFinish sid) m x = (case gm_get m sid of None \<Rightarrow> 0 | Some i \<Rightarrow> - of_bool (counts_in x i))"
| "delta _ m x = 0"

text \<open>What the streams of the proxy guarantee: ids are fresh, and a stream goes either to Telegram or to the
  fronting domain, once.\<close>

fun orderly :: "event \<Rightarrow> stream_table \<Rightarrow> bool" where
  "orderly (EventStart sid a) m = (gm_get m sid = None)"
| "orderly (EventConnectedToDC sid a dc) m = (case gm_get m sid of None \<Rightarrow> True | Some i \<Rightarrow> \<not> isDomainFronted i \<and> gm_get (tags i) ''telegram_ip'' = None)"
| "orderly (EventDomainFronting sid) m = (case gm_get m sid of None \<Rightarrow> True | Some i \<Rightarrow> \<not> isDomainFronted i \<and> gm_get (tags i) ''telegram_ip'' = None)"
| "orderly _ m = True"

fun orderly_run :: "event list \<Rightarrow> stream_table \<Rightarrow> bool" where
  "orderly_run [] m = True"
| "orderly_run (e # es) m = (orderly e m \<and> orderly_run es (track e m))"

definition population :: "metric \<Rightarrow> stream_table \<Rightarrow> int" where
  "population x m = int (length (filter (\<lambda>ki. counts_in x (snd ki)) m))"

lemma metric_distinct [simp]:
  "clientConnections f \<noteq> domainFrontingConnections g" "clientConnections f \<noteq> telegramConnections a d"
  "domainFrontingConnections g \<noteq> telegramConnections a d" "domainFrontingConnections g \<noteq> clientConnections f"
  "telegramConnections a d \<noteq> clientConnections f" "telegramConnections a d \<noteq> domainFrontingConnections g"
  "clientConnections f = clientConnections f' \<longleftrightarrow> f = f'" "domainFrontingConnections g = domainFrontingConnections g' \<longleftrightarrow> g = g'"
  "telegramConnections a d = telegramConnections a' d' \<longleftrightarrow> a = a' \<and> d = d'"
  by (simp_all add: clientConnections_def domainFrontingConnections_def telegramConnections_def)

lemma gauge_names: "is_gauge x \<Longrightarrow> n \<notin> {''client_connections'', ''domain_fronting_connections'', ''telegram_connections''} \<Longrightarrow> x \<noteq> (n, ls)"
  by (auto simp: is_gauge_def clientConnections_def domainFrontingConnections_def telegramConnections_def)

lemma counts_in_simps [simp]:
  "counts_in (clientConnections fam) i = on_family fam i" "counts_in (domainFrontingConnections fam) i = on_front fam i"
  "counts_in (telegramConnections a d) i = on_telegram a d i"
  by (auto simp: counts_in_def)

lemma population_put:
  "gm_ok m \<Longrightarrow> population x (gm_put k v m) = population x m + of_bool (counts_in x v) -
     (case gm_get m k of None \<Rightarrow> 0 | Some u \<Rightarrow> of_bool (counts_in x u))"
  by (induction m) (auto simp: population_def split: option.splits)

lemma population_del:
  "gm_ok m \<Longrightarrow> gm_get m k = Some u \<Longrightarrow> population x (gm_del k m) = population x m - of_bool (counts_in x u)"
  by (induction m) (auto simp: population_def delete_id map_of_eq_None_iff split: if_splits)

lemma population_empty: "population x [] = 0"
  by (simp add: population_def)

lemma track_population:
  assumes "gm_ok m" "orderly e m" "is_gauge x"
  shows "population x (track e m) = population x m + delta e m x"
  using assms(2,3)
  by (cases e) (auto simp: population_put [OF assms(1)] population_del [OF assms(1)] is_gauge_def on_family_def on_front_def on_telegram_def
      info_T_def gm_get0_def split: option.splits)

lemma gm_ok_track: "gm_ok m \<Longrightarrow> gm_ok (track e m)"
  by (cases e) (auto split: option.splits)

locale metrics_observer =
  fixes start :: 's and handle :: "event \<Rightarrow> 's \<Rightarrow> 's" and tracked :: "'s \<Rightarrow> stream_table" and gauge :: "'s \<Rightarrow> metric \<Rightarrow> int"
  assumes tracked_start: "tracked start = []"
    and gauge_start: "gauge start x = 0"
    and tracked_handle: "tracked (handle e s) = track e (tracked s)"
    and gauge_handle: "is_gauge x \<Longrightarrow> gauge (handle e s) x = gauge s x + delta e (tracked s) x"
begin

lemma gauges_follow:
  assumes "gm_ok (tracked s)" "orderly_run es (tracked s)" "is_gauge x" "gauge s x = population x (tracked s)"
  shows "gauge (fold handle es s) x = population x (tracked (fold handle es s)) \<and> tracked (fold handle es s) = fold track es (tracked s)"
  using assms
proof (induction es arbitrary: s)
  case (Cons e es)
  have "gauge (handle e s) x = population x (tracked (handle e s))"
    using Cons.prems track_population by (simp add: gauge_handle tracked_handle)
  moreover have "gm_ok (tracked (handle e s))" "orderly_run es (tracked (handle e s))"
    using Cons.prems by (simp_all add: tracked_handle gm_ok_track)
  ultimately show ?case using Cons.IH [of "handle e s"] Cons.prems(3) by (simp add: tracked_handle)
qed simp

lemma gauges_exact:
  "orderly_run es [] \<Longrightarrow> is_gauge x \<Longrightarrow> gauge (fold handle es start) x = population x (fold track es [])"
  using gauges_follow [of start es x] by (simp add: tracked_start gauge_start population_def)

end

text \<open>What the three gauges of a finished stream lose.\<close>

lemma counts_in_finish:
  "(of_bool (counts_in x i) :: int) = of_bool (x = clientConnections (info_T i ''ip_family'')) +
     (if isDomainFronted i then of_bool (x = domainFrontingConnections (info_T i ''ip_family''))
      else case gm_get (tags i) ''telegram_ip'' of None \<Rightarrow> 0 | Some a \<Rightarrow> of_bool (x = telegramConnections a (info_T i ''dc'')))"
  by (auto simp: counts_in_def on_family_def on_front_def on_telegram_def split: option.splits)

lemmas prom_defs = prom_EventStart_def prom_EventConnectedToDC_def prom_EventDomainFronting_def prom_EventTraffic_def
  prom_EventFinish_def prom_add_def prom_set_def Let_def

lemma prom_gauge:
  assumes "is_gauge x"
  shows "prom_values (prom_handle e s) x = prom_values s x + delta e (prom_streams s) x"
proof (cases e)
  case (EventFinish sid)
  show ?thesis unfolding EventFinish prom_handle.simps delta.simps counts_in_finish
    by (auto simp: prom_EventFinish_def prom_add_def Let_def split: option.splits)
next
  case (EventStart sid a)
  then show ?thesis by (simp add: prom_defs info_T_def gm_get0_def)
qed (simp_all add: prom_defs info_T_def gm_get0_def gauge_names [OF assms] split: option.splits)

interpretation prom: metrics_observer prom_New prom_handle prom_streams prom_values
proof
  show "prom_streams (prom_handle e s) = track e (prom_streams s)" for e s
    by (cases e) (auto simp: prom_defs split: option.splits)
qed (simp_all add: prom_New_def prom_gauge)

lemmas sd_defs = sd_EventStart_def sd_EventConnectedToDC_def sd_EventDomainFronting_def sd_EventTraffic_def
  sd_EventFinish_def sd_send_def Let_def

lemma sd_gauge:
  assumes "is_gauge x"
  shows "server_gauge (sd_sent (sd_handle e s)) x = server_gauge (sd_sent s) x + delta e (sd_streams s) x"
proof (cases e)
  case (EventFinish sid)
  show ?thesis unfolding EventFinish sd_handle.simps delta.simps counts_in_finish
    by (auto simp: sd_EventFinish_def sd_send_def Let_def info_T_def gm_get0_def split: option.splits)
next
  case (EventStart sid a)
  then show ?thesis by (simp add: sd_defs info_T_def gm_get0_def)
qed (simp_all add: sd_defs info_T_def gm_get0_def gauge_names [OF assms, symmetric] split: option.splits)

interpretation sd: metrics_observer sd_New sd_handle sd_streams "\<lambda>s. server_gauge (sd_sent s)"
proof
  show "sd_streams (sd_handle e s) = track e (sd_streams s)" for e s
    by (cases e) (auto simp: sd_defs split: option.splits)
qed (simp_all add: sd_New_def sd_gauge)

definition observed :: "(event \<times> bool) list \<Rightarrow> event list" where
  "observed sent = map fst (filter (\<lambda>(evt, givenUp). \<not> givenUp \<and> processor_passes evt) sent)"

lemma stream_run: "fold (processor_step hash rnd chans) sent observers = map (fold observer_handle (observed sent)) observers"
  by (induction sent arbitrary: observers)
    (auto simp: observed_def processor_step_def event_Send_def multi_handle_def Let_def)

lemma fold_observer:
  "fold observer_handle es (PromObserver p) = PromObserver (fold prom_handle es p)"
  "fold observer_handle es (StatsdObserver s) = StatsdObserver (fold sd_handle es s)"
  by (induction es arbitrary: p s) simp_all

lemma gm_ok_fold_track: "gm_ok m \<Longrightarrow> gm_ok (fold track es m)"
  by (induction es arbitrary: m) (simp_all add: gm_ok_track)

lemma track_finish: "gm_get (fold track (map EventFinish ks) m) k = (if k \<in> set ks then None else gm_get m k)"
  by (induction ks arbitrary: m) auto

lemma orderly_finish: "orderly_run (map EventFinish ks) m"
  by (induction ks arbitrary: m) simp_all

lemma orderly_run_append: "orderly_run (es @ fs) m \<longleftrightarrow> orderly_run es m \<and> orderly_run fs (fold track es m)"
  by (induction es arbitrary: m) auto

lemma sd_handle_finish: "(\<lambda>k. sd_handle (EventFinish k)) = sd_EventFinish"
  by (rule ext)+ simp

lemma sd_Shutdown_zero:
  assumes "orderly_run es []" "is_gauge x" "set (order (gm_keys (fold track es []))) = set (gm_keys (fold track es []))"
  shows "server_gauge (sd_sent (sd_Shutdown order (fold sd_handle es sd_New))) x = 0"
proof -
  define ks where "ks = order (gm_keys (fold track es []))"
  have tracked: "sd_streams (fold sd_handle es sd_New) = fold track es []"
    using sd.gauges_follow [of sd_New es x] assms(1,2) by (simp add: sd_New_def population_def)
  have shut: "sd_Shutdown order (fold sd_handle es sd_New) = fold sd_handle (es @ map EventFinish ks) sd_New"
    by (simp add: sd_Shutdown_def tracked ks_def fold_map comp_def sd_handle_finish)
  have "gm_get (fold track (es @ map EventFinish ks) []) k = None" for k
    using assms(3) by (simp add: track_finish ks_def map_of_eq_None_iff)
  then have "fold track (es @ map EventFinish ks) [] = []"
    by (metis gm_keys_dom domIff ex_in_conv set_empty map_is_Nil_conv)
  moreover have "orderly_run (es @ map EventFinish ks) []"
    using assms(1) by (simp add: orderly_run_append orderly_finish)
  ultimately show ?thesis unfolding shut using sd.gauges_exact [OF _ assms(2)] by (metis population_empty)
qed

definition in_table :: "string \<Rightarrow> string \<Rightarrow> stream_table \<Rightarrow> bool" where
  "in_table sid fam m \<longleftrightarrow> (\<exists>i. gm_get m sid = Some i \<and> info_T i ''ip_family'' = fam)"

lemma in_table_track:
  assumes "in_table sid fam m" "orderly e m" "e \<noteq> EventFinish sid"
  shows "in_table sid fam (track e m)"
proof -
  obtain i where "gm_get m sid = Some i" "info_T i ''ip_family'' = fam" using assms(1) unfolding in_table_def by blast
  then show ?thesis using assms(2,3)
    by (cases e; simp add: in_table_def info_T_def gm_get0_def split: option.splits; fastforce)
qed

lemma in_table_run:
  "in_table sid fam m \<Longrightarrow> orderly_run es m \<Longrightarrow> EventFinish sid \<notin> set es \<Longrightarrow> in_table sid fam (fold track es m)"
  by (induction es arbitrary: m) (auto simp: in_table_track)

lemma started_in_table:
  "orderly_run es m \<Longrightarrow> EventStart sid a \<in> set es \<Longrightarrow> EventFinish sid \<notin> set es \<Longrightarrow> in_table sid (ip_family a) (fold track es m)"
proof (induction es arbitrary: m)
  case (Cons e es)
  show ?case
  proof (cases "e = EventStart sid a")
    case True
    then show ?thesis using Cons.prems in_table_run [of sid "ip_family a" "track e m" es]
      by (simp add: in_table_def info_T_def gm_get0_def)
  qed (use Cons in auto)
qed simp

lemma population_in_table:
  assumes "in_table sid fam m"
  shows "1 \<le> population (clientConnections fam) m"
proof -
  obtain i where "(sid, i) \<in> set m" "on_family fam i"
    using assms by (auto simp: in_table_def on_family_def dest: map_of_SomeD)
  then have "(sid, i) \<in> set (filter (\<lambda>ki. counts_in (clientConnections fam) (snd ki)) m)" by simp
  then show ?thesis by (metis length_pos_if_in_set of_nat_0_less_iff population_def zless_imp_add1_zle add_0)
qed

subsection \<open>Properties\<close>

text \<open>Whatever is sent, the Prometheus gauges of client, Telegram and fronting connections are equal to what a
  statsd server shows, and both are the number of open streams that belong to the gauge, as long as the events that
  arrive are orderly; the statsd observer brings every gauge back to zero when it shuts down, in any order of its map.\<close>

lemma gauges_exact_everywhere:
  assumes "orderly_run (observed sent) []" "is_gauge x"
    and "\<And>ks. set (order ks) = set ks"
  shows "\<exists>p s. fold (processor_step hash rnd chans) sent [PromObserver prom_New, StatsdObserver sd_New] = [PromObserver p, StatsdObserver s] \<and>
    prom_values p x = population x (fold track (observed sent) []) \<and>
    server_gauge (sd_sent s) x = population x (fold track (observed sent) []) \<and>
    server_gauge (sd_sent (sd_Shutdown order s)) x = 0"
  using prom.gauges_exact [OF assms(1,2)] sd.gauges_exact [OF assms(1,2)] sd_Shutdown_zero [OF assms(1,2), of order] assms(3)
  by (simp add: stream_run fold_observer)

text \<open>A stream whose start arrives and whose finish is dropped, because its context is over when the finish is
  sent, stays in the client gauge: from then on the gauge of its address family is at least one, whatever other
  streams do.\<close>

lemma lost_finish_leaks:
  assumes "orderly_run (observed sent) []" "(EventStart sid a, False) \<in> set sent" "(EventFinish sid, False) \<notin> set sent"
  shows "\<exists>p. fold (processor_step hash rnd chans) sent [PromObserver prom_New] = [PromObserver p] \<and>
    1 \<le> prom_values p (clientConnections (ip_family a))"
proof -
  have "in_table sid (ip_family a) (fold track (observed sent) [])"
    by (rule started_in_table [OF assms(1)]) (use assms(2,3) in \<open>force simp: observed_def processor_passes_def\<close>)+
  then show ?thesis
    using prom.gauges_exact [OF assms(1), of "clientConnections (ip_family a)"] population_in_table
    by (simp add: stream_run fold_observer is_gauge_def)
qed

end
