(* ===== verification/ConfigTypes.thy ===== *)
theory ConfigTypes
  imports NetText SecretLimits ProxyAPI
begin

text \<open>
  The value types of the configuration file, \<open>internal/config/type_*.go\<close>. A setter replaces the whole value or
  reports an error and leaves it alone, so it is a function from the text to an error or the new value; the zero
  value means that the setting is absent. What all types share is a locale: a value that was read prints as a text
  that reads as the same value. URL parsing, byte units and the tables of Unicode are arguments.
\<close>

subsection \<open>Text and numbers\<close>

datatype config_error =
    AdTagNotHex string
  | AdTagLength_error nat
  | IncorrectBool string
  | IncorrectBytes string
  | BytesNotPositive string
  | NotUint string
  | NotPositive string
  | CannotParseDC string
  | IncorrectDuration string
  | DurationNotPositive string
  | ExpiryError limit_error
  | EmptyHost
  | IncorrectHost string
  | HostWithPort string
  | IncorrectHostPort string
  | IncorrectPort string
  | HostNotIP string
  | IncorrectIP string
  | IncorrectMetricPrefix string
  | UnsupportedPreference string
  | QuotaResetError limit_error
  | UnknownTagFormat string
  | IncorrectURL string
  | NoSchema string
  | UnsupportedSchema string
  | FileIsDirectory
  | FileNotReadable
  | FileNotAbsolute string
  | SimpleDNSNotIP string
  | PathOnlyForDoH
  | UserNotSupported
  | ErrorRateOutOfRange

text \<open>\<open>strconv.ParseUint(s, 10, 16)\<close> and \<open>strconv.ParseInt(s, 10, 16)\<close>.\<close>

definition parseUint16 :: "string \<Rightarrow> nat option" where
  "parseUint16 s = (if s = [] then None else case parseDigits 0 s of None \<Rightarrow> None | Some n \<Rightarrow> if n < 65536 then Some (nat n) else None)"

definition parseInt16 :: "string \<Rightarrow> int option" where
  "parseInt16 s = (case parseInt64 s of None \<Rightarrow> None | Some n \<Rightarrow> if - 32768 \<le> n \<and> n \<le> 32767 then Some n else None)"

definition parseBool :: "string \<Rightarrow> bool option" where
  "parseBool s =
     (if s \<in> {''1'', ''t'', ''T'', ''true'', ''TRUE'', ''True''} then Some True
      else if s \<in> {''0'', ''f'', ''F'', ''false'', ''FALSE'', ''False''} then Some False else None)"

definition formatBool :: "bool \<Rightarrow> string" where
  "formatBool b = (if b then ''true'' else ''false'')"

text \<open>\<open>strings.NewReplacer(" ", "", "\t", "")\<close> and \<open>strings.Trim(s, "/")\<close>.\<close>

definition drop_blanks :: "string \<Rightarrow> string" where
  "drop_blanks s = filter (\<lambda>c. c \<noteq> CHR '' '' \<and> c \<noteq> CHR 0x09) s"

definition trim_char :: "char \<Rightarrow> string \<Rightarrow> string" where
  "trim_char c s = rev (dropWhile (\<lambda>d. d = c) (rev (dropWhile (\<lambda>d. d = c) s)))"

subsection \<open>Durations\<close>

text \<open>\<open>time.ParseDuration\<close>. The nanoseconds of a decimal fraction are computed in floating point; \<open>frac f unit k\<close>
  stands for \<open>uint64(float64(f) * (float64(unit) / 10^k))\<close>.\<close>

fun leadingInt :: "nat \<Rightarrow> string \<Rightarrow> (nat \<times> string) option" where
  "leadingInt x [] = Some (x, [])"
| "leadingInt x (c # s) =
     (case digitValue c of
        None \<Rightarrow> Some (x, c # s)
      | Some d \<Rightarrow> if x > 2 ^ 63 div 10 then None
                   else let y = x * 10 + nat d in if y > 2 ^ 63 then None else leadingInt y s)"

fun leadingFraction :: "nat \<Rightarrow> nat \<Rightarrow> bool \<Rightarrow> string \<Rightarrow> nat \<times> nat \<times> string" where
  "leadingFraction x k overflow [] = (x, k, [])"
| "leadingFraction x k overflow (c # s) =
     (case digitValue c of
        None \<Rightarrow> (x, k, c # s)
      | Some d \<Rightarrow> if overflow then leadingFraction x k True s
                   else if x > (2 ^ 63 - 1) div 10 then leadingFraction x k True s
                   else let y = x * 10 + nat d in
                     if y > 2 ^ 63 then leadingFraction x k True s else leadingFraction y (Suc k) False s)"

definition unitMap :: "string \<Rightarrow> nat option" where
  "unitMap u =
     (if u = ''ns'' then Some 1
      else if u = ''us'' \<or> u = [CHR 0xC2, CHR 0xB5, CHR ''s''] \<or> u = [CHR 0xCE, CHR 0xBC, CHR ''s''] then Some 1000
      else if u = ''ms'' then Some 1000000
      else if u = ''s'' then Some 1000000000
      else if u = ''m'' then Some 60000000000
      else if u = ''h'' then Some 3600000000000 else None)"

definition unit_char :: "char \<Rightarrow> bool" where
  "unit_char c \<longleftrightarrow> c \<noteq> CHR ''.'' \<and> digitValue c = None"

lemma leadingInt_length: "leadingInt x s = Some (y, r) \<Longrightarrow> length r \<le> length s"
  by (induction s arbitrary: x) (auto simp: Let_def le_SucI split: option.splits if_splits)

lemma leadingFraction_length: "leadingFraction x k ov s = (y, j, r) \<Longrightarrow> length r \<le> length s"
  by (induction s arbitrary: x k ov) (auto simp: Let_def le_SucI split: option.splits if_splits)

text \<open>The optional fraction of a number: the digits, their count, the rest, and whether there were any.\<close>

definition dur_fraction :: "string \<Rightarrow> nat \<times> nat \<times> string \<times> bool" where
  "dur_fraction s = (if s \<noteq> [] \<and> hd s = CHR ''.''
     then case leadingFraction 0 0 False (tl s) of (f, k, r) \<Rightarrow> (f, k, r, length r \<noteq> length (tl s))
     else (0, 0, s, False))"

text \<open>One number with its unit: the nanoseconds and the rest of the text.\<close>

definition dur_item :: "(nat \<Rightarrow> nat \<Rightarrow> nat \<Rightarrow> nat) \<Rightarrow> string \<Rightarrow> (nat \<times> string) option" where
  "dur_item frac s =
     (if \<not> (hd s = CHR ''.'' \<or> digitValue (hd s) \<noteq> None) then None
      else case leadingInt 0 s of
        None \<Rightarrow> None
      | Some (v, s1) \<Rightarrow>
          (case dur_fraction s1 of (f, k, s2, post) \<Rightarrow>
             let pre = (length s1 \<noteq> length s);
                 u = takeWhile unit_char s2;
                 s3 = dropWhile unit_char s2
             in if \<not> pre \<and> \<not> post then None
                else if u = [] then None
                else case unitMap u of
                  None \<Rightarrow> None
                | Some unit \<Rightarrow>
                    if v > 2 ^ 63 div unit then None
                    else let w = (if f > 0 then (v * unit + frac f unit k) mod 2 ^ 64 else v * unit)
                         in if f > 0 \<and> w > 2 ^ 63 then None else Some (w, s3)))"

lemma dur_item_shorter: "dur_item frac s = Some (w, r) \<Longrightarrow> length r < length s"
proof -
  assume *: "dur_item frac s = Some (w, r)"
  obtain v s1 where s1: "leadingInt 0 s = Some (v, s1)" using * by (auto simp: dur_item_def split: if_splits option.splits)
  obtain f k s2 post where s2: "dur_fraction s1 = (f, k, s2, post)" by (metis prod_cases4)
  have "r = dropWhile unit_char s2" "takeWhile unit_char s2 \<noteq> []"
    using * s1 s2 by (auto simp: dur_item_def Let_def split: if_splits option.splits)
  then have "length r < length s2" by (metis takeWhile_dropWhile_id length_append length_greater_0_conv less_add_same_cancel2)
  moreover have "length s2 \<le> length s1"
  proof (cases "s1 \<noteq> [] \<and> hd s1 = CHR ''.''")
    case True
    then have "length s2 \<le> length (tl s1)" using s2 leadingFraction_length [of 0 0 False "tl s1"]
      by (auto simp: dur_fraction_def split: prod.splits)
    then show ?thesis by simp
  qed (use s2 in \<open>auto simp: dur_fraction_def\<close>)
  ultimately show ?thesis using leadingInt_length [OF s1] by simp
qed

function dur_loop :: "(nat \<Rightarrow> nat \<Rightarrow> nat \<Rightarrow> nat) \<Rightarrow> nat \<Rightarrow> string \<Rightarrow> nat option" where
  "dur_loop frac d s =
     (if s = [] then Some d
      else case dur_item frac s of
        None \<Rightarrow> None
      | Some (v, r) \<Rightarrow> let d' = (d + v) mod 2 ^ 64 in if d' > 2 ^ 63 then None else dur_loop frac d' r)"
  by pat_completeness auto
termination
  by (relation "measure (\<lambda>(frac, d, s). length s)") (auto dest: dur_item_shorter)

declare dur_loop.simps [simp del]

definition parseDuration :: "(nat \<Rightarrow> nat \<Rightarrow> nat \<Rightarrow> nat) \<Rightarrow> string \<Rightarrow> duration option" where
  "parseDuration frac s0 =
     (let neg = (s0 \<noteq> [] \<and> hd s0 = CHR ''-'');
          s = (if s0 \<noteq> [] \<and> (hd s0 = CHR ''-'' \<or> hd s0 = CHR ''+'') then tl s0 else s0)
      in if s = ''0'' then Some 0
         else if s = [] then None
         else case dur_loop frac 0 s of
           None \<Rightarrow> None
         | Some d \<Rightarrow> if neg then Some (i64 (- int d)) else if d > 2 ^ 63 - 1 then None else Some (int d))"

subsection \<open>The setters\<close>

definition TypeAdTag_Set :: "string \<Rightarrow> config_error + bytes" where
  "TypeAdTag_Set value =
     (if value = [] then Inr []
      else case hexDecodeString value of
        None \<Rightarrow> Inl (AdTagNotHex value)
      | Some decoded \<Rightarrow> if length decoded \<noteq> AdTagLength then Inl (AdTagLength_error (length decoded)) else Inr decoded)"

definition TypeAdTag_Get :: "bytes \<Rightarrow> bytes option" where
  "TypeAdTag_Get v = (if length v \<noteq> AdTagLength then None else Some v)"

definition TypeAdTag_String :: "bytes \<Rightarrow> string" where
  "TypeAdTag_String v = (if v = [] then [] else hexEncodeToString v)"

definition TypeBool_Set :: "string \<Rightarrow> config_error + bool" where
  "TypeBool_Set data = (case parseBool data of None \<Rightarrow> Inl (IncorrectBool data) | Some b \<Rightarrow> Inr b)"

definition TypeBool_Get :: "bool \<Rightarrow> bool \<Rightarrow> bool" where
  "TypeBool_Get v defaultValue = (v \<or> defaultValue)"

definition TypeBytes_Set :: "parsers \<Rightarrow> string \<Rightarrow> config_error + int" where
  "TypeBytes_Set ps value = (case parseBase2Bytes ps (quotaBytesCleaner (toUpper (uniUpper ps) value)) of
       None \<Rightarrow> Inl (IncorrectBytes value)
     | Some n \<Rightarrow> if n < 0 then Inl (BytesNotPositive value) else Inr n)"

definition TypeBytes_Get :: "int \<Rightarrow> int \<Rightarrow> int" where
  "TypeBytes_Get v defaultValue = (if v = 0 then defaultValue else v mod 2 ^ 64)"

definition TypeConcurrency_Set :: "string \<Rightarrow> config_error + nat" where
  "TypeConcurrency_Set value = (case parseUint16 value of
       None \<Rightarrow> Inl (NotUint value)
     | Some n \<Rightarrow> if n = 0 then Inl (NotPositive value) else Inr n)"

definition uint_Get :: "nat \<Rightarrow> nat \<Rightarrow> nat" where
  "uint_Get v defaultValue = (if v = 0 then defaultValue else v)"

definition uint_String :: "nat \<Rightarrow> string" where
  "uint_String v = digits_of v"

definition TypeDC_Set :: "string \<Rightarrow> config_error + int" where
  "TypeDC_Set value = (case parseInt16 value of
       None \<Rightarrow> Inl (CannotParseDC value)
     | Some parsed \<Rightarrow> Inr (if parsed < 0 then - parsed else parsed))"

definition TypeDuration_Set :: "parsers \<Rightarrow> (nat \<Rightarrow> nat \<Rightarrow> nat \<Rightarrow> nat) \<Rightarrow> string \<Rightarrow> config_error + duration" where
  "TypeDuration_Set ps frac value = (case parseDuration frac (drop_blanks (toLower (uniLower ps) value)) of
       None \<Rightarrow> Inl (IncorrectDuration value)
     | Some n \<Rightarrow> if n < 0 then Inl (DurationNotPositive value) else Inr n)"

definition TypeDuration_Get :: "duration \<Rightarrow> duration \<Rightarrow> duration" where
  "TypeDuration_Get v defaultValue = (if v = 0 then defaultValue else v)"

definition TypeExpiry_Set :: "parsers \<Rightarrow> string \<Rightarrow> config_error + go_time" where
  "TypeExpiry_Set ps value = (case ParseExpiry (timeParse ps) value of Inl e \<Rightarrow> Inl (ExpiryError e) | Inr t \<Rightarrow> Inr t)"

definition TypeExpiry_Get :: "go_time \<Rightarrow> go_time \<Rightarrow> go_time" where
  "TypeExpiry_Get v defaultValue = (if v = 0 then defaultValue else v)"

definition TypeHost_Set :: "string \<Rightarrow> config_error + string" where
  "TypeHost_Set value =
     (if value = [] then Inl EmptyHost
      else if parseIP value \<noteq> None then Inr value
      else if set value \<inter> set [CHR '' '', CHR 0x09, CHR 0x0A, CHR ''/'', CHR ''?'', CHR ''#''] \<noteq> {} then Inl (IncorrectHost value)
      else if CHR '':'' \<in> set value then Inl (HostWithPort value)
      else Inr value)"

text \<open>A finite \<open>float64\<close> is a mantissa with a power of two. The setter is only reached through a number that was printed
  from a \<open>float64\<close>, so it gets that number back.\<close>

type_synonym float64 = "int \<times> int"

definition float_below :: "float64 \<Rightarrow> int \<Rightarrow> int \<Rightarrow> bool" where
  "float_below x num den \<longleftrightarrow> (case x of (m, e) \<Rightarrow>
     if 0 \<le> e then m * 2 ^ nat e * den < num else m * den < num * 2 ^ nat (- e))"

definition TypeErrorRate_Set :: "float64 \<Rightarrow> config_error + float64" where
  "TypeErrorRate_Set x = (if \<not> 0 < fst x \<or> \<not> float_below x 100 1 then Inl ErrorRateOutOfRange else Inr x)"

definition TypeErrorRate_Get :: "float64 \<Rightarrow> float64 \<Rightarrow> float64" where
  "TypeErrorRate_Get v defaultValue = (if float_below v 1 100000000 then defaultValue else v)"

text \<open>The string types share their getter, and print as they are.\<close>

definition string_Get :: "string \<Rightarrow> string \<Rightarrow> string" where
  "string_Get v defaultValue = (if v = [] then defaultValue else v)"

record hostport =
  hp_Value :: string
  hp_Host :: string
  hp_Port :: nat

definition TypeHostPort_Set :: "string \<Rightarrow> config_error + hostport" where
  "TypeHostPort_Set value = (case splitHostPort value of
       None \<Rightarrow> Inl (IncorrectHostPort value)
     | Some (host, port) \<Rightarrow>
         (case parseUint16 port of
            None \<Rightarrow> Inl (IncorrectPort value)
          | Some portValue \<Rightarrow>
              if portValue = 0 then Inl (IncorrectPort value)
              else if host = [] then Inl EmptyHost
              else if parseIP host = None then Inl (HostNotIP value)
              else Inr \<lparr>hp_Value = joinHostPort host port, hp_Host = host, hp_Port = portValue\<rparr>))"

definition TypeHostPort_Get :: "hostport \<Rightarrow> string \<Rightarrow> string" where
  "TypeHostPort_Get t defaultValue = (if hp_Value t = [] then defaultValue else hp_Value t)"

definition TypeHTTPPath_Set :: "string \<Rightarrow> config_error + string" where
  "TypeHTTPPath_Set value = Inr (CHR ''/'' # trim_char (CHR ''/'') value)"

definition TypeIP_Set :: "string \<Rightarrow> config_error + ip" where
  "TypeIP_Set value = (case parseIP value of None \<Rightarrow> Inl (IncorrectIP value) | Some a \<Rightarrow> Inr a)"

definition TypeIP_Get :: "ip \<Rightarrow> ip option \<Rightarrow> ip option" where
  "TypeIP_Get v defaultValue = (if v = [] then defaultValue else Some v)"

definition metric_char :: "char \<Rightarrow> bool" where
  "metric_char c \<longleftrightarrow> (let n = of_char c :: nat in (97 \<le> n \<and> n \<le> 122) \<or> (48 \<le> n \<and> n \<le> 57))"

definition TypeMetricPrefix_Set :: "string \<Rightarrow> config_error + string" where
  "TypeMetricPrefix_Set value = (if value = [] \<or> \<not> list_all metric_char value then Inl (IncorrectMetricPrefix value) else Inr value)"

definition TypePort_Set :: "string \<Rightarrow> config_error + nat" where
  "TypePort_Set value = (case parseUint16 value of
       None \<Rightarrow> Inl (IncorrectPort value)
     | Some n \<Rightarrow> if n = 0 then Inl (IncorrectPort value) else Inr n)"

definition ip_preferences :: "string list" where
  "ip_preferences = [''prefer-ipv4'', ''prefer-ipv6'', ''only-ipv4'', ''only-ipv6'']"

definition TypePreferIP_Set :: "parsers \<Rightarrow> string \<Rightarrow> config_error + string" where
  "TypePreferIP_Set ps value0 =
     (let value = toLower (uniLower ps) value0
      in if value \<in> set ip_preferences then Inr value else Inl (UnsupportedPreference value))"

definition TypeQuotaReset_Set :: "parsers \<Rightarrow> string \<Rightarrow> config_error + string" where
  "TypeQuotaReset_Set ps value = (case ParseQuotaReset (uniLower ps) value of
       Inl e \<Rightarrow> Inl (QuotaResetError e) | Inr q \<Rightarrow> Inr (quotaReset_String q))"

definition statsd_tag_formats :: "string list" where
  "statsd_tag_formats = [''datadog'', ''influxdb'', ''graphite'']"

definition TypeStatsdTagFormat_Set :: "parsers \<Rightarrow> string \<Rightarrow> config_error + string" where
  "TypeStatsdTagFormat_Set ps value =
     (let lowercasedValue = toLower (uniLower ps) value
      in if lowercasedValue \<in> set statsd_tag_formats then Inr lowercasedValue else Inl (UnknownTagFormat value))"

subsection \<open>Addresses of services\<close>

text \<open>What the setters use of \<open>net/url\<close>: the parts of a parsed URL. \<open>url_Hostname\<close> is \<open>URL.Hostname\<close>.\<close>

record url =
  url_Scheme :: string
  url_Host :: string
  url_Hostname :: string
  url_Path :: string
  url_User :: bool

definition TypeHttpsURL_Set :: "(string \<Rightarrow> url option) \<Rightarrow> string \<Rightarrow> config_error + url" where
  "TypeHttpsURL_Set urlParse value = (case urlParse value of
       None \<Rightarrow> Inl (IncorrectURL value)
     | Some u \<Rightarrow>
         if url_Host u = [] then Inl (NoSchema value)
         else if url_Scheme u \<noteq> ''https'' then Inl (UnsupportedSchema (url_Scheme u)) else Inr u)"

definition typeProxyURLDefaultSOCKS5Port :: string where
  "typeProxyURLDefaultSOCKS5Port = ''1080''"

definition TypeProxyURL_Set :: "(string \<Rightarrow> url option) \<Rightarrow> string \<Rightarrow> config_error + url" where
  "TypeProxyURL_Set urlParse value = (case urlParse value of
       None \<Rightarrow> Inl (IncorrectURL value)
     | Some u \<Rightarrow>
         if url_Host u = [] then Inl (NoSchema value)
         else if url_Scheme u \<noteq> ''socks5'' \<and> url_Scheme u \<noteq> ''socks5h'' then Inl (UnsupportedSchema (url_Scheme u))
         else if splitHostPort (url_Host u) = None
         then Inr (u\<lparr>url_Host := joinHostPort (url_Host u) typeProxyURLDefaultSOCKS5Port\<rparr>) else Inr u)"

text \<open>\<open>hostname\<close> is \<open>URL.Hostname\<close> of a URL whose host is the given text: the scheme-less address of a server.\<close>

definition TypeDNSURI_Set :: "(string \<Rightarrow> url option) \<Rightarrow> (string \<Rightarrow> string) \<Rightarrow> string \<Rightarrow> config_error + url" where
  "TypeDNSURI_Set urlParse hostname value = (case urlParse value of
       None \<Rightarrow> Inl (IncorrectURL value)
     | Some parsed \<Rightarrow>
         let u = (if url_Host parsed = []
                  then parsed\<lparr>url_Host := url_Path parsed, url_Hostname := hostname (url_Path parsed), url_Path := [], url_Scheme := ''udp''\<rparr>
                  else parsed)
         in if url_Scheme u \<notin> {''https'', ''tls'', ''udp''} then Inl (UnsupportedSchema (url_Scheme u))
            else if url_Scheme u = ''udp'' \<and> parseIP (url_Hostname u) = None then Inl (SimpleDNSNotIP (url_Hostname u))
            else if url_Scheme u \<noteq> ''https'' \<and> url_Path u \<noteq> [] then Inl PathOnlyForDoH
            else if url_User u then Inl UserNotSupported
            else Inr u)"

text \<open>What \<open>os.Stat\<close> and \<open>filepath.Abs\<close> say of a path.\<close>

record file_info =
  fi_IsDir :: bool
  fi_Readable :: bool
  fi_Abs :: "string option"

definition TypeBlocklistURI_Set :: "(string \<Rightarrow> file_info option) \<Rightarrow> (string \<Rightarrow> url option) \<Rightarrow> (url \<Rightarrow> string) \<Rightarrow> string \<Rightarrow> config_error + string" where
  "TypeBlocklistURI_Set osStat urlParse urlString value = (case osStat value of
       Some st \<Rightarrow>
         if fi_IsDir st then Inl FileIsDirectory
         else if \<not> fi_Readable st then Inl FileNotReadable
         else (case fi_Abs st of None \<Rightarrow> Inl (FileNotAbsolute value) | Some p \<Rightarrow> Inr p)
     | None \<Rightarrow>
         (case urlParse value of
            None \<Rightarrow> Inl (IncorrectURL value)
          | Some u \<Rightarrow>
              if url_Scheme u \<noteq> ''http'' \<and> url_Scheme u \<noteq> ''https'' then Inl (UnsupportedSchema (url_Scheme u))
              else if url_Host u = [] then Inl (IncorrectURL value)
              else Inr (urlString u)))"

definition TypeBlocklistURI_IsRemote :: "string \<Rightarrow> bool" where
  "TypeBlocklistURI_IsRemote v \<longleftrightarrow> \<not> hasPrefix v ''/''"

subsection \<open>What a setting promises\<close>

text \<open>Reading a printed value gives the value back, for every value that was ever read.\<close>

locale config_text =
  fixes setv :: "string \<Rightarrow> config_error + 'v" and printv :: "'v \<Rightarrow> string"
  assumes stable: "setv s = Inr v \<Longrightarrow> setv (printv v) = Inr v"
begin

lemma print_inj: "setv s = Inr v \<Longrightarrow> setv s' = Inr v' \<Longrightarrow> printv v = printv v' \<Longrightarrow> v = v'"
  by (metis stable sum.inject(2))

lemma print_fixpoint: "setv s = Inr v \<Longrightarrow> (case setv (printv v) of Inl _ \<Rightarrow> [] | Inr w \<Rightarrow> printv w) = printv v"
  using stable by simp

end

text \<open>Most types also have a default: the zero value stands for an absent setting, and any other value wins over it.\<close>

locale config_type = config_text setv printv
  for setv :: "string \<Rightarrow> config_error + 'v" and printv +
  fixes zero :: 'v and getv :: "'v \<Rightarrow> 'd \<Rightarrow> 'd" and inj :: "'v \<Rightarrow> 'd"
  assumes get_zero: "getv zero d = d"
    and get_set: "setv s = Inr v \<Longrightarrow> v \<noteq> zero \<Longrightarrow> getv v d = inj v"
begin

lemma saved_get: "setv s = Inr v \<Longrightarrow> v \<noteq> zero \<Longrightarrow> \<exists>w. setv (printv v) = Inr w \<and> getv w d = inj v"
  using stable get_set by blast

end

subsection \<open>Lemmas\<close>

lemma parseDigits_nonneg: "parseDigits a s = Some n \<Longrightarrow> 0 \<le> a \<Longrightarrow> 0 \<le> n"
  by (induction s arbitrary: a) (auto simp: digitValue_def Let_def split: option.splits if_splits)

lemma parseUint16_range: "parseUint16 s = Some n \<Longrightarrow> n < 65536"
  using parseDigits_nonneg [of 0 s] by (auto simp: parseUint16_def split: if_splits option.splits)

lemma parseUint16_digits: "n < 65536 \<Longrightarrow> parseUint16 (digits_of n) = Some n"
  using digits_of_shape [of n] by (simp add: parseUint16_def parseDigits_digits)

lemma parseDigits_chars: "parseDigits a s = Some n \<Longrightarrow> list_all (\<lambda>c. digitValue c \<noteq> None) s"
  by (induction s arbitrary: a) (auto split: option.splits)

lemma parseUint16_chars: "parseUint16 s = Some n \<Longrightarrow> set s \<inter> {CHR '':'', CHR ''['', CHR '']''} = {}"
proof -
  assume "parseUint16 s = Some n"
  then obtain m where "parseDigits 0 s = Some m" by (auto simp: parseUint16_def split: if_splits option.splits)
  then have "c \<in> set s \<Longrightarrow> digitValue c \<noteq> None" for c using parseDigits_chars by (fastforce simp: list_all_iff)
  moreover have "digitValue (CHR '':'') = None" "digitValue (CHR ''['') = None" "digitValue (CHR '']'') = None"
    by (simp_all add: digitValue_def)
  ultimately show ?thesis by blast
qed

lemma parseInt16_itoa: "0 \<le> n \<Longrightarrow> n \<le> 32767 \<Longrightarrow> parseInt16 (itoa n) = Some n"
  using parseInt64_itoa [of n] by (simp add: parseInt16_def in_i64_def)

lemma split_last_before: "split_last c s = Some (a, b) \<Longrightarrow> set a \<subseteq> set s"
proof -
  assume "split_last c s = Some (a, b)"
  then have "a = rev (tl (dropWhile (\<lambda>d. d \<noteq> c) (rev s)))" by (simp add: split_last_def split: if_splits)
  moreover have "set (tl t) \<subseteq> set t" for t :: string by (cases t) auto
  moreover have "set (dropWhile P t) \<subseteq> set t" for P and t :: string by (auto dest: set_dropWhileD)
  ultimately show ?thesis by (metis set_rev subset_trans)
qed

lemma splitHostPort_host:
  assumes "splitHostPort s = Some (host, port)"
  shows "set host \<inter> {CHR ''['', CHR '']''} = {}"
proof -
  obtain pre q where pre: "split_last (CHR '':'') s = Some (pre, q)"
    using assms by (auto simp: splitHostPort_def split: option.splits)
  show ?thesis
  proof (cases "hd s = CHR ''[''")
    case True
    then have "host = takeWhile (\<lambda>c. c \<noteq> CHR '']'') (tl s)" "CHR ''['' \<notin> set (tl s)"
      using assms pre by (simp_all add: splitHostPort_def Let_def split: if_splits)
    then show ?thesis by (auto dest: set_takeWhileD)
  next
    case False
    then have "host = pre" "CHR ''['' \<notin> set s" "CHR '']'' \<notin> set s"
      using assms pre by (simp_all add: splitHostPort_def split: if_splits)
    then show ?thesis using split_last_before [OF pre] by auto
  qed
qed

lemma trim_char_trim: "trim_char c (trim_char c s) = trim_char c s"
proof -
  have fix_front: "dropWhile (\<lambda>d. d = c) t = t \<longleftrightarrow> t = [] \<or> hd t \<noteq> c" for t :: string
    by (auto simp: dropWhile_eq_self_iff)
  define t where "t = dropWhile (\<lambda>d. d = c) s"
  define u where "u = rev (dropWhile (\<lambda>d. d = c) (rev t))"
  have "t = [] \<or> hd t \<noteq> c" unfolding t_def using hd_dropWhile [of "\<lambda>d. d = c" s] by blast
  moreover obtain w where w: "t = u @ w"
    unfolding u_def by (metis rev_append rev_rev_ident takeWhile_dropWhile_id)
  ultimately have "u = [] \<or> hd u \<noteq> c" by (cases u) auto
  then have 1: "dropWhile (\<lambda>d. d = c) u = u" by (simp add: fix_front)
  have "rev u = [] \<or> hd (rev u) \<noteq> c"
    unfolding u_def using hd_dropWhile [of "\<lambda>d. d = c" "rev t"] by auto
  then have 2: "dropWhile (\<lambda>d. d = c) (rev u) = rev u" by (simp add: fix_front)
  have "trim_char c s = u" by (simp add: trim_char_def u_def t_def)
  then show ?thesis using 1 2 by (simp add: trim_char_def)
qed

lemma toLower_lower: "w \<in> set ip_preferences \<union> set statsd_tag_formats \<Longrightarrow> toLower uni w = w"
  by (auto simp: ip_preferences_def statsd_tag_formats_def toLower_def isASCII_def lowerChar_def)

lemma dur_loop_range: "d \<le> 2 ^ 63 \<Longrightarrow> dur_loop frac d s = Some e \<Longrightarrow> e \<le> 2 ^ 63"
proof (induction frac d s rule: dur_loop.induct)
  case (1 frac d s)
  show ?case
  proof (cases "s = []")
    case False
    obtain v r where v: "dur_item frac s = Some (v, r)"
      using 1(3) False by (subst (asm) dur_loop.simps) (auto split: option.splits)
    have "dur_loop frac ((d + v) mod 2 ^ 64) r = Some e" "\<not> (d + v) mod 2 ^ 64 > 2 ^ 63"
      using 1(3) False v by (simp_all add: dur_loop.simps [of frac d] Let_def split: if_splits)
    then show ?thesis using 1(1) [OF False v refl refl] by simp
  qed (use 1 in \<open>simp add: dur_loop.simps\<close>)
qed

lemma parseDuration_range: "parseDuration frac s = Some d \<Longrightarrow> - (2 ^ 63) \<le> d \<and> d < 2 ^ 63"
proof -
  assume *: "parseDuration frac s = Some d"
  have range: "- (2 ^ 63) \<le> i64 x \<and> i64 x < 2 ^ 63" for x using in_i64_i64 [of x] by (simp add: in_i64_def)
  show ?thesis
  proof (cases "d = 0")
    case False
    then show ?thesis using * range by (auto simp: parseDuration_def Let_def split: if_splits option.splits)
  qed simp
qed

lemma trim_slash: "trim_char c (c # trim_char c s) = trim_char c s"
  using trim_char_trim [of c s] by (simp add: trim_char_def)

lemma ParseQuotaReset_print: "ParseQuotaReset uni (quotaReset_String q) = Inr q"
  by (cases q) (simp_all add: quotaReset_String_def, code_simp+)

subsection \<open>The types\<close>

interpretation tag_text: config_text TypeAdTag_Set TypeAdTag_String
  by unfold_locales (auto simp: TypeAdTag_Set_def TypeAdTag_String_def hex.dec_enc AdTagLength_def dest: arg_cong [where f = length]
      split: if_splits option.splits)

interpretation bool: config_type TypeBool_Set formatBool False TypeBool_Get id
  by unfold_locales (auto simp: TypeBool_Set_def TypeBool_Get_def parseBool_def formatBool_def split: if_splits option.splits)

interpretation concurrency: config_type TypeConcurrency_Set uint_String 0 uint_Get id
  by unfold_locales (auto simp: TypeConcurrency_Set_def uint_String_def uint_Get_def parseUint16_digits
      dest: parseUint16_range split: if_splits option.splits)

interpretation port: config_type TypePort_Set uint_String 0 uint_Get id
  by unfold_locales (auto simp: TypePort_Set_def uint_String_def uint_Get_def parseUint16_digits
      dest: parseUint16_range split: if_splits option.splits)

interpretation host: config_type TypeHost_Set id "[]" string_Get id
  by unfold_locales (auto simp: TypeHost_Set_def string_Get_def split: if_splits)

interpretation http_path: config_type TypeHTTPPath_Set id "[]" string_Get id
  by unfold_locales (auto simp: TypeHTTPPath_Set_def string_Get_def trim_slash)

interpretation metric_prefix: config_type TypeMetricPrefix_Set id "[]" string_Get id
  by unfold_locales (auto simp: TypeMetricPrefix_Set_def string_Get_def split: if_splits)

interpretation prefer_ip: config_type "TypePreferIP_Set ps" id "[]" string_Get id for ps
  by unfold_locales (auto simp: TypePreferIP_Set_def string_Get_def Let_def toLower_lower split: if_splits)

interpretation tag_format: config_type "TypeStatsdTagFormat_Set ps" id "[]" string_Get id for ps
  by unfold_locales (auto simp: TypeStatsdTagFormat_Set_def string_Get_def Let_def toLower_lower split: if_splits)

interpretation quota_reset: config_type "TypeQuotaReset_Set ps" id "[]" string_Get id for ps
  by unfold_locales (auto simp: TypeQuotaReset_Set_def string_Get_def ParseQuotaReset_print split: sum.splits)

lemma TypeHostPort_stable:
  assumes "TypeHostPort_Set s = Inr hp"
  shows "TypeHostPort_Set (hp_Value hp) = Inr hp"
proof -
  obtain h p n where hp: "splitHostPort s = Some (h, p)" "parseUint16 p = Some n" "hp = \<lparr>hp_Value = joinHostPort h p, hp_Host = h, hp_Port = n\<rparr>"
    "n \<noteq> 0" "h \<noteq> []" "parseIP h \<noteq> None"
    using assms by (auto simp: TypeHostPort_Set_def split: option.splits if_splits)
  have "splitHostPort (joinHostPort h p) = Some (h, p)"
    by (rule splitHostPort_join [OF splitHostPort_host [OF hp(1)] parseUint16_chars [OF hp(2)]])
  then show ?thesis using hp by (auto simp: TypeHostPort_Set_def)
qed

lemma TypeHostPort_nonempty: "TypeHostPort_Set s = Inr hp \<Longrightarrow> hp_Value hp \<noteq> []"
  by (auto simp: TypeHostPort_Set_def joinHostPort_def split: option.splits if_splits)

interpretation hostport: config_type TypeHostPort_Set hp_Value "\<lparr>hp_Value = [], hp_Host = [], hp_Port = 0\<rparr>" TypeHostPort_Get hp_Value
  by unfold_locales (auto simp: TypeHostPort_Get_def TypeHostPort_nonempty intro: TypeHostPort_stable)

text \<open>The smallest data centre number is the one value that does not read back.\<close>

lemma TypeDC_edge: "TypeDC_Set ''-32768'' = Inr 32768 \<and> TypeDC_Set (itoa 32768) = Inl (CannotParseDC (itoa 32768))"
  using parseInt64_itoa [of 32768] by (simp add: TypeDC_Set_def parseInt16_def in_i64_def parseInt64_def digitValue_def)

lemma TypePort_values: "(\<exists>s. TypePort_Set s = Inr n) \<longleftrightarrow> 1 \<le> n \<and> n \<le> 65535"
  using parseUint16_digits [of n] by (fastforce simp: TypePort_Set_def split: option.splits if_splits dest: parseUint16_range
      intro: exI [of _ "digits_of n"])

lemma TypeConcurrency_values: "(\<exists>s. TypeConcurrency_Set s = Inr n) \<longleftrightarrow> 1 \<le> n \<and> n \<le> 65535"
  using parseUint16_digits [of n] by (fastforce simp: TypeConcurrency_Set_def split: option.splits if_splits dest: parseUint16_range
      intro: exI [of _ "digits_of n"])

lemma TypeAdTag_values: "(\<exists>s. TypeAdTag_Set s = Inr v) \<longleftrightarrow> v = [] \<or> length v = AdTagLength"
proof
  assume "v = [] \<or> length v = AdTagLength"
  then have "TypeAdTag_Set (TypeAdTag_String v) = Inr v"
    by (auto simp: TypeAdTag_Set_def TypeAdTag_String_def hex.dec_enc AdTagLength_def dest: arg_cong [where f = length])
  then show "\<exists>s. TypeAdTag_Set s = Inr v" ..
qed (auto simp: TypeAdTag_Set_def split: if_splits option.splits)

lemma TypeHostPort_values:
  assumes "TypeHostPort_Set s = Inr hp"
  shows "TypeHostPort_Get hp d = hp_Value hp \<and> 1 \<le> hp_Port hp \<and> hp_Port hp \<le> 65535 \<and> parseIP (hp_Host hp) \<noteq> None \<and>
    (\<exists>p. splitHostPort (hp_Value hp) = Some (hp_Host hp, p) \<and> parseUint16 p = Some (hp_Port hp))"
proof -
  obtain h p n where hp: "splitHostPort (hp_Value hp) = Some (h, p)" "parseUint16 p = Some n"
    "hp = \<lparr>hp_Value = joinHostPort h p, hp_Host = h, hp_Port = n\<rparr>" "n \<noteq> 0" "parseIP h \<noteq> None"
    using TypeHostPort_stable [OF assms] by (auto simp: TypeHostPort_Set_def split: option.splits if_splits)
  then show ?thesis using TypeHostPort_nonempty [OF assms] parseUint16_range [OF hp(2)] by (auto simp: TypeHostPort_Get_def)
qed

text \<open>A duration of several units.\<close>

lemma sample_duration: "parseDuration frac ''1m30s'' = Some 90000000000"
  by (simp add: parseDuration_def dur_loop.simps dur_item_def dur_fraction_def unitMap_def unit_char_def digitValue_def Let_def)

definition plain_parsers :: parsers where
  "plain_parsers = \<lparr>uniUpper = id, uniLower = id, parseBase2Bytes = (\<lambda>_. None), timeParse = (\<lambda>_ _. None)\<rparr>"

lemma sample_settings:
  "TypeAdTag_Set ''000102030405060708090a0b0c0d0e0f'' = Inr [0,1,2,3,4,5,6,7,8,9,10,11,12,13,14,15]"
  "TypeBool_Set ''TRUE'' = Inr True" "TypeConcurrency_Set ''8192'' = Inr 8192" "TypePort_Set ''0443'' = Inr 443"
  "TypeHost_Set ''example.com'' = Inr ''example.com''"
  "TypeHostPort_Set ''127.0.0.1:080'' = Inr \<lparr>hp_Value = ''127.0.0.1:080'', hp_Host = ''127.0.0.1'', hp_Port = 80\<rparr>"
  "TypeHTTPPath_Set ''metrics/'' = Inr ''/metrics''" "TypeMetricPrefix_Set ''mtg'' = Inr ''mtg''"
  "TypePreferIP_Set plain_parsers ''Prefer-IPv6'' = Inr ''prefer-ipv6''"
  "TypeQuotaReset_Set plain_parsers [] = Inr ''none''" "TypeStatsdTagFormat_Set plain_parsers ''DataDog'' = Inr ''datadog''"
  by code_simp+

text \<open>A setting that was read prints as a text that reads as the same value, for every type with a printer of
  its own: advertising tags, flags, counts, ports, hosts, host and port pairs, paths, metric prefixes, address
  preferences, quota resets and tag formats.\<close>

lemma config_values_stable:
  assumes "TypeAdTag_Set s1 = Inr v1" "TypeBool_Set s2 = Inr v2" "TypeConcurrency_Set s3 = Inr v3" "TypePort_Set s4 = Inr v4"
    "TypeHost_Set s5 = Inr v5" "TypeHostPort_Set s6 = Inr v6" "TypeHTTPPath_Set s7 = Inr v7" "TypeMetricPrefix_Set s8 = Inr v8"
    "TypePreferIP_Set ps s9 = Inr v9" "TypeQuotaReset_Set ps s10 = Inr v10" "TypeStatsdTagFormat_Set ps s11 = Inr v11"
  shows "TypeAdTag_Set (TypeAdTag_String v1) = Inr v1 \<and> TypeBool_Set (formatBool v2) = Inr v2 \<and>
    TypeConcurrency_Set (uint_String v3) = Inr v3 \<and> TypePort_Set (uint_String v4) = Inr v4 \<and>
    TypeHost_Set v5 = Inr v5 \<and> TypeHostPort_Set (hp_Value v6) = Inr v6 \<and> TypeHTTPPath_Set v7 = Inr v7 \<and>
    TypeMetricPrefix_Set v8 = Inr v8 \<and> TypePreferIP_Set ps v9 = Inr v9 \<and> TypeQuotaReset_Set ps v10 = Inr v10 \<and>
    TypeStatsdTagFormat_Set ps v11 = Inr v11"
  using tag_text.stable [OF assms(1)] bool.stable [OF assms(2)] concurrency.stable [OF assms(3)] port.stable [OF assms(4)]
    host.stable [OF assms(5)] hostport.stable [OF assms(6)] http_path.stable [OF assms(7)] metric_prefix.stable [OF assms(8)]
    prefer_ip.stable [OF assms(9)] quota_reset.stable [OF assms(10)] tag_format.stable [OF assms(11)]
  by (simp only: id_apply simp_thms)

subsection \<open>Properties\<close>

text \<open>C34. What a value can be once it was read: ports and counts are between 1 and 65535, durations and byte counts
  are not negative and durations fit 63 bits, data centres are at most 32768, a tag is absent or 16 bytes long, and
  a listening address is the host and port it was written with, the host an IP address. The zero value that stands
  for an absent setting is none of the ports, counts and addresses, so a setting that is present always wins over
  the default.\<close>

theorem config_values_typed:
  shows "(\<forall>n. (\<exists>s. TypePort_Set s = Inr n) \<longleftrightarrow> 1 \<le> n \<and> n \<le> 65535) \<and>
    (\<forall>n. (\<exists>s. TypeConcurrency_Set s = Inr n) \<longleftrightarrow> 1 \<le> n \<and> n \<le> 65535) \<and>
    (\<forall>s d. TypeDuration_Set ps frac s = Inr d \<longrightarrow> 0 \<le> d \<and> d < 2 ^ 63) \<and>
    (\<forall>s n. TypeBytes_Set ps s = Inr n \<longrightarrow> 0 \<le> n) \<and>
    (\<forall>s n. TypeDC_Set s = Inr n \<longrightarrow> 0 \<le> n \<and> n \<le> 32768) \<and>
    (\<forall>v. (\<exists>s. TypeAdTag_Set s = Inr v) \<longleftrightarrow> v = [] \<or> length v = AdTagLength) \<and>
    (\<forall>s hp d. TypeHostPort_Set s = Inr hp \<longrightarrow> TypeHostPort_Get hp d = hp_Value hp \<and> 1 \<le> hp_Port hp \<and> hp_Port hp \<le> 65535 \<and>
       parseIP (hp_Host hp) \<noteq> None \<and> (\<exists>p. splitHostPort (hp_Value hp) = Some (hp_Host hp, p) \<and> parseUint16 p = Some (hp_Port hp)))"
proof (intro conjI allI)
  show "TypeDuration_Set ps frac s = Inr d \<longrightarrow> 0 \<le> d \<and> d < 2 ^ 63" for s d
    by (auto simp: TypeDuration_Set_def split: option.splits if_splits dest: parseDuration_range)
  show "TypeDC_Set s = Inr n \<longrightarrow> 0 \<le> n \<and> n \<le> 32768" for s n
    by (auto simp: TypeDC_Set_def parseInt16_def split: option.splits if_splits)
  show "TypeBytes_Set ps s = Inr n \<longrightarrow> 0 \<le> n" for s n
    by (auto simp: TypeBytes_Set_def split: option.splits if_splits)
qed (use TypePort_values TypeConcurrency_values TypeAdTag_values TypeHostPort_values in blast)+

theorem config_values_typed_witness:
  "(\<exists>s. TypePort_Set s = Inr 65535) \<and> \<not> (\<exists>s. TypePort_Set s = Inr 0) \<and>
   TypeHostPort_Get \<lparr>hp_Value = ''127.0.0.1:080'', hp_Host = ''127.0.0.1'', hp_Port = 80\<rparr> [] = ''127.0.0.1:080'' \<and>
   (\<exists>p. splitHostPort ''127.0.0.1:080'' = Some (''127.0.0.1'', p) \<and> parseUint16 p = Some 80)"
proof -
  note typed = config_values_typed [of plain_parsers "\<lambda>f unit k. 0"]
  note ports = typed [THEN conjunct1, rule_format]
  note hp = typed [THEN conjunct2, THEN conjunct2, THEN conjunct2, THEN conjunct2, THEN conjunct2, THEN conjunct2, rule_format,
      OF sample_settings(6), of "[]", simplified hostport.select_convs]
  have "\<exists>s. TypePort_Set s = Inr 65535" unfolding ports by simp
  moreover have "\<not> (\<exists>s. TypePort_Set s = Inr 0)" unfolding ports by simp
  ultimately show ?thesis using hp by (intro conjI) (assumption, assumption, elim conjE, assumption, elim conjE, assumption)
qed

end
