(* ===== verification/Config.thy ===== *)
theory Config
  imports ConfigTypes Serve Manager
begin

text \<open>
  The configuration, \<open>internal/config/config.go\<close>, \<open>parse.go\<close> and \<open>env.go\<close>: how a decoded TOML file becomes typed
  settings, what the environment replaces, what \<open>Validate\<close> refuses, and how \<open>runProxy\<close> turns the result into the
  options of the proxy. The lemmas show that a configuration that was read always builds a proxy and that the
  environment defines the secrets alone. The TOML decoder itself is third-party code: \<open>Parse\<close> starts from its result.
\<close>

subsection \<open>The decoded file\<close>

record toml_limit =
  tl_Quota :: string
  tl_QuotaReset :: string
  tl_Expires :: string
  tl_Disabled :: bool

record toml_list =
  tls_Enabled :: bool
  tls_DownloadConcurrency :: nat
  tls_URLs :: "string list"
  tls_UpdateEach :: string

text \<open>A TOML number may be infinite or not a number.\<close>

datatype toml_float = Finite float64 | NotFinite

datatype toml_bind = BindNone | BindString string | BindList "string list" | BindMixed | BindOther

record toml_fronting =
  tf_Host :: string
  tf_IP :: string
  tf_Port :: nat
  tf_ProxyProtocol :: bool

record toml_defense =
  td_MaxPerIP :: nat
  td_DryRun :: bool
  td_AntiReplay :: bool
  td_MaxSize :: string
  td_ErrorRate :: toml_float
  td_Blocklist :: toml_list
  td_Allowlist :: toml_list
  td_DoppelURLs :: "string list"
  td_Repeats :: nat
  td_RaidEach :: string
  td_DRS :: bool

record toml_network =
  tn_TCP :: string
  tn_HTTP :: string
  tn_Idle :: string
  tn_Handshake :: string
  tn_KeepAliveDisabled :: bool
  tn_KeepAliveIdle :: string
  tn_KeepAliveInterval :: string
  tn_KeepAliveCount :: nat
  tn_DOHIP :: string
  tn_DNS :: string
  tn_Proxies :: "string list"
  tn_TCPNotSentLowat :: string

record toml_stats =
  ts_StatsDEnabled :: bool
  ts_StatsDAddress :: string
  ts_StatsDPrefix :: string
  ts_StatsDTagFormat :: string
  ts_PrometheusEnabled :: bool
  ts_PrometheusBindTo :: string
  ts_PrometheusPath :: string
  ts_PrometheusPrefix :: string

record tomlConfig =
  tc_Debug :: bool
  tc_AllowFallbackOnUnknownDC :: bool
  tc_Secret :: string
  tc_Secrets :: "(string, string) gomap"
  tc_AdTag :: string
  tc_SecretAdTags :: "(string, string) gomap"
  tc_SecretLimits :: "(string, toml_limit) gomap"
  tc_UsageStateFile :: string
  tc_APIToken :: string
  tc_BindTo :: toml_bind
  tc_ProxyProtocolListener :: bool
  tc_PreferIP :: string
  tc_AutoUpdate :: bool
  tc_DomainFrontingPort :: nat
  tc_DomainFrontingIP :: string
  tc_DomainFrontingProxyProtocol :: bool
  tc_TolerateTimeSkewness :: string
  tc_Concurrency :: nat
  tc_PublicIPv4 :: string
  tc_PublicIPv6 :: string
  tc_DomainFronting :: toml_fronting
  tc_Defense :: toml_defense
  tc_Network :: toml_network
  tc_APIBindTo :: string
  tc_ThrottleMaxConnections :: nat
  tc_ThrottleCheckInterval :: string
  tc_Stats :: toml_stats

subsection \<open>The configuration\<close>

record configSecretLimit =
  sl_Quota :: int
  sl_QuotaReset :: string
  sl_Expires :: go_time
  sl_Disabled :: bool

record listConfig =
  lc_Enabled :: bool
  lc_DownloadConcurrency :: nat
  lc_URLs :: "string list"
  lc_UpdateEach :: duration

record cfg_fronting =
  cf_Host :: string
  cf_IP :: ip
  cf_Port :: nat
  cf_ProxyProtocol :: bool

record cfg_defense =
  cd_MaxPerIP :: nat
  cd_DryRun :: bool
  cd_AntiReplay :: bool
  cd_MaxSize :: int
  cd_ErrorRate :: float64
  cd_Blocklist :: listConfig
  cd_Allowlist :: listConfig
  cd_DoppelURLs :: "url list"
  cd_Repeats :: nat
  cd_RaidEach :: duration
  cd_DRS :: bool

record cfg_network =
  cn_TCP :: duration
  cn_HTTP :: duration
  cn_Idle :: duration
  cn_Handshake :: duration
  cn_KeepAliveDisabled :: bool
  cn_KeepAliveIdle :: duration
  cn_KeepAliveInterval :: duration
  cn_KeepAliveCount :: nat
  cn_DOHIP :: ip
  cn_DNS :: "url option"
  cn_Proxies :: "url list"
  cn_TCPNotSentLowat :: int

record cfg_stats =
  ct_StatsDEnabled :: bool
  ct_StatsDAddress :: hostport
  ct_StatsDPrefix :: string
  ct_StatsDTagFormat :: string
  ct_PrometheusEnabled :: bool
  ct_PrometheusBindTo :: hostport
  ct_PrometheusPath :: string
  ct_PrometheusPrefix :: string

record config =
  c_Debug :: bool
  c_AllowFallbackOnUnknownDC :: bool
  c_Secret :: secret
  c_Secrets :: "(string, secret) gomap"
  c_AdTag :: bytes
  c_SecretAdTags :: "(string, bytes) gomap"
  c_SecretLimits :: "(string, configSecretLimit) gomap"
  c_UsageStateFile :: string
  c_APIToken :: string
  c_BindTo :: "hostport list"
  c_ProxyProtocolListener :: bool
  c_PreferIP :: string
  c_AutoUpdate :: bool
  c_DomainFrontingPort :: nat
  c_DomainFrontingIP :: ip
  c_DomainFrontingProxyProtocol :: bool
  c_TolerateTimeSkewness :: duration
  c_Concurrency :: nat
  c_PublicIPv4 :: ip
  c_PublicIPv6 :: ip
  c_DomainFronting :: cfg_fronting
  c_Defense :: cfg_defense
  c_Network :: cfg_network
  c_APIBindTo :: hostport
  c_ThrottleMaxConnections :: nat
  c_ThrottleCheckInterval :: duration
  c_Stats :: cfg_stats

subsection \<open>Parsing\<close>

datatype parse_error =
    CannotParseTOML
  | BindElementNotString
  | EncodePanic
  | CannotParseConfig config_error
  | CannotParseSecret secret_error
  | BindToMalformed
  | BindToRequired

definition andThen :: "'e + 'a \<Rightarrow> ('a \<Rightarrow> 'e + 'b) \<Rightarrow> 'e + 'b" where
  "andThen r f = (case r of Inl e \<Rightarrow> Inl e | Inr x \<Rightarrow> f x)"

text \<open>A field with the zero value is left out of the intermediate JSON, and the setting keeps its zero value.\<close>

definition field :: "'v \<Rightarrow> (string \<Rightarrow> config_error + 'v) \<Rightarrow> string \<Rightarrow> parse_error + 'v" where
  "field zero setv s = (if s = [] then Inr zero else case setv s of Inl e \<Rightarrow> Inl (CannotParseConfig e) | Inr v \<Rightarrow> Inr v)"

definition uint_field :: "(string \<Rightarrow> config_error + nat) \<Rightarrow> nat \<Rightarrow> parse_error + nat" where
  "uint_field setv n = (if n = 0 then Inr 0 else field 0 setv (digits_of n))"

definition secret_field :: "string \<Rightarrow> parse_error + secret" where
  "secret_field s = (case secret_UnmarshalText empty_secret (bytes_of_string s) of
     (Some e, _) \<Rightarrow> Inl (CannotParseSecret e) | (None, v) \<Rightarrow> Inr v)"

fun list_field :: "('s \<Rightarrow> parse_error + 'v) \<Rightarrow> 's list \<Rightarrow> parse_error + 'v list" where
  "list_field f [] = Inr []"
| "list_field f (x # xs) = andThen (f x) (\<lambda>v. andThen (list_field f xs) (\<lambda>vs. Inr (v # vs)))"

text \<open>A map is encoded in the order of its keys.\<close>

definition map_field :: "('s \<Rightarrow> parse_error + 'v) \<Rightarrow> (string, 's) gomap \<Rightarrow> parse_error + (string, 'v) gomap" where
  "map_field f m = list_field (\<lambda>k. case gm_get m k of None \<Rightarrow> Inl CannotParseTOML | Some s \<Rightarrow> andThen (f s) (\<lambda>v. Inr (k, v))) (sort (gm_keys m))"

definition elem :: "(string \<Rightarrow> config_error + 'v) \<Rightarrow> string \<Rightarrow> parse_error + 'v" where
  "elem setv s = (case setv s of Inl e \<Rightarrow> Inl (CannotParseConfig e) | Inr v \<Rightarrow> Inr v)"

text \<open>What the setters take from outside: \<open>parsers\<close>, the arithmetic of fractions, URLs, and the file system.\<close>

record config_env =
  ce_parsers :: parsers
  ce_frac :: "nat \<Rightarrow> nat \<Rightarrow> nat \<Rightarrow> nat"
  ce_urlParse :: "string \<Rightarrow> url option"
  ce_hostname :: "string \<Rightarrow> string"
  ce_urlString :: "url \<Rightarrow> string"
  ce_osStat :: "string \<Rightarrow> file_info option"
  ce_getenv :: "string \<Rightarrow> string option"

definition duration_field :: "config_env \<Rightarrow> string \<Rightarrow> parse_error + duration" where
  "duration_field ce = field 0 (TypeDuration_Set (ce_parsers ce) (ce_frac ce))"

definition bytes_field :: "config_env \<Rightarrow> string \<Rightarrow> parse_error + int" where
  "bytes_field ce = field 0 (TypeBytes_Set (ce_parsers ce))"

abbreviation no_hostport :: hostport where
  "no_hostport \<equiv> \<lparr>hp_Value = [], hp_Host = [], hp_Port = 0\<rparr>"

definition limit_field :: "config_env \<Rightarrow> toml_limit \<Rightarrow> parse_error + configSecretLimit" where
  "limit_field ce t =
     andThen (bytes_field ce (tl_Quota t)) (\<lambda>q.
     andThen (field [] (TypeQuotaReset_Set (ce_parsers ce)) (tl_QuotaReset t)) (\<lambda>r.
     andThen (field 0 (TypeExpiry_Set (ce_parsers ce)) (tl_Expires t)) (\<lambda>x.
     Inr \<lparr>sl_Quota = q, sl_QuotaReset = r, sl_Expires = x, sl_Disabled = tl_Disabled t\<rparr>)))"

definition listconf_field :: "config_env \<Rightarrow> toml_list \<Rightarrow> parse_error + listConfig" where
  "listconf_field ce t =
     andThen (uint_field TypeConcurrency_Set (tls_DownloadConcurrency t)) (\<lambda>dc.
     andThen (list_field (elem (TypeBlocklistURI_Set (ce_osStat ce) (ce_urlParse ce) (ce_urlString ce))) (tls_URLs t)) (\<lambda>us.
     andThen (duration_field ce (tls_UpdateEach t)) (\<lambda>ue.
     Inr \<lparr>lc_Enabled = tls_Enabled t, lc_DownloadConcurrency = dc, lc_URLs = us, lc_UpdateEach = ue\<rparr>)))"

definition fronting_field :: "toml_fronting \<Rightarrow> parse_error + cfg_fronting" where
  "fronting_field t =
     andThen (field [] TypeHost_Set (tf_Host t)) (\<lambda>h.
     andThen (field [] TypeIP_Set (tf_IP t)) (\<lambda>i.
     andThen (uint_field TypePort_Set (tf_Port t)) (\<lambda>p.
     Inr \<lparr>cf_Host = h, cf_IP = i, cf_Port = p, cf_ProxyProtocol = tf_ProxyProtocol t\<rparr>)))"

definition rate_field :: "toml_float \<Rightarrow> parse_error + float64" where
  "rate_field f = (case f of
       NotFinite \<Rightarrow> Inl EncodePanic
     | Finite x \<Rightarrow> if fst x = 0 then Inr x else case TypeErrorRate_Set x of Inl e \<Rightarrow> Inl (CannotParseConfig e) | Inr v \<Rightarrow> Inr v)"

definition defense_field :: "config_env \<Rightarrow> toml_defense \<Rightarrow> parse_error + cfg_defense" where
  "defense_field ce t =
     andThen (uint_field TypeConcurrency_Set (td_MaxPerIP t)) (\<lambda>mp.
     andThen (bytes_field ce (td_MaxSize t)) (\<lambda>ms.
     andThen (rate_field (td_ErrorRate t)) (\<lambda>er.
     andThen (listconf_field ce (td_Blocklist t)) (\<lambda>bl.
     andThen (listconf_field ce (td_Allowlist t)) (\<lambda>al.
     andThen (list_field (elem (TypeHttpsURL_Set (ce_urlParse ce))) (td_DoppelURLs t)) (\<lambda>du.
     andThen (uint_field TypeConcurrency_Set (td_Repeats t)) (\<lambda>rp.
     andThen (duration_field ce (td_RaidEach t)) (\<lambda>re.
     Inr \<lparr>cd_MaxPerIP = mp, cd_DryRun = td_DryRun t, cd_AntiReplay = td_AntiReplay t, cd_MaxSize = ms, cd_ErrorRate = er,
          cd_Blocklist = bl, cd_Allowlist = al, cd_DoppelURLs = du, cd_Repeats = rp, cd_RaidEach = re, cd_DRS = td_DRS t\<rparr>))))))))"

definition network_field :: "config_env \<Rightarrow> toml_network \<Rightarrow> parse_error + cfg_network" where
  "network_field ce t =
     andThen (duration_field ce (tn_TCP t)) (\<lambda>tcp.
     andThen (duration_field ce (tn_HTTP t)) (\<lambda>http.
     andThen (duration_field ce (tn_Idle t)) (\<lambda>idle.
     andThen (duration_field ce (tn_Handshake t)) (\<lambda>hs.
     andThen (duration_field ce (tn_KeepAliveIdle t)) (\<lambda>ki.
     andThen (duration_field ce (tn_KeepAliveInterval t)) (\<lambda>kv.
     andThen (uint_field TypeConcurrency_Set (tn_KeepAliveCount t)) (\<lambda>kc.
     andThen (field [] TypeIP_Set (tn_DOHIP t)) (\<lambda>doh.
     andThen (field None (\<lambda>s. map_sum id Some (TypeDNSURI_Set (ce_urlParse ce) (ce_hostname ce) s)) (tn_DNS t)) (\<lambda>dns.
     andThen (list_field (elem (TypeProxyURL_Set (ce_urlParse ce))) (tn_Proxies t)) (\<lambda>px.
     andThen (bytes_field ce (tn_TCPNotSentLowat t)) (\<lambda>lw.
     Inr \<lparr>cn_TCP = tcp, cn_HTTP = http, cn_Idle = idle, cn_Handshake = hs, cn_KeepAliveDisabled = tn_KeepAliveDisabled t,
          cn_KeepAliveIdle = ki, cn_KeepAliveInterval = kv, cn_KeepAliveCount = kc, cn_DOHIP = doh, cn_DNS = dns,
          cn_Proxies = px, cn_TCPNotSentLowat = lw\<rparr>)))))))))))"

definition stats_field :: "config_env \<Rightarrow> toml_stats \<Rightarrow> parse_error + cfg_stats" where
  "stats_field ce t =
     andThen (field no_hostport TypeHostPort_Set (ts_StatsDAddress t)) (\<lambda>a.
     andThen (field [] TypeMetricPrefix_Set (ts_StatsDPrefix t)) (\<lambda>p.
     andThen (field [] (TypeStatsdTagFormat_Set (ce_parsers ce)) (ts_StatsDTagFormat t)) (\<lambda>f.
     andThen (field no_hostport TypeHostPort_Set (ts_PrometheusBindTo t)) (\<lambda>b.
     andThen (field [] TypeHTTPPath_Set (ts_PrometheusPath t)) (\<lambda>h.
     andThen (field [] TypeMetricPrefix_Set (ts_PrometheusPrefix t)) (\<lambda>q.
     Inr \<lparr>ct_StatsDEnabled = ts_StatsDEnabled t, ct_StatsDAddress = a, ct_StatsDPrefix = p, ct_StatsDTagFormat = f,
          ct_PrometheusEnabled = ts_PrometheusEnabled t, ct_PrometheusBindTo = b, ct_PrometheusPath = h, ct_PrometheusPrefix = q\<rparr>))))))"

text \<open>The value of \<open>bind-to\<close> after the type switch: the addresses, or why it cannot be decoded as a list. A
  missing value is JSON's \<open>null\<close>.\<close>

definition bind_field :: "toml_bind \<Rightarrow> parse_error + hostport list" where
  "bind_field b = (case b of
       BindNone \<Rightarrow> Inr []
     | BindString v \<Rightarrow> if v \<noteq> [] then list_field (elem TypeHostPort_Set) [v] else Inl BindToMalformed
     | BindList vs \<Rightarrow> list_field (elem TypeHostPort_Set) vs
     | _ \<Rightarrow> Inl BindToMalformed)"

text \<open>The fields are decoded in the order of the structure, and the first error ends it.\<close>

definition decode_config :: "config_env \<Rightarrow> tomlConfig \<Rightarrow> parse_error + config" where
  "decode_config ce t =
     andThen (if tc_Secret t = [] then Inr empty_secret else secret_field (tc_Secret t)) (\<lambda>secret.
     andThen (map_field secret_field (tc_Secrets t)) (\<lambda>secrets.
     andThen (field [] TypeAdTag_Set (tc_AdTag t)) (\<lambda>tag.
     andThen (map_field (elem TypeAdTag_Set) (tc_SecretAdTags t)) (\<lambda>tags.
     andThen (map_field (limit_field ce) (tc_SecretLimits t)) (\<lambda>limits.
     andThen (bind_field (tc_BindTo t)) (\<lambda>bind.
     andThen (field [] (TypePreferIP_Set (ce_parsers ce)) (tc_PreferIP t)) (\<lambda>prefer.
     andThen (uint_field TypePort_Set (tc_DomainFrontingPort t)) (\<lambda>fport.
     andThen (field [] TypeIP_Set (tc_DomainFrontingIP t)) (\<lambda>fip.
     andThen (duration_field ce (tc_TolerateTimeSkewness t)) (\<lambda>skew.
     andThen (uint_field TypeConcurrency_Set (tc_Concurrency t)) (\<lambda>conc.
     andThen (field [] TypeIP_Set (tc_PublicIPv4 t)) (\<lambda>ip4.
     andThen (field [] TypeIP_Set (tc_PublicIPv6 t)) (\<lambda>ip6.
     andThen (fronting_field (tc_DomainFronting t)) (\<lambda>fronting.
     andThen (defense_field ce (tc_Defense t)) (\<lambda>defense.
     andThen (network_field ce (tc_Network t)) (\<lambda>network.
     andThen (field no_hostport TypeHostPort_Set (tc_APIBindTo t)) (\<lambda>api.
     andThen (uint_field TypeConcurrency_Set (tc_ThrottleMaxConnections t)) (\<lambda>tmax.
     andThen (duration_field ce (tc_ThrottleCheckInterval t)) (\<lambda>tcheck.
     andThen (stats_field ce (tc_Stats t)) (\<lambda>stats.
     Inr \<lparr>c_Debug = tc_Debug t, c_AllowFallbackOnUnknownDC = tc_AllowFallbackOnUnknownDC t, c_Secret = secret,
          c_Secrets = secrets, c_AdTag = tag, c_SecretAdTags = tags, c_SecretLimits = limits,
          c_UsageStateFile = tc_UsageStateFile t, c_APIToken = tc_APIToken t, c_BindTo = bind,
          c_ProxyProtocolListener = tc_ProxyProtocolListener t, c_PreferIP = prefer, c_AutoUpdate = tc_AutoUpdate t,
          c_DomainFrontingPort = fport, c_DomainFrontingIP = fip,
          c_DomainFrontingProxyProtocol = tc_DomainFrontingProxyProtocol t, c_TolerateTimeSkewness = skew,
          c_Concurrency = conc, c_PublicIPv4 = ip4, c_PublicIPv6 = ip6, c_DomainFronting = fronting,
          c_Defense = defense, c_Network = network, c_APIBindTo = api, c_ThrottleMaxConnections = tmax,
          c_ThrottleCheckInterval = tcheck, c_Stats = stats\<rparr>))))))))))))))))))))"

definition Parse :: "config_env \<Rightarrow> tomlConfig option \<Rightarrow> parse_error + config" where
  "Parse ce decoded = (case decoded of
       None \<Rightarrow> Inl CannotParseTOML
     | Some t \<Rightarrow>
         if tc_BindTo t = BindMixed then Inl BindElementNotString
         else if td_ErrorRate (tc_Defense t) = NotFinite then Inl EncodePanic
         else andThen (decode_config ce t) (\<lambda>conf. if c_BindTo conf = [] then Inl BindToRequired else Inr conf))"

subsection \<open>Reading the settings\<close>

definition GetConcurrency :: "config \<Rightarrow> nat \<Rightarrow> nat" where
  "GetConcurrency c defaultValue =
     (if uint_Get (c_Concurrency c) 0 \<noteq> 0 then uint_Get (c_Concurrency c) 0 else uint_Get (c_Concurrency c) defaultValue)"

text \<open>The address goes into the URL as it prints, an IPv6 address without brackets.\<close>

definition GetDNS :: "config_env \<Rightarrow> config \<Rightarrow> url option" where
  "GetDNS ce c =
     (let dohURL = (case TypeIP_Get (cn_DOHIP (c_Network c)) None of None \<Rightarrow> None | Some a \<Rightarrow> ce_urlParse ce (''https://'' @ ip_String a))
      in case cn_DNS (c_Network c) of Some u \<Rightarrow> Some u | None \<Rightarrow> dohURL)"

definition GetDomainFrontingPort :: "config \<Rightarrow> nat \<Rightarrow> nat" where
  "GetDomainFrontingPort c defaultValue =
     (if uint_Get (cf_Port (c_DomainFronting c)) 0 \<noteq> 0 then uint_Get (cf_Port (c_DomainFronting c)) 0
      else uint_Get (c_DomainFrontingPort c) defaultValue)"

definition GetDomainFrontingHost :: "config \<Rightarrow> string" where
  "GetDomainFrontingHost c = string_Get (cf_Host (c_DomainFronting c)) []"

definition GetDomainFrontingProxyProtocol :: "config \<Rightarrow> bool \<Rightarrow> bool" where
  "GetDomainFrontingProxyProtocol c defaultValue =
     (TypeBool_Get (cf_ProxyProtocol (c_DomainFronting c)) False \<or> TypeBool_Get (c_DomainFrontingProxyProtocol c) defaultValue)"

definition GetSecrets :: "config \<Rightarrow> (string, secret) gomap" where
  "GetSecrets c = (if c_Secrets c \<noteq> [] then c_Secrets c else [(''default'', c_Secret c)])"

definition GetAdTag :: "config \<Rightarrow> ad_tag option" where
  "GetAdTag c = TypeAdTag_Get (c_AdTag c)"

definition GetSecretAdTags :: "config \<Rightarrow> (string, ad_tag) gomap" where
  "GetSecretAdTags c = fold (\<lambda>(name, tag) out. case TypeAdTag_Get tag of None \<Rightarrow> out | Some t \<Rightarrow> gm_put name t out) (c_SecretAdTags c) []"

definition limit_of :: "configSecretLimit \<Rightarrow> secret_limits" where
  "limit_of l =
     (let lim = \<lparr>QuotaBytes = i64 (TypeBytes_Get (sl_Quota l) 0), QuotaReset = QuotaResetNone,
                 ExpiresAt = TypeExpiry_Get (sl_Expires l) 0, Disabled = TypeBool_Get (sl_Disabled l) False\<rparr>
      in if string_Get (sl_QuotaReset l) ''none'' = quotaReset_String QuotaResetMonthly
         then lim\<lparr>QuotaReset := QuotaResetMonthly\<rparr> else lim)"

definition GetSecretLimits :: "config \<Rightarrow> (string, secret_limits) gomap" where
  "GetSecretLimits c = fold (\<lambda>(name, l) out. if limits_IsZero (limit_of l) then out else gm_put name (limit_of l) out) (c_SecretLimits c) []"

definition GetBindAddrs :: "config \<Rightarrow> string list" where
  "GetBindAddrs c = map (\<lambda>hp. TypeHostPort_Get hp []) (c_BindTo c)"

definition GetFirstBindPort :: "config \<Rightarrow> nat" where
  "GetFirstBindPort c = (case c_BindTo c of [] \<Rightarrow> 0 | hp # _ \<Rightarrow> hp_Port hp)"

subsection \<open>Validation\<close>

datatype invalid_config =
    InvalidSecret
  | InvalidNamedSecret string
  | NoBindAddresses
  | EmptyBindAddress
  | DuplicateBindAddress string
  | UnknownTagSecret string
  | UnknownLimitSecret string

definition invalid_secret_name :: "(string, secret) gomap \<Rightarrow> string option" where
  "invalid_secret_name m = map_option fst (find (\<lambda>(name, s). \<not> secret_Valid s) m)"

fun check_binds :: "string list \<Rightarrow> string list \<Rightarrow> invalid_config option" where
  "check_binds seen [] = None"
| "check_binds seen (v # vs) =
     (if v = [] then Some EmptyBindAddress
      else if v \<in> set seen then Some (DuplicateBindAddress v)
      else check_binds (v # seen) vs)"

definition known_secrets :: "config \<Rightarrow> string list" where
  "known_secrets c = (if c_Secrets c \<noteq> [] then gm_keys (c_Secrets c) else [''default''])"

definition validateAdTags :: "config \<Rightarrow> invalid_config option" where
  "validateAdTags c = map_option UnknownTagSecret (find (\<lambda>name. name \<notin> set (known_secrets c)) (gm_keys (c_SecretAdTags c)))"

definition validateSecretLimits :: "config \<Rightarrow> invalid_config option" where
  "validateSecretLimits c = map_option UnknownLimitSecret (find (\<lambda>name. name \<notin> set (known_secrets c)) (gm_keys (c_SecretLimits c)))"

definition Validate :: "config \<Rightarrow> invalid_config option" where
  "Validate c =
     (if c_Secrets c = [] \<and> \<not> secret_Valid (c_Secret c) then Some InvalidSecret
      else case (if c_Secrets c = [] then None else invalid_secret_name (c_Secrets c)) of
        Some name \<Rightarrow> Some (InvalidNamedSecret name)
      | None \<Rightarrow>
          if c_BindTo c = [] then Some NoBindAddresses
          else case check_binds [] (GetBindAddrs c) of
            Some e \<Rightarrow> Some e
          | None \<Rightarrow> (case validateAdTags c of Some e \<Rightarrow> Some e | None \<Rightarrow> validateSecretLimits c))"

subsection \<open>The environment\<close>

datatype env_error =
    BareKeyWithoutHost
  | IncorrectEnvSecret secret_error
  | IncorrectEnvTag config_error
  | IncorrectEnvBind config_error
  | EmptyEnvBind

definition lookupEnv :: "(string \<Rightarrow> string option) \<Rightarrow> string \<Rightarrow> string option" where
  "lookupEnv getenv name = (case getenv (''MTG_'' @ name) of Some v \<Rightarrow> Some v | None \<Rightarrow> getenv name)"

definition parseEnvSecret :: "(string \<Rightarrow> string option) \<Rightarrow> string \<Rightarrow> env_error + secret" where
  "parseEnvSecret getenv value =
     (case hexDecodeString value of
        Some raw \<Rightarrow>
          if length raw = SecretKeyLength then
            let host = trimSpace (case lookupEnv getenv ''SECRET_HOST'' of None \<Rightarrow> [] | Some h \<Rightarrow> h)
            in if host = [] then Inl BareKeyWithoutHost else Inr \<lparr>Key = raw, Host = host\<rparr>
          else (case ParseSecret value of (s, None) \<Rightarrow> Inr s | (_, Some e) \<Rightarrow> Inl (IncorrectEnvSecret e))
      | None \<Rightarrow> (case ParseSecret value of (s, None) \<Rightarrow> Inr s | (_, Some e) \<Rightarrow> Inl (IncorrectEnvSecret e)))"

definition applyEnvSecret :: "(string \<Rightarrow> string option) \<Rightarrow> config \<Rightarrow> env_error + config" where
  "applyEnvSecret getenv c = (case lookupEnv getenv ''SECRET'' of
       None \<Rightarrow> Inr c
     | Some value \<Rightarrow> andThen (parseEnvSecret getenv (trimSpace value)) (\<lambda>secret.
         Inr (c\<lparr>c_Secret := secret, c_Secrets := [], c_SecretAdTags := [], c_SecretLimits := []\<rparr>)))"

definition applyEnvAdTag :: "(string \<Rightarrow> string option) \<Rightarrow> config \<Rightarrow> env_error + config" where
  "applyEnvAdTag getenv c = (case lookupEnv getenv ''TAG'' of
       None \<Rightarrow> Inr c
     | Some value \<Rightarrow> (case TypeAdTag_Set (trimSpace value) of
           Inl e \<Rightarrow> Inl (IncorrectEnvTag e)
         | Inr tag \<Rightarrow> Inr (c\<lparr>c_AdTag := tag\<rparr>)))"

fun env_binds :: "string list \<Rightarrow> env_error + hostport list" where
  "env_binds [] = Inr []"
| "env_binds (p0 # ps) =
     (let p = trimSpace p0
      in if p = [] then env_binds ps
         else case TypeHostPort_Set p of
           Inl e \<Rightarrow> Inl (IncorrectEnvBind e)
         | Inr hp \<Rightarrow> andThen (env_binds ps) (\<lambda>hps. Inr (hp # hps)))"

definition applyEnvBindTo :: "(string \<Rightarrow> string option) \<Rightarrow> config \<Rightarrow> env_error + config" where
  "applyEnvBindTo getenv c = (case getenv ''MTG_BIND_TO'' of
       None \<Rightarrow> Inr c
     | Some value \<Rightarrow> andThen (env_binds (split_on (CHR '','') value)) (\<lambda>binds.
         if binds = [] then Inl EmptyEnvBind else Inr (c\<lparr>c_BindTo := binds\<rparr>)))"

definition ApplyEnvironment :: "(string \<Rightarrow> string option) \<Rightarrow> config \<Rightarrow> env_error + config" where
  "ApplyEnvironment getenv c =
     andThen (applyEnvSecret getenv c) (\<lambda>c. andThen (applyEnvAdTag getenv c) (\<lambda>c. applyEnvBindTo getenv c))"

subsection \<open>Reading a configuration\<close>

datatype read_error = CannotReadFile | ParseFailed parse_error | EnvironmentFailed env_error | InvalidConfig invalid_config

text \<open>\<open>ReadConfig\<close>, from the file as the TOML decoder sees it; \<open>None\<close> when it cannot be read.\<close>

definition ReadConfig :: "config_env \<Rightarrow> tomlConfig option option \<Rightarrow> read_error + config" where
  "ReadConfig ce content = (case content of
       None \<Rightarrow> Inl CannotReadFile
     | Some decoded \<Rightarrow>
         (case Parse ce decoded of
            Inl e \<Rightarrow> Inl (ParseFailed e)
          | Inr conf \<Rightarrow>
              (case ApplyEnvironment (ce_getenv ce) conf of
                 Inl e \<Rightarrow> Inl (EnvironmentFailed e)
               | Inr conf \<Rightarrow> (case Validate conf of Some e \<Rightarrow> Inl (InvalidConfig e) | None \<Rightarrow> Inr conf))))"

text \<open>What \<open>POST /reload\<close> gets from the file, and the options \<open>runProxy\<close> starts the proxy with.\<close>

definition secretsReloader :: "config_env \<Rightarrow> tomlConfig option option \<Rightarrow> read_error + secret_config" where
  "secretsReloader ce content = (case ReadConfig ce content of
       Inl e \<Rightarrow> Inl e
     | Inr conf \<Rightarrow> Inr \<lparr>Secrets = GetSecrets conf, SecretAdTags = GetSecretAdTags conf, GlobalAdTag = GetAdTag conf,
                         CfgLimits = GetSecretLimits conf\<rparr>)"

definition runProxy_opts :: "config \<Rightarrow> proxyOpts" where
  "runProxy_opts conf =
     \<lparr>po_Network = Some (), po_AntiReplayCache = Some (), po_IPBlocklist = Some (), po_IPAllowlist = Some (),
      po_EventStream = Some (), po_Logger = Some (),
      po_Secret = empty_secret, po_Secrets = GetSecrets conf, po_SecretAdTags = GetSecretAdTags conf,
      po_GlobalAdTag = GetAdTag conf, po_SecretLimits = GetSecretLimits conf,
      po_Concurrency = GetConcurrency conf 4096,
      po_IdleTimeout = TypeDuration_Get (cn_Idle (c_Network conf)) 300000000000,
      po_HandshakeTimeout = TypeDuration_Get (cn_Handshake (c_Network conf)) 10000000000,
      po_TolerateTimeSkewness = c_TolerateTimeSkewness conf,
      po_PreferIP = string_Get (c_PreferIP conf) ''prefer-ipv6'',
      po_DomainFrontingPort = GetDomainFrontingPort conf 443, po_DomainFrontingHost = GetDomainFrontingHost conf,
      po_DomainFrontingProxyProtocol = GetDomainFrontingProxyProtocol conf False,
      po_AllowFallbackOnUnknownDC = TypeBool_Get (c_AllowFallbackOnUnknownDC conf) False,
      po_EmitTraffic = (TypeBool_Get (ct_StatsDEnabled (c_Stats conf)) False \<or> TypeBool_Get (ct_PrometheusEnabled (c_Stats conf)) False),
      po_PublicIPv4 = (case TypeIP_Get (c_PublicIPv4 conf) None of None \<Rightarrow> [] | Some a \<Rightarrow> a),
      po_PublicIPv6 = (case TypeIP_Get (c_PublicIPv6 conf) None of None \<Rightarrow> [] | Some a \<Rightarrow> a),
      po_AdvertisedPort = int (GetFirstBindPort conf),
      po_PendingHandshakesPerIP = uint_Get (cd_MaxPerIP (c_Defense conf)) 0,
      po_PendingHandshakesDryRun = TypeBool_Get (cd_DryRun (c_Defense conf)) False,
      po_UsageStateFile = c_UsageStateFile conf,
      po_ThrottleMaxConnections = uint_Get (c_ThrottleMaxConnections conf) 0,
      po_ThrottleCheckInterval = TypeDuration_Get (c_ThrottleCheckInterval conf) 5000000000\<rparr>"

subsection \<open>Lemmas\<close>

lemma andThen_Inr: "andThen r f = Inr y \<longleftrightarrow> (\<exists>x. r = Inr x \<and> f x = Inr y)"
  by (auto simp: andThen_def split: sum.splits)

lemma list_field_length: "list_field f xs = Inr vs \<Longrightarrow> length vs = length xs"
  by (induction xs arbitrary: vs) (auto simp: andThen_Inr)

lemma list_field_elem: "list_field f xs = Inr vs \<Longrightarrow> v \<in> set vs \<Longrightarrow> \<exists>x \<in> set xs. f x = Inr v"
  by (induction xs arbitrary: vs) (auto simp: andThen_Inr)

lemma map_field_keys:
  assumes "map_field f m = Inr vs"
  shows "gm_keys vs = sort (gm_keys m)"
proof -
  have "list_field (\<lambda>k. case gm_get m k of None \<Rightarrow> Inl CannotParseTOML | Some s \<Rightarrow> andThen (f s) (\<lambda>v. Inr (k, v))) ks = Inr vs
    \<Longrightarrow> map fst vs = ks" for ks vs
    by (induction ks arbitrary: vs) (auto simp: andThen_Inr split: option.splits)
  then show ?thesis using assms by (simp add: map_field_def)
qed

lemma map_field_ok: "map_field f m = Inr vs \<Longrightarrow> gm_ok m \<Longrightarrow> gm_ok vs"
  by (simp add: map_field_keys)

lemma decode_config_parts:
  "decode_config ce t = Inr c \<Longrightarrow> map_field secret_field (tc_Secrets t) = Inr (c_Secrets c) \<and>
     field [] (TypePreferIP_Set (ce_parsers ce)) (tc_PreferIP t) = Inr (c_PreferIP c) \<and> bind_field (tc_BindTo t) = Inr (c_BindTo c)"
  by (auto simp: decode_config_def andThen_Inr)

lemma PreferIP_values: "field [] (TypePreferIP_Set ps) s = Inr v \<Longrightarrow> v = [] \<or> v \<in> set ip_preferences"
  by (auto simp: field_def TypePreferIP_Set_def Let_def split: if_splits sum.splits)

lemma check_binds_None: "check_binds seen vs = None \<longleftrightarrow> [] \<notin> set vs \<and> distinct vs \<and> set vs \<inter> set seen = {}"
  by (induction vs arbitrary: seen) auto

text \<open>What \<open>Validate\<close> accepts, without the order of its checks.\<close>

lemma Validate_None:
  "Validate c = None \<longleftrightarrow>
     (\<forall>(n, s) \<in> set (GetSecrets c). secret_Valid s) \<and> c_BindTo c \<noteq> [] \<and>
     [] \<notin> set (GetBindAddrs c) \<and> distinct (GetBindAddrs c) \<and>
     set (gm_keys (c_SecretAdTags c)) \<union> set (gm_keys (c_SecretLimits c)) \<subseteq> set (gm_keys (GetSecrets c))"
proof -
  have known: "set (known_secrets c) = set (gm_keys (GetSecrets c))" by (simp add: known_secrets_def GetSecrets_def)
  have tags: "validateAdTags c = None \<longleftrightarrow> set (gm_keys (c_SecretAdTags c)) \<subseteq> set (gm_keys (GetSecrets c))"
    and limits: "validateSecretLimits c = None \<longleftrightarrow> set (gm_keys (c_SecretLimits c)) \<subseteq> set (gm_keys (GetSecrets c))"
    unfolding known [symmetric] by (auto simp: validateAdTags_def validateSecretLimits_def find_None_iff)
  have secs: "(if c_Secrets c = [] then None else invalid_secret_name (c_Secrets c)) = None \<and> \<not> (c_Secrets c = [] \<and> \<not> secret_Valid (c_Secret c))
      \<longleftrightarrow> (\<forall>(n, s) \<in> set (GetSecrets c). secret_Valid s)"
    by (auto simp: invalid_secret_name_def find_None_iff GetSecrets_def)
  have "Validate c = None \<longleftrightarrow> ((if c_Secrets c = [] then None else invalid_secret_name (c_Secrets c)) = None \<and>
      \<not> (c_Secrets c = [] \<and> \<not> secret_Valid (c_Secret c))) \<and> c_BindTo c \<noteq> [] \<and> check_binds [] (GetBindAddrs c) = None \<and>
      validateAdTags c = None \<and> validateSecretLimits c = None"
    unfolding Validate_def by (simp split: option.splits)
  then show ?thesis unfolding secs tags limits check_binds_None by auto
qed

lemma applyEnvSecret_Inr: "applyEnvSecret getenv c = Inr c' \<Longrightarrow>
    c' = c \<or> (\<exists>s. c' = c\<lparr>c_Secret := s, c_Secrets := [], c_SecretAdTags := [], c_SecretLimits := []\<rparr>)"
  by (auto simp: applyEnvSecret_def andThen_Inr split: option.splits)

lemma applyEnvAdTag_Inr: "applyEnvAdTag getenv c = Inr c' \<Longrightarrow> \<exists>tag. c' = c\<lparr>c_AdTag := tag\<rparr>"
  by (cases "lookupEnv getenv ''TAG''") (auto simp: applyEnvAdTag_def split: sum.splits intro: exI [of _ "c_AdTag c"])

lemma applyEnvBindTo_Inr: "applyEnvBindTo getenv c = Inr c' \<Longrightarrow> \<exists>binds. c' = c\<lparr>c_BindTo := binds\<rparr>"
  by (cases "getenv ''MTG_BIND_TO''") (auto simp: applyEnvBindTo_def andThen_Inr split: if_splits intro: exI [of _ "c_BindTo c"])

lemma ApplyEnvironment_keeps:
  assumes "ApplyEnvironment getenv c = Inr c'"
  shows "c_PreferIP c' = c_PreferIP c \<and> (c_Secrets c' = c_Secrets c \<or> c_Secrets c' = [])"
proof -
  obtain c1 c2 where "applyEnvSecret getenv c = Inr c1" "applyEnvAdTag getenv c1 = Inr c2" "applyEnvBindTo getenv c2 = Inr c'"
    using assms by (auto simp: ApplyEnvironment_def andThen_Inr)
  from applyEnvSecret_Inr [OF this(1)] applyEnvAdTag_Inr [OF this(2)] applyEnvBindTo_Inr [OF this(3)]
  show ?thesis by auto
qed

lemma ReadConfig_Inr:
  assumes "ReadConfig ce (Some (Some t)) = Inr conf" "gm_ok (tc_Secrets t)"
  shows "Validate conf = None \<and> gm_ok (c_Secrets conf) \<and> (c_PreferIP conf = [] \<or> c_PreferIP conf \<in> set ip_preferences)"
proof -
  obtain c0 where c0: "decode_config ce t = Inr c0" "ApplyEnvironment (ce_getenv ce) c0 = Inr conf" "Validate conf = None"
    using assms(1) by (auto simp: ReadConfig_def Parse_def andThen_Inr split: sum.splits option.splits if_splits)
  have "gm_ok (c_Secrets c0)" "c_PreferIP c0 = [] \<or> c_PreferIP c0 \<in> set ip_preferences"
    using decode_config_parts [OF c0(1)] map_field_ok assms(2) PreferIP_values by blast+
  then show ?thesis using ApplyEnvironment_keeps [OF c0(2)] c0(3) by auto
qed

lemma GetSecrets_ok: "gm_ok (c_Secrets c) \<Longrightarrow> gm_ok (GetSecrets c)"
  by (simp add: GetSecrets_def)

lemma runProxy_opts_valid:
  assumes "Validate conf = None"
  shows "opts_valid (runProxy_opts conf) = None"
proof -
  have "GetSecrets conf \<noteq> []" by (simp add: GetSecrets_def)
  then have "getSecrets (runProxy_opts conf) = GetSecrets conf" by (simp add: getSecrets_def runProxy_opts_def)
  then show ?thesis using assms \<open>GetSecrets conf \<noteq> []\<close> by (auto simp: opts_valid_def runProxy_opts_def Validate_None)
qed

lemma preference_of_config:
  "p = [] \<or> p \<in> set ip_preferences \<Longrightarrow> \<exists>q. preference_of (toLower uni (string_Get p ''prefer-ipv6'')) = Some q"
  using toLower_lower [of "string_Get p ''prefer-ipv6''" uni]
  by (auto simp: string_Get_def ip_preferences_def preference_of_def)

lemma Parse_panics: "tc_BindTo t \<noteq> BindMixed \<Longrightarrow> td_ErrorRate (tc_Defense t) = NotFinite \<Longrightarrow> Parse ce (Some t) = Inl EncodePanic"
  by (simp add: Parse_def)

lemma parseEnvSecret_printed:
  assumes "wf_secret s" "Host s \<noteq> []" "text = secret_Hex s \<or> text = secret_Base64 s"
  shows "parseEnvSecret getenv text = Inr s"
proof -
  have parsed: "ParseSecret text = (s, None)" using ParseSecret_accepts [of "text" s] assms secret_decode_Base64 secret_decode_Hex by auto
  have "hexDecodeString text \<noteq> Some raw" if "length raw = SecretKeyLength" for raw
  proof
    assume "hexDecodeString text = Some raw"
    moreover have "hexDecodeString (secret_Base64 s) = None" by (rule secret_Base64_not_hex [OF assms(1)])
    ultimately have "raw = secret_makeBytes s" using assms(3) by (auto simp: secret_Hex_def hex.dec_enc)
    then show False using that assms(1,2) by (simp add: secret_makeBytes_def wf_secret_def)
  qed
  then show ?thesis using parsed by (auto simp: parseEnvSecret_def split: option.splits)
qed

lemma parseEnvSecret_bare:
  assumes "wf_secret s"
  shows "parseEnvSecret getenv (hexEncodeToString (Key s)) =
    (let host = trimSpace (case lookupEnv getenv ''SECRET_HOST'' of None \<Rightarrow> [] | Some h \<Rightarrow> h)
     in if host = [] then Inl BareKeyWithoutHost else Inr \<lparr>Key = Key s, Host = host\<rparr>)"
  using assms by (simp add: parseEnvSecret_def hex.dec_enc wf_secret_def)

definition only_secret :: "secret \<Rightarrow> config \<Rightarrow> config" where
  "only_secret s c = c\<lparr>c_Secret := s, c_Secrets := [], c_SecretAdTags := [], c_SecretLimits := []\<rparr>"

lemma only_secret_settings:
  "GetSecrets (only_secret s c) = [(''default'', s)]" "GetSecretAdTags (only_secret s c) = []" "GetSecretLimits (only_secret s c) = []"
  "GetBindAddrs (only_secret s c) = GetBindAddrs c" "c_BindTo (only_secret s c) = c_BindTo c" "GetAdTag (only_secret s c) = GetAdTag c"
  by (simp_all add: only_secret_def GetSecrets_def GetSecretAdTags_def GetSecretLimits_def GetBindAddrs_def GetAdTag_def)

subsection \<open>Properties\<close>

lemma ReadConfig_NewProxy:
  assumes "ReadConfig ce (Some (Some t)) = Inr conf" "gm_ok (tc_Secrets t)"
  shows "\<exists>inst. NewProxy uni unmarshal file zone now (runProxy_opts conf) = Inr inst \<and> world_ok (in_proxy inst) \<and>
    secrets (in_proxy inst) = buildSecretSet (GetSecrets conf) (GetSecretAdTags conf) (GetAdTag conf) (GetSecretLimits conf)"
proof -
  note r = ReadConfig_Inr [OF assms]
  have valid: "opts_valid (runProxy_opts conf) = None" using r by (simp add: runProxy_opts_valid)
  have pref: "getPreferIP (runProxy_opts conf) = string_Get (c_PreferIP conf) ''prefer-ipv6''"
    by (simp add: getPreferIP_def runProxy_opts_def string_Get_def)
  obtain tg where tg: "telegram_New uni (getPreferIP (runProxy_opts conf)) = Some tg"
    using preference_of_config r unfolding pref telegram_New_eq by fastforce
  have secs: "getSecrets (runProxy_opts conf) = GetSecrets conf" by (simp add: getSecrets_def runProxy_opts_def GetSecrets_def)
  obtain inst where inst: "NewProxy uni unmarshal file zone now (runProxy_opts conf) = Inr inst"
    using valid tg by (simp add: NewProxy_def Let_def)
  have "gm_ok (po_Secrets (runProxy_opts conf))" using r GetSecrets_ok by (simp add: runProxy_opts_def)
  from NewProxy_built [OF this inst] have "world_ok (in_proxy inst)" by blast
  moreover have "secrets (in_proxy inst) = buildSecretSet (GetSecrets conf) (GetSecretAdTags conf) (GetAdTag conf) (GetSecretLimits conf)"
    using inst valid tg by (auto simp: NewProxy_def Let_def secs) (simp add: runProxy_opts_def)
  ultimately show ?thesis using inst by blast
qed

text \<open>C10. A configuration that \<open>ReadConfig\<close> accepts always builds a proxy: with the options \<open>runProxy\<close> derives from it,
  \<open>NewProxy\<close> returns a proxy in the well-formed start state, whatever the usage file contains. The snapshot holds
  the secrets, tags and limits of the file, and reloading the unchanged file hands over the same ones.\<close>

theorem read_config_builds_proxy:
  assumes "ReadConfig ce (Some (Some t)) = Inr conf" "gm_ok (tc_Secrets t)"
  shows "\<exists>inst cfg. NewProxy uni unmarshal file zone now (runProxy_opts conf) = Inr inst \<and> world_ok (in_proxy inst) \<and>
    secretsReloader ce (Some (Some t)) = Inr cfg \<and> Secrets cfg = GetSecrets conf \<and> Secrets cfg \<noteq> [] \<and>
    secrets (in_proxy inst) = buildSecretSet (Secrets cfg) (SecretAdTags cfg) (GlobalAdTag cfg) (CfgLimits cfg)"
  using ReadConfig_NewProxy [OF assms, of uni unmarshal "file" zone now] assms(1)
  by (auto simp: secretsReloader_def GetSecrets_def)

text \<open>C25. The environment alone defines the secrets when \<open>SECRET\<close> is set, and the prefixed variable wins over the bare
  one. The hex and the base64 form of a secret are both read as that secret (neither is mistaken for a bare key),
  a bare key of 16 bytes becomes the secret of the host in \<open>SECRET_HOST\<close> and is refused without one; named secrets,
  their tags and their limits from the file are gone, the rest of the file stays.\<close>

theorem environment_defines_secrets:
  assumes "wf_secret s" "Host s \<noteq> []" "lookupEnv getenv ''SECRET'' = Some value" and
    "trimSpace value = secret_Hex s \<or> trimSpace value = secret_Base64 s \<or>
     trimSpace value = hexEncodeToString (Key s) \<and> (\<exists>h. lookupEnv getenv ''SECRET_HOST'' = Some h \<and> trimSpace h = Host s)"
  shows "applyEnvSecret getenv c = Inr (only_secret s c) \<and>
    (getenv ''MTG_SECRET'' \<noteq> None \<longrightarrow> getenv ''MTG_SECRET'' = Some value) \<and>
    GetSecrets (only_secret s c) = [(''default'', s)] \<and> GetSecretAdTags (only_secret s c) = [] \<and> GetSecretLimits (only_secret s c) = [] \<and>
    (Validate (only_secret s c) = None \<longleftrightarrow> secret_Valid s \<and> c_BindTo c \<noteq> [] \<and> [] \<notin> set (GetBindAddrs c) \<and> distinct (GetBindAddrs c)) \<and>
    (trimSpace value = hexEncodeToString (Key s) \<longrightarrow> applyEnvSecret (getenv(''MTG_SECRET_HOST'' := Some [])) c = Inl BareKeyWithoutHost)"
proof -
  have look: "lookupEnv (getenv(''MTG_SECRET_HOST'' := Some [])) ''SECRET'' = Some value"
    "lookupEnv (getenv(''MTG_SECRET_HOST'' := Some [])) ''SECRET_HOST'' = Some []"
    using assms(3) by (simp_all add: lookupEnv_def split: option.splits)
  have "parseEnvSecret getenv (trimSpace value) = Inr s"
    using assms(4) parseEnvSecret_printed [OF assms(1,2)] parseEnvSecret_bare [OF assms(1)] assms(2) by auto
  then have "applyEnvSecret getenv c = Inr (only_secret s c)"
    using assms(3) by (simp add: applyEnvSecret_def andThen_def only_secret_def)
  moreover have "getenv ''MTG_SECRET'' \<noteq> None \<longrightarrow> getenv ''MTG_SECRET'' = Some value"
    using assms(3) by (auto simp: lookupEnv_def)
  moreover have "trimSpace value = hexEncodeToString (Key s) \<longrightarrow> applyEnvSecret (getenv(''MTG_SECRET_HOST'' := Some [])) c = Inl BareKeyWithoutHost"
  proof
    have "trimSpace [] = []" by code_simp
    moreover assume "trimSpace value = hexEncodeToString (Key s)"
    ultimately show "applyEnvSecret (getenv(''MTG_SECRET_HOST'' := Some [])) c = Inl BareKeyWithoutHost"
      using parseEnvSecret_bare [OF assms(1), of "getenv(''MTG_SECRET_HOST'' := Some [])"] look by (simp add: applyEnvSecret_def andThen_def)
  qed
  ultimately show ?thesis by (auto simp: only_secret_settings Validate_None) (auto simp: only_secret_def)
qed

subsection \<open>Witnesses\<close>

definition sample_env :: config_env where
  "sample_env = \<lparr>ce_parsers = plain_parsers, ce_frac = (\<lambda>_ _ _. 0), ce_urlParse = (\<lambda>_. None), ce_hostname = id, ce_urlString = (\<lambda>_. []),
     ce_osStat = (\<lambda>_. None), ce_getenv = (\<lambda>n. if n = ''MTG_SECRET'' then Some ''ee070707070707070707070707070707076578'' else None)\<rparr>"

definition no_toml_list :: toml_list where
  "no_toml_list = \<lparr>tls_Enabled = False, tls_DownloadConcurrency = 0, tls_URLs = [], tls_UpdateEach = []\<rparr>"

definition sample_toml :: tomlConfig where
  "sample_toml = \<lparr>tc_Debug = False, tc_AllowFallbackOnUnknownDC = False, tc_Secret = [], tc_Secrets = [], tc_AdTag = [], tc_SecretAdTags = [],
     tc_SecretLimits = [(''bob'', \<lparr>tl_Quota = [], tl_QuotaReset = ''monthly'', tl_Expires = [], tl_Disabled = True\<rparr>)],
     tc_UsageStateFile = [], tc_APIToken = [], tc_BindTo = BindString ''127.0.0.1:3128'', tc_ProxyProtocolListener = False,
     tc_PreferIP = ''only-ipv4'', tc_AutoUpdate = False, tc_DomainFrontingPort = 0, tc_DomainFrontingIP = [],
     tc_DomainFrontingProxyProtocol = False, tc_TolerateTimeSkewness = [], tc_Concurrency = 64, tc_PublicIPv4 = ''10.0.0.1'',
     tc_PublicIPv6 = [], tc_DomainFronting = \<lparr>tf_Host = ''example.com'', tf_IP = [], tf_Port = 80, tf_ProxyProtocol = True\<rparr>,
     tc_Defense = \<lparr>td_MaxPerIP = 0, td_DryRun = False, td_AntiReplay = True, td_MaxSize = [], td_ErrorRate = Finite (1, - 10),
        td_Blocklist = no_toml_list, td_Allowlist = no_toml_list, td_DoppelURLs = [], td_Repeats = 0, td_RaidEach = [], td_DRS = False\<rparr>,
     tc_Network = \<lparr>tn_TCP = [], tn_HTTP = [], tn_Idle = [], tn_Handshake = [], tn_KeepAliveDisabled = False, tn_KeepAliveIdle = [],
        tn_KeepAliveInterval = [], tn_KeepAliveCount = 0, tn_DOHIP = [], tn_DNS = [], tn_Proxies = [], tn_TCPNotSentLowat = []\<rparr>,
     tc_APIBindTo = [], tc_ThrottleMaxConnections = 0, tc_ThrottleCheckInterval = [],
     tc_Stats = \<lparr>ts_StatsDEnabled = False, ts_StatsDAddress = [], ts_StatsDPrefix = [], ts_StatsDTagFormat = [],
        ts_PrometheusEnabled = True, ts_PrometheusBindTo = ''127.0.0.1:3129'', ts_PrometheusPath = ''/'', ts_PrometheusPrefix = []\<rparr>\<rparr>"

lemma sample_read: "\<exists>conf. ReadConfig sample_env (Some (Some sample_toml)) = Inr conf"
proof -
  have "(case ReadConfig sample_env (Some (Some sample_toml)) of Inl _ \<Rightarrow> False | Inr _ \<Rightarrow> True)" by code_simp
  then show ?thesis by (auto split: sum.splits)
qed

theorem read_config_builds_proxy_witness:
  "\<exists>conf inst. ReadConfig sample_env (Some (Some sample_toml)) = Inr conf \<and>
     NewProxy id (\<lambda>_. None) NotExist (\<lambda>_. 0) 5 (runProxy_opts conf) = Inr inst \<and> world_ok (in_proxy inst)"
proof -
  obtain conf where c: "ReadConfig sample_env (Some (Some sample_toml)) = Inr conf" using sample_read by blast
  have "gm_ok (tc_Secrets sample_toml)" by (simp add: sample_toml_def)
  from read_config_builds_proxy [OF c this, of id "\<lambda>_. None" NotExist "\<lambda>_. 0" 5] c show ?thesis by blast
qed

theorem environment_defines_secrets_witness:
  "\<forall>c. applyEnvSecret [''SECRET'' \<mapsto> '' 07070707070707070707070707070707'', ''SECRET_HOST'' \<mapsto> ''ex''] c =
     Inr (only_secret \<lparr>Key = replicate 16 7, Host = ''ex''\<rparr> c)"
proof
  fix c :: config
  have "wf_secret \<lparr>Key = replicate 16 7, Host = ''ex''\<rparr>" "Host \<lparr>Key = replicate 16 7, Host = ''ex''\<rparr> \<noteq> []"
    by (simp_all add: wf_secret_def SecretKeyLength_def)
  moreover have "trimSpace '' 07070707070707070707070707070707'' = hexEncodeToString (replicate 16 7)" "trimSpace ''ex'' = ''ex''" by code_simp+
  ultimately show "applyEnvSecret [''SECRET'' \<mapsto> '' 07070707070707070707070707070707'', ''SECRET_HOST'' \<mapsto> ''ex''] c =
     Inr (only_secret \<lparr>Key = replicate 16 7, Host = ''ex''\<rparr> c)"
    using environment_defines_secrets [of "\<lparr>Key = replicate 16 7, Host = ''ex''\<rparr>" "[''SECRET'' \<mapsto> '' 07070707070707070707070707070707'', ''SECRET_HOST'' \<mapsto> ''ex'']"
        "'' 07070707070707070707070707070707''" c] by (simp add: lookupEnv_def)
qed

end
