(* ===== verification/Blocklist.thy ===== *)
theory Blocklist
  imports Metrics Serve
begin

text \<open>
  The address lists, \<open>ipblocklist/firehol.go\<close> and \<open>ipblocklist/files\<close>, and how \<open>makeIPBlocklist\<close> and \<open>makeIPAllowlist\<close> of
  \<open>internal/cli/run_proxy.go\<close> set them up. The trie that stores the networks is third-party code: an argument whose
  documented behaviour (an address is contained when an inserted network covers it) is a hypothesis. The lemmas show
  what a list contains after an update and before the first one.
\<close>

subsection \<open>Networks\<close>

record ipNet =
  net_IP :: ip
  net_Mask :: bytes

text \<open>\<open>net.CIDRMask\<close>, \<open>IP.Mask\<close>, \<open>net.ParseCIDR\<close> and \<open>IPNet.Contains\<close>.\<close>

definition cidrMask :: "nat \<Rightarrow> nat \<Rightarrow> bytes" where
  "cidrMask ones bits = map (\<lambda>i. if 8 * i + 8 \<le> ones then 255
     else if ones \<le> 8 * i then 0 else NOT (word_of_nat (255 div 2 ^ (ones - 8 * i)))) [0..<bits div 8]"

definition and_bytes :: "bytes \<Rightarrow> bytes \<Rightarrow> bytes" where
  "and_bytes a m = map2 (AND) a m"

definition ip_Mask :: "ip \<Rightarrow> bytes \<Rightarrow> ip" where
  "ip_Mask a m =
     (let m = (if length m = 16 \<and> length a = 4 \<and> list_all (\<lambda>b. b = 255) (take 12 m) then drop 12 m else m);
          a = (if length m = 4 \<and> length a = 16 \<and> take 12 a = v4InV6Prefix then drop 12 a else a)
      in if length a \<noteq> length m then [] else and_bytes a m)"

text \<open>\<open>dtoi\<close> of the prefix length: all of the text, below the bound of its accumulator.\<close>

definition prefix_len :: "string \<Rightarrow> nat option" where
  "prefix_len s = (if s = [] then None else case parseDigits 0 s of None \<Rightarrow> None | Some n \<Rightarrow> if n < 0xFFFFFF then Some (nat n) else None)"

text \<open>\<open>netip.ParseAddr\<close> without zones: the bit length of the address and its 16-byte form. An address with a dot
  before any colon is an IPv4 address.\<close>

definition parseAddr :: "string \<Rightarrow> (nat \<times> ip) option" where
  "parseAddr s = (case parseIP s of
       None \<Rightarrow> None
     | Some a \<Rightarrow> Some (if CHR '':'' \<in> set s then 128 else 32, a))"

definition parseCIDR :: "string \<Rightarrow> ipNet option" where
  "parseCIDR s =
     (let addr = takeWhile (\<lambda>c. c \<noteq> CHR ''/'') s; rest = dropWhile (\<lambda>c. c \<noteq> CHR ''/'') s
      in if rest = [] then None
         else case parseAddr addr of
           None \<Rightarrow> None
         | Some (bits, a) \<Rightarrow>
             (case prefix_len (tl rest) of
                None \<Rightarrow> None
              | Some n \<Rightarrow> if n > bits then None else Some \<lparr>net_IP = ip_Mask a (cidrMask n bits), net_Mask = cidrMask n bits\<rparr>))"

definition net_number :: "ipNet \<Rightarrow> (bytes \<times> bytes) option" where
  "net_number n =
     (let a = (case ip_To4 (net_IP n) of Some b \<Rightarrow> b | None \<Rightarrow> net_IP n); m = net_Mask n
      in if length a \<noteq> 4 \<and> length a \<noteq> 16 then None
         else if length m = 4 then (if length a \<noteq> 4 then None else Some (a, m))
         else if length m = 16 then Some (a, if length a = 4 then drop 12 m else m)
         else None)"

definition net_contains :: "ipNet \<Rightarrow> ip \<Rightarrow> bool" where
  "net_contains n a = (case net_number n of
       None \<Rightarrow> False
     | Some (nn, m) \<Rightarrow>
         let a = (case ip_To4 a of Some b \<Rightarrow> b | None \<Rightarrow> a)
         in length a = length nn \<and> and_bytes nn m = and_bytes a m)"

definition net_String :: "ipNet \<Rightarrow> string" where
  "net_String n = (case net_number n of
       None \<Rightarrow> ''<nil>''
     | Some (nn, m) \<Rightarrow>
         let l = length (takeWhile id (concat (map (\<lambda>b. map (\<lambda>i. bit b (7 - i)) [0..<8]) m)))
         in if m = cidrMask l (8 * length m) then ip_String nn @ ''/'' @ itoa (int l) else ip_String nn @ ''/'' @ hexEncodeToString m)"

subsection \<open>Files\<close>

text \<open>What opening and reading a list gives: it cannot be opened, or its text, perhaps with an error after it.\<close>

datatype file_open = OpenFailed | Opened string bool

datatype http_answer = HttpFailed | HttpStatus nat string bool

definition httpFile_Open :: "http_answer \<Rightarrow> file_open" where
  "httpFile_Open r = (case r of
       HttpFailed \<Rightarrow> OpenFailed
     | HttpStatus code body readErr \<Rightarrow> if code \<ge> 400 then OpenFailed else Opened body readErr)"

definition join_lines :: "string list \<Rightarrow> string" where
  "join_lines ls = join_with [CHR 0x0A] ls"

definition NewMem :: "ipNet list \<Rightarrow> string" where
  "NewMem networks = join_lines (map net_String networks)"

definition memFile_Open :: "string \<Rightarrow> file_open" where
  "memFile_Open data = Opened data False"

datatype stat_result = StatNotExist | StatFailed | StatFile file_kind
and file_kind = Directory | Unreadable | Readable

datatype new_local = LocalFile | NotReadable | StatPanic

text \<open>\<open>NewLocal\<close>: an error of \<open>os.Stat\<close> other than "not exist" leaves \<open>stat\<close> nil, and the next operand dereferences it.\<close>

definition NewLocal :: "stat_result \<Rightarrow> new_local" where
  "NewLocal r = (case r of
       StatNotExist \<Rightarrow> NotReadable
     | StatFailed \<Rightarrow> StatPanic
     | StatFile k \<Rightarrow> if k = Directory \<or> k = Unreadable then NotReadable else LocalFile)"

subsection \<open>The list\<close>

text \<open>\<open>ReplaceAllLiteralString\<close> with the expression for a comment: from the blanks before the first \<open>#\<close> to the end.\<close>

definition strip_comment :: "string \<Rightarrow> string" where
  "strip_comment s =
     (if CHR ''#'' \<in> set s
      then rev (dropWhile (\<lambda>c. c \<in> set [CHR 0x09, CHR 0x0A, CHR 0x0C, CHR 0x0D, CHR '' '']) (rev (takeWhile (\<lambda>c. c \<noteq> CHR ''#'') s)))
      else s)"

definition updateParseLine :: "string \<Rightarrow> ipNet option" where
  "updateParseLine line = (case parseCIDR line of
       Some ipnet \<Rightarrow> Some ipnet
     | None \<Rightarrow>
         (case parseIP line of
            None \<Rightarrow> None
          | Some ipaddr \<Rightarrow> Some \<lparr>net_IP = ipaddr, net_Mask = (if ip_To4 ipaddr = None then cidrMask 128 128 else cidrMask 32 32)\<rparr>))"

text \<open>The tokens of a scanner before it stops, and whether it stopped with an error.\<close>

definition scan_tokens :: "string \<Rightarrow> bool \<Rightarrow> string list \<times> bool" where
  "scan_tokens s readErr =
     (let ls = split_on (CHR 0x0A) s; ls = (if last ls = [] then butlast ls else ls);
          ok = takeWhile (\<lambda>l. length l < maxScanTokenSize) ls
      in (map drop_cr ok, readErr \<or> length ok < length ls))"

text \<open>The trie: \<open>insert\<close> may refuse a network, \<open>contains\<close> may fail.\<close>

record 'r ranger =
  rg_new :: 'r
  rg_Insert :: "ipNet \<Rightarrow> 'r \<Rightarrow> 'r option"
  rg_Contains :: "'r \<Rightarrow> ip \<Rightarrow> bool option"
  rg_Len :: "'r \<Rightarrow> int"

datatype update_error = CannotParseLine string | CannotInsert | ScanFailed

fun insert_lines :: "'r ranger \<Rightarrow> string list \<Rightarrow> 'r \<Rightarrow> update_error option \<times> 'r" where
  "insert_lines rg [] r = (None, r)"
| "insert_lines rg (l # ls) r =
     (let line = trimSpace (strip_comment l)
      in if line = [] then insert_lines rg ls r
         else case updateParseLine line of
           None \<Rightarrow> (Some (CannotParseLine line), r)
         | Some ipnet \<Rightarrow>
             (case rg_Insert rg ipnet r of
                None \<Rightarrow> (Some CannotInsert, r)
              | Some r \<Rightarrow> insert_lines rg ls r))"

definition updateFromFile :: "'r ranger \<Rightarrow> string \<Rightarrow> bool \<Rightarrow> 'r \<Rightarrow> update_error option \<times> 'r" where
  "updateFromFile rg body readErr r = (case scan_tokens body readErr of (ls, err) \<Rightarrow>
     (case insert_lines rg ls r of
        (Some e, r) \<Rightarrow> (Some e, r)
      | (None, r) \<Rightarrow> (if err then Some ScanFailed else None, r)))"

record 'r firehol =
  fh_ranger :: 'r
  fh_sizes :: "int list"

text \<open>\<open>update\<close>: every file into one new trie, which then replaces the old one. The files are read at the same time, with
  a lock around each insertion; here they come one after the other, in the order \<open>opened\<close> gives.\<close>

definition update_file :: "'r ranger \<Rightarrow> file_open \<Rightarrow> 'r \<Rightarrow> 'r" where
  "update_file rg f r = (case f of OpenFailed \<Rightarrow> r | Opened body readErr \<Rightarrow> snd (updateFromFile rg body readErr r))"

definition firehol_update :: "'r ranger \<Rightarrow> file_open list \<Rightarrow> 'r firehol \<Rightarrow> 'r firehol" where
  "firehol_update rg opened f =
     (let r = fold (update_file rg) opened (rg_new rg)
      in f\<lparr>fh_ranger := r, fh_sizes := fh_sizes f @ [rg_Len rg r]\<rparr>)"

definition NewFireholFromFiles :: "'r ranger \<Rightarrow> 'r firehol" where
  "NewFireholFromFiles rg = \<lparr>fh_ranger = rg_new rg, fh_sizes = []\<rparr>"

text \<open>\<open>Contains\<close>; \<open>None\<close> is the nil address.\<close>

definition firehol_Contains :: "'r ranger \<Rightarrow> 'r firehol \<Rightarrow> ip option \<Rightarrow> bool" where
  "firehol_Contains rg f a = (case a of
       None \<Rightarrow> True
     | Some a \<Rightarrow> (case rg_Contains rg (fh_ranger f) a of None \<Rightarrow> False | Some ok \<Rightarrow> ok))"

subsection \<open>The lists of the proxy\<close>

datatype 'r ip_list = NoopList | FireholList "'r firehol"

definition list_Contains :: "'r ranger \<Rightarrow> 'r ip_list \<Rightarrow> ip option \<Rightarrow> bool" where
  "list_Contains rg l a = (case l of NoopList \<Rightarrow> False | FireholList f \<Rightarrow> firehol_Contains rg f a)"

definition allIPv4 :: ipNet where "allIPv4 = \<lparr>net_IP = [0,0,0,0], net_Mask = [0,0,0,0]\<rparr>"
definition allIPv6 :: ipNet where "allIPv6 = \<lparr>net_IP = replicate 16 0, net_Mask = replicate 16 0\<rparr>"

text \<open>The lists as they are before their background update has run, and the files it reads.\<close>

definition makeIPBlocklist :: "'r ranger \<Rightarrow> bool \<Rightarrow> 'r ip_list" where
  "makeIPBlocklist rg enabled = (if \<not> enabled then NoopList else FireholList (NewFireholFromFiles rg))"

definition makeIPAllowlist :: "'r ranger \<Rightarrow> bool \<Rightarrow> file_open list \<Rightarrow> 'r ip_list \<times> file_open list" where
  "makeIPAllowlist rg enabled files =
     (if \<not> enabled then (FireholList (NewFireholFromFiles rg), [memFile_Open (NewMem [allIPv4, allIPv6])])
      else (makeIPBlocklist rg enabled, files))"

definition list_update :: "'r ranger \<Rightarrow> file_open list \<Rightarrow> 'r ip_list \<Rightarrow> 'r ip_list" where
  "list_update rg opened l = (case l of NoopList \<Rightarrow> NoopList | FireholList f \<Rightarrow> FireholList (firehol_update rg opened f))"

subsection \<open>What a list promises\<close>

text \<open>The documented behaviour of the trie, for a relation between a trie and the networks in it.\<close>

definition ranger_laws :: "'r ranger \<Rightarrow> ('r \<Rightarrow> ipNet set \<Rightarrow> bool) \<Rightarrow> bool" where
  "ranger_laws rg holds \<longleftrightarrow> holds (rg_new rg) {} \<and>
     (\<forall>r S n. holds r S \<longrightarrow> net_number n \<noteq> None \<longrightarrow> (\<exists>r'. rg_Insert rg n r = Some r' \<and> holds r' (insert n S))) \<and>
     (\<forall>r S a. holds r S \<longrightarrow> length a = 4 \<or> length a = 16 \<longrightarrow> rg_Contains rg r a = Some (\<exists>n \<in> S. net_contains n a))"

text \<open>The networks of a file: those of its lines before the first one that is not a network.\<close>

fun nets_of_lines :: "string list \<Rightarrow> ipNet list" where
  "nets_of_lines [] = []"
| "nets_of_lines (l # ls) =
     (if trimSpace (strip_comment l) = [] then nets_of_lines ls
      else case updateParseLine (trimSpace (strip_comment l)) of None \<Rightarrow> [] | Some n \<Rightarrow> n # nets_of_lines ls)"

definition file_nets :: "file_open \<Rightarrow> ipNet list" where
  "file_nets f = (case f of OpenFailed \<Rightarrow> [] | Opened body readErr \<Rightarrow> nets_of_lines (fst (scan_tokens body readErr)))"

subsection \<open>Lemmas\<close>

lemma parseIPv4_length: "parseIPv4 s = Some a \<Longrightarrow> length a = 4"
  by (auto simp: parseIPv4_def split: list.splits option.splits)

lemma parse_groups_unfold:
  assumes "parse_groups acc ell s = Some (acc', e)" "length acc < 16"
  shows "length acc' \<le> length acc + 2 \<or> length acc' \<le> 16 \<or>
    (\<exists>g ell' s'. parse_groups (acc @ put_be16 g) ell' s' = Some (acc', e))"
proof -
  have "length acc' \<le> 16" if "parseIPv4 s = Some v4" "length acc + 4 \<le> 16" "acc' = acc @ v4" for v4
    using that parseIPv4_length [OF that(1)] by simp
  then show ?thesis using assms unfolding parse_groups.simps [of acc ell s]
    by (auto simp: Let_def split: if_splits option.splits)
qed

lemma parse_groups_length:
  "parse_groups acc ell s = Some (acc', e) \<Longrightarrow> even (length acc) \<Longrightarrow> length acc \<le> 16 \<Longrightarrow> length acc' \<le> 16"
proof (induction "16 - length acc" arbitrary: acc ell s rule: less_induct)
  case less
  show ?case
  proof (cases "length acc < 16")
    case True
    then have "length acc \<le> 14" using less.prems(2) by presburger
    moreover have "length acc' \<le> 16" if "parse_groups (acc @ put_be16 g) ell' s' = Some (acc', e)" for g ell' s'
      using less.hyps [OF _ that] True less.prems(2) \<open>length acc \<le> 14\<close> by simp
    ultimately show ?thesis using parse_groups_unfold [OF less.prems(1) True] by auto
  next
    case False
    then show ?thesis using less.prems by (simp add: parse_groups.simps [of acc ell s] split: if_splits)
  qed
qed

lemma expand_groups_length: "expand_groups (acc, e) = Some a \<Longrightarrow> length acc \<le> 16 \<Longrightarrow> length a = 16"
  by (auto simp: expand_groups_def split: if_splits option.splits)

lemma parseIPv6_length: "parseIPv6 s = Some a \<Longrightarrow> length a = 16"
  by (auto simp: parseIPv6_def bind_eq_Some_conv split: if_splits dest!: parse_groups_length intro: expand_groups_length)

lemma parseIP_length: "parseIP s = Some a \<Longrightarrow> length a = 16"
  by (auto simp: parseIP_def split: option.splits if_splits dest: parseIPv4_length parseIPv6_length)

lemma find_Some_mem: "find P xs = Some x \<Longrightarrow> x \<in> set xs \<and> P x"
  by (auto simp: find_Some_iff)

lemma parseIP_v4: "parseIP s = Some a \<Longrightarrow> CHR '':'' \<notin> set s \<Longrightarrow> \<exists>v4. a = v4InV6Prefix @ v4 \<and> length v4 = 4"
  by (auto simp: parseIP_def split: option.splits if_splits dest: parseIPv4_length find_Some_mem)

lemma length_cidrMask [simp]: "length (cidrMask n bits) = bits div 8"
  by (simp add: cidrMask_def)

lemma length_and_bytes [simp]: "length (and_bytes a m) = min (length a) (length m)"
  by (simp add: and_bytes_def)

lemma ip_Mask_v4: "length v4 = 4 \<Longrightarrow> length m = 4 \<Longrightarrow> ip_Mask (v4InV6Prefix @ v4) m = and_bytes v4 m"
  by (simp add: ip_Mask_def)

lemma ip_Mask_same: "length a = 16 \<Longrightarrow> length m = 16 \<Longrightarrow> ip_Mask a m = and_bytes a m"
  by (simp add: ip_Mask_def)

lemma ip_To4_4: "length a = 4 \<Longrightarrow> ip_To4 a = Some a"
  by (simp add: ip_To4_def)

lemma net_number_defined:
  "length (net_IP n) = 4 \<and> length (net_Mask n) = 4 \<or> length (net_IP n) = 16 \<and> length (net_Mask n) = 16 \<or>
   ip_To4 (net_IP n) \<noteq> None \<and> length (net_Mask n) = 4 \<Longrightarrow> net_number n \<noteq> None"
  by (auto simp: net_number_def Let_def ip_To4_4 dest: ip_To4_length split: option.splits)

lemma parseCIDR_lengths:
  assumes "parseCIDR line = Some n"
  shows "length (net_IP n) = 4 \<and> length (net_Mask n) = 4 \<or> length (net_IP n) = 16 \<and> length (net_Mask n) = 16"
proof -
  obtain addr bits a k where p: "parseAddr addr = Some (bits, a)" "n = \<lparr>net_IP = ip_Mask a (cidrMask k bits), net_Mask = cidrMask k bits\<rparr>"
    using assms by (auto simp: parseCIDR_def Let_def split: option.splits if_splits)
  show ?thesis
  proof (cases "CHR '':'' \<in> set addr")
    case True
    then have "bits = 128" "length a = 16" using p(1) by (auto simp: parseAddr_def split: option.splits dest: parseIP_length)
    then show ?thesis by (simp add: p(2) ip_Mask_same)
  next
    case False
    then obtain v4 where "bits = 32" "a = v4InV6Prefix @ v4" "length v4 = 4"
      using p(1) by (auto simp: parseAddr_def split: option.splits dest: parseIP_v4)
    then show ?thesis by (simp add: p(2) ip_Mask_v4)
  qed
qed

lemma updateParseLine_wf:
  assumes "updateParseLine line = Some n"
  shows "net_number n \<noteq> None"
proof (cases "parseCIDR line")
  case None
  then obtain a where "parseIP line = Some a" "n = \<lparr>net_IP = a, net_Mask = (if ip_To4 a = None then cidrMask 128 128 else cidrMask 32 32)\<rparr>"
    using assms by (auto simp: updateParseLine_def split: option.splits)
  then show ?thesis by (intro net_number_defined) (simp add: parseIP_length)
next
  case (Some m)
  then have "parseCIDR line = Some n" using assms by (simp add: updateParseLine_def)
  then show ?thesis using parseCIDR_lengths net_number_defined by blast
qed

lemma insert_lines_holds:
  assumes "ranger_laws rg holds" "holds r S"
  shows "holds (snd (insert_lines rg ls r)) (S \<union> set (nets_of_lines ls))"
  using assms(2)
proof (induction ls arbitrary: r S)
  case (Cons l ls)
  show ?case
  proof (cases "trimSpace (strip_comment l) = [] \<or> updateParseLine (trimSpace (strip_comment l)) = None")
    case False
    then obtain n where n: "updateParseLine (trimSpace (strip_comment l)) = Some n" by blast
    then obtain r' where "rg_Insert rg n r = Some r'" "holds r' (insert n S)"
      using assms(1) Cons.prems updateParseLine_wf [OF n] unfolding ranger_laws_def by blast
    then show ?thesis using Cons.IH [of r' "insert n S"] n False by simp
  qed (use Cons in \<open>auto simp: Let_def\<close>)
qed simp

lemma update_file_holds:
  assumes "ranger_laws rg holds" "holds r S"
  shows "holds (update_file rg f r) (S \<union> set (file_nets f))"
proof (cases f)
  case (Opened body readErr)
  have "snd (updateFromFile rg body readErr r) = snd (insert_lines rg (fst (scan_tokens body readErr)) r)"
    by (simp add: updateFromFile_def split: prod.splits option.splits)
  then show ?thesis using insert_lines_holds [OF assms] by (simp add: Opened update_file_def file_nets_def)
qed (use assms in \<open>simp add: update_file_def file_nets_def\<close>)

lemma update_holds:
  "ranger_laws rg holds \<Longrightarrow> holds r S \<Longrightarrow> holds (fold (update_file rg) fs r) (S \<union> (\<Union>f \<in> set fs. set (file_nets f)))"
proof (induction fs arbitrary: r S)
  case (Cons f fs)
  then show ?case using Cons.IH [OF Cons.prems(1) update_file_holds [OF Cons.prems, of f]] by (simp add: Un_assoc)
qed simp

lemma firehol_contains:
  assumes "ranger_laws rg holds" "length a = 4 \<or> length a = 16"
  shows "firehol_Contains rg (firehol_update rg opened f) (Some a) \<longleftrightarrow> (\<exists>g \<in> set opened. \<exists>n \<in> set (file_nets g). net_contains n a)"
proof -
  have "holds (rg_new rg) {}" using assms(1) by (simp add: ranger_laws_def)
  from update_holds [OF assms(1) this, of opened]
  have "rg_Contains rg (fold (update_file rg) opened (rg_new rg)) a = Some (\<exists>n \<in> (\<Union>f \<in> set opened. set (file_nets f)). net_contains n a)"
    using assms unfolding ranger_laws_def by (metis Un_empty_left)
  then show ?thesis by (simp add: firehol_Contains_def firehol_update_def Let_def)
qed

subsection \<open>Prefixes\<close>

text \<open>The bits of an address, the highest first.\<close>

definition byte_bits :: "byte \<Rightarrow> bool list" where
  "byte_bits b = map (\<lambda>i. bit b (7 - i)) [0..<8]"

definition ip_bits :: "bytes \<Rightarrow> bool list" where
  "ip_bits a = concat (map byte_bits a)"

lemma byte_bits_list: "byte_bits b = [bit b 7, bit b 6, bit b 5, bit b 4, bit b 3, bit b 2, bit b 1, bit b 0]"
  by (simp add: byte_bits_def upt_rec)

lemma length_byte_bits [simp]: "length (byte_bits b) = 8"
  by (simp add: byte_bits_def)

lemma cidr_byte_bits: "k \<le> 8 \<Longrightarrow> byte_bits (NOT (word_of_nat (255 div 2 ^ k))) = replicate k True @ replicate (8 - k) False"
proof -
  assume "k \<le> 8"
  then have "k \<in> {0,1,2,3,4,5,6,7,8}" by auto
  moreover have "list_all (\<lambda>k. byte_bits (NOT (word_of_nat (255 div 2 ^ k))) = replicate k True @ replicate (8 - k) False) [0,1,2,3,4,5,6,7,8::nat]"
    by code_simp
  ultimately show ?thesis by auto
qed

lemma byte_bits_inj: "byte_bits x = byte_bits y \<Longrightarrow> x = y" for x y :: byte
proof (rule bit_word_eqI)
  fix n assume "byte_bits x = byte_bits y" "n < LENGTH(8)"
  then have "byte_bits x ! (7 - n) = byte_bits y ! (7 - n)" "n < 8" by simp_all
  moreover have "[0..<8] ! (7 - n) = 7 - n" by (subst nth_upt) auto
  ultimately show "bit x n = bit y n" by (simp add: byte_bits_def)
qed

lemma length_ip_bits [simp]: "length (ip_bits a) = 8 * length a"
  by (induction a) (simp_all add: ip_bits_def)

lemma ip_bits_inj: "length a = length b \<Longrightarrow> ip_bits a = ip_bits b \<Longrightarrow> a = b"
  by (induction a b rule: list_induct2) (auto simp: ip_bits_def append_eq_append_conv dest: byte_bits_inj)

lemma ip_bits_and: "length a = length m \<Longrightarrow> ip_bits (and_bytes a m) = map2 (\<and>) (ip_bits a) (ip_bits m)"
  by (induction a m rule: list_induct2) (simp_all add: ip_bits_def and_bytes_def byte_bits_list bit_and_iff)

lemma ip_bits_cidrMask: "ip_bits (cidrMask n (8 * l)) = replicate (min n (8 * l)) True @ replicate (8 * l - n) False"
proof (induction l)
  case (Suc l)
  define w :: byte where "w = (if 8 * l + 8 \<le> n then 255 else if n \<le> 8 * l then 0 else NOT (word_of_nat (255 div 2 ^ (n - 8 * l))))"
  have "cidrMask n (8 * Suc l) = cidrMask n (8 * l) @ [w]" by (simp add: cidrMask_def w_def)
  moreover have "byte_bits w = replicate (min (n - 8 * l) 8) True @ replicate (8 - (n - 8 * l)) False"
    using cidr_byte_bits [of "n - 8 * l"] by (auto simp: w_def byte_bits_list numeral_eq_Suc)
  ultimately have "ip_bits (cidrMask n (8 * Suc l)) = replicate (min n (8 * l)) True @ replicate (8 * l - n) False @
      replicate (min (n - 8 * l) 8) True @ replicate (8 - (n - 8 * l)) False"
    using Suc by (simp add: ip_bits_def)
  then show ?case by (cases "n \<le> 8 * l") (auto simp: min_def replicate_add [symmetric])
qed (simp add: ip_bits_def cidrMask_def)

lemma masked_bits: "n \<le> length xs \<Longrightarrow> map2 (\<and>) xs (replicate n True @ replicate (length xs - n) False) = take n xs @ replicate (length xs - n) False"
  by (rule nth_equalityI) (auto simp: nth_append)

text \<open>Two addresses agree under the mask of a prefix exactly when they agree on that many bits.\<close>

lemma and_bytes_prefix:
  assumes "length a = length b" "n \<le> 8 * length a"
  shows "and_bytes a (cidrMask n (8 * length a)) = and_bytes b (cidrMask n (8 * length a)) \<longleftrightarrow> take n (ip_bits a) = take n (ip_bits b)"
proof -
  have bits: "ip_bits (and_bytes x (cidrMask n (8 * length a))) = take n (ip_bits x) @ replicate (8 * length a - n) False"
    if "length x = length a" for x
    using that assms(2) masked_bits [of n "ip_bits x"] by (simp add: ip_bits_and ip_bits_cidrMask min_def)
  have "and_bytes a (cidrMask n (8 * length a)) = and_bytes b (cidrMask n (8 * length a)) \<longleftrightarrow>
      ip_bits (and_bytes a (cidrMask n (8 * length a))) = ip_bits (and_bytes b (cidrMask n (8 * length a)))"
    using ip_bits_inj [of "and_bytes a (cidrMask n (8 * length a))" "and_bytes b (cidrMask n (8 * length a))"] assms(1) by auto
  then show ?thesis using bits assms(1) by simp
qed

lemma take_masked: "n \<le> 8 * length a \<Longrightarrow> take n (ip_bits (and_bytes a (cidrMask n (8 * length a)))) = take n (ip_bits a)"
  using masked_bits [of n "ip_bits a"] by (simp add: ip_bits_and ip_bits_cidrMask min_def)

definition canonical :: "ip \<Rightarrow> bytes" where
  "canonical a = (case ip_To4 a of Some b \<Rightarrow> b | None \<Rightarrow> a)"

lemma net_contains_prefix:
  assumes "net_number n = Some (nn, cidrMask k (8 * length nn))" "k \<le> 8 * length nn"
  shows "net_contains n a \<longleftrightarrow> length (canonical a) = length nn \<and> take k (ip_bits nn) = take k (ip_bits (canonical a))"
proof (cases "length (canonical a) = length nn")
  case True
  then show ?thesis using assms and_bytes_prefix [of nn "canonical a" k] by (simp add: net_contains_def canonical_def [symmetric] Let_def)
qed (use assms in \<open>simp add: net_contains_def canonical_def [symmetric] Let_def\<close>)

lemma canonical_length: "length a = 4 \<or> length a = 16 \<Longrightarrow> length (canonical a) = 4 \<longleftrightarrow> ip_To4 a \<noteq> None"
  by (auto simp: canonical_def ip_To4_def split: option.splits if_splits)

lemma parseCIDR_v4:
  assumes "parseIP addr = Some a" "set addr \<inter> {CHR '':'', CHR ''/''} = {}" "prefix_len p = Some k" "k \<le> 32"
  shows "\<exists>v4 n. a = v4InV6Prefix @ v4 \<and> length v4 = 4 \<and> parseCIDR (addr @ CHR ''/'' # p) = Some n \<and>
    net_number n = Some (and_bytes v4 (cidrMask k 32), cidrMask k 32)"
proof -
  obtain v4 where v4: "a = v4InV6Prefix @ v4" "length v4 = 4" using parseIP_v4 [OF assms(1)] assms(2) by blast
  have "takeWhile (\<lambda>c. c \<noteq> CHR ''/'') (addr @ CHR ''/'' # p) = addr" "dropWhile (\<lambda>c. c \<noteq> CHR ''/'') (addr @ CHR ''/'' # p) = CHR ''/'' # p"
    using assms(2) by (auto simp: takeWhile_append dropWhile_append)
  then have "parseCIDR (addr @ CHR ''/'' # p) = Some \<lparr>net_IP = ip_Mask a (cidrMask k 32), net_Mask = cidrMask k 32\<rparr>"
    using assms by (simp add: parseCIDR_def parseAddr_def)
  moreover have "net_number \<lparr>net_IP = ip_Mask a (cidrMask k 32), net_Mask = cidrMask k 32\<rparr> = Some (and_bytes v4 (cidrMask k 32), cidrMask k 32)"
    using v4 by (simp add: ip_Mask_v4 net_number_def ip_To4_4 Let_def)
  ultimately show ?thesis using v4 by blast
qed

lemma mem_nets: "file_nets (memFile_Open (NewMem [allIPv4, allIPv6])) = [allIPv4, allIPv6]"
proof -
  have mem: "NewMem [allIPv4, allIPv6] = ''0.0.0.0/0'' @ [CHR 0x0A] @ ''::/0''" by code_simp
  have lines: "split_on (CHR 0x0A) (''0.0.0.0/0'' @ [CHR 0x0A] @ ''::/0'') = [''0.0.0.0/0'', ''::/0'']" by code_simp
  have "fst (scan_tokens (NewMem [allIPv4, allIPv6]) False) = [''0.0.0.0/0'', ''::/0'']"
    unfolding mem scan_tokens_def lines by (simp add: maxScanTokenSize_def drop_cr_def)
  moreover have "nets_of_lines [''0.0.0.0/0'', ''::/0''] = [allIPv4, allIPv6]" by code_simp
  ultimately show ?thesis by (simp add: file_nets_def memFile_Open_def)
qed

lemma all_networks: "length a = 4 \<or> length a = 16 \<Longrightarrow> net_contains allIPv4 a \<or> net_contains allIPv6 a"
proof -
  assume "length a = 4 \<or> length a = 16"
  then have "length (canonical a) = 4 \<or> length (canonical a) = 16" using ip_To4_length by (auto simp: canonical_def split: option.splits)
  moreover have "net_number allIPv4 = Some ([0,0,0,0], cidrMask 0 (8 * length [0::byte,0,0,0]))" "net_number allIPv6 = Some (replicate 16 0, cidrMask 0 (8 * length (replicate 16 (0::byte))))"
    by code_simp+
  from net_contains_prefix [OF this(1), of a] net_contains_prefix [OF this(2), of a]
  have "net_contains allIPv4 a \<longleftrightarrow> length (canonical a) = 4" "net_contains allIPv6 a \<longleftrightarrow> length (canonical a) = 16" by (simp_all add: eval_nat_numeral)
  ultimately show ?thesis by blast
qed

subsection \<open>Properties\<close>

text \<open>C23. After an update a list contains exactly the addresses covered by a network of one of its files, whatever it
  contained before: a file counts up to its first malformed line, and a file that cannot be opened not at all, so
  when no file can be opened the list is empty. Nil addresses are always contained.\<close>

theorem firehol_update_exact:
  assumes "ranger_laws rg holds" "length a = 4 \<or> length a = 16"
  shows "(firehol_Contains rg (firehol_update rg opened f) (Some a) \<longleftrightarrow> (\<exists>g \<in> set opened. \<exists>n \<in> set (file_nets g). net_contains n a)) \<and>
    (set opened \<subseteq> {OpenFailed} \<longrightarrow> \<not> firehol_Contains rg (firehol_update rg opened f) (Some a)) \<and>
    firehol_Contains rg (firehol_update rg opened f) None"
  using firehol_contains [OF assms, of opened f] by (auto simp: firehol_Contains_def [of _ _ None] file_nets_def)

text \<open>A line with an IPv4 address and a prefix length covers exactly the addresses that agree with it on that
  many leading bits; the address may be written with host bits, and IPv4 clients are recognised in both of their
  forms. A line with an address alone covers that address alone.\<close>

lemma line_covers_prefix:
  assumes "parseIP addr = Some (v4InV6Prefix @ v4)" "set addr \<inter> {CHR '':'', CHR ''/''} = {}" "length a = 4 \<or> length a = 16"
  shows "(prefix_len p = Some k \<and> k \<le> 32 \<longrightarrow> (\<exists>n. updateParseLine (addr @ CHR ''/'' # p) = Some n \<and>
       (net_contains n a \<longleftrightarrow> (\<exists>b. ip_To4 a = Some b \<and> take k (ip_bits b) = take k (ip_bits v4))))) \<and>
    (\<exists>n. updateParseLine addr = Some n \<and> (net_contains n a \<longleftrightarrow> ip_To4 a = Some v4))"
proof -
  have v4: "length v4 = 4" using parseIP_length [OF assms(1)] by simp
  have "\<exists>n. updateParseLine (addr @ CHR ''/'' # p) = Some n \<and>
      (net_contains n a \<longleftrightarrow> (\<exists>b. ip_To4 a = Some b \<and> take k (ip_bits b) = take k (ip_bits v4)))" if pk: "prefix_len p = Some k" "k \<le> 32"
  proof -
    obtain n where n: "parseCIDR (addr @ CHR ''/'' # p) = Some n" "net_number n = Some (and_bytes v4 (cidrMask k 32), cidrMask k 32)"
      using parseCIDR_v4 [OF assms(1,2) pk] by auto
    have "net_contains n a \<longleftrightarrow> length (canonical a) = 4 \<and> take k (ip_bits v4) = take k (ip_bits (canonical a))"
      using net_contains_prefix [of n "and_bytes v4 (cidrMask k 32)" k a] n(2) pk(2) v4 take_masked [of k v4] by simp
    moreover have "length (canonical a) = 4 \<longleftrightarrow> ip_To4 a \<noteq> None" by (rule canonical_length [OF assms(3)])
    ultimately show ?thesis using n(1) by (auto simp: updateParseLine_def canonical_def split: option.splits)
  qed
  moreover have "\<exists>n. updateParseLine addr = Some n \<and> (net_contains n a \<longleftrightarrow> ip_To4 a = Some v4)"
  proof -
    let ?n = "\<lparr>net_IP = v4InV6Prefix @ v4, net_Mask = cidrMask 32 32\<rparr>"
    have "dropWhile (\<lambda>c. c \<noteq> CHR ''/'') addr = []" using assms(2) by (auto simp: dropWhile_eq_Nil_conv)
    then have "parseCIDR addr = None" by (simp add: parseCIDR_def)
    moreover have to4: "ip_To4 (v4InV6Prefix @ v4) = Some v4" using v4 by (simp add: ip_To4_def)
    ultimately have "updateParseLine addr = Some ?n" using assms(1) by (simp add: updateParseLine_def)
    moreover have "net_number ?n = Some (v4, cidrMask 32 (8 * length v4))" using to4 v4 by (simp add: net_number_def Let_def)
    from net_contains_prefix [OF this, of a]
    have "net_contains ?n a \<longleftrightarrow> length (canonical a) = 4 \<and> ip_bits v4 = ip_bits (canonical a)" using v4 by auto
    moreover have "length (canonical a) = 4 \<longleftrightarrow> ip_To4 a \<noteq> None" by (rule canonical_length [OF assms(3)])
    ultimately have "net_contains ?n a \<longleftrightarrow> ip_To4 a = Some v4"
      using v4 ip_bits_inj [of v4 "canonical a"] by (auto simp: canonical_def split: option.splits)
    then show ?thesis using \<open>updateParseLine addr = Some ?n\<close> by blast
  qed
  ultimately show ?thesis by blast
qed

text \<open>Without a configured allow list every client is allowed once the list of all networks has been loaded, but
  the list is loaded in the background: until then it is empty, and the accept loop turns every client away.\<close>

lemma allowlist_opens_late:
  assumes "ranger_laws rg holds" "length a = 4 \<or> length a = 16" "makeIPAllowlist rg False files = (al, opened)"
  shows "handle_conn (\<lambda>a. list_Contains rg al (Some a)) blocked answer a = (AllowlistRejected, True) \<and>
    list_Contains rg (list_update rg opened al) (Some a)"
proof -
  have al: "al = FireholList (NewFireholFromFiles rg)" "opened = [memFile_Open (NewMem [allIPv4, allIPv6])]"
    using assms(3) by (auto simp: makeIPAllowlist_def)
  have "rg_Contains rg (rg_new rg) a = Some (\<exists>n \<in> {}. net_contains n a)"
    using assms(1,2) unfolding ranger_laws_def by blast
  then have "handle_conn (\<lambda>a. list_Contains rg al (Some a)) blocked answer a = (AllowlistRejected, True)"
    by (simp add: handle_conn_def list_Contains_def al NewFireholFromFiles_def firehol_Contains_def)
  moreover have "net_contains allIPv4 a \<or> net_contains allIPv6 a" by (rule all_networks [OF assms(2)])
  then have "list_Contains rg (list_update rg opened al) (Some a)"
    unfolding al using firehol_contains [OF assms(1,2), of "[memFile_Open (NewMem [allIPv4, allIPv6])]"]
    by (simp add: list_Contains_def list_update_def mem_nets)
  ultimately show ?thesis ..
qed

subsection \<open>Witnesses\<close>

text \<open>A trie that is the list of its networks.\<close>

definition list_ranger :: "ipNet list ranger" where
  "list_ranger = \<lparr>rg_new = [], rg_Insert = (\<lambda>n r. Some (n # r)), rg_Contains = (\<lambda>r a. Some (\<exists>n \<in> set r. net_contains n a)), rg_Len = (\<lambda>r. int (length r))\<rparr>"

lemma list_ranger_laws: "ranger_laws list_ranger (\<lambda>r S. set r = S)"
  by (auto simp: ranger_laws_def list_ranger_def)

theorem firehol_update_exact_witness:
  "firehol_Contains list_ranger (firehol_update list_ranger [OpenFailed, memFile_Open (NewMem [allIPv4, allIPv6])] (NewFireholFromFiles list_ranger)) (Some [8, 8, 8, 8]) \<and>
   \<not> firehol_Contains list_ranger (firehol_update list_ranger [OpenFailed] (NewFireholFromFiles list_ranger)) (Some [8, 8, 8, 8])"
  using firehol_update_exact [OF list_ranger_laws, of "[8, 8, 8, 8]" "[OpenFailed, memFile_Open (NewMem [allIPv4, allIPv6])]" "NewFireholFromFiles list_ranger"]
    firehol_update_exact [OF list_ranger_laws, of "[8, 8, 8, 8]" "[OpenFailed]" "NewFireholFromFiles list_ranger"] all_networks [of "[8, 8, 8, 8]"]
  by (simp add: mem_nets file_nets_def [of OpenFailed])

end
