(* ===== verification/Listeners.thy ===== *)
theory Listeners
  imports Serve "HOL-Library.Sublist"
begin

text \<open>
  Where connections come from and how the process ends: the listeners of \<open>internal/utils/net_listener.go\<close> (a wrapper that
  skips connections whose socket options cannot be set, and the fan-in of several listeners as a step relation), the start
  of the listeners and \<open>waitAndShutdown\<close> of \<open>internal/cli/run_proxy.go\<close>. The lemmas show that the fan-in delivers what its
  listeners accept, once and in order, and that the process reports exactly the failures of its accept loop.
\<close>

subsection \<open>One listener\<close>

text \<open>What the wrapped listener returns: a connection, whether its options can be set and the time of the check, or an
  error.\<close>

datatype 'c base_accept = BaseConn 'c bool go_time | BaseError accept_error

type_synonym 'c acceptResult = "accept_error + 'c"

definition socketOptionsLogInterval :: duration where "socketOptionsLogInterval = 10000000000"

definition WrapListener :: throttle where "WrapListener = throttle_New socketOptionsLogInterval"

text \<open>The log line about a skipped connection, with the number of suppressed ones, unless it is throttled.\<close>

definition logSkipped :: "go_time \<Rightarrow> throttle \<Rightarrow> int option \<times> throttle" where
  "logSkipped now th = (case throttle_Allow now th of ((ok, suppressed), th) \<Rightarrow> (if \<not> ok then None else Some suppressed, th))"

text \<open>The loop of \<open>Accept\<close>: the result and what is left of the input (\<open>None\<close> while it waits), the throttle, and the
  connections it closed, each with its log line.\<close>

fun Listener_Accept :: "throttle \<Rightarrow> 'c base_accept list \<Rightarrow>
    ('c acceptResult \<times> 'c base_accept list) option \<times> throttle \<times> ('c \<times> int option) list" where
  "Listener_Accept th [] = (None, th, [])"
| "Listener_Accept th (BaseError e # as) = (Some (Inl e, as), th, [])"
| "Listener_Accept th (BaseConn conn optionsSet now # as) =
     (if \<not> optionsSet then
        let (line, th) = logSkipped now th;
            (r, th, skipped) = Listener_Accept th as
        in (r, th, (conn, line) # skipped)
      else (Some (Inr conn, as), th, []))"

subsection \<open>Several listeners\<close>

text \<open>A goroutine of \<open>acceptLoop\<close>: in \<open>Accept\<close> with the results to come, at the channel with a result, or returned. Each
  result carries the index of its listener, which the code does not have.\<close>

datatype 'c loop = Accepting "'c acceptResult list" | Sending "'c acceptResult" "'c acceptResult list" | LoopReturned

record 'c multiListener =
  ml_listeners :: "'c loop list"
  ml_connCh :: "(nat \<times> 'c acceptResult) list"
  ml_out :: "(nat \<times> 'c acceptResult) list"

definition NewMultiListener :: "'c acceptResult list list \<Rightarrow> 'c multiListener" where
  "NewMultiListener results = \<lparr>ml_listeners = map Accepting results, ml_connCh = [], ml_out = []\<rparr>"

definition is_ErrClosed :: "'c acceptResult \<Rightarrow> bool" where
  "is_ErrClosed r = (case r of Inl e \<Rightarrow> is_closed e | Inr _ \<Rightarrow> False)"

text \<open>The next action of loop \<open>i\<close>, \<open>None\<close> when it is blocked or has returned: the call returns, or the channel, which has
  as many places as there are listeners, takes the result.\<close>

definition acceptLoop :: "nat \<Rightarrow> 'c multiListener \<Rightarrow> 'c multiListener option" where
  "acceptLoop i ml =
     (if i < length (ml_listeners ml) then
        case ml_listeners ml ! i of
          Accepting (r # rs) \<Rightarrow> Some (ml\<lparr>ml_listeners := (ml_listeners ml)[i := Sending r rs]\<rparr>)
        | Sending r rs \<Rightarrow>
            if length (ml_connCh ml) < length (ml_listeners ml)
            then Some (ml\<lparr>ml_connCh := ml_connCh ml @ [(i, r)],
                          ml_listeners := (ml_listeners ml)[i := if is_ErrClosed r then LoopReturned else Accepting rs]\<rparr>)
            else None
        | _ \<Rightarrow> None
      else None)"

definition MultiListener_Accept :: "'c multiListener \<Rightarrow> ('c acceptResult \<times> 'c multiListener) option" where
  "MultiListener_Accept ml = (case ml_connCh ml of
       [] \<Rightarrow> None
     | (i, r) # q \<Rightarrow> Some (r, ml\<lparr>ml_connCh := q, ml_out := ml_out ml @ [(i, r)]\<rparr>))"

text \<open>\<open>Close\<close> closes every listener and returns the first error.\<close>

fun MultiListener_Close :: "'e option list \<Rightarrow> 'e option" where
  "MultiListener_Close [] = None"
| "MultiListener_Close (e # es) = (case e of Some x \<Rightarrow> Some x | None \<Rightarrow> MultiListener_Close es)"

inductive ml_step :: "'c multiListener \<Rightarrow> 'c multiListener \<Rightarrow> bool" where
  loop: "acceptLoop i ml = Some ml' \<Longrightarrow> ml_step ml ml'"
| receive: "MultiListener_Accept ml = Some (r, ml') \<Longrightarrow> ml_step ml ml'"

inductive_cases ml_stepE: "ml_step ml ml'"

subsection \<open>Start and end of the process\<close>

text \<open>The listeners of \<open>runProxy\<close>: when one cannot be opened, those opened before it are closed.\<close>

fun open_listeners :: "(string \<Rightarrow> bool) \<Rightarrow> string list \<Rightarrow> string list \<Rightarrow> (string \<times> string list) + string list" where
  "open_listeners listens listeners [] = Inr listeners"
| "open_listeners listens listeners (addr # addrs) =
     (if \<not> listens addr then Inl (addr, listeners) else open_listeners listens (listeners @ [addr]) addrs)"

datatype serve_stage = Serving | ServeDone "accept_error option" | ServeSent | ServeCancelled

datatype main_stage = WaitingForDone | Selecting | Chosen "accept_error option" | Stopping "accept_error option" | Exited "accept_error option"

text \<open>The goroutine of \<open>Serve\<close>, the main goroutine, the channel between them and the context. \<open>rs_signalled\<close> records a
  signal to the process, \<open>rs_failure\<close> the error of a \<open>Serve\<close> that ended before the listener was closed; the code has
  neither.\<close>

record run_state =
  rs_serve :: serve_stage
  rs_main :: main_stage
  rs_serveErr :: "accept_error option option"
  rs_done :: bool
  rs_stopped :: bool
  rs_signalled :: bool
  rs_failure :: "accept_error option"

definition run_init :: run_state where
  "run_init = \<lparr>rs_serve = Serving, rs_main = WaitingForDone, rs_serveErr = None, rs_done = False, rs_stopped = False,
     rs_signalled = False, rs_failure = None\<rparr>"

text \<open>The signal cancels the root context. \<open>Serve\<close> returns an error, or nil once the context of the proxy is over.\<close>

definition on_signal :: "run_state \<Rightarrow> run_state option" where
  "on_signal s = (if rs_signalled s then None else Some (s\<lparr>rs_done := True, rs_signalled := True\<rparr>))"

definition serve_goroutine :: "accept_error option \<Rightarrow> run_state \<Rightarrow> run_state option" where
  "serve_goroutine result s = (case rs_serve s of
       Serving \<Rightarrow>
         if result = None \<and> \<not> rs_stopped s then None
         else Some (s\<lparr>rs_serve := ServeDone result, rs_failure := if rs_stopped s then None else result\<rparr>)
     | ServeDone e \<Rightarrow> Some (s\<lparr>rs_serveErr := Some e, rs_serve := ServeSent\<rparr>)
     | ServeSent \<Rightarrow> Some (s\<lparr>rs_done := True, rs_serve := ServeCancelled\<rparr>)
     | ServeCancelled \<Rightarrow> None)"

text \<open>\<open>waitAndShutdown\<close>: wait for the context, look into the channel without waiting, stop (which closes the listener,
  cancels the context of the proxy and waits for \<open>Serve\<close>), return.\<close>

definition waitAndShutdown :: "run_state \<Rightarrow> run_state option" where
  "waitAndShutdown s = (case rs_main s of
       WaitingForDone \<Rightarrow> if rs_done s then Some (s\<lparr>rs_main := Selecting\<rparr>) else None
     | Selecting \<Rightarrow> (case rs_serveErr s of
           Some e \<Rightarrow> Some (s\<lparr>rs_main := Chosen e, rs_serveErr := None\<rparr>)
         | None \<Rightarrow> Some (s\<lparr>rs_main := Chosen None\<rparr>))
     | Chosen f \<Rightarrow> Some (s\<lparr>rs_main := Stopping f, rs_stopped := True\<rparr>)
     | Stopping f \<Rightarrow> if rs_serve s = Serving then None else Some (s\<lparr>rs_main := Exited f\<rparr>)
     | Exited _ \<Rightarrow> None)"

inductive run_step :: "run_state \<Rightarrow> run_state \<Rightarrow> bool" where
  signal: "on_signal s = Some s' \<Longrightarrow> run_step s s'"
| serve: "serve_goroutine result s = Some s' \<Longrightarrow> run_step s s'"
| main: "waitAndShutdown s = Some s' \<Longrightarrow> run_step s s'"

inductive_cases run_stepE: "run_step s s'"

subsection \<open>Runs that count down\<close>

text \<open>The contract of a system whose every step uses up one unit of what is left: a run has exactly as many steps as have
  been used up, and from every state one that cannot go on is reached.\<close>

locale countdown =
  fixes step :: "'s \<Rightarrow> 's \<Rightarrow> bool"
    and left :: "'s \<Rightarrow> nat"
  assumes counts: "step s s' \<Longrightarrow> Suc (left s') = left s"
begin

lemma steps_left: "(step ^^ k) s s' \<Longrightarrow> k + left s' = left s"
  by (induction k arbitrary: s') (fastforce dest!: counts)+

lemma comes_to_rest: "\<exists>s'. step\<^sup>*\<^sup>* s s' \<and> (\<nexists>t. step s' t)"
proof (induction "left s" arbitrary: s rule: less_induct)
  case less
  show ?case
  proof (cases "\<exists>t. step s t")
    case True
    then obtain t where t: "step s t" by blast
    then have "left t < left s" using counts [OF t] by simp
    then show ?thesis using less t by (meson converse_rtranclp_into_rtranclp)
  qed blast
qed

end

subsection \<open>Schedules\<close>

text \<open>Runs by the order in which the goroutines act.\<close>

datatype ml_act = LoopActs nat | AcceptActs

fun ml_run :: "ml_act list \<Rightarrow> 'c multiListener \<Rightarrow> 'c multiListener option" where
  "ml_run [] ml = Some ml"
| "ml_run (LoopActs i # acts) ml = Option.bind (acceptLoop i ml) (ml_run acts)"
| "ml_run (AcceptActs # acts) ml = Option.bind (MultiListener_Accept ml) (\<lambda>(_, ml). ml_run acts ml)"

datatype process_act = SignalActs | ServeActs "accept_error option" | MainActs

definition run_act :: "process_act \<Rightarrow> run_state \<Rightarrow> run_state option" where
  "run_act a s = (case a of SignalActs \<Rightarrow> on_signal s | ServeActs result \<Rightarrow> serve_goroutine result s | MainActs \<Rightarrow> waitAndShutdown s)"

fun run_run :: "process_act list \<Rightarrow> run_state \<Rightarrow> run_state option" where
  "run_run [] s = Some s"
| "run_run (a # acts) s = Option.bind (run_act a s) (run_run acts)"

lemma ml_run_steps: "ml_run acts ml = Some ml' \<Longrightarrow> (ml_step ^^ length acts) ml ml'"
  by (induction acts ml rule: ml_run.induct)
     (auto simp: bind_eq_Some_conv simp del: relpowp.simps intro: relpowp_Suc_I2 ml_step.intros, auto)

lemma run_act_step: "run_act a s = Some s' \<Longrightarrow> run_step s s'"
  by (auto simp: run_act_def intro: run_step.intros split: process_act.splits)

lemma run_run_steps: "run_run acts s = Some s' \<Longrightarrow> (run_step ^^ length acts) s s'"
  by (induction acts s rule: run_run.induct)
     (auto simp: bind_eq_Some_conv simp del: relpowp.simps intro: relpowp_Suc_I2 run_act_step, auto)

subsection \<open>What a listener returns\<close>

lemma Listener_Accept_shrinks: "Listener_Accept th as = (Some (r, as'), rest) \<Longrightarrow> length as' < length as"
  by (induction th as arbitrary: rest rule: Listener_Accept.induct) (auto simp: Let_def less_SucI split: if_splits prod.splits)

text \<open>The results of calling \<open>Accept\<close> again and again.\<close>

function Listener_results :: "throttle \<Rightarrow> 'c base_accept list \<Rightarrow> 'c acceptResult list" where
  "Listener_results th as = (case Listener_Accept th as of
      (None, _) \<Rightarrow> []
    | (Some (r, as'), th', _) \<Rightarrow> r # Listener_results th' as')"
  by pat_completeness auto
termination
  by (relation "measure (\<lambda>(_, as). length as)") (auto dest: Listener_Accept_shrinks [OF sym])

declare Listener_results.simps [simp del]

text \<open>One bad client costs its connection only: the results are those of the wrapped listener without it.\<close>

definition kept :: "'c base_accept \<Rightarrow> 'c acceptResult option" where
  "kept a = (case a of BaseConn c ok _ \<Rightarrow> if ok then Some (Inr c) else None | BaseError e \<Rightarrow> Some (Inl e))"

lemma Listener_Accept_first:
  "case fst (Listener_Accept th as) of
      None \<Rightarrow> List.map_filter kept as = []
    | Some (r, as') \<Rightarrow> List.map_filter kept as = r # List.map_filter kept as'"
  by (induction th as rule: Listener_Accept.induct)
     (auto simp: map_filter_simps kept_def Let_def split: prod.splits option.splits)

lemma Listener_results_kept: "Listener_results th as = List.map_filter kept as"
proof (induction th as rule: Listener_results.induct)
  case (1 th as)
  obtain o' th' sk where r: "Listener_Accept th as = (o', th', sk)" by (cases "Listener_Accept th as") auto
  show ?case
    using Listener_Accept_first [where th = th and as = as] 1 [OF r [symmetric]]
    by (subst Listener_results.simps) (auto simp: r split: option.splits)
qed

text \<open>The connections a call closes are those it skips.\<close>

lemma Listener_Accept_skipped:
  "Listener_Accept th as = (Some (r, as'), th', skipped) \<Longrightarrow>
     \<exists>xs a. as = xs @ a # as' \<and> kept a = Some r \<and> map (\<lambda>(c, _). Inr c) skipped = map (\<lambda>x. case x of BaseConn c _ _ \<Rightarrow> Inr c | BaseError e \<Rightarrow> Inl e) xs \<and>
       list_all (\<lambda>x. kept x = None) xs"
proof (induction th as arbitrary: th' skipped rule: Listener_Accept.induct)
  case (3 th conn optionsSet now as)
  show ?case
  proof (cases optionsSet)
    case False
    obtain line th1 where l: "logSkipped now th = (line, th1)" by fastforce
    obtain sk where sk: "Listener_Accept th1 as = (Some (r, as'), th', sk)" "skipped = (conn, line) # sk"
      using "3.prems" False l by (auto simp: Let_def split: prod.splits)
    obtain xs a where "as = xs @ a # as'" "kept a = Some r" "list_all (\<lambda>x. kept x = None) xs"
        "map (\<lambda>(c, _). Inr c) sk = map (\<lambda>x. case x of BaseConn c _ _ \<Rightarrow> Inr c | BaseError e \<Rightarrow> Inl e) xs"
      using "3.IH" [OF False refl l [symmetric] sk(1)] by blast
    then show ?thesis
      using False sk(2) by (intro exI [of _ "BaseConn conn optionsSet now # xs"] exI [of _ a]) (simp add: kept_def)
  qed (use 3 in \<open>auto simp: kept_def\<close>)
qed (auto simp: kept_def)

subsection \<open>What the fan-in delivers\<close>

text \<open>The results of one listener among those of all, and what a listener has to deliver: everything up to the error of
  its closing.\<close>

definition from_listener :: "nat \<Rightarrow> (nat \<times> 'c acceptResult) list \<Rightarrow> 'c acceptResult list" where
  "from_listener i q = map snd (filter (\<lambda>x. fst x = i) q)"

fun until_closed :: "'c acceptResult list \<Rightarrow> 'c acceptResult list" where
  "until_closed [] = []"
| "until_closed (r # rs) = r # (if is_ErrClosed r then [] else until_closed rs)"

definition due :: "'c loop \<Rightarrow> 'c acceptResult list" where
  "due l = (case l of Accepting rs \<Rightarrow> until_closed rs | Sending r rs \<Rightarrow> until_closed (r # rs) | LoopReturned \<Rightarrow> [])"

definition ml_inv :: "'c acceptResult list list \<Rightarrow> 'c multiListener \<Rightarrow> bool" where
  "ml_inv results ml \<longleftrightarrow> length (ml_listeners ml) = length results \<and> length (ml_connCh ml) \<le> length results \<and>
     (\<forall>i < length results. from_listener i (ml_out ml) @ from_listener i (ml_connCh ml) @ due (ml_listeners ml ! i) =
        until_closed (results ! i))"

lemma from_listener_simps [simp]:
  "from_listener i [] = []"
  "from_listener i ((j, r) # q) = (if i = j then r # from_listener i q else from_listener i q)"
  "from_listener i (p @ q) = from_listener i p @ from_listener i q"
  by (auto simp: from_listener_def)

lemma due_simps [simp]:
  "due (Accepting rs) = until_closed rs" "due (Sending r rs) = until_closed (r # rs)" "due LoopReturned = []"
  by (simp_all add: due_def)

lemma acceptLoop_Some:
  "acceptLoop i ml = Some ml' \<longleftrightarrow> i < length (ml_listeners ml) \<and>
     ((\<exists>r rs. ml_listeners ml ! i = Accepting (r # rs) \<and> ml' = ml\<lparr>ml_listeners := (ml_listeners ml)[i := Sending r rs]\<rparr>) \<or>
      (\<exists>r rs. ml_listeners ml ! i = Sending r rs \<and> length (ml_connCh ml) < length (ml_listeners ml) \<and>
         ml' = ml\<lparr>ml_connCh := ml_connCh ml @ [(i, r)],
                  ml_listeners := (ml_listeners ml)[i := if is_ErrClosed r then LoopReturned else Accepting rs]\<rparr>))"
  by (auto simp: acceptLoop_def split: loop.splits list.splits)

lemma MultiListener_Accept_Some:
  "MultiListener_Accept ml = Some (r, ml') \<longleftrightarrow>
     (\<exists>i q. ml_connCh ml = (i, r) # q \<and> ml' = ml\<lparr>ml_connCh := q, ml_out := ml_out ml @ [(i, r)]\<rparr>)"
  by (auto simp: MultiListener_Accept_def split: list.splits)

lemma ml_inv_init: "ml_inv results (NewMultiListener results)"
  by (simp add: ml_inv_def NewMultiListener_def due_def)

lemma ml_inv_step:
  assumes "ml_step ml ml'" "ml_inv results ml"
  shows "ml_inv results ml'"
  using assms(1)
proof (cases rule: ml_step.cases)
  case (loop i)
  have other: "from_listener j (ml_out ml) @ from_listener j (ml_connCh ml) @ due (ml_listeners ml ! j) = until_closed (results ! j)"
    if "j < length results" for j using assms(2) that by (simp add: ml_inv_def)
  have len: "length (ml_listeners ml) = length results" "length (ml_connCh ml) \<le> length results"
    using assms(2) by (simp_all add: ml_inv_def)
  from loop len show ?thesis
    by (auto simp: acceptLoop_Some ml_inv_def nth_list_update other [symmetric] Suc_leI)
next
  case (receive r)
  then show ?thesis
    using assms(2) by (auto simp: MultiListener_Accept_Some ml_inv_def split: if_splits)
qed

lemma ml_inv_reachable: "ml_step\<^sup>*\<^sup>* (NewMultiListener results) ml \<Longrightarrow> ml_inv results ml"
  by (induction rule: rtranclp_induct) (auto intro: ml_inv_init ml_inv_step)

text \<open>Every step brings the end nearer: a result that is not yet accepted has three steps to go.\<close>

definition loop_left :: "'c loop \<Rightarrow> nat" where
  "loop_left l = (case l of
       Accepting rs \<Rightarrow> 3 * length (until_closed rs)
     | Sending r rs \<Rightarrow> 2 + 3 * (length (until_closed (r # rs)) - 1)
     | LoopReturned \<Rightarrow> 0)"

definition ml_left :: "'c multiListener \<Rightarrow> nat" where
  "ml_left ml = sum_list (map loop_left (ml_listeners ml)) + length (ml_connCh ml)"

lemma sum_list_update_less:
  fixes f :: "'a \<Rightarrow> nat"
  assumes "i < length xs"
  shows "sum_list (map f (xs[i := x])) + f (xs ! i) = sum_list (map f xs) + f x"
  using assms by (induction xs arbitrary: i) (auto split: nat.splits)

lemma ml_step_left: "ml_step ml ml' \<Longrightarrow> Suc (ml_left ml') = ml_left ml"
proof (induction rule: ml_step.induct)
  case (loop i ml ml')
  then have i: "i < length (ml_listeners ml)" by (simp add: acceptLoop_Some)
  note sum = sum_list_update_less [OF i, of loop_left]
  from loop consider r rs where "ml_listeners ml ! i = Accepting (r # rs)" "ml' = ml\<lparr>ml_listeners := (ml_listeners ml)[i := Sending r rs]\<rparr>"
    | r rs where "ml_listeners ml ! i = Sending r rs" "ml' = ml\<lparr>ml_connCh := ml_connCh ml @ [(i, r)],
        ml_listeners := (ml_listeners ml)[i := if is_ErrClosed r then LoopReturned else Accepting rs]\<rparr>"
    by (auto simp: acceptLoop_Some)
  then show ?case
  proof cases
    case (1 r rs)
    then show ?thesis using sum [of "Sending r rs"] by (auto simp: ml_left_def loop_left_def)
  next
    case (2 r rs)
    then show ?thesis
      using sum [of "if is_ErrClosed r then LoopReturned else Accepting rs"] by (auto simp: ml_left_def loop_left_def)
  qed
next
  case (receive ml r ml')
  then show ?case by (auto simp: MultiListener_Accept_Some ml_left_def)
qed

interpretation fan_in: countdown ml_step ml_left
  by unfold_locales (rule ml_step_left)

text \<open>A state without a next step has delivered everything.\<close>

lemma ml_stuck:
  assumes "\<nexists>ml'. ml_step ml ml'" "i < length (ml_listeners ml)"
  shows "ml_connCh ml = [] \<and> due (ml_listeners ml ! i) = []"
proof -
  have empty: "ml_connCh ml = []"
  proof (rule ccontr)
    assume "ml_connCh ml \<noteq> []"
    then obtain j r q where "ml_connCh ml = (j, r) # q" by (cases "ml_connCh ml") auto
    then show False using assms(1) ml_step.receive by (fastforce simp: MultiListener_Accept_Some)
  qed
  have "acceptLoop i ml = None" using assms(1) ml_step.loop by (cases "acceptLoop i ml") blast+
  then show ?thesis using assms(2) empty by (auto simp: acceptLoop_def split: loop.splits list.splits if_splits)
qed

lemma until_closed_length: "length (until_closed rs) \<le> length rs"
  by (induction rs) auto

lemma ml_left_init: "ml_left (NewMultiListener results) \<le> 3 * sum_list (map length results)"
  by (induction results) (auto simp: ml_left_def NewMultiListener_def loop_left_def intro!: add_mono until_closed_length)

lemma map_filter_length: "length (List.map_filter f xs) \<le> length xs"
  by (induction xs) (auto simp: map_filter_simps split: option.splits)

text \<open>C15. Several listeners behind one \<open>Accept\<close>, each skipping the connections whose options cannot be set. In every run the
  channel stays within its bound, and what \<open>Accept\<close> has returned from a listener is a beginning of what that listener
  accepted up to its closing, in its order and without the skipped connections. A run cannot go on forever, and one that
  cannot go on has returned all of it: no connection is lost, repeated or held back by another listener.\<close>

theorem listeners_deliver:
  assumes "(ml_step ^^ k) (NewMultiListener (map (Listener_results WrapListener) bases)) ml"
  shows "length (ml_connCh ml) \<le> length bases \<and> k \<le> 3 * sum_list (map length bases) \<and>
    (\<forall>i < length bases. prefix (from_listener i (ml_out ml)) (until_closed (List.map_filter kept (bases ! i)))) \<and>
    ((\<nexists>ml'. ml_step ml ml') \<longrightarrow>
       (\<forall>i < length bases. from_listener i (ml_out ml) = until_closed (List.map_filter kept (bases ! i))))"
proof -
  let ?results = "map (List.map_filter kept) bases"
  have run: "(ml_step ^^ k) (NewMultiListener ?results) ml" using assms by (metis (no_types, lifting) Listener_results_kept map_cong)
  then have inv: "ml_inv ?results ml" by (intro ml_inv_reachable) (auto simp: rtranclp_power)
  have "sum_list (map length ?results) \<le> sum_list (map length bases)"
    by (induction bases) (auto intro: add_mono map_filter_length)
  then have "k \<le> 3 * sum_list (map length bases)"
    using fan_in.steps_left [OF run] ml_left_init [of ?results] by linarith
  moreover have "prefix (from_listener i (ml_out ml)) (until_closed (List.map_filter kept (bases ! i)))" if "i < length bases" for i
    using inv that by (auto simp: ml_inv_def intro!: prefixI [OF sym])
  moreover have "from_listener i (ml_out ml) = until_closed (List.map_filter kept (bases ! i))"
    if "\<nexists>ml'. ml_step ml ml'" "i < length bases" for i
    using ml_stuck [OF that(1), of i] inv that(2) by (auto simp: ml_inv_def)
  ultimately show ?thesis using inv by (auto simp: ml_inv_def)
qed

subsection \<open>How the process ends\<close>

text \<open>Before the stop, \<open>Serve\<close> ends with an error only; the error is in the channel before the context is cancelled.\<close>

definition main_stopped :: "main_stage \<Rightarrow> bool" where
  "main_stopped m = (case m of Stopping _ \<Rightarrow> True | Exited _ \<Rightarrow> True | _ \<Rightarrow> False)"

definition main_choice :: "main_stage \<Rightarrow> accept_error option option" where
  "main_choice m = (case m of Chosen f \<Rightarrow> Some f | Stopping f \<Rightarrow> Some f | Exited f \<Rightarrow> Some f | _ \<Rightarrow> None)"

definition serve_consistent :: "run_state \<Rightarrow> bool" where
  "serve_consistent s = (case rs_serve s of
       Serving \<Rightarrow> rs_failure s = None
     | ServeDone e \<Rightarrow> e \<noteq> None \<and> rs_failure s = e
     | _ \<Rightarrow> rs_failure s \<noteq> None)"

definition run_inv :: "run_state \<Rightarrow> bool" where
  "run_inv s \<longleftrightarrow>
     (rs_done s \<longrightarrow> rs_signalled s \<or> rs_serve s = ServeCancelled) \<and>
     (rs_serve s = ServeCancelled \<longrightarrow> rs_done s) \<and>
     rs_stopped s = main_stopped (rs_main s) \<and>
     (rs_main s \<noteq> WaitingForDone \<longrightarrow> rs_done s) \<and>
     (\<not> rs_stopped s \<longrightarrow> serve_consistent s) \<and>
     (case main_choice (rs_main s) of
        None \<Rightarrow> rs_serveErr s = (if rs_serve s = ServeSent \<or> rs_serve s = ServeCancelled then Some (rs_failure s) else None)
      | Some None \<Rightarrow> rs_signalled s
      | Some (Some e) \<Rightarrow> rs_failure s = Some e \<and> rs_serve s \<noteq> Serving)"

lemmas run_inv_defs = run_inv_def main_stopped_def main_choice_def serve_consistent_def

lemma run_inv_init: "run_inv run_init"
  by (simp add: run_inv_defs run_init_def)

lemma run_inv_signal: "on_signal s = Some s' \<Longrightarrow> run_inv s \<Longrightarrow> run_inv s'"
  by (cases "rs_main s"; cases "rs_serve s") (auto simp: on_signal_def run_inv_defs split: if_splits option.splits)

lemma run_inv_serve: "serve_goroutine result s = Some s' \<Longrightarrow> run_inv s \<Longrightarrow> run_inv s'"
  by (cases s; cases "rs_serve s"; simp add: serve_goroutine_def split: if_splits; hypsubst;
      simp add: run_inv_defs split: main_stage.splits option.splits; auto)

lemma run_inv_main: "waitAndShutdown s = Some s' \<Longrightarrow> run_inv s \<Longrightarrow> run_inv s'"
  by (cases s; cases "rs_main s"; simp add: waitAndShutdown_def split: if_splits option.splits; hypsubst;
      simp add: run_inv_defs split: serve_stage.splits option.splits; auto)

lemma run_inv_reachable: "run_step\<^sup>*\<^sup>* run_init s \<Longrightarrow> run_inv s"
  by (induction rule: rtranclp_induct)
     (auto intro: run_inv_init run_inv_signal run_inv_serve run_inv_main elim!: run_stepE)

text \<open>Every step brings the process nearer to its end.\<close>

definition run_left :: "run_state \<Rightarrow> nat" where
  "run_left s = (if rs_signalled s then 0 else 1) +
     (case rs_serve s of Serving \<Rightarrow> 3 | ServeDone _ \<Rightarrow> 2 | ServeSent \<Rightarrow> 1 | ServeCancelled \<Rightarrow> 0) +
     (case rs_main s of WaitingForDone \<Rightarrow> 4 | Selecting \<Rightarrow> 3 | Chosen _ \<Rightarrow> 2 | Stopping _ \<Rightarrow> 1 | Exited _ \<Rightarrow> 0)"

lemma run_step_left: "run_step s s' \<Longrightarrow> Suc (run_left s') = run_left s"
  by (erule run_stepE; cases s; cases "rs_serve s"; cases "rs_main s";
      simp add: on_signal_def serve_goroutine_def waitAndShutdown_def split: if_splits option.splits; hypsubst; simp add: run_left_def)

interpretation process: countdown run_step run_left
  by unfold_locales (rule run_step_left)

text \<open>Until it has exited, a process whose context is over, or whose accept loop has returned, can go on.\<close>

lemma run_progress:
  assumes "\<nexists>f. rs_main s = Exited f" "rs_done s \<or> rs_serve s \<noteq> Serving" "run_inv s"
  shows "\<exists>s'. run_step s s'"
proof (cases "waitAndShutdown s")
  case None
  have "\<exists>s'. serve_goroutine (Some e) s = Some s'" if "rs_serve s \<noteq> ServeCancelled" for e
    using that by (simp add: serve_goroutine_def split: serve_stage.splits)
  moreover have "rs_serve s \<noteq> ServeCancelled"
    using None assms by (auto simp: waitAndShutdown_def run_inv_def split: main_stage.splits option.splits if_splits)
  ultimately show ?thesis using run_step.serve by blast
qed (use run_step.main in blast)

text \<open>So a process whose context is over comes to its exit, whatever happens next.\<close>

lemma run_exits:
  assumes "run_step\<^sup>*\<^sup>* run_init s" "rs_done s"
  shows "\<exists>s' f. run_step\<^sup>*\<^sup>* s s' \<and> rs_main s' = Exited f"
proof -
  obtain s' where s': "run_step\<^sup>*\<^sup>* s s'" "\<nexists>t. run_step s' t" using process.comes_to_rest by blast
  have "rs_done s'"
    using s'(1) assms(2)
  proof (induction rule: rtranclp_induct)
    case (step y z)
    then show ?case
      by (elim run_stepE) (auto simp: on_signal_def serve_goroutine_def waitAndShutdown_def
          split: if_splits serve_stage.splits main_stage.splits option.splits)
  qed
  moreover have "run_inv s'" using assms(1) s'(1) by (auto intro: run_inv_reachable)
  ultimately show ?thesis using run_progress s' by blast
qed

text \<open>C16. How the process ends. Whatever the order of a signal, the end of \<open>Serve\<close> and the shutdown, the process takes at
  most eight steps to its end, and once its context is over it cannot get stuck before it. The error it exits with is the
  error with which \<open>Serve\<close> ended before the listener was closed; it exits without an error only after a signal, so an accept
  loop that fails on its own is always reported, and the error that closing the listener causes never is.\<close>

theorem exit_status_exact:
  assumes "(run_step ^^ k) run_init s"
  shows "k \<le> 8 \<and> (rs_done s \<longrightarrow> (\<nexists>s'. run_step s s') \<longrightarrow> (\<exists>f. rs_main s = Exited f)) \<and>
    (\<forall>f. rs_main s = Exited f \<longrightarrow>
       (f = None \<longrightarrow> rs_signalled s) \<and> (\<forall>e. f = Some e \<longrightarrow> rs_failure s = Some e) \<and>
       (\<not> rs_signalled s \<longrightarrow> f \<noteq> None \<and> f = rs_failure s))"
proof -
  have inv: "run_inv s" using assms by (intro run_inv_reachable) (auto simp: rtranclp_power)
  have "k \<le> 8" using process.steps_left [OF assms] by (simp add: run_left_def run_init_def)
  moreover have "\<exists>f. rs_main s = Exited f" if "rs_done s" "\<nexists>s'. run_step s s'"
    using run_progress [OF _ _ inv] that by blast
  moreover have "(f = None \<longrightarrow> rs_signalled s) \<and> (\<forall>e. f = Some e \<longrightarrow> rs_failure s = Some e)" if "rs_main s = Exited f" for f
    using inv that by (cases f) (simp_all add: run_inv_def main_choice_def)
  ultimately show ?thesis by (metis not_None_eq)
qed

subsection \<open>Witnesses\<close>

definition sample_bases :: "nat base_accept list list" where
  "sample_bases = [[BaseConn 1 True 0, BaseConn 2 False 5, BaseConn 3 True 9], [BaseConn 4 True 0]]"

definition sample_schedule :: "ml_act list" where
  "sample_schedule = [LoopActs 0, LoopActs 1, LoopActs 1, LoopActs 0, LoopActs 0, AcceptActs, LoopActs 0, AcceptActs, AcceptActs]"

definition closed_error :: accept_error where
  "closed_error = \<lparr>is_closed = True, is_timeout = False, errno_of = None\<rparr>"

definition sample_final :: "nat multiListener" where
  "sample_final = \<lparr>ml_listeners = [Accepting [], Accepting []], ml_connCh = [], ml_out = [(1, Inr 4), (0, Inr 1), (0, Inr 3)]\<rparr>"

lemma sample_ml_run: "ml_run sample_schedule (NewMultiListener (map (Listener_results WrapListener) sample_bases)) = Some sample_final"
  by (simp add: sample_schedule_def sample_bases_def sample_final_def NewMultiListener_def Listener_results_kept map_filter_simps kept_def
        acceptLoop_def MultiListener_Accept_def is_ErrClosed_def)

lemma sample_final_stuck: "\<nexists>ml. ml_step sample_final ml"
  by (auto simp: sample_final_def acceptLoop_Some MultiListener_Accept_Some less_Suc_eq elim!: ml_stepE)

theorem listeners_deliver_witness:
  "(ml_step ^^ 9) (NewMultiListener (map (Listener_results WrapListener) sample_bases)) sample_final \<and> (9::nat) \<le> 3 * sum_list (map length sample_bases) \<and>
     from_listener 0 (ml_out sample_final) = [Inr 1, Inr 3] \<and> from_listener 1 (ml_out sample_final) = [Inr 4]"
proof -
  have run: "(ml_step ^^ 9) (NewMultiListener (map (Listener_results WrapListener) sample_bases)) sample_final"
    using ml_run_steps [OF sample_ml_run] by (simp add: sample_schedule_def eval_nat_numeral)
  have "until_closed (List.map_filter kept (sample_bases ! 0)) = [Inr 1, Inr 3]"
    "until_closed (List.map_filter kept (sample_bases ! 1)) = [Inr 4]"
    by (simp_all add: sample_bases_def map_filter_simps kept_def is_ErrClosed_def)
  moreover note listeners_deliver [OF run]
  moreover have "0 < length sample_bases" "1 < length sample_bases" by (simp_all add: sample_bases_def)
  ultimately show ?thesis using sample_final_stuck run by metis
qed

definition sample_exit :: run_state where
  "sample_exit = \<lparr>rs_serve = ServeCancelled, rs_main = Exited (Some closed_error), rs_serveErr = None, rs_done = True, rs_stopped = True,
     rs_signalled = False, rs_failure = Some closed_error\<rparr>"

lemma sample_run_run:
  "run_run [ServeActs (Some closed_error), ServeActs None, ServeActs None, MainActs, MainActs, MainActs, MainActs] run_init = Some sample_exit"
  by (simp add: run_act_def run_init_def serve_goroutine_def waitAndShutdown_def sample_exit_def)

theorem exit_status_exact_witness:
  "(run_step ^^ 7) run_init sample_exit \<and> rs_main sample_exit = Exited (rs_failure sample_exit) \<and> \<not> rs_signalled sample_exit \<and>
     rs_failure sample_exit \<noteq> None"
proof -
  have run: "(run_step ^^ 7) run_init sample_exit" using run_run_steps [OF sample_run_run] by (simp add: eval_nat_numeral)
  have "rs_main sample_exit = Exited (Some closed_error)" "\<not> rs_signalled sample_exit" by (simp_all add: sample_exit_def)
  then show ?thesis using exit_status_exact [OF run] run by metis
qed

end
