(* ===== verification/Doctor.thy ===== *)
theory Doctor
  imports Config Obfuscation Telegram
begin

text \<open>
  The checks of the command line: the probe of a data centre (\<open>mtglib/dcprobe\<close>), the checks of \<open>internal/cli/doctor.go\<close>
  that use it, the comparison of DNS and public addresses (\<open>sni_check.go\<close>) and the question to several services for
  the own address (\<open>get_ip.go\<close>). Printed reports are left out; a check is its verdict. The lemmas show that the probe
  accepts exactly the peers that answer its nonce through the obfuscated transport.
\<close>

unbundle bit_operations_syntax

subsection \<open>The probe\<close>

definition ctorReqPQMulti :: u32 where "ctorReqPQMulti = 0xbe7e8ef1"
definition ctorResPQ :: u32 where "ctorResPQ = 0x05162463"
definition minResPQFrame :: nat where "minResPQFrame = 20 + 4 + 16"
definition maxResPQFrame :: nat where "maxResPQFrame = 256"

type_synonym u64 = "64 word"

definition put_le64 :: "u64 \<Rightarrow> bytes" where
  "put_le64 w = map (\<lambda>i. ucast (drop_bit (8 * i) w)) [0..<8]"

text \<open>\<open>nano\<close> is the clock as an unsigned number of nanoseconds.\<close>

definition generateMessageID :: "u64 \<Rightarrow> u64" where
  "generateMessageID nano =
     (let sec = nano div 1000000000;
          nsInSec = nano mod 1000000000;
          subsec = push_bit 32 nsInSec div 1000000000;
          id = push_bit 32 sec OR subsec
      in id AND NOT 3)"

definition probe_frame :: "bytes \<Rightarrow> u64 \<Rightarrow> bytes" where
  "probe_frame nonce' msgID =
     (let tlBody = put_le32 ctorReqPQMulti @ nonce';
          msg = replicate 8 0 @ put_le64 msgID @ put_le32 (word_of_nat (length tlBody)) @ tlBody
      in put_le32 (word_of_nat (length msg)) @ msg)"

datatype probe_error =
    ProbeHandshakeFailed
  | ProbeWriteFailed
  | NoFrameLength
  | FrameTooShort nat
  | FrameTooLarge nat
  | FrameIncomplete
  | WrongConstructor u32
  | NonceMismatch

text \<open>The outcome and the bytes that went out. \<open>generated\<close> is the handshake frame, \<open>reply\<close> what the peer sends before the
  connection ends or the deadline passes, and the flags tell whether the two writes succeed.\<close>

definition Probe :: "primitives \<Rightarrow> handshakeFrame \<Rightarrow> bytes \<Rightarrow> u64 \<Rightarrow> bool \<Rightarrow> bool \<Rightarrow> bytes \<Rightarrow> (probe_error + unit) \<times> bytes" where
  "Probe pr generated nonce' msgID handshakeOk writeOk reply =
     (if \<not> handshakeOk then (Inl ProbeHandshakeFailed, [])
      else
        let (w, c) = SendHandshake pr None generated;
            (out, c) = obfConn_Write (probe_frame nonce' msgID) c
        in if \<not> writeOk then (Inl ProbeWriteFailed, w)
           else
             (case read_full 4 reply of
                None \<Rightarrow> Inl NoFrameLength
              | Some (lb, r) \<Rightarrow>
                  let (lenBuf, c) = obfConn_Read lb False c;
                      respLen = unat (get_le32 lenBuf)
                  in if respLen < minResPQFrame then Inl (FrameTooShort respLen)
                     else if respLen > maxResPQFrame then Inl (FrameTooLarge respLen)
                     else case read_full respLen r of
                       None \<Rightarrow> Inl FrameIncomplete
                     | Some (fb, _) \<Rightarrow>
                         let (resp, c) = obfConn_Read fb False c;
                             tlResp = drop 20 resp
                         in if get_le32 (take 4 tlResp) \<noteq> ctorResPQ then Inl (WrongConstructor (get_le32 (take 4 tlResp)))
                            else if take 16 (drop 4 tlResp) \<noteq> nonce' then Inl NonceMismatch
                            else Inr (),
              w @ out))"

subsection \<open>The own address\<close>

text \<open>One service: the status and the text of its answer.\<close>

datatype service_answer = ServiceFailed | ServiceStatus nat | ServiceBody string | ServiceReadFailed

definition getIPAddressPlain :: "service_answer \<Rightarrow> ip option" where
  "getIPAddressPlain a = (case a of
       ServiceBody data \<Rightarrow> parseIP (trimSpace data)
     | _ \<Rightarrow> None)"

definition getIPServicesPlain :: "string list" where
  "getIPServicesPlain = [''https://ifconfig.co'', ''https://ifconfig.me'', ''https://api.ipify.org'', ''https://ipecho.net/plain'']"

datatype ip_failure = AllServicesFailed | ContextDone

text \<open>The answers in the order in which they arrive before the timeout, and how many errors have been collected.\<close>

fun getIP_loop :: "nat \<Rightarrow> service_answer list \<Rightarrow> ip_failure + ip" where
  "getIP_loop errs [] = Inl ContextDone"
| "getIP_loop errs (a # as) = (case getIPAddressPlain a of
      Some found \<Rightarrow> Inr found
    | None \<Rightarrow> if Suc errs = length getIPServicesPlain then Inl AllServicesFailed else getIP_loop (Suc errs) as)"

definition getIP :: "service_answer list \<Rightarrow> ip_failure + ip" where
  "getIP answers = getIP_loop 0 answers"

subsection \<open>DNS and public addresses\<close>

record sniCheckResult =
  ResolvedIP4 :: "string list"
  ResolvedIP6 :: "string list"
  OurIP4 :: string
  OurIP6 :: string

datatype sni_error = CannotResolve | NoKnownAddresses

text \<open>\<open>To4().String()\<close> of an address that is not an IPv4 address prints the nil address.\<close>

definition ip4_text :: "ip \<Rightarrow> string" where
  "ip4_text a = (case ip_To4 a of Some b \<Rightarrow> ip_String b | None \<Rightarrow> ip_String [])"

definition own_address :: "ip \<Rightarrow> ip_failure + ip \<Rightarrow> ip option" where
  "own_address configured asked = (case TypeIP_Get configured None of
       Some a \<Rightarrow> Some a
     | None \<Rightarrow> (case asked of Inl _ \<Rightarrow> None | Inr a \<Rightarrow> Some a))"

text \<open>\<open>lookup\<close> is the resolver, \<open>tcp4\<close> and \<open>tcp6\<close> what \<open>getIP\<close> says on the two protocols.\<close>

definition runSNICheck :: "config \<Rightarrow> (string \<Rightarrow> ip list option) \<Rightarrow> ip_failure + ip \<Rightarrow> ip_failure + ip \<Rightarrow> string \<Rightarrow> sni_error + sniCheckResult" where
  "runSNICheck conf lookup tcp4 tcp6 host = (case lookup host of
       None \<Rightarrow> Inl CannotResolve
     | Some addrs \<Rightarrow>
         if addrs = [] then Inl NoKnownAddresses
         else
           let r4 = map ip4_text (filter (\<lambda>a. ip_To4 a \<noteq> None) addrs);
               r6 = map (\<lambda>a. ip_String (ip_To16 a)) (filter (\<lambda>a. ip_To4 a = None) addrs)
           in Inr \<lparr>ResolvedIP4 = r4, ResolvedIP6 = r6,
                OurIP4 = (if r4 \<noteq> [] then (case own_address (c_PublicIPv4 conf) tcp4 of None \<Rightarrow> [] | Some a \<Rightarrow> ip4_text a) else []),
                OurIP6 = (if r6 \<noteq> [] then (case own_address (c_PublicIPv6 conf) tcp6 of None \<Rightarrow> [] | Some a \<Rightarrow> ip_String (ip_To16 a)) else [])\<rparr>)"

definition getFirstSecretHost :: "config \<Rightarrow> string" where
  "getFirstSecretHost conf =
     (let secrets = GetSecrets conf
      in case sort (gm_keys secrets) of [] \<Rightarrow> [] | n # _ \<Rightarrow> Host (gm_get0 empty_secret secrets n))"

definition checkSecretHost :: "config \<Rightarrow> (string \<Rightarrow> ip list option) \<Rightarrow> ip_failure + ip \<Rightarrow> ip_failure + ip \<Rightarrow> bool" where
  "checkSecretHost conf lookup tcp4 tcp6 = (case runSNICheck conf lookup tcp4 tcp6 (getFirstSecretHost conf) of
       Inl _ \<Rightarrow> False
     | Inr res \<Rightarrow>
         if OurIP4 res = [] \<and> OurIP6 res = [] then False
         else (ResolvedIP4 res = [] \<or> OurIP4 res \<in> set (ResolvedIP4 res)) \<and>
              (ResolvedIP6 res = [] \<or> OurIP6 res \<in> set (ResolvedIP6 res)))"

text \<open>The warnings of the start-up check, which looks at the single secret only.\<close>

datatype sni_warning = WarnCannotResolve | WarnNoPublicIP | WarnMismatch4 | WarnMismatch6

definition warnSNIMismatch ::
    "config \<Rightarrow> (string \<Rightarrow> ip list option) \<Rightarrow> ip_failure + ip \<Rightarrow> ip_failure + ip \<Rightarrow> sni_warning list" where
  "warnSNIMismatch conf lookup tcp4 tcp6 =
     (if Host (c_Secret conf) = [] then []
      else case runSNICheck conf lookup tcp4 tcp6 (Host (c_Secret conf)) of
        Inl _ \<Rightarrow> [WarnCannotResolve]
      | Inr res \<Rightarrow>
          if OurIP4 res = [] \<and> OurIP6 res = [] then [WarnNoPublicIP]
          else (if ResolvedIP4 res \<noteq> [] \<and> OurIP4 res \<notin> set (ResolvedIP4 res) then [WarnMismatch4] else []) @
               (if ResolvedIP6 res \<noteq> [] \<and> OurIP6 res \<notin> set (ResolvedIP6 res) then [WarnMismatch6] else []))"

subsection \<open>The doctor\<close>

definition checkDeprecatedConfig :: "config \<Rightarrow> bool" where
  "checkDeprecatedConfig conf \<longleftrightarrow> c_DomainFrontingIP conf = [] \<and> cf_IP (c_DomainFronting conf) = [] \<and> c_DomainFrontingPort conf = 0 \<and>
     \<not> c_DomainFrontingProxyProtocol conf \<and> cn_DOHIP (c_Network conf) = []"

text \<open>The ratio to the tolerance is compared in floating point; here exactly.\<close>

definition checkTimeSkewness :: "config \<Rightarrow> duration option \<Rightarrow> bool" where
  "checkTimeSkewness conf ntpOffset = (case ntpOffset of
       None \<Rightarrow> False
     | Some offset \<Rightarrow> min (2 ^ 63 - 1) \<bar>offset\<bar> * 10 < 3 * TypeDuration_Get (c_TolerateTimeSkewness conf) 3000000000)"

definition suitable_addresses :: "string \<Rightarrow> string list \<Rightarrow> string list option" where
  "suitable_addresses prefer addresses =
     (let wanted = (\<lambda>p addr. case splitHostPort addr of None \<Rightarrow> False
          | Some (host, _) \<Rightarrow> (case parseIP host of None \<Rightarrow> False | Some a \<Rightarrow> p (ip_To4 a)));
          malformed = (\<exists>addr \<in> set addresses. splitHostPort addr = None)
      in if prefer = ''only-ipv4'' then (if malformed then None else Some (filter (wanted (\<lambda>x. x \<noteq> None)) addresses))
         else if prefer = ''only-ipv6'' then (if malformed then None else Some (filter (wanted (\<lambda>x. x = None)) addresses))
         else Some addresses)"

datatype dc_error = NoSuitableAddresses | CannotConnect string | RpcFailed string probe_error | AddressPanic

text \<open>The loop over the addresses: \<open>probe addr\<close> is \<open>None\<close> when the connection cannot be opened, otherwise the outcome of
  the probe; every connection is closed after it.\<close>

fun probe_addresses :: "(string \<Rightarrow> (probe_error + unit) option) \<Rightarrow> dc_error \<Rightarrow> string list \<Rightarrow> dc_error option" where
  "probe_addresses probe lastErr [] = Some lastErr"
| "probe_addresses probe lastErr (addr # addrs) = (case probe addr of
      None \<Rightarrow> probe_addresses probe (CannotConnect addr) addrs
    | Some (Inl e) \<Rightarrow> probe_addresses probe (RpcFailed addr e) addrs
    | Some (Inr _) \<Rightarrow> None)"

definition checkNetworkAddresses :: "config \<Rightarrow> (string \<Rightarrow> (probe_error + unit) option) \<Rightarrow> string list \<Rightarrow> dc_error option" where
  "checkNetworkAddresses conf probe addresses = (case suitable_addresses (string_Get (c_PreferIP conf) ''prefer-ip4'') addresses of
       None \<Rightarrow> Some AddressPanic
     | Some addrs \<Rightarrow> if addrs = [] then Some NoSuitableAddresses else probe_addresses probe NoSuitableAddresses addrs)"

definition checkNetwork :: "config \<Rightarrow> (int \<Rightarrow> string \<Rightarrow> (probe_error + unit) option) \<Rightarrow> bool" where
  "checkNetwork conf probe = list_all (\<lambda>(dc, addresses). checkNetworkAddresses conf (probe dc) addresses = None) TelegramCoreAddresses"

text \<open>The address the fronting check dials, and its verdict from the two outcomes.\<close>

definition fronting_check_address :: "config \<Rightarrow> string" where
  "fronting_check_address conf =
     (let dialHost = (if GetDomainFrontingHost conf \<noteq> [] then GetDomainFrontingHost conf else getFirstSecretHost conf)
      in joinHostPort dialHost (itoa (int (GetDomainFrontingPort conf 443))))"

definition checkFrontingDomain :: "config \<Rightarrow> (string \<Rightarrow> bool) \<Rightarrow> (string \<Rightarrow> string \<Rightarrow> bool) \<Rightarrow> bool" where
  "checkFrontingDomain conf dial tls =
     (if \<not> dial (fronting_check_address conf) then False
      else if GetDomainFrontingProxyProtocol conf False then True
      else tls (fronting_check_address conf) (getFirstSecretHost conf))"

text \<open>What the doctor finds outside: the clock offset the NTP server reports, whether the resolver can be built, the
  outcomes of the probes through the plain network and through each proxy (\<open>None\<close> when the proxy network cannot be
  built), dialling and the TLS handshake with the fronting domain, and the answers of the name and address services.\<close>

record doctor_world =
  dw_ntpOffset :: "duration option"
  dw_resolver :: "url option \<Rightarrow> bool"
  dw_native :: "int \<Rightarrow> string \<Rightarrow> (probe_error + unit) option"
  dw_through :: "url \<Rightarrow> (int \<Rightarrow> string \<Rightarrow> (probe_error + unit) option) option"
  dw_dial :: "string \<Rightarrow> bool"
  dw_tls :: "string \<Rightarrow> string \<Rightarrow> bool"
  dw_lookup :: "string \<Rightarrow> ip list option"
  dw_tcp4 :: "service_answer list"
  dw_tcp6 :: "service_answer list"

datatype doctor_error = DoctorConfig read_error | DoctorResolver | DoctorProxy url

fun check_proxies :: "config \<Rightarrow> doctor_world \<Rightarrow> url list \<Rightarrow> bool \<Rightarrow> doctor_error + bool" where
  "check_proxies conf w [] ok = Inr ok"
| "check_proxies conf w (u # us) ok = (case dw_through w u of
      None \<Rightarrow> Inl (DoctorProxy u)
    | Some probe \<Rightarrow> check_proxies conf w us (checkNetwork conf probe \<and> ok))"

text \<open>The whole run: an error, or whether everything is in order; the process exits with status 1 when it is not.\<close>

definition Doctor_Run :: "config_env \<Rightarrow> tomlConfig option option \<Rightarrow> bool \<Rightarrow> doctor_world \<Rightarrow> doctor_error + bool" where
  "Doctor_Run ce content skipNativeCheck w = (case ReadConfig ce content of
       Inl e \<Rightarrow> Inl (DoctorConfig e)
     | Inr conf \<Rightarrow>
         let ok = checkDeprecatedConfig conf;
             ok = checkTimeSkewness conf (dw_ntpOffset w) \<and> ok
         in if \<not> dw_resolver w (GetDNS ce conf) then Inl DoctorResolver
            else
              let ok = (if skipNativeCheck then ok else checkNetwork conf (dw_native w) \<and> ok)
              in case check_proxies conf w (cn_Proxies (c_Network conf)) ok of
                Inl e \<Rightarrow> Inl e
              | Inr ok \<Rightarrow>
                  let ok = checkFrontingDomain conf (dw_dial w) (dw_tls w) \<and> ok
                  in Inr (checkSecretHost conf (dw_lookup w) (getIP (dw_tcp4 w)) (getIP (dw_tcp6 w)) \<and> ok))"

subsection \<open>What a probe promises\<close>

text \<open>The request as the data centre has to see it, and the answers that prove it is one.\<close>

definition resPQ_for :: "bytes \<Rightarrow> bytes \<Rightarrow> bool" where
  "resPQ_for nonce' p \<longleftrightarrow> 4 \<le> length p \<and> 40 \<le> unat (get_le32 (take 4 p)) \<and> unat (get_le32 (take 4 p)) \<le> 256 \<and>
     4 + unat (get_le32 (take 4 p)) \<le> length p \<and> get_le32 (part 24 4 p) = ctorResPQ \<and> part 28 16 p = nonce'"


lemma XORKeyStream_take: "fst (XORKeyStream c (take n p)) = take n (fst (XORKeyStream c p))"
  by (rule nth_equalityI) (simp_all add: XORKeyStream_nth)

lemma XORKeyStream_drop:
  assumes "length x = n" "n \<le> length p"
  shows "fst (XORKeyStream (snd (XORKeyStream c x)) (drop n p)) = drop n (fst (XORKeyStream c p))"
  using assms by (intro nth_equalityI) (simp_all add: XORKeyStream_nth, simp_all add: XORKeyStream_def ac_simps)

lemma generateMessageID_client: "generateMessageID nano AND 3 = 0"
  by (simp add: generateMessageID_def Let_def and.assoc)

lemma probe_frame_length: "length nonce' = 16 \<Longrightarrow> length (probe_frame nonce' msgID) = 44"
  by (simp add: probe_frame_def Let_def put_le64_def)

text \<open>The answer of the peer, seen through the key stream.\<close>

lemma Probe_answer:
  assumes "SendHandshake pr None g = (w, a)" "fst (obfConn_Write p b) = reply" "paired a b" "length nonce' = 16"
  shows "fst (Probe pr g nonce' msgID True True reply) = Inr () \<longleftrightarrow> resPQ_for nonce' p"
proof -
  define c where "c = recvCipher a"
  have reply: "reply = fst (XORKeyStream c p)"
    using assms(2,3) by (simp add: obfConn_Write_def paired_def c_def split: prod.splits)
  have len: "length reply = length p" by (simp add: reply)
  have head: "fst (XORKeyStream c (take 4 reply)) = take 4 p"
    by (simp add: XORKeyStream_take reply XORKeyStream_twice)
  have tail: "fst (XORKeyStream (snd (XORKeyStream c (take 4 reply))) (take n (drop 4 reply))) = take n (drop 4 p)"
    if "4 \<le> length p" for n
    using that by (simp add: XORKeyStream_take XORKeyStream_drop len) (simp add: reply XORKeyStream_twice)
  have slice: "take k (drop j (take n (drop 4 p))) = part (4 + j) k p" if "j + k \<le> n" for k j n :: nat
    using that by (simp add: Obfuscation.part_def drop_take min_absorb1 add.commute)
  have wrote: "recvCipher (snd (obfConn_Write (probe_frame nonce' msgID) a)) = c"
    by (simp add: obfConn_Write_def c_def case_prod_beta)
  define n where "n = unat (get_le32 (take 4 p))"
  have "fst (Probe pr g nonce' msgID True True reply) = Inr () \<longleftrightarrow>
      4 \<le> length p \<and> 40 \<le> n \<and> n \<le> 256 \<and> n \<le> length p - 4 \<and>
      get_le32 (take 4 (drop 20 (take n (drop 4 p)))) = ctorResPQ \<and> take 16 (drop 24 (take n (drop 4 p))) = nonce'"
    by (simp add: Probe_def assms(1) case_prod_beta wrote read_full_def obfConn_Read_def minResPQFrame_def
          maxResPQFrame_def Let_def len head tail n_def [symmetric])
  also have "\<dots> \<longleftrightarrow> resPQ_for nonce' p"
    using slice [of 20 4 n] slice [of 24 16 n] by (auto simp: resPQ_for_def n_def [symmetric])
  finally show ?thesis .
qed

subsection \<open>Addresses and names\<close>

lemma probe_addresses_None: "probe_addresses probe e addrs = None \<longleftrightarrow> (\<exists>a \<in> set addrs. probe a = Some (Inr ()))"
  by (induction addrs arbitrary: e) (auto split: option.splits sum.splits)

lemma checkNetworkAddresses_None:
  "checkNetworkAddresses conf probe addresses = None \<longleftrightarrow>
     (\<exists>addrs. suitable_addresses (string_Get (c_PreferIP conf) ''prefer-ip4'') addresses = Some addrs \<and>
       (\<exists>a \<in> set addrs. probe a = Some (Inr ())))"
  by (auto simp: checkNetworkAddresses_def probe_addresses_None split: option.splits)

text \<open>The first address any service reports wins; an error needs the failure of all four of them or the timeout.\<close>

lemma getIP_loop_first:
  "errs + length answers \<le> length getIPServicesPlain \<Longrightarrow>
     getIP_loop errs answers = (case List.map_filter getIPAddressPlain answers of
         a # _ \<Rightarrow> Inr a
       | [] \<Rightarrow> Inl (if answers \<noteq> [] \<and> errs + length answers = length getIPServicesPlain then AllServicesFailed else ContextDone))"
proof (induction answers arbitrary: errs)
  case (Cons x xs)
  show ?case
  proof (cases "xs = []")
    case True
    then show ?thesis using Cons.prems by (auto simp: map_filter_simps split: option.splits)
  next
    case False
    then have "Suc errs < length getIPServicesPlain" using Cons.prems by (cases xs) auto
    then show ?thesis using Cons False by (auto simp: map_filter_simps split: option.splits)
  qed
qed (simp add: map_filter_simps)

lemma getIP_first:
  "length answers \<le> 4 \<Longrightarrow> getIP answers = (case List.map_filter getIPAddressPlain answers of
       a # _ \<Rightarrow> Inr a | [] \<Rightarrow> Inl (if length answers = 4 then AllServicesFailed else ContextDone))"
  using getIP_loop_first [of 0 answers] by (auto simp: getIP_def getIPServicesPlain_def split: list.splits)

lemma join_with_nonempty: "parts \<noteq> [] \<Longrightarrow> hd parts \<noteq> [] \<Longrightarrow> join_with sep parts \<noteq> []"
  by (cases parts) (simp_all add: join_with_def)

lemma hex_digits_nonempty: "hex_digits n \<noteq> []"
  by (subst hex_digits.simps) simp

lemma ip_String_nonempty: "ip_String a \<noteq> []"
proof (cases "ip_To4 a")
  case (Some b)
  then have "b \<noteq> []" by (auto simp: ip_To4_def split: if_splits)
  then show ?thesis using Some by (simp add: ip_String_def join_with_nonempty hd_map itoa_nonempty)
next
  case None
  have "ip_groups a \<noteq> []" by (simp add: ip_groups_def)
  then have "join_with '':'' (map hex_digits (ip_groups a)) \<noteq> []"
    by (simp add: join_with_nonempty hd_map hex_digits_nonempty)
  then show ?thesis using None by (auto simp: ip_String_def Let_def split: option.splits)
qed

lemma ip4_text_nonempty: "ip4_text a \<noteq> []"
  by (simp add: ip4_text_def ip_String_nonempty split: option.splits)

text \<open>The name check, in terms of addresses: the host has addresses, and for each family it has addresses of, the own
  address of this family is known and is one of them.\<close>

definition points_here :: "config \<Rightarrow> ip list \<Rightarrow> ip_failure + ip \<Rightarrow> ip_failure + ip \<Rightarrow> bool" where
  "points_here conf addrs tcp4 tcp6 \<longleftrightarrow> addrs \<noteq> [] \<and>
     ((\<exists>a \<in> set addrs. ip_To4 a \<noteq> None) \<longrightarrow>
        (\<exists>own. own_address (c_PublicIPv4 conf) tcp4 = Some own \<and> (\<exists>a \<in> set addrs. ip_To4 a \<noteq> None \<and> ip4_text a = ip4_text own))) \<and>
     ((\<exists>a \<in> set addrs. ip_To4 a = None) \<longrightarrow>
        (\<exists>own. own_address (c_PublicIPv6 conf) tcp6 = Some own \<and>
           (\<exists>a \<in> set addrs. ip_To4 a = None \<and> ip_String (ip_To16 a) = ip_String (ip_To16 own))))"

lemma checkSecretHost_exact:
  "checkSecretHost conf lookup tcp4 tcp6 \<longleftrightarrow>
     (\<exists>addrs. lookup (getFirstSecretHost conf) = Some addrs \<and> points_here conf addrs tcp4 tcp6)"
proof (cases "lookup (getFirstSecretHost conf)")
  case (Some addrs)
  note texts = ip4_text_nonempty ip4_text_nonempty [symmetric] ip_String_nonempty ip_String_nonempty [symmetric]
  show ?thesis
    using Some
    by (cases "own_address (c_PublicIPv4 conf) tcp4"; cases "own_address (c_PublicIPv6 conf) tcp6")
       (auto simp: checkSecretHost_def runSNICheck_def points_here_def Let_def filter_empty_conv image_iff texts ex_in_conv)
qed (simp add: checkSecretHost_def runSNICheck_def)

lemma sni_checks_agree:
  assumes "c_Secrets conf = []" "Host (c_Secret conf) \<noteq> []"
  shows "warnSNIMismatch conf lookup tcp4 tcp6 = [] \<longleftrightarrow> checkSecretHost conf lookup tcp4 tcp6"
proof -
  have "getFirstSecretHost conf = Host (c_Secret conf)"
    using assms(1) by (simp add: getFirstSecretHost_def GetSecrets_def gm_get0_def)
  then show ?thesis using assms(2) by (simp add: warnSNIMismatch_def checkSecretHost_def split: sum.splits)
qed

text \<open>A clean bill of health: the configuration loads, nothing of it is deprecated, the clock is right, every data centre
  answers at a suitable address on the plain network (unless skipped) and through every proxy, the fronting domain can be
  dialled and the name of the first secret points to this machine.\<close>

lemma check_proxies_True:
  "check_proxies conf w us ok = Inr True \<longleftrightarrow> ok \<and> (\<forall>u \<in> set us. \<exists>probe. dw_through w u = Some probe \<and> checkNetwork conf probe)"
  by (induction us arbitrary: ok) (auto split: option.splits)

lemma doctor_clean_bill:
  "Doctor_Run ce content skip w = Inr True \<longleftrightarrow>
     (\<exists>conf addrs. ReadConfig ce content = Inr conf \<and> checkDeprecatedConfig conf \<and> checkTimeSkewness conf (dw_ntpOffset w) \<and>
        dw_resolver w (GetDNS ce conf) \<and> (skip \<or> checkNetwork conf (dw_native w)) \<and>
        (\<forall>u \<in> set (cn_Proxies (c_Network conf)). \<exists>probe. dw_through w u = Some probe \<and> checkNetwork conf probe) \<and>
        checkFrontingDomain conf (dw_dial w) (dw_tls w) \<and>
        dw_lookup w (getFirstSecretHost conf) = Some addrs \<and> points_here conf addrs (getIP (dw_tcp4 w)) (getIP (dw_tcp6 w)))"
proof (cases "ReadConfig ce content")
  case (Inr conf)
  have "Doctor_Run ce content skip w = Inr True \<longleftrightarrow>
      dw_resolver w (GetDNS ce conf) \<and>
      check_proxies conf w (cn_Proxies (c_Network conf))
        ((skip \<or> checkNetwork conf (dw_native w)) \<and> checkTimeSkewness conf (dw_ntpOffset w) \<and> checkDeprecatedConfig conf) = Inr True \<and>
      checkFrontingDomain conf (dw_dial w) (dw_tls w) \<and>
      checkSecretHost conf (dw_lookup w) (getIP (dw_tcp4 w)) (getIP (dw_tcp6 w))"
    by (auto simp: Doctor_Run_def Inr Let_def split: sum.splits)
  then show ?thesis by (auto simp: Inr check_proxies_True checkSecretHost_exact)
qed (simp add: Doctor_Run_def)

subsection \<open>The probe against a data centre\<close>

text \<open>C35. The probe of a data centre. For every supply of random frames with an acceptable one, what the probe writes is
  read by a data centre as a handshake for the probed centre, followed by one padded-intermediate frame whose payload is an
  unencrypted \<open>req_pq_multi\<close> with the nonce and a client message identifier. Whatever the peer answers through the
  transport, the probe succeeds exactly when the answer is a frame of 40 to 256 bytes that carries \<open>resPQ\<close> and the nonce.\<close>

theorem probe_exact:
  assumes "list_all (\<lambda>d. length d = 64) draws" "\<exists>d \<in> set draws. acceptable d" "- 32768 \<le> dc" "dc < 32768"
    and "length nonce' = 16"
  shows "\<exists>g b sealed. generateHandshake draws dc = Some g \<and>
    (\<forall>reply. ReadHandshake pr None (snd (Probe pr g nonce' (generateMessageID nano) True True reply)) =
       (Inr (if dc = 0 then defaultDC else dc, b), sealed)) \<and>
    fst (obfConn_Read sealed False b) = probe_frame nonce' (generateMessageID nano) \<and>
    generateMessageID nano AND 3 = 0 \<and>
    (\<forall>p. fst (Probe pr g nonce' (generateMessageID nano) True True (fst (obfConn_Write p b))) = Inr () \<longleftrightarrow> resPQ_for nonce' p)"
proof -
  let ?id = "generateMessageID nano"
  obtain g where g: "generateHandshake draws dc = Some g" using generateHandshake_total [OF assms(2)] by blast
  note props = generateHandshake_props [OF g assms(1)]
  obtain w a where w: "SendHandshake pr None g = (w, a)" by fastforce
  define sealed where "sealed = fst (obfConn_Write (probe_frame nonce' ?id) a)"
  have sent: "snd (Probe pr g nonce' ?id True True reply) = w @ sealed" for reply
    by (simp add: Probe_def w sealed_def case_prod_beta Let_def)
  obtain b where b: "ReadHandshake pr None (w @ sealed) = (Inr (frame_dc g, b), sealed)" "paired a b"
    using handshake_agree [OF _ _ w] props by blast
  have "fst (obfConn_Read sealed False b) = probe_frame nonce' ?id"
    using b(2) by (simp add: sealed_def obfConn_Read_def obfConn_Write_def paired_def case_prod_beta XORKeyStream_twice)
  moreover have "frame_dc g = (if dc = 0 then defaultDC else dc)" using frame_dc_put props assms(3,4) by blast
  moreover have "\<forall>p. fst (Probe pr g nonce' ?id True True (fst (obfConn_Write p b))) = Inr () \<longleftrightarrow> resPQ_for nonce' p"
    using Probe_answer [OF w refl b(2) assms(5)] by blast
  ultimately show ?thesis
    using g b(1) by (intro exI [of _ g] exI [of _ b] exI [of _ sealed]) (simp add: sent generateMessageID_client)
qed

theorem probe_exact_witness:
  "\<exists>g b sealed. generateHandshake [replicate 64 1] 2 = Some g \<and>
    (\<forall>reply. ReadHandshake sample_primitives None (snd (Probe sample_primitives g (replicate 16 7) (generateMessageID 5) True True reply)) =
       (Inr (2, b), sealed)) \<and>
    fst (obfConn_Read sealed False b) = probe_frame (replicate 16 7) (generateMessageID 5) \<and>
    generateMessageID 5 AND 3 = 0 \<and>
    (\<forall>p. fst (Probe sample_primitives g (replicate 16 7) (generateMessageID 5) True True (fst (obfConn_Write p b))) = Inr () \<longleftrightarrow>
       resPQ_for (replicate 16 7) p)"
  using probe_exact [of "[replicate 64 1]" 2 "replicate 16 7" sample_primitives 5]
  by (simp add: acceptable_def forbidden_words_def get_le32_def)

end
