(* ===== verification/Access.thy ===== *)
theory Access
  imports Config Doctor
begin

text \<open>
  The links of \<open>internal/cli/access.go\<close>: which secret they carry, the addresses and port they name, their encoding as URLs
  and the QR code links of \<open>internal/utils/make_qr_code_url.go\<close>. The lemmas show that the query of a link is read back as
  it was written and that the secret in it opens the proxy.
\<close>

subsection \<open>Queries\<close>

definition upperHex :: "nat \<Rightarrow> char" where "upperHex n = ''0123456789ABCDEF'' ! n"

text \<open>\<open>url.QueryEscape\<close>.\<close>

definition unreserved :: "char \<Rightarrow> bool" where
  "unreserved c \<longleftrightarrow> (let n = of_char c :: nat in
     48 \<le> n \<and> n \<le> 57 \<or> 65 \<le> n \<and> n \<le> 90 \<or> 97 \<le> n \<and> n \<le> 122) \<or> c \<in> set ''-_.~''"

definition escape_char :: "char \<Rightarrow> string" where
  "escape_char c =
     (if unreserved c then [c]
      else if c = CHR '' '' then ''+''
      else [CHR ''%'', upperHex (of_char c div 16), upperHex (of_char c mod 16)])"

definition queryEscape :: "string \<Rightarrow> string" where
  "queryEscape s = concat (map escape_char s)"

text \<open>\<open>url.Values.Encode\<close> of single values: sorted by key.\<close>

definition values_Encode :: "(string \<times> string) list \<Rightarrow> string" where
  "values_Encode vs = join_with ''&'' (map (\<lambda>(k, v). queryEscape k @ ''='' @ queryEscape v) (sort_key fst vs))"

subsection \<open>Links\<close>

definition MakeQRCodeURL :: "string \<Rightarrow> string" where
  "MakeQRCodeURL data = ''https://api.qrserver.com/v1/create-qr-code?'' @
     values_Encode [(''qzone'', ''4''), (''format'', ''svg''), (''data'', data)]"

record accessResponseURLs =
  au_IP :: ip
  au_Port :: nat
  TgURL :: string
  TgQrCode :: string
  TmeURL :: string
  TmeQrCode :: string

definition first_secret :: "config \<Rightarrow> secret" where
  "first_secret conf =
     (let secrets = GetSecrets conf; names = sort (gm_keys secrets)
      in case names of [] \<Rightarrow> empty_secret | name # _ \<Rightarrow> gm_get0 empty_secret secrets name)"

text \<open>The flags: the port (0 when absent) and whether the secret is printed in hex.\<close>

definition makeURLs :: "nat \<Rightarrow> bool \<Rightarrow> config \<Rightarrow> ip \<Rightarrow> accessResponseURLs option" where
  "makeURLs port hex conf a =
     (if a = [] then None
      else
        let portNo = (if port = 0 then GetFirstBindPort conf else port);
            firstSecret = first_secret conf;
            urlQuery = values_Encode [(''server'', ip_String a), (''port'', itoa (i64 (int portNo))),
              (''secret'', if hex then secret_Hex firstSecret else secret_Base64 firstSecret)];
            tg = ''tg://proxy?'' @ urlQuery;
            tme = ''https://t.me/proxy?'' @ urlQuery
        in Some \<lparr>au_IP = a, au_Port = portNo, TgURL = tg, TgQrCode = MakeQRCodeURL tg, TmeURL = tme, TmeQrCode = MakeQRCodeURL tme\<rparr>)"

record accessResponseSecret =
  as_Hex :: string
  as_Base64 :: string

record accessResponse =
  ar_IPv4 :: "accessResponseURLs option"
  ar_IPv6 :: "accessResponseURLs option"
  ar_Secret :: accessResponseSecret
  ar_Secrets :: "(string, accessResponseSecret) gomap"

definition printed_secret :: "secret \<Rightarrow> accessResponseSecret" where
  "printed_secret s = \<lparr>as_Hex = secret_Hex s, as_Base64 = secret_Base64 s\<rparr>"

text \<open>\<open>Run\<close> after the configuration is read and the network is built: the flags for the addresses (empty when absent) come
  before the configuration, and that before the answers of the services.\<close>

definition Access_Run :: "ip \<Rightarrow> ip \<Rightarrow> nat \<Rightarrow> bool \<Rightarrow> config \<Rightarrow> ip_failure + ip \<Rightarrow> ip_failure + ip \<Rightarrow> accessResponse" where
  "Access_Run flag4 flag6 port hex conf tcp4 tcp6 =
     (let secrets = GetSecrets conf;
          address = (\<lambda>flag configured asked. if flag \<noteq> [] then Some flag else own_address configured asked)
      in \<lparr>ar_IPv4 = (case address flag4 (c_PublicIPv4 conf) tcp4 of
              None \<Rightarrow> None
            | Some a \<Rightarrow> makeURLs port hex conf (case ip_To4 a of None \<Rightarrow> [] | Some b \<Rightarrow> b)),
          ar_IPv6 = (case address flag6 (c_PublicIPv6 conf) tcp6 of
              None \<Rightarrow> None
            | Some a \<Rightarrow> makeURLs port hex conf (ip_To16 a)),
          ar_Secret = (if secrets = [] then \<lparr>as_Hex = [], as_Base64 = []\<rparr> else printed_secret (first_secret conf)),
          ar_Secrets = (if length secrets > 1 then map (\<lambda>(name, s). (name, printed_secret s)) secrets else [])\<rparr>)"

subsection \<open>Reading a query back\<close>

text \<open>How the receiver of a link reads its query.\<close>

fun queryUnescape :: "string \<Rightarrow> string option" where
  "queryUnescape [] = Some []"
| "queryUnescape (c # s) =
     (if c = CHR ''%'' then
        (case s of a # b # s' \<Rightarrow>
           (case (fromHexChar a, fromHexChar b) of
              (Some x, Some y) \<Rightarrow> map_option ((#) (char_of (16 * x + y))) (queryUnescape s')
            | _ \<Rightarrow> None)
         | _ \<Rightarrow> None)
      else map_option ((#) (if c = CHR ''+'' then CHR '' '' else c)) (queryUnescape s))"

definition parse_pair :: "string \<Rightarrow> (string \<times> string) option" where
  "parse_pair s = (case (queryUnescape (takeWhile (\<lambda>c. c \<noteq> CHR ''='') s), queryUnescape (drop 1 (dropWhile (\<lambda>c. c \<noteq> CHR ''='') s))) of
       (Some k, Some v) \<Rightarrow> Some (k, v)
     | _ \<Rightarrow> None)"

definition parseQuery :: "string \<Rightarrow> (string \<times> string) option list" where
  "parseQuery q = map parse_pair (split_on (CHR ''&'') q)"

lemma fromHexChar_upperHex: "n < 16 \<Longrightarrow> fromHexChar (upperHex n) = Some n"
proof -
  have "list_all (\<lambda>n. fromHexChar (upperHex n) = Some n) [0..<16]" by code_simp
  then show "n < 16 \<Longrightarrow> fromHexChar (upperHex n) = Some n" by (simp add: list_all_iff)
qed

lemma unreserved_not: "unreserved c \<Longrightarrow> c \<noteq> CHR ''%'' \<and> c \<noteq> CHR ''+'' \<and> c \<noteq> CHR ''&'' \<and> c \<noteq> CHR ''=''"
  by (auto simp: unreserved_def)

lemma queryUnescape_escape: "queryUnescape (escape_char c @ s) = map_option ((#) c) (queryUnescape s)"
proof -
  have "of_char c < (256::nat)" by simp
  then have "of_char c div 16 < (16::nat)" by (simp add: less_mult_imp_div_less)
  moreover have "char_of (16 * (of_char c div 16) + of_char c mod 16 :: nat) = c" by (simp del: of_nat_of_char)
  ultimately show ?thesis
    using unreserved_not [of c] by (auto simp: escape_char_def fromHexChar_upperHex)
qed

lemma queryUnescape_queryEscape: "queryUnescape (queryEscape s) = Some s"
  by (induction s) (simp_all add: queryEscape_def queryUnescape_escape del: queryUnescape.simps(2))

lemma queryEscape_no_separator: "CHR ''&'' \<notin> set (queryEscape s)" "CHR ''='' \<notin> set (queryEscape s)"
proof -
  have "upperHex n \<in> set ''0123456789ABCDEF''" if "n < 16" for n
    using that nth_mem [of n "''0123456789ABCDEF''"] by (simp add: upperHex_def)
  then have hex: "upperHex n \<noteq> CHR ''&''" "upperHex n \<noteq> CHR ''=''" if "n < 16" for n using that by force+
  have "of_char c div 16 < (16::nat)" for c by (rule less_mult_imp_div_less) simp
  then have "CHR ''&'' \<notin> set (escape_char c) \<and> CHR ''='' \<notin> set (escape_char c)" for c
    using unreserved_not [of c] hex [of "of_char c div 16"] hex [of "of_char c mod 16"] by (auto simp: escape_char_def)
  then show "CHR ''&'' \<notin> set (queryEscape s)" "CHR ''='' \<notin> set (queryEscape s)" by (auto simp: queryEscape_def)
qed

lemma parse_pair_Encode: "parse_pair (queryEscape k @ CHR ''='' # queryEscape v) = Some (k, v)"
proof -
  have "takeWhile (\<lambda>c. c \<noteq> CHR ''='') (queryEscape k @ ''='' @ queryEscape v) = queryEscape k"
    "dropWhile (\<lambda>c. c \<noteq> CHR ''='') (queryEscape k @ ''='' @ queryEscape v) = ''='' @ queryEscape v"
    using queryEscape_no_separator(2) [of k] by (auto simp: takeWhile_append dropWhile_append)
  then show ?thesis by (simp add: parse_pair_def queryUnescape_queryEscape)
qed

lemma split_on_whole: "c \<notin> set l \<Longrightarrow> split_on c l = [l]"
  by (induction l) auto

lemma split_on_join: "parts \<noteq> [] \<Longrightarrow> \<forall>p \<in> set parts. c \<notin> set p \<Longrightarrow> split_on c (join_with [c] parts) = parts"
proof (induction parts rule: induct_list012)
  case (3 p q ps)
  then show ?case using split_on_line [of c p "join_with [c] (q # ps)"] by (simp add: join_with_def)
qed (simp_all add: join_with_def split_on_whole)

text \<open>A query is read back as the sorted values it was made of.\<close>

lemma parseQuery_Encode: "vs \<noteq> [] \<Longrightarrow> parseQuery (values_Encode vs) = map Some (sort_key fst vs)"
proof -
  assume "vs \<noteq> []"
  then have "sort_key fst vs \<noteq> []" by (metis length_0_conv length_sort)
  then have "split_on (CHR ''&'') (values_Encode vs) = map (\<lambda>(k, v). queryEscape k @ ''='' @ queryEscape v) (sort_key fst vs)"
    unfolding values_Encode_def by (intro split_on_join) (use queryEscape_no_separator(1) in auto)
  then show ?thesis by (simp add: parseQuery_def parse_pair_Encode case_prod_beta comp_def)
qed

subsection \<open>The secret of a link\<close>

lemma gm_get0_keys: "k \<in> set (gm_keys m) \<Longrightarrow> (k, gm_get0 z m k) \<in> set m"
  by (auto simp: gm_get0_def dest: map_of_SomeD weak_map_of_SomeI split: option.splits)

lemma first_secret_least:
  "\<exists>n. (n, first_secret conf) \<in> set (GetSecrets conf) \<and> (\<forall>(m, _) \<in> set (GetSecrets conf). n \<le> m)"
proof -
  define names where "names = sort (gm_keys (GetSecrets conf))"
  have set: "set names = fst ` set (GetSecrets conf)" and "sorted names" by (simp_all add: names_def)
  moreover have "set (GetSecrets conf) \<noteq> {}" by (simp add: GetSecrets_def)
  ultimately obtain n ns where names: "names = n # ns" by (cases names) auto
  have least: "n \<le> m" if "(m, x) \<in> set (GetSecrets conf)" for m x
    using \<open>sorted names\<close> names set that by (metis (no_types, lifting) fst_conv image_eqI set_ConsD sorted_simps(2) order_refl)
  have "n \<in> set (gm_keys (GetSecrets conf))" using set names by (metis list.set_intros(1) list.set_map)
  then have "(n, first_secret conf) \<in> set (GetSecrets conf)"
    using names gm_get0_keys by (simp add: first_secret_def names_def [symmetric])
  then show ?thesis using least by blast
qed

lemma GetSecrets_valid: "Validate conf = None \<Longrightarrow> (n, s) \<in> set (GetSecrets conf) \<Longrightarrow> secret_Valid s"
  by (auto simp: Validate_None)

text \<open>C36. The links of \<open>access\<close>. For a valid configuration and an address, both links carry the same query; read back, it
  names the port (the flag, or the port of the first listener), the address and a secret, and parsing that secret, in hex or
  base64, gives the secret with the smallest name, which is one the proxy serves. The QR code link reads back to the link.\<close>

theorem access_link_roundtrip:
  assumes "Validate conf = None" "\<forall>(n, s) \<in> set (GetSecrets conf). wf_secret s" "a \<noteq> []"
  shows "\<exists>u q t n s. makeURLs port hex conf a = Some u \<and> TgURL u = ''tg://proxy?'' @ q \<and> TmeURL u = ''https://t.me/proxy?'' @ q \<and>
    parseQuery q = map Some [(''port'', itoa (i64 (int (if port = 0 then GetFirstBindPort conf else port)))), (''secret'', t), (''server'', ip_String a)] \<and>
    ParseSecret t = (s, None) \<and> (n, s) \<in> set (GetSecrets conf) \<and> (\<forall>(m, _) \<in> set (GetSecrets conf). n \<le> m) \<and>
    (\<exists>p. TgQrCode u = ''https://api.qrserver.com/v1/create-qr-code?'' @ p \<and> Some (''data'', TgURL u) \<in> set (parseQuery p))"
proof -
  define s where "s = first_secret conf"
  define t where "t = (if hex then secret_Hex s else secret_Base64 s)"
  define p where "p = itoa (i64 (int (if port = 0 then GetFirstBindPort conf else port)))"
  define q where "q = values_Encode [(''server'', ip_String a), (''port'', p), (''secret'', t)]"
  obtain n where n: "(n, s) \<in> set (GetSecrets conf)" "\<forall>(m, _) \<in> set (GetSecrets conf). n \<le> m"
    using first_secret_least s_def by blast
  then have "wf_secret s" "Host s \<noteq> []" using assms(2) GetSecrets_valid [OF assms(1)] by (auto simp: secret_Valid_def)
  then have secret: "ParseSecret t = (s, None)" using ParseSecret_roundtrip by (simp add: t_def)
  have query: "parseQuery q = map Some [(''port'', p), (''secret'', t), (''server'', ip_String a)]"
    unfolding q_def by (subst parseQuery_Encode) simp_all
  have qr: "Some (''data'', d) \<in> set (parseQuery (values_Encode [(''qzone'', ''4''), (''format'', ''svg''), (''data'', d)]))" for d
    by (subst parseQuery_Encode) simp_all
  obtain u where "makeURLs port hex conf a = Some u" "TgURL u = ''tg://proxy?'' @ q" "TmeURL u = ''https://t.me/proxy?'' @ q"
      "TgQrCode u = MakeQRCodeURL (TgURL u)"
    using assms(3) unfolding makeURLs_def q_def p_def t_def s_def by (simp add: Let_def)
  then show ?thesis using n secret query qr unfolding MakeQRCodeURL_def p_def by blast
qed

theorem access_link_roundtrip_witness:
  "\<exists>conf u q t n s. ReadConfig sample_env (Some (Some sample_toml)) = Inr conf \<and>
    makeURLs 0 True conf [1, 2, 3, 4] = Some u \<and> TgURL u = ''tg://proxy?'' @ q \<and>
    (\<exists>p. parseQuery q = map Some [(''port'', p), (''secret'', t), (''server'', ip_String [1, 2, 3, 4])]) \<and>
    ParseSecret t = (s, None) \<and> (n, s) \<in> set (GetSecrets conf)"
proof -
  have "case ReadConfig sample_env (Some (Some sample_toml)) of
      Inl _ \<Rightarrow> False | Inr conf \<Rightarrow> Validate conf = None \<and> (\<forall>(n, s) \<in> set (GetSecrets conf). wf_secret s)" by code_simp
  then obtain conf where conf: "ReadConfig sample_env (Some (Some sample_toml)) = Inr conf" "Validate conf = None"
      "\<forall>(n, s) \<in> set (GetSecrets conf). wf_secret s"
    by (auto split: sum.splits)
  then show ?thesis using access_link_roundtrip [OF conf(2,3), of "[1, 2, 3, 4]" 0 True] by blast
qed

end
