(* ===== verification/Startup.thy ===== *)
theory Startup
  imports Blocklist Config Listeners
begin

text \<open>
  The start of the process, \<open>runProxy\<close> of \<open>internal/cli/run_proxy.go\<close>: the exporters, the resolver (\<open>network/v2/dns.go\<close>) and
  the network stack, the anti-replay cache, the address lists and the listeners, in the order of the code and with the
  errors of each part. The lemmas show which settings can still fail after a configuration was read and what a failed
  start leaves open.
\<close>

subsection \<open>Name resolution\<close>

text \<open>\<open>URL.Hostname\<close> and \<open>URL.Port\<close> of a host: the port are the digits after the last colon, brackets are dropped.\<close>

definition strip_brackets :: "string \<Rightarrow> string" where
  "strip_brackets h = (if hasPrefix h ''['' \<and> h \<noteq> [] \<and> last h = CHR '']'' then butlast (tl h) else h)"

definition host_split :: "string \<Rightarrow> string \<times> string" where
  "host_split h = (case split_last (CHR '':'') h of
       None \<Rightarrow> (strip_brackets h, [])
     | Some (a, p) \<Rightarrow>
         if list_all (\<lambda>c. CHR ''0'' \<le> c \<and> c \<le> CHR ''9'') p then (strip_brackets a, p) else (strip_brackets h, []))"

datatype dns_setup = SystemDNS | DoTDNS string | DoHDNS url | PlainDNS string | UnsupportedDNS url

definition network_GetDNS :: "url option \<Rightarrow> dns_setup" where
  "network_GetDNS setting = (case setting of
       None \<Rightarrow> SystemDNS
     | Some u \<Rightarrow>
         let u = (if url_Scheme u = [] then u\<lparr>url_Scheme := ''udp''\<rparr> else u);
             u = (if url_Scheme u = ''udp'' \<and> url_Host u = [] then u\<lparr>url_Host := url_Path u, url_Path := []\<rparr> else u)
         in if url_Scheme u = ''tls'' then DoTDNS (url_Host u)
            else if url_Scheme u = ''https'' then DoHDNS (if url_Path u = [] then u\<lparr>url_Path := ''/dns-query''\<rparr> else u)
            else if url_Scheme u \<noteq> ''udp'' then UnsupportedDNS u
            else let (hostname, port) = host_split (url_Host u)
                 in PlainDNS (joinHostPort hostname (if port = [] then ''53'' else port)))"

subsection \<open>The parts\<close>

text \<open>What the start finds outside: whether the resolver libraries and the SOCKS library accept their settings, which
  addresses the scrape page and then the proxy can listen on, and what \<open>os.Stat\<close> and \<open>url.Parse\<close> say of the files of the lists.\<close>

record startup_world =
  sw_resolver :: "dns_setup \<Rightarrow> bool"
  sw_socks :: "url \<Rightarrow> bool"
  sw_scrapeListens :: "string \<Rightarrow> bool"
  sw_listens :: "string \<Rightarrow> bool"
  sw_stat :: "string \<Rightarrow> stat_result"
  sw_urlParse :: "string \<Rightarrow> url option"

datatype start_error =
    CannotCreateDNS
  | CannotUseProxy url
  | UnknownStatsdTagFormat string
  | CannotListenPrometheus string
  | CannotBuildBlocklist string
  | CannotBuildAllowlist string
  | StartPanic string
  | CannotCreateProxy new_error
  | CannotStartOn string "string list"

datatype net_stack = BaseNetwork | ProxyNetwork url | JoinedNetwork "url list"

definition makeNetwork :: "startup_world \<Rightarrow> config_env \<Rightarrow> config \<Rightarrow> start_error + net_stack" where
  "makeNetwork w ce conf =
     (let dns = network_GetDNS (GetDNS ce conf)
      in if (case dns of UnsupportedDNS _ \<Rightarrow> True | _ \<Rightarrow> \<not> sw_resolver w dns) then Inl CannotCreateDNS
         else case find (\<lambda>u. \<not> sw_socks w u) (cn_Proxies (c_Network conf)) of
           Some u \<Rightarrow> Inl (CannotUseProxy u)
         | None \<Rightarrow> Inr (case cn_Proxies (c_Network conf) of [] \<Rightarrow> BaseNetwork | [u] \<Rightarrow> ProxyNetwork u | us \<Rightarrow> JoinedNetwork us))"

text \<open>The cache of seen hellos is described by the parameters of its filter, the number of bits (a \<open>uint\<close>) and the error rate.
  The default rate is 0.001 as the nearest \<open>float64\<close>.\<close>

datatype replay_cache = NoopCache | StableBloomFilter int float64

definition DefaultStableBloomFilterMaxSize :: int where
  "DefaultStableBloomFilterMaxSize = 1024 * 1024"

definition DefaultStableBloomFilterErrorRate :: float64 where
  "DefaultStableBloomFilterErrorRate = (1152921504606847, - 60)"

definition NewStableBloomFilter :: "int \<Rightarrow> float64 \<Rightarrow> replay_cache" where
  "NewStableBloomFilter byteSize errorRate =
     (let byteSize = (if byteSize = 0 then DefaultStableBloomFilterMaxSize else byteSize);
          errorRate = (if fst errorRate < 0 then DefaultStableBloomFilterErrorRate else errorRate)
      in StableBloomFilter (byteSize * 8 mod 2 ^ 64) errorRate)"

text \<open>\<open>testAndAdd\<close> is the third-party filter on its state.\<close>

definition SeenBefore :: "('f \<Rightarrow> bytes \<Rightarrow> bool \<times> 'f) \<Rightarrow> replay_cache \<Rightarrow> bytes \<Rightarrow> 'f \<Rightarrow> bool \<times> 'f" where
  "SeenBefore testAndAdd cache digest f = (case cache of NoopCache \<Rightarrow> (False, f) | StableBloomFilter _ _ \<Rightarrow> testAndAdd f digest)"

definition makeAntiReplayCache :: "config \<Rightarrow> replay_cache" where
  "makeAntiReplayCache conf =
     (if \<not> TypeBool_Get (cd_AntiReplay (c_Defense conf)) False then NoopCache
      else NewStableBloomFilter (TypeBytes_Get (cd_MaxSize (c_Defense conf)) DefaultStableBloomFilterMaxSize)
             (TypeErrorRate_Get (cd_ErrorRate (c_Defense conf)) DefaultStableBloomFilterErrorRate))"

definition NewStatsd :: "(string \<Rightarrow> string) \<Rightarrow> string \<Rightarrow> start_error + unit" where
  "NewStatsd uni tagFormat =
     (if toLower uni tagFormat \<in> {''datadog'', ''influxdb'', ''graphite''} then Inr () else Inl (UnknownStatsdTagFormat tagFormat))"

datatype exporter = StatsD | Prometheus

text \<open>The factories of the event stream; without any, it is the stream that does nothing.\<close>

definition makeEventStream :: "startup_world \<Rightarrow> (string \<Rightarrow> string) \<Rightarrow> config \<Rightarrow> start_error + exporter list" where
  "makeEventStream w uni conf =
     andThen (if TypeBool_Get (ct_StatsDEnabled (c_Stats conf)) False
              then andThen (NewStatsd uni (string_Get (ct_StatsDTagFormat (c_Stats conf)) ''datadog'')) (\<lambda>_. Inr [StatsD])
              else Inr []) (\<lambda>factories.
     if TypeBool_Get (ct_PrometheusEnabled (c_Stats conf)) False
     then let addr = TypeHostPort_Get (ct_PrometheusBindTo (c_Stats conf)) []
          in if \<not> sw_scrapeListens w addr then Inl (CannotListenPrometheus addr) else Inr (factories @ [Prometheus])
     else Inr factories)"

text \<open>The files of a list, local ones first.\<close>

fun local_files :: "startup_world \<Rightarrow> (string \<Rightarrow> start_error) \<Rightarrow> string list \<Rightarrow> start_error + unit" where
  "local_files w err [] = Inr ()"
| "local_files w err (v # vs) = (case NewLocal (sw_stat w v) of
      LocalFile \<Rightarrow> local_files w err vs
    | NotReadable \<Rightarrow> Inl (err v)
    | StatPanic \<Rightarrow> Inl (StartPanic v))"

definition NewHTTP_ok :: "startup_world \<Rightarrow> string \<Rightarrow> bool" where
  "NewHTTP_ok w endpoint = (case sw_urlParse w endpoint of None \<Rightarrow> False | Some u \<Rightarrow> url_Scheme u \<in> {''http'', ''https''})"

definition NewFirehol :: "startup_world \<Rightarrow> (string \<Rightarrow> start_error) \<Rightarrow> string list \<Rightarrow> string list \<Rightarrow> start_error + unit" where
  "NewFirehol w err urls localFiles =
     andThen (local_files w err localFiles) (\<lambda>_.
     case find (\<lambda>u. \<not> NewHTTP_ok w u) urls of Some u \<Rightarrow> Inl (err u) | None \<Rightarrow> Inr ())"

definition make_list :: "startup_world \<Rightarrow> (string \<Rightarrow> start_error) \<Rightarrow> listConfig \<Rightarrow> start_error + unit" where
  "make_list w err lc =
     (if \<not> TypeBool_Get (lc_Enabled lc) False then Inr ()
      else NewFirehol w err (filter TypeBlocklistURI_IsRemote (lc_URLs lc)) (filter (\<lambda>v. \<not> TypeBlocklistURI_IsRemote v) (lc_URLs lc)))"

text \<open>The warnings before the start: variables of the official image that are ignored, and deprecated fronting options.\<close>

datatype start_warning = WorkersIgnored | SecretCountIgnored | FrontingIPIgnored | FrontingSectionIPIgnored

definition warnIgnoredOfficialEnvs :: "(string \<Rightarrow> string option) \<Rightarrow> start_warning list" where
  "warnIgnoredOfficialEnvs getenv =
     (if getenv ''WORKERS'' \<noteq> None then [WorkersIgnored] else []) @ (if getenv ''SECRET_COUNT'' \<noteq> None then [SecretCountIgnored] else [])"

definition warnDeprecatedDomainFronting :: "config \<Rightarrow> start_warning list" where
  "warnDeprecatedDomainFronting conf =
     (if c_DomainFrontingIP conf \<noteq> [] then [FrontingIPIgnored] else []) @
     (if cf_IP (c_DomainFronting conf) \<noteq> [] then [FrontingSectionIPIgnored] else [])"

subsection \<open>The whole start\<close>

record running =
  rn_instance :: instance_state
  rn_exporters :: "exporter list"
  rn_network :: net_stack
  rn_cache :: replay_cache
  rn_listeners :: "string list"
  rn_fanIn :: bool
  rn_proxyProtocol :: bool

text \<open>\<open>runProxy\<close> up to the accept loop; the warnings go to the log and stop nothing. The arguments of \<open>NewProxy\<close> are as in its theory.\<close>

definition runProxy ::
    "startup_world \<Rightarrow> config_env \<Rightarrow> (string \<Rightarrow> string) \<Rightarrow> (bytes \<Rightarrow> (string, usageRecord) gomap option) \<Rightarrow> file_read \<Rightarrow> zone \<Rightarrow> go_time
      \<Rightarrow> config \<Rightarrow> start_error + running" where
  "runProxy w ce uni unmarshal file zone now conf =
     andThen (makeEventStream w uni conf) (\<lambda>exporters.
     andThen (makeNetwork w ce conf) (\<lambda>ntw.
     andThen (make_list w CannotBuildBlocklist (cd_Blocklist (c_Defense conf))) (\<lambda>_.
     andThen (make_list w CannotBuildAllowlist (cd_Allowlist (c_Defense conf))) (\<lambda>_.
     case NewProxy uni unmarshal file zone now (runProxy_opts conf) of
       Inl e \<Rightarrow> Inl (CannotCreateProxy e)
     | Inr inst \<Rightarrow>
         (case open_listeners (sw_listens w) [] (GetBindAddrs conf) of
            Inl (addr, opened) \<Rightarrow> Inl (CannotStartOn addr opened)
          | Inr listeners \<Rightarrow>
              Inr \<lparr>rn_instance = inst, rn_exporters = exporters, rn_network = ntw, rn_cache = makeAntiReplayCache conf,
                   rn_listeners = listeners, rn_fanIn = (length listeners \<noteq> 1),
                   rn_proxyProtocol = TypeBool_Get (c_ProxyProtocolListener conf) False\<rparr>)))))"

subsection \<open>What can still fail\<close>

lemma open_listeners_result:
  "open_listeners listens acc addrs = (case dropWhile listens addrs of
       [] \<Rightarrow> Inr (acc @ addrs)
     | addr # _ \<Rightarrow> Inl (addr, acc @ takeWhile listens addrs))"
proof (induction addrs arbitrary: acc)
  case (Cons a addrs)
  then show ?case by (cases "dropWhile listens addrs") (simp_all del: dropWhile_eq_Nil_conv)
qed simp

lemma find_member: "find P xs = Some x \<Longrightarrow> x \<in> set xs \<and> P x"
  by (metis find_Some_iff nth_mem)

text \<open>The settings that come from the file unchanged.\<close>

lemma ApplyEnvironment_settings:
  assumes "ApplyEnvironment getenv c = Inr c'"
  shows "c_Stats c' = c_Stats c \<and> c_Network c' = c_Network c"
proof -
  obtain c1 c2 where "applyEnvSecret getenv c = Inr c1" "applyEnvAdTag getenv c1 = Inr c2" "applyEnvBindTo getenv c2 = Inr c'"
    using assms by (auto simp: ApplyEnvironment_def andThen_Inr)
  from applyEnvSecret_Inr [OF this(1)] applyEnvAdTag_Inr [OF this(2)] applyEnvBindTo_Inr [OF this(3)]
  show ?thesis by auto
qed

lemma decode_config_settings:
  "decode_config ce t = Inr c \<Longrightarrow> stats_field ce (tc_Stats t) = Inr (c_Stats c) \<and> network_field ce (tc_Network t) = Inr (c_Network c)"
  by (auto simp: decode_config_def andThen_Inr)

lemma tag_format_values: "stats_field ce t = Inr st \<Longrightarrow> ct_StatsDTagFormat st = [] \<or> ct_StatsDTagFormat st \<in> set statsd_tag_formats"
  by (auto simp: stats_field_def andThen_Inr field_def TypeStatsdTagFormat_Set_def Let_def split: if_splits sum.splits)

lemma dns_values: "network_field ce t = Inr n \<Longrightarrow> cn_DNS n = Some u \<Longrightarrow> url_Scheme u \<in> {''https'', ''tls'', ''udp''}"
  by (auto simp: network_field_def andThen_Inr field_def TypeDNSURI_Set_def Let_def split: if_splits sum.splits option.splits)

lemma NewStatsd_accepts: "f = [] \<or> f \<in> set statsd_tag_formats \<Longrightarrow> NewStatsd uni (string_Get f ''datadog'') = Inr ()"
  using toLower_lower [of "string_Get f ''datadog''" uni]
  by (auto simp: NewStatsd_def string_Get_def statsd_tag_formats_def)

lemma network_GetDNS_supported:
  "url_Scheme u \<in> {''https'', ''tls'', ''udp''} \<Longrightarrow> network_GetDNS (Some u) \<noteq> UnsupportedDNS v"
  by (auto simp: network_GetDNS_def Let_def split: prod.splits)

text \<open>A failed start has a cause outside the configuration. What was opened for the listeners before the failure is closed.\<close>

definition bad_file :: "startup_world \<Rightarrow> listConfig \<Rightarrow> string \<Rightarrow> bool" where
  "bad_file w lc v \<longleftrightarrow> lc_Enabled lc \<and> v \<in> set (lc_URLs lc) \<and>
     (if TypeBlocklistURI_IsRemote v then \<not> NewHTTP_ok w v else NewLocal (sw_stat w v) = NotReadable)"

definition panic_file :: "startup_world \<Rightarrow> listConfig \<Rightarrow> string \<Rightarrow> bool" where
  "panic_file w lc v \<longleftrightarrow> lc_Enabled lc \<and> v \<in> set (lc_URLs lc) \<and> \<not> TypeBlocklistURI_IsRemote v \<and> sw_stat w v = StatFailed"

lemma local_files_Inl:
  "local_files w err vs = Inl e \<Longrightarrow>
     \<exists>v \<in> set vs. NewLocal (sw_stat w v) = NotReadable \<and> e = err v \<or> sw_stat w v = StatFailed \<and> e = StartPanic v"
  by (induction vs) (auto split: new_local.splits simp: NewLocal_def split: stat_result.splits if_splits)

lemma local_files_Inr: "local_files w err vs = Inr u \<longleftrightarrow> (\<forall>v \<in> set vs. NewLocal (sw_stat w v) = LocalFile)"
  by (induction vs) (auto split: new_local.splits)

lemma make_list_Inl:
  assumes "make_list w err lc = Inl e"
  shows "\<exists>v. bad_file w lc v \<and> e = err v \<or> panic_file w lc v \<and> e = StartPanic v"
proof -
  let ?remote = "filter TypeBlocklistURI_IsRemote (lc_URLs lc)"
  let ?local = "filter (\<lambda>v. \<not> TypeBlocklistURI_IsRemote v) (lc_URLs lc)"
  have on: "lc_Enabled lc" using assms by (auto simp: make_list_def TypeBool_Get_def split: if_splits)
  then consider "local_files w err ?local = Inl e" | u where "find (\<lambda>u. \<not> NewHTTP_ok w u) ?remote = Some u" "e = err u"
    using assms by (auto simp: make_list_def NewFirehol_def andThen_def TypeBool_Get_def split: if_splits sum.splits option.splits)
  then show ?thesis
  proof cases
    case 1
    from local_files_Inl [OF this] show ?thesis using on by (auto simp: bad_file_def panic_file_def)
  next
    case 2
    then have "u \<in> set ?remote \<and> \<not> NewHTTP_ok w u" using find_member by metis
    then show ?thesis using on 2(2) by (auto simp: bad_file_def intro!: exI [of _ u])
  qed
qed

lemma make_list_Inr: "make_list w err lc = Inr u \<Longrightarrow> \<not> bad_file w lc v \<and> \<not> panic_file w lc v"
  by (auto simp: make_list_def NewFirehol_def andThen_Inr local_files_Inr bad_file_def panic_file_def NewLocal_def find_None_iff TypeBool_Get_def
      split: if_splits option.splits)

fun caused_outside :: "startup_world \<Rightarrow> config_env \<Rightarrow> config \<Rightarrow> start_error \<Rightarrow> bool" where
  "caused_outside w ce conf CannotCreateDNS \<longleftrightarrow> \<not> sw_resolver w (network_GetDNS (GetDNS ce conf))"
| "caused_outside w ce conf (CannotUseProxy u) \<longleftrightarrow> u \<in> set (cn_Proxies (c_Network conf)) \<and> \<not> sw_socks w u"
| "caused_outside w ce conf (UnknownStatsdTagFormat f) \<longleftrightarrow> False"
| "caused_outside w ce conf (CannotListenPrometheus a) \<longleftrightarrow>
     ct_PrometheusEnabled (c_Stats conf) \<and> a = TypeHostPort_Get (ct_PrometheusBindTo (c_Stats conf)) [] \<and> \<not> sw_scrapeListens w a"
| "caused_outside w ce conf (CannotBuildBlocklist v) \<longleftrightarrow> bad_file w (cd_Blocklist (c_Defense conf)) v"
| "caused_outside w ce conf (CannotBuildAllowlist v) \<longleftrightarrow> bad_file w (cd_Allowlist (c_Defense conf)) v"
| "caused_outside w ce conf (StartPanic v) \<longleftrightarrow>
     panic_file w (cd_Blocklist (c_Defense conf)) v \<or> panic_file w (cd_Allowlist (c_Defense conf)) v"
| "caused_outside w ce conf (CannotCreateProxy e) \<longleftrightarrow> False"
| "caused_outside w ce conf (CannotStartOn addr opened) \<longleftrightarrow>
     (\<exists>rest. GetBindAddrs conf = opened @ addr # rest) \<and> \<not> sw_listens w addr \<and> list_all (sw_listens w) opened"

text \<open>What holds of the error and of the result of a part; parts in sequence hand their results on.\<close>

definition ends_with :: "('e \<Rightarrow> bool) \<Rightarrow> ('a \<Rightarrow> bool) \<Rightarrow> 'e + 'a \<Rightarrow> bool" where
  "ends_with P Q r = (case r of Inl e \<Rightarrow> P e | Inr x \<Rightarrow> Q x)"

lemma ends_with_andThen: "ends_with P Q r \<Longrightarrow> (\<And>x. Q x \<Longrightarrow> ends_with P R (f x)) \<Longrightarrow> ends_with P R (andThen r f)"
  by (cases r) (simp_all add: ends_with_def andThen_def)

definition enabled_exporters :: "config \<Rightarrow> exporter set" where
  "enabled_exporters conf = (if ct_StatsDEnabled (c_Stats conf) then {StatsD} else {}) \<union> (if ct_PrometheusEnabled (c_Stats conf) then {Prometheus} else {})"

lemma makeEventStream_ends_with:
  assumes "ct_StatsDTagFormat (c_Stats conf) = [] \<or> ct_StatsDTagFormat (c_Stats conf) \<in> set statsd_tag_formats"
  shows "ends_with (caused_outside w ce conf)
    (\<lambda>fs. set fs = enabled_exporters conf \<and> (\<forall>a. \<not> caused_outside w ce conf (CannotListenPrometheus a))) (makeEventStream w uni conf)"
  using NewStatsd_accepts [OF assms, of uni]
  by (auto simp: makeEventStream_def andThen_def TypeBool_Get_def Let_def ends_with_def enabled_exporters_def)

lemma makeNetwork_ends_with:
  assumes "\<And>v. network_GetDNS (GetDNS ce conf) \<noteq> UnsupportedDNS v"
  shows "ends_with (caused_outside w ce conf)
    (\<lambda>_. \<not> caused_outside w ce conf CannotCreateDNS \<and> (\<forall>u. \<not> caused_outside w ce conf (CannotUseProxy u))) (makeNetwork w ce conf)"
  using assms
  by (auto simp: makeNetwork_def Let_def find_None_iff ends_with_def dest!: find_member split: dns_setup.splits option.splits)

lemma make_list_ends_with:
  assumes "\<And>v. bad_file w lc v \<Longrightarrow> P (err v)" "\<And>v. panic_file w lc v \<Longrightarrow> P (StartPanic v)"
  shows "ends_with P (\<lambda>_. \<forall>v. \<not> bad_file w lc v \<and> \<not> panic_file w lc v) (make_list w err lc)"
proof (cases "make_list w err lc")
  case (Inl e)
  then show ?thesis using make_list_Inl [OF Inl] assms by (auto simp: ends_with_def)
next
  case (Inr u)
  then show ?thesis using make_list_Inr [OF Inr] by (simp add: ends_with_def)
qed

lemma open_listeners_ends_with:
  "ends_with (\<lambda>(addr, opened). caused_outside w ce conf (CannotStartOn addr opened))
     (\<lambda>ls. ls = GetBindAddrs conf \<and> (\<forall>addr opened. \<not> caused_outside w ce conf (CannotStartOn addr opened)))
     (open_listeners (sw_listens w) [] (GetBindAddrs conf))"
proof (cases "dropWhile (sw_listens w) (GetBindAddrs conf)")
  case Nil
  then have "\<forall>a \<in> set (GetBindAddrs conf). sw_listens w a" by simp
  then show ?thesis using Nil by (auto simp: open_listeners_result ends_with_def simp del: dropWhile_eq_Nil_conv)
next
  case (Cons addr rest)
  have "GetBindAddrs conf = takeWhile (sw_listens w) (GetBindAddrs conf) @ addr # rest"
    using Cons by (metis takeWhile_dropWhile_id)
  moreover have "\<not> sw_listens w addr" using Cons by (metis dropWhile_eq_Cons_conv)
  moreover have "list_all (sw_listens w) (takeWhile (sw_listens w) (GetBindAddrs conf))" by (auto simp: list_all_iff dest: set_takeWhileD)
  ultimately show ?thesis using Cons by (auto simp: open_listeners_result ends_with_def)
qed

lemma ReadConfig_settings:
  assumes "ReadConfig ce (Some (Some t)) = Inr conf"
  shows "ct_StatsDTagFormat (c_Stats conf) = [] \<or> ct_StatsDTagFormat (c_Stats conf) \<in> set statsd_tag_formats"
    and "cn_DNS (c_Network conf) = Some u \<Longrightarrow> url_Scheme u \<in> {''https'', ''tls'', ''udp''}"
proof -
  obtain c0 where c0: "decode_config ce t = Inr c0" "ApplyEnvironment (ce_getenv ce) c0 = Inr conf"
    using assms by (auto simp: ReadConfig_def Parse_def andThen_Inr split: sum.splits option.splits if_splits)
  note kept = decode_config_settings [OF c0(1)] ApplyEnvironment_settings [OF c0(2)]
  show "ct_StatsDTagFormat (c_Stats conf) = [] \<or> ct_StatsDTagFormat (c_Stats conf) \<in> set statsd_tag_formats"
    using kept tag_format_values by metis
  show "cn_DNS (c_Network conf) = Some u \<Longrightarrow> url_Scheme u \<in> {''https'', ''tls'', ''udp''}"
    using kept dns_values by metis
qed

lemma GetDNS_supported:
  assumes "ReadConfig ce (Some (Some t)) = Inr conf"
    and "\<And>a u. ce_urlParse ce (''https://'' @ ip_String a) = Some u \<Longrightarrow> url_Scheme u = ''https''"
  shows "network_GetDNS (GetDNS ce conf) \<noteq> UnsupportedDNS v"
proof (cases "GetDNS ce conf")
  case (Some u)
  then have "url_Scheme u \<in> {''https'', ''tls'', ''udp''}"
    using ReadConfig_settings(2) [OF assms(1)] assms(2) by (auto simp: GetDNS_def Let_def split: option.splits)
  then show ?thesis using network_GetDNS_supported Some by simp
qed (simp add: network_GetDNS_def)

subsection \<open>The start is exact\<close>

text \<open>C17. Starting the process from a configuration that was read. Either every part outside works, and the process then
  listens on all the addresses of the configuration (at least one, all different), exports to what is enabled and holds
  a well-formed proxy; or the start fails with an error that names a part outside that did not work. Neither the tag format
  nor the scheme of the resolver nor \<open>NewProxy\<close> can be the reason; a listener that cannot be opened closes those before it.\<close>

theorem start_exact:
  assumes "ReadConfig ce (Some (Some t)) = Inr conf" "gm_ok (tc_Secrets t)"
    and "\<And>a u. ce_urlParse ce (''https://'' @ ip_String a) = Some u \<Longrightarrow> url_Scheme u = ''https''"
  shows "case runProxy w ce uni unmarshal file zone now conf of
      Inl e \<Rightarrow> caused_outside w ce conf e
    | Inr r \<Rightarrow> (\<nexists>e. caused_outside w ce conf e) \<and> world_ok (in_proxy (rn_instance r)) \<and>
        rn_listeners r = GetBindAddrs conf \<and> rn_listeners r \<noteq> [] \<and> distinct (rn_listeners r) \<and>
        (rn_fanIn r \<longleftrightarrow> length (rn_listeners r) > 1) \<and> set (rn_exporters r) = enabled_exporters conf"
proof -
  let ?C = "caused_outside w ce conf"
  note valid = ReadConfig_Inr [OF assms(1,2), THEN conjunct1, unfolded Validate_None]
  have addrs: "GetBindAddrs conf \<noteq> []" "distinct (GetBindAddrs conf)" using valid by (auto simp: GetBindAddrs_def)
  then have several: "length (GetBindAddrs conf) \<noteq> 1 \<longleftrightarrow> length (GetBindAddrs conf) > 1" by (cases "GetBindAddrs conf") auto
  obtain inst where inst: "NewProxy uni unmarshal file zone now (runProxy_opts conf) = Inr inst" "world_ok (in_proxy inst)"
    using ReadConfig_NewProxy [OF assms(1,2)] by blast
  let ?R = "\<lambda>r. (\<nexists>e. ?C e) \<and> world_ok (in_proxy (rn_instance r)) \<and> rn_listeners r = GetBindAddrs conf \<and>
      (rn_fanIn r \<longleftrightarrow> length (GetBindAddrs conf) > 1) \<and> set (rn_exporters r) = enabled_exporters conf"
  note stream = makeEventStream_ends_with [OF ReadConfig_settings(1) [OF assms(1)]]
  have supported: "network_GetDNS (GetDNS ce conf) \<noteq> UnsupportedDNS v" for v
    using GetDNS_supported [OF assms(1)] assms(3) by blast
  have "ends_with ?C ?R (runProxy w ce uni unmarshal file zone now conf)"
    unfolding runProxy_def inst(1) sum.case
  proof (rule ends_with_andThen, rule stream, rule ends_with_andThen, rule makeNetwork_ends_with, rule supported,
      (rule ends_with_andThen, rule make_list_ends_with, simp, simp)+)
    fix fs ntw
    assume parts: "set fs = enabled_exporters conf \<and> (\<forall>a. \<not> ?C (CannotListenPrometheus a))"
      "\<not> ?C CannotCreateDNS \<and> (\<forall>u. \<not> ?C (CannotUseProxy u))"
      "\<forall>v. \<not> bad_file w (cd_Blocklist (c_Defense conf)) v \<and> \<not> panic_file w (cd_Blocklist (c_Defense conf)) v"
      "\<forall>v. \<not> bad_file w (cd_Allowlist (c_Defense conf)) v \<and> \<not> panic_file w (cd_Allowlist (c_Defense conf)) v"
    have "\<not> ?C e" if "\<forall>addr opened. \<not> ?C (CannotStartOn addr opened)" for e
      using parts that by (cases e) simp_all
    then show "ends_with ?C ?R (case open_listeners (sw_listens w) [] (GetBindAddrs conf) of
         Inl (addr, opened) \<Rightarrow> Inl (CannotStartOn addr opened)
       | Inr listeners \<Rightarrow> Inr \<lparr>rn_instance = inst, rn_exporters = fs, rn_network = ntw, rn_cache = makeAntiReplayCache conf,
           rn_listeners = listeners, rn_fanIn = (length listeners \<noteq> 1), rn_proxyProtocol = TypeBool_Get (c_ProxyProtocolListener conf) False\<rparr>)"
      using open_listeners_ends_with [of w ce conf] parts(1) inst(2) several
      by (auto simp: ends_with_def simp del: caused_outside.simps split: sum.splits)
  qed
  then show ?thesis using addrs by (auto simp: ends_with_def split: sum.splits)
qed

subsection \<open>Witness\<close>

definition all_works :: startup_world where
  "all_works = \<lparr>sw_resolver = (\<lambda>_. True), sw_socks = (\<lambda>_. True), sw_scrapeListens = (\<lambda>_. True), sw_listens = (\<lambda>_. True),
     sw_stat = (\<lambda>_. StatFile Readable),
     sw_urlParse = (\<lambda>_. Some \<lparr>url_Scheme = ''https'', url_Host = ''h'', url_Hostname = ''h'', url_Path = [], url_User = False\<rparr>)\<rparr>"

lemma all_works_ok: "\<not> caused_outside all_works ce conf e"
  by (cases e) (auto simp: all_works_def bad_file_def panic_file_def NewHTTP_ok_def NewLocal_def)

theorem start_exact_witness:
  "\<exists>conf r. ReadConfig sample_env (Some (Some sample_toml)) = Inr conf \<and>
     runProxy all_works sample_env id (\<lambda>_. None) NotExist (\<lambda>_. 0) 5 conf = Inr r \<and> world_ok (in_proxy (rn_instance r)) \<and>
     rn_listeners r = GetBindAddrs conf \<and> rn_listeners r \<noteq> []"
proof -
  obtain conf where c: "ReadConfig sample_env (Some (Some sample_toml)) = Inr conf" using sample_read by blast
  have "gm_ok (tc_Secrets sample_toml)" "ce_urlParse sample_env s = None" for s by (simp_all add: sample_toml_def sample_env_def)
  from start_exact [OF c this(1), of all_works id "\<lambda>_. None" NotExist "\<lambda>_. 0" 5] this(2) c show ?thesis
    by (auto simp: all_works_ok simp del: caused_outside.simps split: sum.splits)
qed

end
