(* ===== verification/Shutdown.thy ===== *)
theory Shutdown
  imports Streams
begin

text \<open>
  The end of a proxy, \<open>Shutdown\<close> of \<open>mtglib/proxy.go\<close>, with everything that runs beside it: the accept loop and the
  workers that share its wait group, the goroutine that writes the usage file every 30 seconds (\<open>startUsagePersistence\<close>)
  and the management server (\<open>startAPIServer\<close>). \<open>FlushUsage\<close> is split into its reads and writes of the file system, so that
  two of them can interleave. The lemmas show when the usage that is on disk at the end is the usage that was counted, and
  how it is not.
\<close>

subsection \<open>A flush in steps\<close>

datatype flush = FlushStart | FlushSnapshot bytes | FlushWritten | FlushDone "usage_error option"

text \<open>The next action of a flush: read the counters, write the temporary file (one step), rename it. \<open>write\<close> and \<open>renameOk\<close>
  are the outcomes of the two system calls; renaming a file that is gone fails.\<close>

definition flush_step ::
    "((string, usageRecord) gomap \<Rightarrow> bytes) \<Rightarrow> file_write \<Rightarrow> bool \<Rightarrow> string \<Rightarrow> proxyStats \<Rightarrow> flush \<times> file_system \<Rightarrow> flush \<times> file_system" where
  "flush_step marshal write renameOk path st ff =
     (let (f, fs) = ff; tmp = path @ ''.tmp''
      in case f of
           FlushStart \<Rightarrow> (FlushSnapshot (marshal (usage_records st)), fs)
         | FlushSnapshot data \<Rightarrow>
             (case write of
                WriteError part \<Rightarrow> (FlushDone (Some WriteUsageFailed), fs(tmp \<mapsto> part))
              | Written \<Rightarrow> (FlushWritten, fs(tmp \<mapsto> data)))
         | FlushWritten \<Rightarrow>
             if \<not> renameOk \<or> fs tmp = None then (FlushDone (Some RenameUsageFailed), fs)
             else (FlushDone None, fs(path := fs tmp, tmp := None))
         | FlushDone e \<Rightarrow> (FlushDone e, fs))"

subsection \<open>The state\<close>

datatype shutdown_stage =
    NotCalled
  | WaitingForStreams
  | ReleasingPool
  | WaitingForUpdater
  | StoppingGanger
  | StoppingAllowlist
  | StoppingBlocklist
  | Flushing flush
  | ShutdownReturned

datatype timer_stage = TimerWaiting | TimerFlushing flush | TimerReturned

text \<open>\<open>sd_handed\<close> counts the connections given to a worker that has not yet reached \<open>streamWaitGroup.Add\<close> in \<open>ServeConn\<close>,
  \<open>sd_begun\<close> those between \<open>Add\<close> and \<open>Done\<close>; \<open>sd_serving\<close> tells that \<open>Serve\<close> holds the wait group.\<close>

record sd_state =
  sd_proxy :: proxy
  sd_cancelled :: bool
  sd_serving :: bool
  sd_handed :: nat
  sd_begun :: nat
  sd_released :: bool
  sd_main :: shutdown_stage
  sd_timer :: timer_stage
  sd_api :: bool
  sd_fs :: file_system

text \<open>A proxy at work: \<open>path\<close> is the usage file, empty when there is none, and \<open>api\<close> tells whether the management server
  got its listener.\<close>

definition sd_start :: "string \<Rightarrow> bool \<Rightarrow> proxy \<Rightarrow> file_system \<Rightarrow> sd_state" where
  "sd_start path api p fs = \<lparr>sd_proxy = p, sd_cancelled = False, sd_serving = True, sd_handed = 0, sd_begun = 0, sd_released = False,
     sd_main = NotCalled, sd_timer = (if path = [] then TimerReturned else TimerWaiting), sd_api = api, sd_fs = fs\<rparr>"

text \<open>Actions of the goroutines: the accept loop hands over a connection (refused once the pool is released) or returns, a
  worker begins, counts bytes of a secret, ends; the timer fires or sees the end of the context; a management request
  resets a quota; the management server sees the end of the context.\<close>

datatype sd_act =
    HandsOver
  | ServeReturns
  | Begins
  | Counts string int
  | Ends
  | TimerFires go_time
  | TimerStops
  | TimerFlushes file_write bool
  | ApiResets go_time string
  | ApiStops
  | ShutdownActs file_write bool

definition wait_group :: "sd_state \<Rightarrow> nat" where
  "wait_group s = (if sd_serving s then 1 else 0) + sd_begun s"

definition proxy_Shutdown ::
    "((string, usageRecord) gomap \<Rightarrow> bytes) \<Rightarrow> string \<Rightarrow> file_write \<Rightarrow> bool \<Rightarrow> sd_state \<Rightarrow> sd_state option" where
  "proxy_Shutdown marshal path write renameOk s = (case sd_main s of
       NotCalled \<Rightarrow> Some (s\<lparr>sd_cancelled := True, sd_main := WaitingForStreams\<rparr>)
     | WaitingForStreams \<Rightarrow> if wait_group s = 0 then Some (s\<lparr>sd_main := ReleasingPool\<rparr>) else None
     | ReleasingPool \<Rightarrow> Some (s\<lparr>sd_released := True, sd_main := WaitingForUpdater\<rparr>)
     | WaitingForUpdater \<Rightarrow> Some (s\<lparr>sd_main := StoppingGanger\<rparr>)
     | StoppingGanger \<Rightarrow> Some (s\<lparr>sd_main := StoppingAllowlist\<rparr>)
     | StoppingAllowlist \<Rightarrow> Some (s\<lparr>sd_main := StoppingBlocklist\<rparr>)
     | StoppingBlocklist \<Rightarrow> Some (s\<lparr>sd_main := if path = [] then ShutdownReturned else Flushing FlushStart\<rparr>)
     | Flushing f \<Rightarrow>
         (case flush_step marshal write renameOk path (stats (sd_proxy s)) (f, sd_fs s) of
            (FlushDone _, fs) \<Rightarrow> Some (s\<lparr>sd_main := ShutdownReturned, sd_fs := fs\<rparr>)
          | (f, fs) \<Rightarrow> Some (s\<lparr>sd_main := Flushing f, sd_fs := fs\<rparr>))
     | ShutdownReturned \<Rightarrow> None)"

definition usage_persistence ::
    "((string, usageRecord) gomap \<Rightarrow> bytes) \<Rightarrow> string \<Rightarrow> file_write \<Rightarrow> bool \<Rightarrow> sd_state \<Rightarrow> sd_state option" where
  "usage_persistence marshal path write renameOk s = (case sd_timer s of
       TimerFlushing f \<Rightarrow>
         (case flush_step marshal write renameOk path (stats (sd_proxy s)) (f, sd_fs s) of
            (FlushDone _, fs) \<Rightarrow> Some (s\<lparr>sd_timer := TimerWaiting, sd_fs := fs\<rparr>)
          | (f, fs) \<Rightarrow> Some (s\<lparr>sd_timer := TimerFlushing f, sd_fs := fs\<rparr>))
     | _ \<Rightarrow> None)"

fun sd_do :: "((string, usageRecord) gomap \<Rightarrow> bytes) \<Rightarrow> zone \<Rightarrow> string \<Rightarrow> sd_act \<Rightarrow> sd_state \<Rightarrow> sd_state option" where
  "sd_do marshal zone path HandsOver s =
     (if sd_serving s \<and> \<not> sd_released s then Some (s\<lparr>sd_handed := Suc (sd_handed s)\<rparr>) else None)"
| "sd_do marshal zone path ServeReturns s = (if sd_serving s then Some (s\<lparr>sd_serving := False\<rparr>) else None)"
| "sd_do marshal zone path Begins s =
     (if sd_handed s > 0 then Some (s\<lparr>sd_handed := sd_handed s - 1, sd_begun := Suc (sd_begun s)\<rparr>) else None)"
| "sd_do marshal zone path (Counts name n) s =
     (if sd_begun s > 0
      then Some (s\<lparr>sd_proxy := (sd_proxy s)\<lparr>stats := with_stats name (countingConn_Read n) (stats (sd_proxy s))\<rparr>\<rparr>) else None)"
| "sd_do marshal zone path Ends s = (if sd_begun s > 0 then Some (s\<lparr>sd_begun := sd_begun s - 1\<rparr>) else None)"
| "sd_do marshal zone path (TimerFires now) s =
     (if sd_timer s = TimerWaiting
      then Some (s\<lparr>sd_proxy := rolloverAllQuotas zone now (sd_proxy s), sd_timer := TimerFlushing FlushStart\<rparr>) else None)"
| "sd_do marshal zone path TimerStops s =
     (if sd_timer s = TimerWaiting \<and> sd_cancelled s then Some (s\<lparr>sd_timer := TimerReturned\<rparr>) else None)"
| "sd_do marshal zone path (TimerFlushes write renameOk) s = usage_persistence marshal path write renameOk s"
| "sd_do marshal zone path (ApiResets now name) s =
     (if sd_api s then Some (s\<lparr>sd_proxy := (sd_proxy s)\<lparr>stats := ResetQuota now name (stats (sd_proxy s))\<rparr>\<rparr>) else None)"
| "sd_do marshal zone path ApiStops s = (if sd_api s \<and> sd_cancelled s then Some (s\<lparr>sd_api := False\<rparr>) else None)"
| "sd_do marshal zone path (ShutdownActs write renameOk) s = proxy_Shutdown marshal path write renameOk s"

fun sd_run :: "((string, usageRecord) gomap \<Rightarrow> bytes) \<Rightarrow> zone \<Rightarrow> string \<Rightarrow> sd_act list \<Rightarrow> sd_state \<Rightarrow> sd_state option" where
  "sd_run marshal zone path [] s = Some s"
| "sd_run marshal zone path (a # as) s = Option.bind (sd_do marshal zone path a s) (sd_run marshal zone path as)"

subsection \<open>The steps of a flush are \<open>FlushUsage\<close>\<close>

lemma flush_steps_FlushUsage:
  "case (flush_step marshal write renameOk path st ^^ 3) (FlushStart, fs) of
     (FlushDone e, fs') \<Rightarrow> FlushUsage marshal write renameOk path st fs = (e, fs')
   | _ \<Rightarrow> False"
  by (simp add: numeral_eq_Suc flush_step_def FlushUsage_def Let_def split: file_write.splits)

subsection \<open>After the wait\<close>

text \<open>Once the wait group was empty, the accept loop is over for good, and the context has been cancelled before.\<close>

definition sd_inv :: "sd_state \<Rightarrow> bool" where
  "sd_inv s \<longleftrightarrow> (sd_cancelled s \<longleftrightarrow> sd_main s \<noteq> NotCalled) \<and> (sd_main s \<notin> {NotCalled, WaitingForStreams} \<longrightarrow> \<not> sd_serving s)"

lemma sd_inv_Shutdown: "proxy_Shutdown marshal path write renameOk s = Some s' \<Longrightarrow> sd_inv s \<Longrightarrow> sd_inv s'"
  by (auto simp: proxy_Shutdown_def sd_inv_def wait_group_def split: shutdown_stage.splits flush.splits prod.splits if_splits)

lemma sd_inv_timer: "usage_persistence marshal path write renameOk s = Some s' \<Longrightarrow> sd_inv s \<Longrightarrow> sd_inv s'"
  by (auto simp: usage_persistence_def sd_inv_def split: timer_stage.splits flush.splits prod.splits)

lemma sd_inv_do: "sd_do marshal zone path a s = Some s' \<Longrightarrow> sd_inv s \<Longrightarrow> sd_inv s'"
  by (cases a) (auto simp: sd_inv_def split: if_splits dest: sd_inv_timer [unfolded sd_inv_def] sd_inv_Shutdown [unfolded sd_inv_def])

text \<open>The actions as the steps of a transition system.\<close>

definition sd_step :: "((string, usageRecord) gomap \<Rightarrow> bytes) \<Rightarrow> zone \<Rightarrow> string \<Rightarrow> sd_state \<Rightarrow> sd_state \<Rightarrow> bool" where
  "sd_step marshal zone path s s' \<longleftrightarrow> (\<exists>a. sd_do marshal zone path a s = Some s')"

interpretation shut: transition_system "sd_start path api p fs" "sd_step marshal zone path" sd_inv for path api p fs marshal zone
proof
  show "sd_inv (sd_start path api p fs)" by (simp add: sd_inv_def sd_start_def)
qed (auto simp: sd_step_def dest: sd_inv_do)

lemma sd_run_steps: "sd_run marshal zone path as s = Some s' \<Longrightarrow> (sd_step marshal zone path)\<^sup>*\<^sup>* s s'"
proof (induction as arbitrary: s)
  case (Cons a as)
  then obtain t where "sd_do marshal zone path a s = Some t" "sd_run marshal zone path as t = Some s'"
    by (auto simp: bind_eq_Some_conv)
  then show ?case using Cons.IH by (auto simp: sd_step_def intro: converse_rtranclp_into_rtranclp)
qed simp

text \<open>When nothing else runs, the final flush cannot be disturbed.\<close>

definition quiet :: "sd_state \<Rightarrow> bool" where
  "quiet s \<longleftrightarrow> \<not> sd_serving s \<and> sd_handed s = 0 \<and> sd_begun s = 0 \<and> sd_timer s = TimerReturned \<and> \<not> sd_api s"

definition flush_inv :: "bytes \<Rightarrow> string \<Rightarrow> sd_state \<Rightarrow> bool" where
  "flush_inv data path s = (case sd_main s of
       Flushing FlushStart \<Rightarrow> True
     | Flushing (FlushSnapshot d) \<Rightarrow> d = data
     | Flushing FlushWritten \<Rightarrow> sd_fs s (path @ ''.tmp'') = Some data
     | ShutdownReturned \<Rightarrow> sd_fs s path = Some data
     | _ \<Rightarrow> False)"

definition io_ok :: "sd_act \<Rightarrow> bool" where
  "io_ok a = (case a of ShutdownActs w r \<Rightarrow> w = Written \<and> r | TimerFlushes w r \<Rightarrow> w = Written \<and> r | _ \<Rightarrow> True)"

lemma quiet_do:
  assumes "sd_do marshal zone path a s = Some s'" "quiet s"
  shows "\<exists>w r. a = ShutdownActs w r \<and> proxy_Shutdown marshal path w r s = Some s'"
  using assms by (cases a) (auto simp: quiet_def usage_persistence_def split: if_splits)

lemma flush_inv_Shutdown:
  assumes "proxy_Shutdown marshal path Written True s = Some s'" "quiet s"
    "flush_inv (marshal (usage_records (stats (sd_proxy s)))) path s"
  shows "quiet s' \<and> sd_proxy s' = sd_proxy s \<and> flush_inv (marshal (usage_records (stats (sd_proxy s)))) path s'"
  using assms
  by (auto simp: proxy_Shutdown_def flush_inv_def quiet_def flush_step_def Let_def split: shutdown_stage.splits flush.splits)

lemma quiet_run:
  assumes "sd_run marshal zone path as s = Some s'" "quiet s" "list_all io_ok as"
    "flush_inv (marshal (usage_records (stats (sd_proxy s)))) path s"
  shows "sd_proxy s' = sd_proxy s \<and> flush_inv (marshal (usage_records (stats (sd_proxy s)))) path s'"
  using assms
proof (induction as arbitrary: s)
  case (Cons a as)
  then obtain t where t: "sd_do marshal zone path a s = Some t" "sd_run marshal zone path as t = Some s'"
    by (auto simp: bind_eq_Some_conv)
  then have "proxy_Shutdown marshal path Written True s = Some t" using quiet_do [OF t(1)] Cons.prems by (auto simp: io_ok_def)
  note step = flush_inv_Shutdown [OF this Cons.prems(2,4)]
  then have "sd_proxy s' = sd_proxy t \<and> flush_inv (marshal (usage_records (stats (sd_proxy t)))) path s'"
    using Cons.prems(3) by (intro Cons.IH [OF t(2)]) simp_all
  with step show ?case by simp
qed simp

subsection \<open>Two flushes at a time\<close>


definition no_fire :: "sd_act \<Rightarrow> bool" where
  "no_fire a = (case a of TimerFires now \<Rightarrow> False | _ \<Rightarrow> True)"







text \<open>The final flush in one go, the end of a timer flush in one go.\<close>

definition final_flush :: "sd_act list" where
  "final_flush = replicate 3 (ShutdownActs Written True)"



lemma final_flush_ok [simp]: "list_all io_ok final_flush" "list_all no_fire final_flush"
  by (simp_all add: final_flush_def io_ok_def no_fire_def list_all_iff)





subsection \<open>Properties\<close>

text \<open>C27. The usage file after a shutdown. Whatever happened before, when \<open>Shutdown\<close> comes to its flush the accept loop has
  returned and the context is over. If by then no worker is left, the timer goroutine has returned and the management server
  is down, and the system calls succeed, then when \<open>Shutdown\<close> returns the file holds the usage of every secret as it was
  counted, and nothing changes the counters any more.\<close>

theorem shutdown_saves_usage:
  assumes "sd_run marshal zone path as (sd_start path api p fs) = Some s" "sd_main s = Flushing FlushStart"
    and "sd_handed s = 0" "sd_begun s = 0" "sd_timer s = TimerReturned" "\<not> sd_api s"
    and "sd_run marshal zone path bs s = Some s'" "list_all io_ok bs" "sd_main s' = ShutdownReturned"
  shows "sd_cancelled s \<and> \<not> sd_serving s \<and> sd_proxy s' = sd_proxy s \<and>
    sd_fs s' path = Some (marshal (usage_records (stats (sd_proxy s'))))"
proof -
  have inv: "sd_inv s" using shut.reachable_inv [OF sd_run_steps [OF assms(1)]] .
  then have "quiet s" using assms(2-6) by (simp add: quiet_def sd_inv_def)
  then have "sd_proxy s' = sd_proxy s \<and> flush_inv (marshal (usage_records (stats (sd_proxy s)))) path s'"
    using quiet_run [OF assms(7)] assms(2,8) by (simp add: flush_inv_def)
  then show ?thesis using inv assms(2,9) by (simp add: sd_inv_def flush_inv_def)
qed

text \<open>Samples: a marshaller, and the schedules up to the flush of an orderly end, of a timer flush that is overtaken and of a
  worker that is slow to begin.\<close>

definition quota_bytes :: "(string, usageRecord) gomap \<Rightarrow> bytes" where
  "quota_bytes rs = map (\<lambda>(_, r). word_of_int (recQuotaUsed r)) rs"

definition one_stream :: "sd_act list" where
  "one_stream = [HandsOver, Begins, Counts ''a'' 5]"

definition to_the_flush :: "sd_act list" where
  "to_the_flush = replicate 7 (ShutdownActs Written True)"



definition sd_sample :: sd_state where
  "sd_sample = sd_start ''u'' False fresh_proxy (\<lambda>_. None)"

lemma quiet_sample:
  "case sd_run quota_bytes (\<lambda>_. 0) ''u'' (one_stream @ [Ends, ServeReturns] @ take 1 to_the_flush @ [TimerStops] @ drop 1 to_the_flush) sd_sample of
     None \<Rightarrow> False
   | Some s \<Rightarrow> sd_main s = Flushing FlushStart \<and> sd_handed s = 0 \<and> sd_begun s = 0 \<and> sd_timer s = TimerReturned \<and> \<not> sd_api s \<and>
       (case sd_run quota_bytes (\<lambda>_. 0) ''u'' final_flush s of None \<Rightarrow> False | Some s' \<Rightarrow> sd_main s' = ShutdownReturned)"
  by code_simp




theorem shutdown_saves_usage_witness:
  "\<exists>s s'. sd_run quota_bytes (\<lambda>_. 0) ''u'' (one_stream @ [Ends, ServeReturns] @ take 1 to_the_flush @ [TimerStops] @ drop 1 to_the_flush) sd_sample = Some s \<and>
     sd_run quota_bytes (\<lambda>_. 0) ''u'' final_flush s = Some s' \<and>
     sd_fs s' ''u'' = Some (quota_bytes (usage_records (stats (sd_proxy s'))))"
proof -
  obtain s s' where s: "sd_run quota_bytes (\<lambda>_. 0) ''u'' (one_stream @ [Ends, ServeReturns] @ take 1 to_the_flush @ [TimerStops] @ drop 1 to_the_flush) sd_sample = Some s"
      "sd_main s = Flushing FlushStart" "sd_handed s = 0" "sd_begun s = 0" "sd_timer s = TimerReturned" "\<not> sd_api s"
      "sd_run quota_bytes (\<lambda>_. 0) ''u'' final_flush s = Some s'" "sd_main s' = ShutdownReturned"
    using quiet_sample by (auto split: option.splits)
  have "list_all io_ok final_flush" by (simp add: final_flush_def list_all_iff io_ok_def)
  from shutdown_saves_usage [OF s(1) [unfolded sd_sample_def] s(2-7) this s(8)] s(1,7) show ?thesis by blast
qed

end
