(* ===== verification/Socks.thy ===== *)
theory Socks
  imports NetDial ConfigTypes Breaker
begin

text \<open>
  The dialers of \<open>network\<close> that reach Telegram through SOCKS5 proxies: \<open>socks5.go\<close>, the plain dialer of \<open>default.go\<close>, the
  settings of the circuit breaker in \<open>proxy_dialer.go\<close> and the list of \<open>load_balanced_socks5.go\<close>. The messages are those of
  the SOCKS5 library, whose encoding is left out. The lemmas show what is sent to a proxy, when a dial succeeds and that no
  failed dial leaves a connection open.
\<close>

subsection \<open>Conversations\<close>

datatype socks_msg = Negotiation byte | UserPass bytes bytes | Request byte bytes bytes

definition MethodNone :: byte where "MethodNone = 0x00"
definition MethodUsernamePassword :: byte where "MethodUsernamePassword = 0x02"
definition UserPassStatusSuccess :: byte where "UserPassStatusSuccess = 0x00"
definition RepSuccess :: byte where "RepSuccess = 0x00"
definition ATYPDomain :: byte where "ATYPDomain = 0x03"

datatype socks_error =
    NetworkNotSupported string
  | CannotDialProxy
  | CannotSend
  | CannotReadReply
  | UnsupportedAuth byte
  | AuthFailed byte
  | CannotParseAddress string
  | UnsuccessfulRequest byte
  | IncorrectProxyURL

text \<open>A turn of the proxy: whether the message could be written, and the code of the answer unless none could be read.\<close>

record socks_turn =
  st_written :: bool
  st_reply :: "byte option"

text \<open>Send a message and read the answer: the messages on the wire and the turns still to come.\<close>

type_synonym 'a talk = "socks_turn list \<Rightarrow> (socks_error + 'a) \<times> socks_msg list \<times> socks_turn list"

fun ask :: "socks_msg \<Rightarrow> byte talk" where
  "ask m [] = (Inl CannotSend, [], [])"
| "ask m (t # ts) =
     (if \<not> st_written t then (Inl CannotSend, [], ts)
      else (case st_reply t of None \<Rightarrow> Inl CannotReadReply | Some b \<Rightarrow> Inr b, [m], ts))"

definition talk_then :: "'a talk \<Rightarrow> ('a \<Rightarrow> 'b talk) \<Rightarrow> 'b talk" where
  "talk_then t f ts = (case t ts of
       (Inl e, ms, ts) \<Rightarrow> (Inl e, ms, ts)
     | (Inr x, ms, ts) \<Rightarrow> (case f x ts of (r, ms', ts) \<Rightarrow> (r, ms @ ms', ts)))"

definition talk_end :: "socks_error + 'a \<Rightarrow> 'a talk" where
  "talk_end r ts = (r, [], ts)"

subsection \<open>The SOCKS5 dialer\<close>

record socks5Dialer =
  s5_username :: bytes
  s5_password :: bytes
  s5_proxyAddress :: string

definition handshakeNegotiation :: "byte \<Rightarrow> unit talk" where
  "handshakeNegotiation authMethod =
     talk_then (ask (Negotiation authMethod)) (\<lambda>m. talk_end (if m \<noteq> authMethod then Inl (UnsupportedAuth authMethod) else Inr ()))"

definition handshakeAuth :: "socks5Dialer \<Rightarrow> unit talk" where
  "handshakeAuth s =
     talk_then (ask (UserPass (s5_username s) (s5_password s)))
       (\<lambda>st. talk_end (if st \<noteq> UserPassStatusSuccess then Inl (AuthFailed st) else Inr ()))"

definition authMethod_of :: "socks5Dialer \<Rightarrow> byte" where
  "authMethod_of s = (if length (s5_username s) + length (s5_password s) = 0 then MethodNone else MethodUsernamePassword)"

definition socks_handshake :: "socks5Dialer \<Rightarrow> unit talk" where
  "socks_handshake s =
     talk_then (handshakeNegotiation (authMethod_of s)) (\<lambda>_. if authMethod_of s = MethodNone then talk_end (Inr ()) else handshakeAuth s)"

text \<open>\<open>parse\<close> is the address parser of the library: type, host (with its length in front for a name) and port.\<close>

definition socks_connect :: "(string \<Rightarrow> (byte \<times> bytes \<times> bytes) option) \<Rightarrow> string \<Rightarrow> unit talk" where
  "socks_connect parse address = (case parse address of
       None \<Rightarrow> talk_end (Inl (CannotParseAddress address))
     | Some (addrType, host, port) \<Rightarrow>
         let host = (if addrType = ATYPDomain then drop 1 host else host)
         in talk_then (ask (Request addrType host port)) (\<lambda>rep. talk_end (if rep \<noteq> RepSuccess then Inl (UnsuccessfulRequest rep) else Inr ())))"

text \<open>A dial: its result, what the proxy was sent, and the connections that were opened and closed again. \<open>base\<close> is the
  dialer below, with the turns of the proxy it reached.\<close>

definition socks5_DialContext ::
    "(string \<Rightarrow> (byte \<times> bytes \<times> bytes) option) \<Rightarrow> (string \<Rightarrow> string \<Rightarrow> ('c \<times> socks_turn list) option) \<Rightarrow> socks5Dialer \<Rightarrow> string \<Rightarrow> string
      \<Rightarrow> (socks_error + 'c) \<times> socks_msg list \<times> 'c list" where
  "socks5_DialContext parse base s network address =
     (if network \<notin> {''tcp'', ''tcp4'', ''tcp6''} then (Inl (NetworkNotSupported network), [], [])
      else case base network (s5_proxyAddress s) of
        None \<Rightarrow> (Inl CannotDialProxy, [], [])
      | Some (conn, turns) \<Rightarrow>
          (case socks_handshake s turns of
             (Inl e, ms, _) \<Rightarrow> (Inl e, ms, [conn])
           | (Inr _, ms, turns) \<Rightarrow>
               (case socks_connect parse address turns of
                  (Inl e, ms', _) \<Rightarrow> (Inl e, ms @ ms', [conn])
                | (Inr _, ms', _) \<Rightarrow> (Inr conn, ms @ ms', []))))"

subsection \<open>Building dialers\<close>

text \<open>The parts of a proxy URL: the host, user and password (\<open>None\<close> when not set) and the parameters of its query.\<close>

record proxy_url =
  pu_Host :: string
  pu_User :: "(string \<times> string option) option"
  pu_Query :: "string \<Rightarrow> string"

definition NewSocks5Dialer :: "proxy_url \<Rightarrow> socks_error + socks5Dialer" where
  "NewSocks5Dialer u = (case splitHostPort (pu_Host u) of
       None \<Rightarrow> Inl IncorrectProxyURL
     | Some _ \<Rightarrow>
         let d = \<lparr>s5_username = [], s5_password = [], s5_proxyAddress = pu_Host u\<rparr>
         in Inr (case pu_User u of
              Some (name, Some password) \<Rightarrow> d\<lparr>s5_username := bytes_of_string name, s5_password := bytes_of_string password\<rparr>
            | _ \<Rightarrow> d))"

record breaker_settings =
  bs_openThreshold :: u32
  bs_halfOpenTimeout :: duration
  bs_resetFailuresTimeout :: duration

definition parseUint32 :: "string \<Rightarrow> nat option" where
  "parseUint32 s = (if s = [] then None else case parseDigits 0 s of None \<Rightarrow> None | Some n \<Rightarrow> if n < 2 ^ 32 then Some (nat n) else None)"

definition duration_param :: "(nat \<Rightarrow> nat \<Rightarrow> nat \<Rightarrow> nat) \<Rightarrow> string \<Rightarrow> duration \<Rightarrow> duration" where
  "duration_param frac param d =
     (if param = [] then d else case parseDuration frac param of Some dur \<Rightarrow> if dur > 0 then dur else d | None \<Rightarrow> d)"

definition newProxyDialer :: "(nat \<Rightarrow> nat \<Rightarrow> nat \<Rightarrow> nat) \<Rightarrow> proxy_url \<Rightarrow> breaker_settings" where
  "newProxyDialer frac u =
     \<lparr>bs_openThreshold = (if pu_Query u ''open_threshold'' = [] then 5
        else case parseUint32 (pu_Query u ''open_threshold'') of Some n \<Rightarrow> word_of_nat n | None \<Rightarrow> 5),
      bs_halfOpenTimeout = duration_param frac (pu_Query u ''half_open_timeout'') 60000000000,
      bs_resetFailuresTimeout = duration_param frac (pu_Query u ''reset_failures_timeout'') 10000000000\<rparr>"

text \<open>Each proxy has its own breaker below its SOCKS5 dialer.\<close>

fun NewLoadBalancedSocks5Dialer ::
    "(nat \<Rightarrow> nat \<Rightarrow> nat \<Rightarrow> nat) \<Rightarrow> proxy_url list \<Rightarrow> socks_error + (socks5Dialer \<times> breaker) list" where
  "NewLoadBalancedSocks5Dialer frac [] = Inr []"
| "NewLoadBalancedSocks5Dialer frac (u # us) = (case NewSocks5Dialer u of
      Inl e \<Rightarrow> Inl e
    | Inr d \<Rightarrow> (case NewLoadBalancedSocks5Dialer frac us of
        Inl e \<Rightarrow> Inl e
      | Inr ds \<Rightarrow> Inr ((d, newCircuitBreakerDialer (bs_openThreshold (newProxyDialer frac u))) # ds)))"

text \<open>The plain dialer: its result and the connections closed again.\<close>

datatype plain_error = UnsupportedPlain string | CannotDialPlain string | CannotSetOptions

definition default_DialContext ::
    "(string \<Rightarrow> string \<Rightarrow> 'c option) \<Rightarrow> ('c \<Rightarrow> bool) \<Rightarrow> string \<Rightarrow> string \<Rightarrow> (plain_error + 'c) \<times> 'c list" where
  "default_DialContext dial optionsSet network address =
     (if network \<notin> {''tcp'', ''tcp4'', ''tcp6''} then (Inl (UnsupportedPlain network), [])
      else case dial network address of
        None \<Rightarrow> (Inl (CannotDialPlain address), [])
      | Some conn \<Rightarrow> if \<not> optionsSet conn then (Inl CannotSetOptions, [conn]) else (Inr conn, []))"

definition NewDefaultDialer :: "duration \<Rightarrow> duration option" where
  "NewDefaultDialer timeout = (if timeout < 0 then None else if timeout = 0 then Some 10000000000 else Some timeout)"

subsection \<open>What a dial does\<close>

lemmas talk_defs = talk_then_def talk_end_def handshakeNegotiation_def handshakeAuth_def socks_handshake_def socks_connect_def

text \<open>A failed dial has closed what it opened; a successful one has closed nothing.\<close>

lemma socks5_closes:
  assumes "socks5_DialContext parse base s network address = (r, ms, shut)"
  shows "(case r of Inr c \<Rightarrow> shut = [] \<and> (\<exists>ts. base network (s5_proxyAddress s) = Some (c, ts))
    | Inl _ \<Rightarrow> set shut = {c. network \<in> {''tcp'', ''tcp4'', ''tcp6''} \<and> (\<exists>ts. base network (s5_proxyAddress s) = Some (c, ts))})"
  using assms by (auto simp: socks5_DialContext_def split: if_splits option.splits prod.splits sum.splits)

text \<open>Credentials go to a proxy only after it has chosen the method that needs them.\<close>

lemma ask_sent: "ask m ts = (r, ms, ts') \<Longrightarrow> set ms \<subseteq> {m}"
  by (cases ts) (auto split: if_splits)

lemma socks_connect_sent: "socks_connect parse address ts = (r, ms, ts') \<Longrightarrow> UserPass u p \<notin> set ms"
  by (auto simp: talk_defs Let_def split: option.splits prod.splits sum.splits dest!: ask_sent)

lemma socks_handshake_sent:
  assumes "socks_handshake s ts = (r, ms, ts')" "UserPass u p \<in> set ms"
  shows "u = s5_username s \<and> p = s5_password s \<and> authMethod_of s = MethodUsernamePassword \<and>
    (\<exists>t rest. ts = t # rest \<and> st_reply t = Some MethodUsernamePassword)"
proof (cases ts)
  case (Cons t rest)
  have m: "authMethod_of s = MethodNone \<or> authMethod_of s = MethodUsernamePassword" by (simp add: authMethod_of_def)
  show ?thesis
    using assms Cons m
    by (auto simp: talk_defs split: option.splits prod.splits sum.splits if_splits dest!: ask_sent)
qed (use assms in \<open>simp add: talk_defs\<close>)

lemma socks5_credentials:
  assumes "socks5_DialContext parse base s network address = (r, ms, shut)" "UserPass u p \<in> set ms"
  shows "u = s5_username s \<and> p = s5_password s \<and> s5_username s @ s5_password s \<noteq> [] \<and>
    (\<exists>c t ts. base network (s5_proxyAddress s) = Some (c, t # ts) \<and> st_reply t = Some MethodUsernamePassword)"
proof -
  obtain c turns where base: "base network (s5_proxyAddress s) = Some (c, turns)"
    using assms by (auto simp: socks5_DialContext_def split: if_splits option.splits)
  obtain r1 ms1 ts1 where h: "socks_handshake s turns = (r1, ms1, ts1)" by (cases "socks_handshake s turns") auto
  have "UserPass u p \<in> set ms1"
    using assms base h by (auto simp: socks5_DialContext_def split: if_splits prod.splits sum.splits dest: socks_connect_sent)
  from socks_handshake_sent [OF h this] show ?thesis
    using base by (auto simp: authMethod_of_def MethodNone_def MethodUsernamePassword_def split: if_splits)
qed

text \<open>When a dial succeeds, and what the proxy has been sent then.\<close>

definition answer :: "byte \<Rightarrow> socks_turn" where
  "answer b = \<lparr>st_written = True, st_reply = Some b\<rparr>"

definition willing :: "socks5Dialer \<Rightarrow> socks_turn list \<Rightarrow> bool" where
  "willing s turns \<longleftrightarrow> (\<exists>rest. turns = answer (authMethod_of s) # (if authMethod_of s = MethodNone then [] else [answer UserPassStatusSuccess]) @ answer RepSuccess # rest)"

lemma ask_Inr: "ask m ts = (Inr b, ms, ts') \<longleftrightarrow> ts = answer b # ts' \<and> ms = [m]"
  by (cases ts) (auto simp: answer_def split: option.splits)

lemma talk_then_Inr:
  "talk_then t f ts = (Inr y, ms, ts') \<longleftrightarrow> (\<exists>x ms1 ts1 ms2. t ts = (Inr x, ms1, ts1) \<and> f x ts1 = (Inr y, ms2, ts') \<and> ms = ms1 @ ms2)"
  by (auto simp: talk_then_def split: prod.splits sum.splits)

lemma talk_end_Inr: "talk_end r ts = (Inr y, ms, ts') \<longleftrightarrow> r = Inr y \<and> ms = [] \<and> ts' = ts"
  by (auto simp: talk_end_def)

declare ask.simps [simp del]

lemmas talk_Inr = talk_then_Inr talk_end_Inr ask_Inr

lemma socks_handshake_Inr:
  "socks_handshake s turns = (Inr (), ms, ts) \<longleftrightarrow>
     turns = answer (authMethod_of s) # (if authMethod_of s = MethodNone then [] else [answer UserPassStatusSuccess]) @ ts \<and>
     ms = Negotiation (authMethod_of s) # (if authMethod_of s = MethodNone then [] else [UserPass (s5_username s) (s5_password s)])"
  by (cases "authMethod_of s = MethodNone")
     (auto simp: socks_handshake_def handshakeNegotiation_def handshakeAuth_def talk_Inr split: if_splits)

lemma socks_connect_Inr:
  "socks_connect parse address ts = (Inr (), ms, ts') \<longleftrightarrow>
     (\<exists>a h p. parse address = Some (a, h, p) \<and> ts = answer RepSuccess # ts' \<and> ms = [Request a (if a = ATYPDomain then drop 1 h else h) p])"
  by (cases "parse address") (auto simp: socks_connect_def talk_Inr Let_def split: if_splits)

lemma socks5_DialContext_Inr:
  "socks5_DialContext parse base s network address = (Inr c, ms, shut) \<longleftrightarrow>
     network \<in> {''tcp'', ''tcp4'', ''tcp6''} \<and> shut = [] \<and> (\<exists>turns ms1 ts ms2 ts'. base network (s5_proxyAddress s) = Some (c, turns) \<and>
       socks_handshake s turns = (Inr (), ms1, ts) \<and> socks_connect parse address ts = (Inr (), ms2, ts') \<and> ms = ms1 @ ms2)"
  unfolding socks5_DialContext_def by (simp split: option.splits prod.splits sum.splits) blast

lemma socks5_success:
  "socks5_DialContext parse base s network address = (Inr c, ms, shut) \<longleftrightarrow>
     network \<in> {''tcp'', ''tcp4'', ''tcp6''} \<and> shut = [] \<and>
     (\<exists>turns a h p. base network (s5_proxyAddress s) = Some (c, turns) \<and> parse address = Some (a, h, p) \<and> willing s turns \<and>
        ms = Negotiation (authMethod_of s) # (if authMethod_of s = MethodNone then [] else [UserPass (s5_username s) (s5_password s)]) @
             [Request a (if a = ATYPDomain then drop 1 h else h) p])"
  unfolding socks5_DialContext_Inr socks_handshake_Inr socks_connect_Inr willing_def by fastforce

end
