(* ===== verification/SimpleRun.thy ===== *)
theory SimpleRun
  imports Config
begin

text \<open>
  The \<open>simple-run\<close> command, \<open>internal/cli/simple_run.go\<close>: a configuration from flags alone. Every flag goes through the setter
  of its setting in \<open>ConfigTypes\<close>. The lemmas show what the configuration holds, whatever the flags are.
\<close>

subsection \<open>Durations as text\<close>

text \<open>\<open>time.Duration.String\<close>: the fraction of \<open>v\<close> with \<open>prec\<close> digits, without trailing zeros and without the point when
  nothing is left; then units from hours to nanoseconds.\<close>

definition fraction_text :: "nat \<Rightarrow> nat \<Rightarrow> string" where
  "fraction_text v prec =
     (let digits = itoa (int (10 ^ prec + v mod 10 ^ prec));
          kept = rev (dropWhile (\<lambda>c. c = CHR ''0'') (rev (drop 1 digits)))
      in if kept = [] then [] else CHR ''.'' # kept)"

definition duration_String :: "duration \<Rightarrow> string" where
  "duration_String d =
     (let u = nat \<bar>d\<bar>; sign = (if d < 0 then ''-'' else []);
          secs = u div 10 ^ 9; s = itoa (int (secs mod 60)) @ fraction_text u 9 @ ''s'';
          m = secs div 60 mod 60; h = secs div 3600
      in if u = 0 then ''0s''
         else sign @
           (if u < 10 ^ 3 then itoa (int u) @ ''ns''
            else if u < 10 ^ 6 then itoa (int (u div 10 ^ 3)) @ fraction_text u 3 @ [CHR 0xC2, CHR 0xB5] @ ''s''
            else if u < 10 ^ 9 then itoa (int (u div 10 ^ 6)) @ fraction_text u 6 @ ''ms''
            else if secs < 60 then s
            else if secs < 3600 then itoa (int m) @ ''m'' @ s
            else itoa (int h) @ ''h'' @ itoa (int m) @ ''m'' @ s))"

subsection \<open>The flags\<close>

record simpleRun =
  sr_BindTo :: string
  sr_Secret :: string
  sr_Debug :: bool
  sr_Concurrency :: nat
  sr_TCPBuffer :: string
  sr_PreferIP :: string
  sr_DomainFrontingPort :: nat
  sr_DomainFrontingHost :: string
  sr_DomainFrontingIP :: string
  sr_DOHIP :: ip
  sr_Timeout :: duration
  sr_Socks5Proxies :: "string list"
  sr_AntiReplayCacheSize :: string
  sr_ProxyProtocolListener :: bool

datatype simple_error =
    IncorrectFlag string config_error
  | IncorrectSecretFlag secret_error
  | InvalidResult invalid_config

definition flag :: "string \<Rightarrow> config_error + 'a \<Rightarrow> simple_error + 'a" where
  "flag name r = (case r of Inl e \<Rightarrow> Inl (IncorrectFlag name e) | Inr v \<Rightarrow> Inr v)"

text \<open>\<open>config.Config{}\<close>.\<close>

definition zero_config :: config where
  "zero_config = \<lparr>c_Debug = False, c_AllowFallbackOnUnknownDC = False, c_Secret = empty_secret, c_Secrets = [], c_AdTag = [], c_SecretAdTags = [],
     c_SecretLimits = [], c_UsageStateFile = [], c_APIToken = [], c_BindTo = [], c_ProxyProtocolListener = False, c_PreferIP = [],
     c_AutoUpdate = False, c_DomainFrontingPort = 0, c_DomainFrontingIP = [], c_DomainFrontingProxyProtocol = False,
     c_TolerateTimeSkewness = 0, c_Concurrency = 0, c_PublicIPv4 = [], c_PublicIPv6 = [],
     c_DomainFronting = \<lparr>cf_Host = [], cf_IP = [], cf_Port = 0, cf_ProxyProtocol = False\<rparr>,
     c_Defense = \<lparr>cd_MaxPerIP = 0, cd_DryRun = False, cd_AntiReplay = False, cd_MaxSize = 0, cd_ErrorRate = (0, 0),
        cd_Blocklist = \<lparr>lc_Enabled = False, lc_DownloadConcurrency = 0, lc_URLs = [], lc_UpdateEach = 0\<rparr>,
        cd_Allowlist = \<lparr>lc_Enabled = False, lc_DownloadConcurrency = 0, lc_URLs = [], lc_UpdateEach = 0\<rparr>,
        cd_DoppelURLs = [], cd_Repeats = 0, cd_RaidEach = 0, cd_DRS = False\<rparr>,
     c_Network = \<lparr>cn_TCP = 0, cn_HTTP = 0, cn_Idle = 0, cn_Handshake = 0, cn_KeepAliveDisabled = False, cn_KeepAliveIdle = 0,
        cn_KeepAliveInterval = 0, cn_KeepAliveCount = 0, cn_DOHIP = [], cn_DNS = None, cn_Proxies = [], cn_TCPNotSentLowat = 0\<rparr>,
     c_APIBindTo = no_hostport, c_ThrottleMaxConnections = 0, c_ThrottleCheckInterval = 0,
     c_Stats = \<lparr>ct_StatsDEnabled = False, ct_StatsDAddress = no_hostport, ct_StatsDPrefix = [], ct_StatsDTagFormat = [],
        ct_PrometheusEnabled = False, ct_PrometheusBindTo = no_hostport, ct_PrometheusPath = [], ct_PrometheusPrefix = []\<rparr>\<rparr>"

fun socks5_flags :: "config_env \<Rightarrow> string list \<Rightarrow> simple_error + url list" where
  "socks5_flags ce [] = Inr []"
| "socks5_flags ce (v # vs) =
     andThen (flag ''socks5-proxy'' (TypeProxyURL_Set (ce_urlParse ce) v)) (\<lambda>u. andThen (socks5_flags ce vs) (\<lambda>us. Inr (u # us)))"

definition SimpleRun_config :: "config_env \<Rightarrow> simpleRun \<Rightarrow> simple_error + config" where
  "SimpleRun_config ce s =
     andThen (flag ''bind-to'' (TypeHostPort_Set (sr_BindTo s))) (\<lambda>bindHP.
     andThen (case secret_Set empty_secret (sr_Secret s) of (Some e, _) \<Rightarrow> Inl (IncorrectSecretFlag e) | (None, v) \<Rightarrow> Inr v) (\<lambda>secret.
     andThen (flag ''concurrency'' (TypeConcurrency_Set (itoa (int (sr_Concurrency s))))) (\<lambda>concurrency.
     andThen (flag ''prefer-ip'' (TypePreferIP_Set (ce_parsers ce) (sr_PreferIP s))) (\<lambda>pref.
     andThen (flag ''domain-fronting-port'' (TypePort_Set (itoa (int (sr_DomainFrontingPort s))))) (\<lambda>port.
     andThen (if sr_DomainFrontingHost s = [] then Inr [] else flag ''domain-fronting-host'' (TypeHost_Set (sr_DomainFrontingHost s))) (\<lambda>host.
     andThen (if sr_DomainFrontingIP s = [] then Inr [] else flag ''domain-fronting-ip'' (TypeIP_Set (sr_DomainFrontingIP s))) (\<lambda>frontIP.
     andThen (flag ''doh-ip'' (TypeIP_Set (ip_String (sr_DOHIP s)))) (\<lambda>doh.
     andThen (flag ''timeout'' (TypeDuration_Set (ce_parsers ce) (ce_frac ce) (duration_String (sr_Timeout s)))) (\<lambda>timeout.
     andThen (flag ''antireplay-cache-size'' (TypeBytes_Set (ce_parsers ce) (sr_AntiReplayCacheSize s))) (\<lambda>size.
     andThen (socks5_flags ce (sr_Socks5Proxies s)) (\<lambda>proxies.
       let conf = zero_config\<lparr>c_BindTo := [bindHP], c_Secret := secret, c_Concurrency := concurrency, c_PreferIP := pref,
             c_DomainFrontingPort := port, c_DomainFronting := (c_DomainFronting zero_config)\<lparr>cf_Host := host\<rparr>, c_DomainFrontingIP := frontIP,
             c_Network := (c_Network zero_config)\<lparr>cn_DOHIP := doh, cn_TCP := timeout, cn_HTTP := timeout, cn_Idle := timeout, cn_Proxies := proxies\<rparr>,
             c_Defense := (c_Defense zero_config)\<lparr>cd_MaxSize := size, cd_AntiReplay := True\<rparr>,
             c_Debug := sr_Debug s, c_AllowFallbackOnUnknownDC := True, c_ProxyProtocolListener := sr_ProxyProtocolListener s\<rparr>
       in case Validate conf of Some e \<Rightarrow> Inl (InvalidResult e) | None \<Rightarrow> Inr conf)))))))))))"

subsection \<open>What the command starts with\<close>

text \<open>One secret, as printed in the flag; one address; unknown data centres fall back, replays are detected, and nothing that
  only a file can set is on.\<close>

lemma SimpleRun_config_ok:
  assumes "SimpleRun_config ce s = Inr conf"
  shows "Validate conf = None \<and> (\<exists>secret. ParseSecret (sr_Secret s) = (secret, None) \<and> GetSecrets conf = [(''default'', secret)]) \<and>
    GetSecretAdTags conf = [] \<and> GetSecretLimits conf = [] \<and> GetAdTag conf = None \<and> length (GetBindAddrs conf) = 1 \<and>
    cd_AntiReplay (c_Defense conf) \<and> po_AllowFallbackOnUnknownDC (runProxy_opts conf) \<and> po_UsageStateFile (runProxy_opts conf) = [] \<and>
    cn_Idle (c_Network conf) = cn_TCP (c_Network conf)"
proof -
  obtain bindHP secret concurrency pref port host frontIP doh timeout size proxies where
    conf: "conf = zero_config\<lparr>c_BindTo := [bindHP], c_Secret := secret, c_Concurrency := concurrency, c_PreferIP := pref,
       c_DomainFrontingPort := port, c_DomainFronting := (c_DomainFronting zero_config)\<lparr>cf_Host := host\<rparr>, c_DomainFrontingIP := frontIP,
       c_Network := (c_Network zero_config)\<lparr>cn_DOHIP := doh, cn_TCP := timeout, cn_HTTP := timeout, cn_Idle := timeout, cn_Proxies := proxies\<rparr>,
       c_Defense := (c_Defense zero_config)\<lparr>cd_MaxSize := size, cd_AntiReplay := True\<rparr>,
       c_Debug := sr_Debug s, c_AllowFallbackOnUnknownDC := True, c_ProxyProtocolListener := sr_ProxyProtocolListener s\<rparr>"
    and ok: "Validate conf = None" "secret_Set empty_secret (sr_Secret s) = (None, secret)"
    using assms by (auto simp: SimpleRun_config_def andThen_Inr Let_def split: option.splits prod.splits)
  have "ParseSecret (sr_Secret s) = (secret, None)" using ok(2) ParseSecret_Set by simp
  then show ?thesis using ok(1)
    by (simp add: conf GetSecrets_def GetSecretAdTags_def GetSecretLimits_def GetAdTag_def GetBindAddrs_def runProxy_opts_def
        TypeBool_Get_def TypeAdTag_Get_def AdTagLength_def zero_config_def)
qed

end
