(* ===== verification/Weibull.thy ===== *)
theory Weibull
  imports Complex_Main Doppel
begin

text \<open>
  The fit behind the delays of the doppelganger, \<open>NewStats\<close> and \<open>Delay\<close> in \<open>mtglib/internal/doppel/stats.go\<close>. Numbers are
  \<open>float64\<close>: real numbers rounded to 53 bits, two infinities and NaN. The lemmas show that the bisection always ends in a
  narrow bracket between its limits, and what one very short gap does to it.
\<close>

subsection \<open>Floating point numbers\<close>

text \<open>Zeros have no sign here; no zero of the code below is negative where the sign could matter.\<close>

datatype xfloat = Fin real | PosInf | NegInf | NaN

text \<open>Rounding to nearest, ties to even, with the exponents of \<open>float64\<close>.\<close>

definition round_even :: "real \<Rightarrow> int" where
  "round_even y = (let n = \<lfloor>y\<rfloor> in if y - of_int n < 1 / 2 \<or> y - of_int n = 1 / 2 \<and> even n then n else n + 1)"

definition ulp_expo :: "real \<Rightarrow> int" where
  "ulp_expo x = max \<lfloor>log 2 \<bar>x\<bar>\<rfloor> (- 1022) - 52"

definition ulp :: "real \<Rightarrow> real" where
  "ulp x = 2 powi ulp_expo x"

definition rd :: "real \<Rightarrow> real" where
  "rd x = of_int (round_even (x / ulp x)) * ulp x"

definition fl :: "real \<Rightarrow> xfloat" where
  "fl x = (if rd x \<ge> 2 ^ 1024 then PosInf else if rd x \<le> - (2 ^ 1024) then NegInf else Fin (rd x))"

fun fneg :: "xfloat \<Rightarrow> xfloat" where
  "fneg (Fin x) = Fin (- x)"
| "fneg PosInf = NegInf"
| "fneg NegInf = PosInf"
| "fneg NaN = NaN"

fun fadd :: "xfloat \<Rightarrow> xfloat \<Rightarrow> xfloat" where
  "fadd NaN y = NaN"
| "fadd x NaN = NaN"
| "fadd PosInf NegInf = NaN"
| "fadd NegInf PosInf = NaN"
| "fadd PosInf y = PosInf"
| "fadd x PosInf = PosInf"
| "fadd NegInf y = NegInf"
| "fadd x NegInf = NegInf"
| "fadd (Fin x) (Fin y) = fl (x + y)"

definition signed_inf :: "real \<Rightarrow> xfloat" where
  "signed_inf s = (if s > 0 then PosInf else if s < 0 then NegInf else NaN)"

text \<open>The sign of a number that is not NaN.\<close>

fun fsign :: "xfloat \<Rightarrow> real" where
  "fsign (Fin x) = sgn x"
| "fsign PosInf = 1"
| "fsign NegInf = - 1"
| "fsign NaN = 0"

fun fmul :: "xfloat \<Rightarrow> xfloat \<Rightarrow> xfloat" where
  "fmul NaN y = NaN"
| "fmul x NaN = NaN"
| "fmul (Fin x) (Fin y) = fl (x * y)"
| "fmul x y = signed_inf (fsign x * fsign y)"

fun fdiv :: "xfloat \<Rightarrow> xfloat \<Rightarrow> xfloat" where
  "fdiv NaN y = NaN"
| "fdiv x NaN = NaN"
| "fdiv (Fin x) (Fin y) = (if y = 0 then signed_inf x else fl (x / y))"
| "fdiv (Fin x) y = Fin 0"
| "fdiv x (Fin y) = (if y < 0 then fneg x else x)"
| "fdiv x y = NaN"

fun positive :: "xfloat \<Rightarrow> bool" where
  "positive (Fin x) \<longleftrightarrow> x > 0"
| "positive PosInf \<longleftrightarrow> True"
| "positive _ \<longleftrightarrow> False"

text \<open>The last bits of \<open>math.Log\<close> and \<open>math.Pow\<close> depend on the platform: \<open>ml_log\<close> and \<open>ml_pow\<close> are their values for positive
  numbers, the special cases are those of their documentation.\<close>

record math_lib =
  ml_log :: "real \<Rightarrow> xfloat"
  ml_pow :: "real \<Rightarrow> real \<Rightarrow> xfloat"

fun math_Log :: "math_lib \<Rightarrow> xfloat \<Rightarrow> xfloat" where
  "math_Log lib (Fin x) = (if x < 0 then NaN else if x = 0 then NegInf else ml_log lib x)"
| "math_Log lib PosInf = PosInf"
| "math_Log lib _ = NaN"

definition pow_fin :: "math_lib \<Rightarrow> real \<Rightarrow> real \<Rightarrow> xfloat" where
  "pow_fin lib x y =
     (if y = 0 \<or> x = 1 then Fin 1
      else if x = 0 then (if y > 0 then Fin 0 else PosInf)
      else if x > 0 then ml_pow lib x y
      else if y \<noteq> of_int \<lfloor>y\<rfloor> then NaN
      else if even \<lfloor>y\<rfloor> then ml_pow lib (- x) y
      else fneg (ml_pow lib (- x) y))"

fun math_Pow :: "math_lib \<Rightarrow> xfloat \<Rightarrow> xfloat \<Rightarrow> xfloat" where
  "math_Pow lib (Fin x) (Fin y) = pow_fin lib x y"
| "math_Pow lib x (Fin y) =
     (if y = 0 then Fin 1
      else case x of
          NaN \<Rightarrow> NaN
        | PosInf \<Rightarrow> if y > 0 then PosInf else Fin 0
        | _ \<Rightarrow> if y < 0 then Fin 0 else if y = of_int \<lfloor>y\<rfloor> \<and> odd \<lfloor>y\<rfloor> then NegInf else PosInf)"
| "math_Pow lib (Fin x) NaN = (if x = 1 then Fin 1 else NaN)"
| "math_Pow lib x NaN = NaN"
| "math_Pow lib NaN y = NaN"
| "math_Pow lib (Fin x) y =
     (if \<bar>x\<bar> = 1 then Fin 1 else if (\<bar>x\<bar> > 1) = (y = PosInf) then PosInf else Fin 0)"
| "math_Pow lib x y = (if y = PosInf then PosInf else Fin 0)"

subsection \<open>The fit\<close>

definition StatsBisectTimes :: nat where "StatsBisectTimes = 70"

text \<open>The constant 0.01 as a \<open>float64\<close>.\<close>

definition StatsLowK :: real where "StatsLowK = 5764607523034235 / 2 ^ 59"
definition StatsHighK :: real where "StatsHighK = 10"

record fitted = dstats +
  st_k :: xfloat
  st_lambda :: xfloat

definition millis :: "duration \<Rightarrow> xfloat" where
  "millis d = fdiv (fl (of_int (go_div d 1000))) (Fin 1000)"

definition sum_log :: "math_lib \<Rightarrow> xfloat list \<Rightarrow> xfloat" where
  "sum_log lib xs = fold (\<lambda>v acc. fadd acc (math_Log lib v)) xs (Fin 0)"

definition sum_xk :: "math_lib \<Rightarrow> xfloat \<Rightarrow> xfloat list \<Rightarrow> xfloat" where
  "sum_xk lib k xs = fold (\<lambda>v acc. fadd acc (math_Pow lib v k)) xs (Fin 0)"

definition sum_xk_log :: "math_lib \<Rightarrow> xfloat \<Rightarrow> xfloat list \<Rightarrow> xfloat" where
  "sum_xk_log lib k xs = fold (\<lambda>v acc. fadd acc (fmul (math_Pow lib v k) (math_Log lib v))) xs (Fin 0)"

definition score :: "math_lib \<Rightarrow> xfloat list \<Rightarrow> xfloat \<Rightarrow> xfloat" where
  "score lib xs k =
     fadd (fadd (fdiv (Fin 1) k) (fdiv (sum_log lib xs) (fl (real (length xs))))) (fneg (fdiv (sum_xk_log lib k xs) (sum_xk lib k xs)))"

definition middle :: "xfloat \<Rightarrow> xfloat \<Rightarrow> xfloat" where
  "middle lowK highK = fdiv (fadd lowK highK) (Fin 2)"

fun bisect :: "(xfloat \<Rightarrow> xfloat) \<Rightarrow> nat \<Rightarrow> xfloat \<Rightarrow> xfloat \<Rightarrow> xfloat \<times> xfloat" where
  "bisect f 0 lowK highK = (lowK, highK)"
| "bisect f (Suc n) lowK highK =
     (let midK = middle lowK highK in if positive (f midK) then bisect f n midK highK else bisect f n lowK midK)"

definition NewStats :: "math_lib \<Rightarrow> duration list \<Rightarrow> bool \<Rightarrow> fitted" where
  "NewStats lib ds useDrs =
     (let xs = map millis ds;
          (lowK, highK) = bisect (score lib xs) StatsBisectTimes (Fin StatsLowK) (Fin StatsHighK);
          k = middle lowK highK
      in \<lparr>sizeLastRequested = 0, sizeCounter = 0, drs = useDrs, st_k = k,
          st_lambda = math_Pow lib (fdiv (sum_xk lib k xs) (fl (real (length xs)))) (fdiv (Fin 1) k)\<rparr>)"

text \<open>\<open>r\<close> is what \<open>rand.Float64\<close> returns. The conversion to an integer is only defined within the range of \<open>int64\<close>; \<open>beyond\<close> is
  what the platform does outside.\<close>

definition to_int64 :: "(xfloat \<Rightarrow> int) \<Rightarrow> xfloat \<Rightarrow> int" where
  "to_int64 beyond x = (case x of
       Fin y \<Rightarrow> if - (2 ^ 63) \<le> y \<and> y < 2 ^ 63 then (if y < 0 then - \<lfloor>- y\<rfloor> else \<lfloor>y\<rfloor>) else beyond x
     | _ \<Rightarrow> beyond x)"

definition stats_Delay :: "math_lib \<Rightarrow> (xfloat \<Rightarrow> int) \<Rightarrow> xfloat \<Rightarrow> fitted \<Rightarrow> duration" where
  "stats_Delay lib beyond r d =
     (let u = fadd (Fin 1) (fneg r);
          generated = fmul (st_lambda d) (math_Pow lib (fneg (math_Log lib u)) (fdiv (Fin 1) (st_k d)))
      in to_int64 beyond (fmul generated (Fin 1000000)))"

text \<open>A connection gets the statistics of the moment; \<open>cancelled\<close> tells that one of the two waits saw the end of the context.\<close>

definition ganger_NewConn :: "bool \<Rightarrow> ganger \<Rightarrow> doppelConn option" where
  "ganger_NewConn cancelled g = (if cancelled then None else Some (doppel_NewConn (g_stats g)))"

subsection \<open>Rounding\<close>

lemma round_even_bounds: "\<bar>of_int (round_even y) - y\<bar> \<le> 1 / 2"
proof -
  have "of_int \<lfloor>y\<rfloor> \<le> y" "y < of_int \<lfloor>y\<rfloor> + 1" by linarith+
  then show ?thesis by (auto simp: round_even_def Let_def)
qed

lemma round_even_int: "round_even (of_int n) = n"
  by (simp add: round_even_def)

lemma round_even_mono:
  assumes "x \<le> y"
  shows "round_even x \<le> round_even y"
proof (cases "\<lfloor>x\<rfloor> = \<lfloor>y\<rfloor>")
  case True
  then show ?thesis using assms by (auto simp: round_even_def Let_def)
next
  case False
  then have "\<lfloor>x\<rfloor> + 1 \<le> \<lfloor>y\<rfloor>" using floor_mono [OF assms] by linarith
  then show ?thesis by (auto simp: round_even_def Let_def)
qed

text \<open>A positive number that is not tiny lies in a binade with 52 bits below its start.\<close>

lemma binade:
  assumes "2 powi j \<le> x" "- 900 \<le> j"
  shows "j - 52 \<le> ulp_expo x" "2 ^ 52 * ulp x \<le> x" "x < 2 ^ 53 * ulp x"
proof -
  have pos: "0 < x" using assms(1) by (smt (verit) zero_less_power_int)
  have two: "(2 :: real) powi i = 2 powr of_int i" for i using powr_real_of_int' [of 2 i] by simp
  have "of_int j \<le> log 2 x" using assms(1) pos by (simp add: two le_log_iff)
  then have j: "j \<le> \<lfloor>log 2 x\<rfloor>" by (simp add: le_floor_iff)
  then have e: "ulp_expo x = \<lfloor>log 2 x\<rfloor> - 52" using pos assms(2) by (simp add: ulp_expo_def)
  then show "j - 52 \<le> ulp_expo x" using j by simp
  have u: "2 ^ 52 * ulp x = 2 powi \<lfloor>log 2 x\<rfloor>" by (simp add: ulp_def e power_int_diff)
  show "2 ^ 52 * ulp x \<le> x" unfolding u two using pos by (simp flip: le_log_iff)
  have "x < 2 powr of_int (\<lfloor>log 2 x\<rfloor> + 1)" using pos by (simp flip: log_less_iff)
  also have "\<dots> = 2 ^ 53 * ulp x" using u by (simp add: powr_add two)
  finally show "x < 2 ^ 53 * ulp x" .
qed

lemma ulp_pos: "0 < ulp x"
  by (simp add: ulp_def)

lemma rd_error: "\<bar>rd x - x\<bar> \<le> ulp x / 2"
proof -
  have "rd x - x = (of_int (round_even (x / ulp x)) - x / ulp x) * ulp x"
    using ulp_pos [of x] by (simp add: rd_def left_diff_distrib)
  then have "\<bar>rd x - x\<bar> = \<bar>of_int (round_even (x / ulp x)) - x / ulp x\<bar> * ulp x"
    using ulp_pos [of x] by (simp add: abs_mult)
  also have "\<dots> \<le> 1 / 2 * ulp x"
    using round_even_bounds ulp_pos by (intro mult_right_mono) (simp_all add: less_imp_le)
  finally show ?thesis by simp
qed

lemma rd_integral: "x = of_int n * ulp x \<Longrightarrow> rd x = x"
  using ulp_pos [of x] round_even_int [of n] by (metis less_numeral_extra(3) nonzero_mult_div_cancel_right rd_def)

text \<open>Rounding keeps to the ends of the binade and is monotone.\<close>

lemma rd_binade:
  assumes "2 powi (- 400) \<le> x"
  shows "2 ^ 52 * ulp x \<le> rd x" "rd x \<le> 2 ^ 53 * ulp x"
proof -
  have q: "2 ^ 52 \<le> x / ulp x" "x / ulp x \<le> 2 ^ 53"
    using binade(2,3) [OF assms] ulp_pos [of x] by (simp_all add: pos_le_divide_eq pos_divide_le_eq)
  have "round_even (of_int (2 ^ 52)) \<le> round_even (x / ulp x)" "round_even (x / ulp x) \<le> round_even (of_int (2 ^ 53))"
    using q by (intro round_even_mono; simp)+
  then have "real_of_int (2 ^ 52) \<le> of_int (round_even (x / ulp x))" "of_int (round_even (x / ulp x)) \<le> real_of_int (2 ^ 53)"
    unfolding round_even_int by (simp_all only: of_int_le_iff)
  then show "2 ^ 52 * ulp x \<le> rd x" "rd x \<le> 2 ^ 53 * ulp x"
    unfolding rd_def using ulp_pos [of x] by (intro mult_right_mono; simp)+
qed

lemma ulp_expo_mono: "0 < x \<Longrightarrow> x \<le> y \<Longrightarrow> ulp_expo x \<le> ulp_expo y"
  unfolding ulp_expo_def by (intro diff_mono max.mono floor_mono) simp_all

lemma rd_mono:
  assumes "2 powi (- 400) \<le> x" "x \<le> y"
  shows "rd x \<le> rd y"
proof (cases "ulp_expo x = ulp_expo y")
  case True
  then have "ulp x = ulp y" by (simp add: ulp_def)
  then show ?thesis using assms(2) ulp_pos [of y]
    by (auto simp: rd_def intro!: mult_right_mono round_even_mono divide_right_mono)
next
  case False
  have "0 < x" using assms(1) by (smt (verit) zero_less_power_int)
  then have "ulp_expo x + 1 \<le> ulp_expo y" using ulp_expo_mono [OF _ assms(2)] False by simp
  then have "(2 :: real) powi (ulp_expo x + 1) \<le> 2 powi ulp_expo y" by (intro power_int_increasing) simp_all
  then have "2 * ulp x \<le> ulp y" by (simp add: ulp_def power_int_add)
  then show ?thesis using rd_binade(2) [OF assms(1)] rd_binade(1) [of y] assms by simp
qed

text \<open>Numbers of 53 bits are kept, and so are their halves and doubles.\<close>

definition representable :: "real \<Rightarrow> bool" where
  "representable x \<longleftrightarrow> (\<exists>m j. x = of_int m * 2 powi j \<and> \<bar>m\<bar> \<le> 2 ^ 53 \<and> - 500 \<le> j)"

lemma powi_shift:
  assumes "k \<le> i"
  shows "of_int n * 2 powi i = of_int (n * 2 ^ nat (i - k)) * (2 :: real) powi k"
proof -
  have "(2 :: real) powi i = 2 powi (int (nat (i - k)) + k)" using assms by simp
  also have "\<dots> = 2 ^ nat (i - k) * 2 powi k" by (subst power_int_add) (simp_all only: power_int_of_nat, simp)
  finally show ?thesis by simp
qed

lemma rd_representable:
  assumes "representable x" "2 powi (- 400) \<le> x"
  shows "rd x = x"
proof -
  obtain m j where x: "x = of_int m * 2 powi j" "\<bar>m\<bar> \<le> 2 ^ 53" using assms(1) by (auto simp: representable_def)
  show ?thesis
  proof (cases "ulp_expo x \<le> j")
    case True
    from trans [OF x(1) powi_shift [OF this]] show ?thesis by (fold ulp_def) (rule rd_integral)
  next
    case False
    have "2 ^ 52 * ulp x \<le> of_int m * 2 powi j" using binade(2) [OF assms(2)] x(1) by simp
    moreover have "2 * 2 powi j \<le> ulp x"
      using False power_int_increasing [of "j + 1" "ulp_expo x" "2 :: real"] by (simp add: ulp_def power_int_add)
    ultimately have "2 ^ 52 * (2 * 2 powi j) \<le> of_int m * (2 :: real) powi j"
      by (meson mult_left_mono order_trans zero_le_numeral zero_le_power)
    then have "(2 ^ 53 :: real) \<le> of_int m" by simp
    then have "real_of_int (2 ^ 53) \<le> real_of_int m" by simp
    then have m: "m = 2 ^ 53" using x(2) by (simp only: of_int_le_iff)
    then have "2 ^ 52 * ulp x \<le> 2 ^ 52 * (2 * 2 powi j)" using binade(2) [OF assms(2)] x(1) by simp
    then have "ulp x = 2 * 2 powi j" using \<open>2 * 2 powi j \<le> ulp x\<close> by simp
    then show ?thesis using x(1) m by (intro rd_integral [of x "2 ^ 52"]) simp
  qed
qed

lemma rd_halves:
  assumes "2 powi (- 400) \<le> x"
  shows "representable (rd x)" "representable (rd x / 2)"
proof -
  let ?m = "round_even (x / ulp x)"
  have "real_of_int ?m \<le> 2 ^ 53" "0 \<le> real_of_int ?m"
    using rd_binade [OF assms] ulp_pos [of x] by (auto simp: rd_def elim: order_trans [rotated])
  then have "real_of_int \<bar>?m\<bar> \<le> real_of_int (2 ^ 53)" by simp
  then have m: "\<bar>?m\<bar> \<le> 2 ^ 53" by (simp only: of_int_le_iff)
  have j: "- 452 \<le> ulp_expo x" using binade(1) [OF assms] by simp
  have "rd x = of_int ?m * 2 powi ulp_expo x" by (simp add: rd_def ulp_def)
  then show "representable (rd x)" unfolding representable_def using m j by (intro exI conjI) auto
  have "rd x / 2 = of_int ?m * 2 powi (ulp_expo x - 1)" by (simp add: rd_def ulp_def power_int_diff)
  then show "representable (rd x / 2)" unfolding representable_def using m j by (intro exI conjI) auto
qed

lemma representable_double: "representable x \<Longrightarrow> representable (2 * x)"
proof -
  assume "representable x"
  then obtain m j where "x = of_int m * 2 powi j" "\<bar>m\<bar> \<le> 2 ^ 53" "- 500 \<le> j" by (auto simp: representable_def)
  moreover have "2 * (of_int m * (2 :: real) powi j) = of_int m * 2 powi (j + 1)" by (simp add: power_int_add)
  ultimately show ?thesis unfolding representable_def by (intro exI [of _ m] exI [of _ "j + 1"]) simp
qed

lemma fl_rd:
  assumes "2 powi (- 400) \<le> x" "x \<le> 32"
  shows "fl x = Fin (rd x)"
proof -
  have "\<bar>rd x - x\<bar> \<le> x" using rd_error [of x] binade(2) [OF assms(1)] ulp_pos [of x] by simp
  then have "\<bar>rd x\<bar> \<le> 2 ^ 6" using assms(2) by simp
  also have "\<dots> < (2 ^ 1024 :: real)" by (intro power_strict_increasing) simp_all
  finally show ?thesis by (simp only: fl_def) auto
qed

subsection \<open>The bracket\<close>

definition bracket :: "real \<Rightarrow> real \<Rightarrow> bool" where
  "bracket l h \<longleftrightarrow> 1 / 128 \<le> l \<and> l \<le> h \<and> h \<le> 16 \<and> representable l \<and> representable h"

lemma middle_bracket:
  assumes "bracket l h"
  obtains m where "middle (Fin l) (Fin h) = Fin m" "bracket l m" "bracket m h" "\<bar>m - (l + h) / 2\<bar> \<le> 1 / 2 ^ 49"
proof
  let ?s = "l + h" let ?m = "rd ?s / 2"
  have tiny: "(2 :: real) powi (- 400) \<le> 1 / 128" by (simp add: power_int_minus field_simps)
  have s: "1 / 64 \<le> ?s" "?s \<le> 32" "2 powi (- 400) \<le> ?s" using assms tiny by (auto simp: bracket_def)
  have ends: "rd (2 * l) = 2 * l" "rd (2 * h) = 2 * h" "rd (2 * l) \<le> rd ?s" "rd ?s \<le> rd (2 * h)"
    using assms tiny s(3) by (auto simp: bracket_def intro!: rd_representable representable_double rd_mono)
  then have m: "l \<le> ?m" "?m \<le> h" by simp_all
  have rep: "rd ?m = ?m" using rd_halves(2) [OF s(3)] m(1) assms tiny by (intro rd_representable) (auto simp: bracket_def)
  show "middle (Fin l) (Fin h) = Fin ?m"
    using s m assms by (simp add: middle_def fl_rd rep bracket_def)
  show "bracket l ?m" "bracket ?m h" using m assms rd_halves(2) [OF s(3)] by (auto simp: bracket_def)
  have "\<bar>rd ?s - ?s\<bar> \<le> 1 / 2 ^ 48" using rd_error [of ?s] binade(2) [OF s(3)] s(2) by simp
  moreover have "\<bar>?m - ?s / 2\<bar> = \<bar>rd ?s - ?s\<bar> / 2" by (simp flip: diff_divide_distrib)
  ultimately show "\<bar>?m - ?s / 2\<bar> \<le> 1 / 2 ^ 49" by simp
qed

lemma narrower:
  fixes w :: real
  assumes "w' \<le> w / 2 + 1 / 2 ^ 49"
  shows "(w' - 1 / 2 ^ 48) / 2 ^ n \<le> (w - 1 / 2 ^ 48) / 2 ^ Suc n"
proof -
  have "w' - 1 / 2 ^ 48 \<le> (w - 1 / 2 ^ 48) / 2" using assms by simp
  from divide_right_mono [OF this, of "2 ^ n"] show ?thesis by simp
qed

lemma bisect_bracket:
  assumes "bracket l h"
  shows "\<exists>l' h'. bisect f n (Fin l) (Fin h) = (Fin l', Fin h') \<and> bracket l' h' \<and> l \<le> l' \<and> h' \<le> h \<and>
    h' - l' - 1 / 2 ^ 48 \<le> (h - l - 1 / 2 ^ 48) / 2 ^ n \<and> (l' = l \<or> positive (f (Fin l'))) \<and> (h' = h \<or> \<not> positive (f (Fin h'))) \<and>
    ((\<forall>k. 0 < k \<longrightarrow> \<not> positive (f (Fin k))) \<longrightarrow> l' = l)"
  using assms
proof (induction n arbitrary: l h)
  case (Suc n)
  obtain m where m: "middle (Fin l) (Fin h) = Fin m" "bracket l m" "bracket m h" "\<bar>m - (l + h) / 2\<bar> \<le> 1 / 2 ^ 49"
    using middle_bracket [OF Suc.prems] .
  have w: "m - l \<le> (h - l) / 2 + 1 / 2 ^ 49" "h - m \<le> (h - l) / 2 + 1 / 2 ^ 49" using m(4) by (simp_all add: abs_if field_simps split: if_splits)
  have step: "bisect f (Suc n) (Fin l) (Fin h) = (if positive (f (Fin m)) then bisect f n (Fin m) (Fin h) else bisect f n (Fin l) (Fin m))"
    using m(1) by simp
  show ?case
  proof (cases "positive (f (Fin m))")
    case True
    obtain l' h' where b: "bisect f n (Fin m) (Fin h) = (Fin l', Fin h')" "bracket l' h'" "m \<le> l'" "h' \<le> h"
        "h' - l' - 1 / 2 ^ 48 \<le> (h - m - 1 / 2 ^ 48) / 2 ^ n" "l' = m \<or> positive (f (Fin l'))" "h' = h \<or> \<not> positive (f (Fin h'))"
      using Suc.IH [OF m(3)] by blast
    have "0 < m" using m(3) by (simp add: bracket_def)
    then show ?thesis unfolding step using True b m(2) narrower [OF w(2), of n] by (auto simp: bracket_def)
  next
    case False
    obtain l' h' where b: "bisect f n (Fin l) (Fin m) = (Fin l', Fin h')" "bracket l' h'" "l \<le> l'" "h' \<le> m"
        "h' - l' - 1 / 2 ^ 48 \<le> (m - l - 1 / 2 ^ 48) / 2 ^ n" "l' = l \<or> positive (f (Fin l'))" "h' = m \<or> \<not> positive (f (Fin h'))"
        "(\<forall>k. 0 < k \<longrightarrow> \<not> positive (f (Fin k))) \<longrightarrow> l' = l"
      using Suc.IH [OF m(2)] by blast
    then show ?thesis unfolding step using False m(3) narrower [OF w(1), of n] by (auto simp: bracket_def)
  qed
qed simp

text \<open>A duration below one microsecond counts as zero, and its logarithm makes every comparison of the bisection fail.\<close>

lemma fadd_NaN [simp]: "fadd x NaN = NaN"
  by (cases x) simp_all

lemma fold_NaN: "fold (\<lambda>v acc. fadd acc (g v)) xs NaN = NaN"
  by (induction xs) simp_all

lemma fold_meets_NaN: "v \<in> set xs \<Longrightarrow> g v = NaN \<Longrightarrow> fold (\<lambda>v acc. fadd acc (g v)) xs a = NaN"
  by (induction xs arbitrary: a) (auto simp: fold_NaN)

lemma fl_0 [simp]: "fl 0 = Fin 0"
  using round_even_int [of 0] by (simp add: fl_def rd_def)

lemma millis_short: "\<bar>d\<bar> < 1000 \<Longrightarrow> millis d = Fin 0"
  by (auto simp: millis_def go_div_def div_pos_pos_trivial abs_if split: if_splits)

lemma score_short:
  assumes "d \<in> set ds" "\<bar>d\<bar> < 1000" "0 < k"
  shows "\<not> positive (score lib (map millis ds) (Fin k))"
proof -
  have short: "Fin 0 \<in> set (map millis ds)" using assms(1,2) millis_short by force
  have "fmul (math_Pow lib (Fin 0) (Fin k)) (math_Log lib (Fin 0)) = NaN"
    using assms(3) by (simp add: pow_fin_def signed_inf_def)
  from fold_meets_NaN [OF short, of "\<lambda>v. fmul (math_Pow lib v (Fin k)) (math_Log lib v)", OF this]
  have "sum_xk_log lib (Fin k) (map millis ds) = NaN" by (simp only: sum_xk_log_def)
  then show ?thesis by (simp add: score_def)
qed

lemma representableI: "\<bar>m\<bar> \<le> 2 ^ 53 \<Longrightarrow> - 500 \<le> j \<Longrightarrow> representable (of_int m * 2 powi j)"
  unfolding representable_def by blast

lemma limits_bracket: "bracket StatsLowK StatsHighK"
proof -
  have "representable StatsLowK" using representableI [of 5764607523034235 "- 59"] by (simp add: StatsLowK_def)
  moreover have "representable StatsHighK" using representableI [of 10 0] by (simp add: StatsHighK_def)
  ultimately show ?thesis by (simp add: bracket_def StatsLowK_def StatsHighK_def)
qed

text \<open>The loop of the ganger takes over what was fitted: the step that ends a collection.\<close>

lemma fit_is_update:
  "\<not> collecting g \<Longrightarrow> ganger_step g (ganger_updated (dstats.truncate (NewStats lib (durations g) (drs (g_stats g)))) g)"
  using ganger_step.updates by (simp add: NewStats_def dstats.truncate_def Let_def split: prod.splits)

subsection \<open>The fit is bracketed, or useless\<close>

text \<open>C19. Fitting the delays. Whatever durations were measured and whatever the last bits of the logarithm and the power are, the
  bisection ends with a bracket inside its limits that is narrower than 1/2^47, whose ends are a limit or were accepted and
  refused by the likelihood equation, and the shape lies in it. But a single gap of less than a microsecond makes every
  comparison fail: the shape is then the lower limit 0.01 up to 1/2^47, whatever the other durations are.\<close>

theorem weibull_fit:
  fixes lib :: math_lib and ds :: "duration list"
  defines "f \<equiv> score lib (map millis ds)"
  shows "\<exists>low high k. bisect f StatsBisectTimes (Fin StatsLowK) (Fin StatsHighK) = (Fin low, Fin high) \<and>
    st_k (NewStats lib ds useDrs) = Fin k \<and> StatsLowK \<le> low \<and> low \<le> k \<and> k \<le> high \<and> high \<le> StatsHighK \<and> high - low < 1 / 2 ^ 47 \<and>
    (low = StatsLowK \<or> positive (f (Fin low))) \<and> (high = StatsHighK \<or> \<not> positive (f (Fin high))) \<and>
    (d \<in> set ds \<and> \<bar>d\<bar> < 1000 \<longrightarrow> k < StatsLowK + 1 / 2 ^ 47)"
proof -
  obtain low high where b: "bisect f StatsBisectTimes (Fin StatsLowK) (Fin StatsHighK) = (Fin low, Fin high)" "bracket low high"
      "StatsLowK \<le> low" "high \<le> StatsHighK" "high - low - 1 / 2 ^ 48 \<le> (StatsHighK - StatsLowK - 1 / 2 ^ 48) / 2 ^ StatsBisectTimes"
      "low = StatsLowK \<or> positive (f (Fin low))" "high = StatsHighK \<or> \<not> positive (f (Fin high))"
      "(\<forall>k. 0 < k \<longrightarrow> \<not> positive (f (Fin k))) \<longrightarrow> low = StatsLowK"
    using bisect_bracket [OF limits_bracket, of f StatsBisectTimes] by blast
  have "(StatsHighK - StatsLowK - 1 / 2 ^ 48) / 2 ^ StatsBisectTimes < 1 / 2 ^ 48"
    by (simp add: StatsHighK_def StatsLowK_def StatsBisectTimes_def)
  with b(5) have "high - low - 1 / 2 ^ 48 < 1 / 2 ^ 48" by (rule le_less_trans)
  then have width: "high - low < 1 / 2 ^ 47" by simp
  obtain k where k: "middle (Fin low) (Fin high) = Fin k" "low \<le> k" "k \<le> high"
    using middle_bracket [OF b(2)] by (metis bracket_def)
  have "st_k (NewStats lib ds useDrs) = Fin k" using b(1) k(1) by (simp add: NewStats_def f_def Let_def)
  moreover have "d \<in> set ds \<and> \<bar>d\<bar> < 1000 \<longrightarrow> low = StatsLowK" using b(8) score_short unfolding f_def by blast
  ultimately show ?thesis using b k width by auto
qed

theorem weibull_fit_witness:
  "\<exists>k. st_k (NewStats \<lparr>ml_log = (\<lambda>x. fl (ln x)), ml_pow = (\<lambda>x y. fl (x powr y))\<rparr> [5000000, 999, 7000000] True) = Fin k \<and>
     StatsLowK \<le> k \<and> k < StatsLowK + 1 / 2 ^ 47"
  using weibull_fit [of "\<lparr>ml_log = (\<lambda>x. fl (ln x)), ml_pow = (\<lambda>x y. fl (x powr y))\<rparr>" "[5000000, 999, 7000000]" True 999]
  by force

end
