(* ===== verification/StreamEvents.thy ===== *)
theory StreamEvents
  imports Metrics TelegramCall
begin

text \<open>
  The events of a stream, in the order in which \<open>ServeConn\<close>, \<open>doFakeTLSHandshake\<close>, \<open>doDomainFrontingForHost\<close> and
  \<open>doTelegramCall\<close> of \<open>mtglib/proxy.go\<close> send them, and what the observers make of the events of all streams together. The
  lemmas show that the streams keep the order the gauges rely on, and what the gauges count.
\<close>

subsection \<open>The events of one stream\<close>

datatype tls_verdict = BadHello | Replayed | Denied | HelloUnsent | LetIn

text \<open>How the parts of \<open>ServeConn\<close> end; \<open>so_action\<close> and \<open>so_admitted\<close> are the answer of \<open>acquire\<close>, the lists are the bytes
  the relay reads and writes.\<close>

record serve_outcome =
  so_deadlineSet :: bool
  so_action :: string
  so_admitted :: bool
  so_verdict :: tls_verdict
  so_frontDials :: bool
  so_secretName :: string
  so_canConnect :: bool
  so_wrapped :: bool
  so_obfuscated :: bool
  so_deadlineCleared :: bool
  so_relayed :: "(nat \<times> bool) list"

definition traffic_events :: "call_opts \<Rightarrow> string \<Rightarrow> (nat \<times> bool) list \<Rightarrow> event list" where
  "traffic_events p sid rs = (if emitTraffic p then map (\<lambda>(n, isRead). EventTraffic sid n isRead) (filter (\<lambda>(n, _). n > 0) rs) else [])"

definition fronting_events :: "call_opts \<Rightarrow> string \<Rightarrow> serve_outcome \<Rightarrow> event list" where
  "fronting_events p sid out =
     EventDomainFronting sid # (if so_frontDials out then traffic_events p sid (so_relayed out) else [])"

fun effect_events :: "call_effect list \<Rightarrow> event list" where
  "effect_events [] = []"
| "effect_events (ConnectedToDC ev # effs) =
     EventConnectedToDC (ev_streamID ev) (case ev_remoteIP ev of None \<Rightarrow> [] | Some a \<Rightarrow> a) (ev_dc ev) # effect_events effs"
| "effect_events (_ # effs) = effect_events effs"

definition telegram_events ::
    "call_opts \<Rightarrow> call_env \<Rightarrow> telegram \<Rightarrow> manager option \<Rightarrow> callCtx \<Rightarrow> serve_outcome \<Rightarrow> event list" where
  "telegram_events p env tg mp ctx out =
     (let (err, effs, _, _) = doTelegramCall p env tg mp ctx
      in effect_events effs @ (if err = None then traffic_events p (cc_streamID ctx) (so_relayed out) else []))"

text \<open>Between the start and the deferred finish; \<open>ctx\<close> is the context of the stream when Telegram is called.\<close>

definition handled_events ::
    "call_opts \<Rightarrow> call_env \<Rightarrow> telegram \<Rightarrow> manager option \<Rightarrow> callCtx \<Rightarrow> serve_outcome \<Rightarrow> event list" where
  "handled_events p env tg mp ctx out =
     (let sid = cc_streamID ctx
      in (if so_action out \<noteq> [] then [EventPendingHandshakeLimit sid (so_action out)] else []) @
         (if \<not> so_admitted out then []
          else case so_verdict out of
              BadHello \<Rightarrow> fronting_events p sid out
            | Replayed \<Rightarrow> EventReplayAttack sid # fronting_events p sid out
            | Denied \<Rightarrow> fronting_events p sid out
            | HelloUnsent \<Rightarrow> []
            | LetIn \<Rightarrow>
                if \<not> so_canConnect out then [EventThrottled sid (so_secretName out)]
                else if \<not> so_wrapped out \<or> \<not> so_obfuscated out \<or> \<not> so_deadlineCleared out then []
                else telegram_events p env tg mp ctx out))"

definition ServeConn_events ::
    "call_opts \<Rightarrow> call_env \<Rightarrow> telegram \<Rightarrow> manager option \<Rightarrow> callCtx \<Rightarrow> ip \<Rightarrow> serve_outcome \<Rightarrow> event list" where
  "ServeConn_events p env tg mp ctx peerIP out =
     (if \<not> so_deadlineSet out then []
      else EventStart (cc_streamID ctx) peerIP # handled_events p env tg mp ctx out @ [EventFinish (cc_streamID ctx)])"

subsection \<open>All streams\<close>

text \<open>What is sent, with the outcome of each \<open>select\<close>: the events of every stream in their order, as far as it has come, and
  events without a stream in between. Stream ids are random and not empty.\<close>

definition of_stream :: "string \<Rightarrow> event list \<Rightarrow> event list" where
  "of_stream sid = filter (\<lambda>e. event_StreamID e = sid)"

definition streams_run :: "(event \<times> bool) list \<Rightarrow> bool" where
  "streams_run sent \<longleftrightarrow>
     (\<forall>sid. sid \<noteq> [] \<longrightarrow> (\<exists>p env tg mp ctx peerIP out. cc_streamID ctx = sid \<and>
        prefix (of_stream sid (map fst sent)) (ServeConn_events p env tg mp ctx peerIP out))) \<and>
     (\<forall>e \<in> set (of_stream [] (map fst sent)). case e of
        EventConcurrencyLimited \<Rightarrow> True | EventIPBlocklisted _ _ \<Rightarrow> True | EventIPListSize _ _ \<Rightarrow> True | _ \<Rightarrow> False)"

subsection \<open>Each stream by itself\<close>

text \<open>The observers treat the entry of a stream apart from all others.\<close>

fun track1 :: "event \<Rightarrow> streamInfo option \<Rightarrow> streamInfo option" where
  "track1 (EventStart sid a) st = Some \<lparr>isDomainFronted = False, tags = [(''ip_family'', ip_family a)]\<rparr>"
| "track1 (EventConnectedToDC sid a dc) st =
     map_option (\<lambda>i. i\<lparr>tags := gm_put ''dc'' (itoa dc) (gm_put ''telegram_ip'' (ip_String a) (tags i))\<rparr>) st"
| "track1 (EventDomainFronting sid) st = map_option (\<lambda>i. i\<lparr>isDomainFronted := True\<rparr>) st"
| "track1 (EventFinish sid) st = None"
| "track1 _ st = st"

definition clean :: "streamInfo option \<Rightarrow> bool" where
  "clean st = (case st of None \<Rightarrow> True | Some i \<Rightarrow> \<not> isDomainFronted i \<and> gm_get (tags i) ''telegram_ip'' = None)"

fun is_start :: "event \<Rightarrow> bool" where
  "is_start (EventStart _ _) = True"
| "is_start _ = False"

fun is_connected :: "event \<Rightarrow> bool" where
  "is_connected (EventConnectedToDC _ _ _) = True"
| "is_connected (EventDomainFronting _) = True"
| "is_connected _ = False"

lemma get_track: "gm_get (track e m) s = (if event_StreamID e = s then track1 e (gm_get m s) else gm_get m s)"
  by (cases e) (auto split: option.splits)

lemma orderly_local: "orderly e m \<longleftrightarrow> (is_start e \<longrightarrow> gm_get m (event_StreamID e) = None) \<and> (is_connected e \<longrightarrow> clean (gm_get m (event_StreamID e)))"
  by (cases e) (auto simp: clean_def split: option.splits)

lemma get_fold: "gm_get (fold track es m) s = fold track1 (of_stream s es) (gm_get m s)"
  by (induction es arbitrary: m) (auto simp: of_stream_def get_track)

text \<open>At most one start and at most one connection per stream are enough for order.\<close>

lemma orderly_run_once:
  assumes "\<And>s. length (filter is_start (of_stream s es)) \<le> (if gm_get m s = None then 1 else 0)"
    and "\<And>s. length (filter is_connected (of_stream s es)) \<le> (if clean (gm_get m s) then 1 else 0)"
  shows "orderly_run es m"
  using assms
proof (induction es arbitrary: m)
  case (Cons e es)
  have "orderly e m" using Cons.prems [of "event_StreamID e"] by (auto simp: orderly_local of_stream_def split: if_splits)
  moreover have "orderly_run es (track e m)"
  proof (rule Cons.IH)
    fix s
    show "length (filter is_start (of_stream s es)) \<le> (if gm_get (track e m) s = None then 1 else 0)"
      unfolding get_track using Cons.prems(1) [of s] by (cases e) (auto simp: of_stream_def split: if_splits)
    show "length (filter is_connected (of_stream s es)) \<le> (if clean (gm_get (track e m) s) then 1 else 0)"
      unfolding get_track using Cons.prems(2) [of s] by (cases e) (auto simp: of_stream_def clean_def split: if_splits option.splits)
  qed
  ultimately show ?case by simp
qed simp

subsection \<open>The shape of a stream\<close>

lemma effect_events_append: "effect_events (xs @ ys) = effect_events xs @ effect_events ys"
  by (induction xs rule: effect_events.induct) simp_all

lemma effect_events_closed: "effect_events (map (\<lambda>a. Closed (f a)) xs) = []"
  by (induction xs) simp_all

definition calls_once :: "string \<Rightarrow> event list \<Rightarrow> bool" where
  "calls_once sid es \<longleftrightarrow> es = [] \<or> (\<exists>a dc. es = [EventConnectedToDC sid a dc])"

lemma doDirectCall_events: "doDirectCall p env tg ctx = (err, effs, ctx') \<Longrightarrow> calls_once (cc_streamID ctx) (effect_events effs)"
  by (auto simp: doDirectCall_def call_addresses_def calls_once_def Let_def split: prod.splits option.splits if_splits)

lemma doMiddleProxyCall_events:
  assumes "doMiddleProxyCall p env tag m ctx = (err, effs, m', ctx')"
  shows "case err of None \<Rightarrow> calls_once (cc_streamID ctx) (effect_events effs) | Some _ \<Rightarrow> effect_events effs = [] \<and> ctx' = ctx"
  using assms
  by (auto simp: doMiddleProxyCall_def calls_once_def effect_events_append effect_events_closed Let_def split: prod.splits sum.splits)

lemma doTelegramCall_events:
  assumes "doTelegramCall p env tg mp ctx = (err, effs, mp', ctx')"
  shows "calls_once (cc_streamID ctx) (effect_events effs)"
  using assms
  by (auto simp: doTelegramCall_def effect_events_append Let_def split: option.splits prod.splits
      dest!: doDirectCall_events doMiddleProxyCall_events)

definition passing :: "string \<Rightarrow> event \<Rightarrow> bool" where
  "passing sid e \<longleftrightarrow> event_StreamID e = sid \<and> \<not> is_start e \<and> e \<noteq> EventFinish sid"

definition stream_shape :: "string \<Rightarrow> event list \<Rightarrow> bool" where
  "stream_shape sid es \<longleftrightarrow> es = [] \<or> (\<exists>a mid. es = EventStart sid a # mid @ [EventFinish sid] \<and>
     list_all (passing sid) mid \<and> length (filter is_connected mid) \<le> 1)"

lemma traffic_events_shape: "list_all (passing sid) (traffic_events p sid rs) \<and> filter is_connected (traffic_events p sid rs) = []"
  by (auto simp: traffic_events_def list_all_iff passing_def filter_empty_conv)

lemma fronting_events_shape: "list_all (passing sid) (fronting_events p sid out) \<and> length (filter is_connected (fronting_events p sid out)) \<le> 1"
  using traffic_events_shape [of sid p "so_relayed out"] by (simp add: fronting_events_def passing_def)

lemma telegram_events_shape:
  "list_all (passing (cc_streamID ctx)) (telegram_events p env tg mp ctx out) \<and> length (filter is_connected (telegram_events p env tg mp ctx out)) \<le> 1"
proof -
  obtain err effs mp' ctx' where call: "doTelegramCall p env tg mp ctx = (err, effs, mp', ctx')" by (metis prod_cases4)
  show ?thesis
    using doTelegramCall_events [OF call] traffic_events_shape [of "cc_streamID ctx" p "so_relayed out"]
    by (auto simp: telegram_events_def call calls_once_def passing_def)
qed

lemma handled_events_shape:
  "list_all (passing (cc_streamID ctx)) (handled_events p env tg mp ctx out) \<and> length (filter is_connected (handled_events p env tg mp ctx out)) \<le> 1"
  using fronting_events_shape [of "cc_streamID ctx" p out] telegram_events_shape [of ctx p env tg mp out]
  by (auto simp: handled_events_def passing_def Let_def split: tls_verdict.splits)

lemma ServeConn_events_shape: "stream_shape (cc_streamID ctx) (ServeConn_events p env tg mp ctx peerIP out)"
  unfolding stream_shape_def ServeConn_events_def using handled_events_shape [of ctx p env tg mp out] by auto

text \<open>What the observers hold of a stream after its first events.\<close>

definition belongs :: "metric \<Rightarrow> string \<Rightarrow> event list \<Rightarrow> bool" where
  "belongs x sid es \<longleftrightarrow> EventFinish sid \<notin> set es \<and> (\<exists>a. EventStart sid a \<in> set es \<and>
     (x = clientConnections (ip_family a) \<or> x = domainFrontingConnections (ip_family a) \<and> EventDomainFronting sid \<in> set es \<or>
      (\<exists>b dc. EventConnectedToDC sid b dc \<in> set es \<and> x = telegramConnections (ip_String b) (itoa dc))))"

definition counted :: "metric \<Rightarrow> streamInfo option \<Rightarrow> bool" where
  "counted x st = (case st of None \<Rightarrow> False | Some i \<Rightarrow> counts_in x i)"

lemma fold_passing: "list_all (passing sid) es \<Longrightarrow> fold track1 es st = fold track1 (filter is_connected es) st"
proof (induction es arbitrary: st)
  case (Cons e es)
  then show ?case by (cases e) (auto simp: passing_def)
qed simp

lemma mem_connected: "is_connected e \<Longrightarrow> e \<in> set es \<longleftrightarrow> e \<in> set (filter is_connected es)"
  by simp

lemma single_connection:
  assumes "list_all (passing sid) es" "length (filter is_connected es) \<le> 1"
  shows "filter is_connected es = [] \<or> (\<exists>b dc. filter is_connected es = [EventConnectedToDC sid b dc]) \<or>
    filter is_connected es = [EventDomainFronting sid]"
proof (cases "filter is_connected es")
  case (Cons e rest)
  then have one: "filter is_connected es = [e]" using assms(2) by simp
  then have "e \<in> set es \<and> is_connected e" by (metis filter_eq_Cons_iff in_set_conv_decomp)
  moreover from this have "event_StreamID e = sid" using assms(1) by (auto simp: list_all_iff passing_def)
  ultimately show ?thesis unfolding one by (cases e) auto
qed simp

lemma counted_open:
  assumes "list_all (passing sid) es" "length (filter is_connected es) \<le> 1"
  shows "counted x (fold track1 (EventStart sid a # es) None) \<longleftrightarrow> belongs x sid (EventStart sid a # es)"
proof -
  have "EventFinish sid \<notin> set es" "EventStart sid b \<notin> set es" for b using assms(1) by (auto simp: list_all_iff passing_def)
  moreover note fold = fold_passing [OF assms(1)]
  moreover have "EventDomainFronting sid \<in> set es \<longleftrightarrow> EventDomainFronting sid \<in> set (filter is_connected es)"
    "EventConnectedToDC sid b d \<in> set es \<longleftrightarrow> EventConnectedToDC sid b d \<in> set (filter is_connected es)" for b d by simp_all
  ultimately show ?thesis
    using single_connection [OF assms]
    by (elim disjE exE)
       (auto simp del: filter_set simp: counted_def belongs_def counts_in_def on_family_def on_front_def on_telegram_def info_T_def gm_get0_def)
qed

lemma counted_prefix:
  assumes "stream_shape sid es" "prefix pre es"
  shows "counted x (fold track1 pre None) \<longleftrightarrow> belongs x sid pre"
proof (cases "pre = []")
  case False
  then obtain a mid where es: "es = EventStart sid a # mid @ [EventFinish sid]"
      and mid: "list_all (passing sid) mid" "length (filter is_connected mid) \<le> 1"
    using assms by (auto simp: stream_shape_def)
  then obtain rest where pre: "pre = EventStart sid a # rest" "prefix rest (mid @ [EventFinish sid])"
    using assms(2) False by (cases pre) auto
  then consider "rest = mid @ [EventFinish sid]" | ys where "mid = rest @ ys" by (auto simp: prefix_snoc elim: prefixE)
  then show ?thesis
  proof cases
    case 1
    then show ?thesis by (simp add: pre counted_def belongs_def)
  next
    case 2
    then show ?thesis using counted_open [of sid rest x a] mid by (simp add: pre)
  qed
qed (simp add: counted_def belongs_def)

lemma population_counted: "gm_ok m \<Longrightarrow> population x m = int (card {sid. counted x (gm_get m sid)})"
proof -
  assume ok: "gm_ok m"
  let ?m = "filter (\<lambda>ki. counts_in x (snd ki)) m"
  have "distinct (map fst ?m)" using ok by (simp add: distinct_map_filter)
  then have "length ?m = card (fst ` set ?m)" by (metis distinct_card length_map set_map)
  moreover have "counted x (gm_get m sid) \<longleftrightarrow> (\<exists>i. (sid, i) \<in> set m \<and> counts_in x i)" for sid
    unfolding map_of_eq_Some_iff [OF ok, symmetric] by (cases "gm_get m sid") (auto simp: counted_def)
  then have "fst ` set ?m = {sid. counted x (gm_get m sid)}" by force
  ultimately show ?thesis by (simp add: population_def)
qed

subsection \<open>Order in every interleaving\<close>

lemma shape_once:
  assumes "stream_shape sid es" "prefix pre es"
  shows "length (filter is_start pre) \<le> 1 \<and> length (filter is_connected pre) \<le> 1"
proof -
  obtain ys where es: "es = pre @ ys" using assms(2) by (auto elim: prefixE)
  have "length (filter is_start es) \<le> 1 \<and> length (filter is_connected es) \<le> 1"
    using assms(1) by (auto simp: stream_shape_def list_all_iff passing_def filter_empty_conv)
  then show ?thesis by (simp add: es)
qed

lemma streams_run_prefix:
  assumes "streams_run sent" "sid \<noteq> []"
  obtains es where "stream_shape sid es" "prefix (of_stream sid (map fst sent)) es"
  using assms ServeConn_events_shape unfolding streams_run_def by blast

lemma observed_fewer: "length (filter P (of_stream s (observed sent))) \<le> length (filter P (of_stream s (map fst sent)))"
  by (induction sent) (auto simp: observed_def of_stream_def)

lemma streamless:
  assumes "streams_run sent" "e \<in> set (of_stream [] (map fst sent))"
  shows "\<not> is_start e \<and> \<not> is_connected e \<and> track1 e st = st"
  using assms by (cases e) (auto simp: streams_run_def)

lemma streams_orderly:
  assumes "streams_run sent"
  shows "orderly_run (observed sent) []"
proof (rule orderly_run_once)
  fix s
  have "length (filter is_start (of_stream s (map fst sent))) \<le> 1 \<and> length (filter is_connected (of_stream s (map fst sent))) \<le> 1"
  proof (cases "s = []")
    case True
    then show ?thesis using streamless [OF assms] by (simp add: filter_empty_conv)
  next
    case False
    then show ?thesis using streams_run_prefix [OF assms False] shape_once by metis
  qed
  then show "length (filter is_start (of_stream s (observed sent))) \<le> (if gm_get [] s = None then 1 else 0)"
    "length (filter is_connected (of_stream s (observed sent))) \<le> (if clean (gm_get [] s) then 1 else 0)"
    using observed_fewer [of is_start s sent] observed_fewer [of is_connected s sent] by (simp_all add: clean_def)
qed

lemma fold_streamless: "(\<And>e. e \<in> set es \<Longrightarrow> track1 e st = st) \<Longrightarrow> fold track1 es st = st"
  by (induction es) auto

lemma observed_all:
  assumes "list_all (\<lambda>(_, givenUp). \<not> givenUp) sent"
  shows "fold track1 (of_stream s (observed sent)) st = fold track1 (of_stream s (map fst sent)) st"
  using assms
proof (induction sent arbitrary: st)
  case (Cons a sent)
  obtain e g where a: "a = (e, g)" by fastforce
  then show ?case using Cons by (cases e) (auto simp: observed_def of_stream_def processor_passes_def)
qed (simp add: observed_def)

subsection \<open>The gauges count the streams\<close>

text \<open>C24. The gauges over all streams. Take any number of streams, each sending the events of \<open>ServeConn\<close> in its order, in any
  interleaving with each other and with the events of the accept loop and the lists. The Prometheus gauges and those of a
  statsd server are then equal, whatever events are lost, and the statsd observer brings its gauges back to zero when it
  shuts down. If no event is lost, a client gauge is the number of streams of its address family that have started and not
  finished, a fronting gauge the number of those that went to the fronting domain, and a Telegram gauge the number of those
  connected to that address and data centre.\<close>

theorem gauges_count_streams:
  assumes "streams_run sent" "is_gauge x" "\<And>ks. set (order ks) = set ks"
  shows "\<exists>p s. fold (processor_step hash rnd chans) sent [PromObserver prom_New, StatsdObserver sd_New] = [PromObserver p, StatsdObserver s] \<and>
    prom_values p x = server_gauge (sd_sent s) x \<and> server_gauge (sd_sent (sd_Shutdown order s)) x = 0 \<and>
    (list_all (\<lambda>(_, givenUp). \<not> givenUp) sent \<longrightarrow>
       prom_values p x = int (card {sid. sid \<noteq> [] \<and> belongs x sid (of_stream sid (map fst sent))}))"
proof -
  let ?m = "fold track (observed sent) []"
  obtain p s where run: "fold (processor_step hash rnd chans) sent [PromObserver prom_New, StatsdObserver sd_New] = [PromObserver p, StatsdObserver s]"
      "prom_values p x = population x ?m" "server_gauge (sd_sent s) x = population x ?m" "server_gauge (sd_sent (sd_Shutdown order s)) x = 0"
    using gauges_exact_everywhere [OF streams_orderly [OF assms(1)] assms(2), of order] assms(3) by blast
  have "population x ?m = int (card {sid. sid \<noteq> [] \<and> belongs x sid (of_stream sid (map fst sent))})"
    if "list_all (\<lambda>(_, givenUp). \<not> givenUp) sent"
  proof -
    have "counted x (gm_get ?m sid) \<longleftrightarrow> sid \<noteq> [] \<and> belongs x sid (of_stream sid (map fst sent))" for sid
    proof (cases "sid = []")
      case True
      then show ?thesis using fold_streamless [of "of_stream [] (map fst sent)" None] streamless [OF assms(1)]
        by (simp add: get_fold observed_all [OF that] counted_def)
    next
      case False
      then show ?thesis using streams_run_prefix [OF assms(1) False] counted_prefix
        by (metis get_fold map_of.simps(1) observed_all [OF that])
    qed
    then show ?thesis using population_counted [OF gm_ok_fold_track, of "[]"] by simp
  qed
  then show ?thesis using run by auto
qed

subsection \<open>Witness\<close>

definition sample_outcome :: "bool \<Rightarrow> serve_outcome" where
  "sample_outcome admitted = \<lparr>so_deadlineSet = True, so_action = [], so_admitted = admitted, so_verdict = BadHello, so_frontDials = True,
     so_secretName = [], so_canConnect = True, so_wrapped = True, so_obfuscated = True, so_deadlineCleared = True, so_relayed = []\<rparr>"

definition sample_sent :: "(event \<times> bool) list" where
  "sample_sent = [(EventStart ''a'' [10, 0, 0, 1], False), (EventStart ''b'' [10, 0, 0, 2], False), (EventDomainFronting ''a'', False),
     (EventConcurrencyLimited, False), (EventFinish ''b'', False)]"

lemma sample_streams: "streams_run sample_sent"
proof -
  have "\<exists>p env tg mp ctx peerIP out. cc_streamID ctx = sid \<and>
      prefix (of_stream sid (map fst sample_sent)) (ServeConn_events p env tg mp ctx peerIP out)" if "sid \<noteq> []" for sid
    using that
    by (intro exI [of _ sample_call_opts] exI [of _ sample_call_env] exI [of _ sample_telegram] exI [of _ None]
        exI [of _ "(sample_ctx 2)\<lparr>cc_streamID := sid\<rparr>"] exI [of _ "if sid = ''a'' then [10, 0, 0, 1] else [10, 0, 0, 2]"]
        exI [of _ "sample_outcome (sid = ''a'')"])
       (auto simp: of_stream_def sample_sent_def ServeConn_events_def handled_events_def fronting_events_def sample_outcome_def Let_def)
  then show ?thesis by (auto simp: streams_run_def of_stream_def sample_sent_def)
qed

theorem gauges_count_streams_witness:
  "\<exists>p s. fold (processor_step (\<lambda>_. 7) 0 4) sample_sent [PromObserver prom_New, StatsdObserver sd_New] = [PromObserver p, StatsdObserver s] \<and>
    prom_values p (clientConnections ''ipv4'') = 1 \<and> server_gauge (sd_sent s) (clientConnections ''ipv4'') = 1 \<and>
    server_gauge (sd_sent (sd_Shutdown rev s)) (clientConnections ''ipv4'') = 0"
proof -
  have "is_gauge (clientConnections ''ipv4'')" by (auto simp: is_gauge_def)
  moreover have "{sid. sid \<noteq> [] \<and> belongs (clientConnections ''ipv4'') sid (of_stream sid (map fst sample_sent))} = {''a''}"
    by (auto simp: belongs_def of_stream_def sample_sent_def ip_family_def ip_To4_def)
  ultimately show ?thesis
    using gauges_count_streams [OF sample_streams, of "clientConnections ''ipv4''" rev "\<lambda>_. 7" 0 4] by (auto simp: sample_sent_def)
qed

end
