(* ===== verification/Spec2Isabelle.thy ===== *)
theory Spec2Isabelle
  imports Prelude Encoding Secret SecretLimits SecretSet ProxyStats Proxy ProxyAPI PendingHandshakes Streams Frame NetAddr MiddleProxy Obfuscation
    Wire TlsRecord ClientHello ServerHello NetText Telegram Manager Conns Relay TelegramCall Doppel Breaker NetDial Serve Metrics ConfigTypes Config Blocklist
    Listeners Doctor Access Startup Shutdown Socks SimpleRun Weibull StreamEvents
begin

text \<open>
  mtg-multi is a Telegram proxy in Go. A client opens a TLS-looking connection whose hello is signed with one of the
  configured secrets; the proxy checks it, undoes the obfuscation, and relays the stream to a Telegram data centre,
  directly or (with an advertising tag) through Telegram's middle proxies. Anyone else is passed on to the fronting
  domain of the secret, so the proxy looks like that web site. An HTTP API changes the secrets while the proxy runs.

  \<^bold>\<open>Parts and theories.\<close> Names in this list are files and functions under \<open>src/\<close>.

  \<^item> \<open>Prelude\<close>, \<open>Encoding\<close>, \<open>NetAddr\<close>, \<open>NetText\<close>, \<open>Wire\<close>: what the code uses of the Go language and library. Bytes are
    words of 8 bits, strings are byte strings, \<open>int64\<close> arithmetic goes through \<open>i64\<close> (two's complement), maps are
    association lists with one entry per key (\<open>gm_ok\<close>) whose order stands for the iteration order, readers are the
    bytes still to come. Two locales are shared by many theories: \<open>transition_system\<close> (a start state, steps, an
    invariant kept by every step) and \<open>item_codec\<close> (self-delimiting items on a byte stream).
  \<^item> \<open>Secret\<close> (\<open>mtglib/secret.go\<close>), \<open>SecretLimits\<close> (\<open>secret_limits.go\<close>), \<open>SecretSet\<close> (\<open>secretSet\<close> in \<open>proxy.go\<close>): keys with
    host names, quotas and deadlines, the immutable snapshot of all secrets.
  \<^item> \<open>ProxyStats\<close> (\<open>proxy_stats.go\<close>, \<open>counting_conn.go\<close>): counters, quota periods, the usage file, fair connection caps.
  \<^item> \<open>Proxy\<close>, \<open>ProxyAPI\<close> (\<open>proxy.go\<close>, \<open>proxy_api.go\<close>): the swap of the secrets and what it closes, the management handlers
    and their routes. The locale \<open>mutator\<close> is what each handler relies on.
  \<^item> \<open>PendingHandshakes\<close>, \<open>Streams\<close> (\<open>pending_handshakes.go\<close>, \<open>ServeConn\<close>): the limit on unauthenticated handshakes, and
    all connections of a proxy at once as a step relation, one step per critical section, a change of the secrets in three.
  \<^item> \<open>TlsRecord\<close>, \<open>ClientHello\<close>, \<open>ServerHello\<close> (\<open>mtglib/internal/tls\<close>): records, the reassembled and verified hello, the
    answer.
  \<^item> \<open>Obfuscation\<close> (\<open>mtglib/obfuscation\<close>), \<open>Frame\<close>, \<open>MiddleProxy\<close>, \<open>Manager\<close> (\<open>mtglib/internal/middleproxy\<close>), \<open>Telegram\<close>
    (\<open>mtglib/internal/dc\<close>), \<open>TelegramCall\<close> (the calls in \<open>proxy.go\<close>): the way to Telegram.
  \<^item> \<open>Conns\<close>, \<open>Relay\<close>, \<open>Doppel\<close> (\<open>conns.go\<close>, \<open>internal/relay\<close>, \<open>internal/doppel\<close>): wrappers, the two pumps, and the shaping of
    records after the measured traffic of real sites.
  \<^item> \<open>Weibull\<close> (\<open>NewStats\<close> and \<open>Delay\<close> in \<open>doppel/stats.go\<close>): the fit of the delays, with \<open>float64\<close> as rounded reals, infinities
    and NaN.
  \<^item> \<open>Breaker\<close>, \<open>NetDial\<close> (\<open>network\<close>, \<open>network/v2\<close>): circuit breaker, load balancing, cached lookups.
  \<^item> \<open>Serve\<close> (\<open>NewProxy\<close>, \<open>Serve\<close>, \<open>accept.go\<close>, \<open>internal/acceptretry\<close>): building and feeding a proxy.
  \<^item> \<open>Metrics\<close> (\<open>events\<close>, \<open>stats\<close>): events and the two observers that count them, behind the locale \<open>metrics_observer\<close>.
    \<open>StreamEvents\<close> (\<open>ServeConn\<close>): the events of a stream in the order the code sends them.
  \<^item> \<open>ConfigTypes\<close>, \<open>Config\<close> (\<open>internal/config\<close>, \<open>internal/utils/read_config.go\<close>, \<open>runProxy\<close>): settings, the environment,
    validation, and the options that reach \<open>NewProxy\<close>. Every setting type interprets \<open>config_text\<close> or \<open>config_type\<close>.
  \<^item> \<open>Blocklist\<close> (\<open>ipblocklist\<close>, \<open>makeIPAllowlist\<close>): the address lists the accept loop asks.
  \<^item> \<open>Listeners\<close> (\<open>internal/utils/net_listener.go\<close>, \<open>waitAndShutdown\<close> and the end of \<open>runProxy\<close>): the listeners and their
    fan-in, and how the process ends, both as step relations that interpret the locale \<open>countdown\<close>.
  \<^item> \<open>Startup\<close> (\<open>runProxy\<close> with \<open>makeEventStream\<close>, \<open>makeNetwork\<close>, \<open>NewFirehol\<close>, \<open>network/v2/dns.go\<close> and \<open>antireplay\<close>) and
    \<open>Shutdown\<close> (\<open>Shutdown\<close> and \<open>startUsagePersistence\<close> in \<open>proxy.go\<close>): the order of the start and what makes it fail, and the end
    of a proxy beside everything that still runs.
  \<^item> \<open>Socks\<close> (\<open>socks5.go\<close>, \<open>proxy_dialer.go\<close>, \<open>default.go\<close>, \<open>load_balanced_socks5.go\<close> in \<open>network\<close>): the SOCKS5 conversation and
    how dialers are built. \<open>SimpleRun\<close> (\<open>internal/cli/simple_run.go\<close>): a configuration from flags.
  \<^item> \<open>Doctor\<close> (\<open>mtglib/dcprobe\<close>, \<open>doctor.go\<close>, \<open>sni_check.go\<close>, \<open>get_ip.go\<close> in \<open>internal/cli\<close>) and \<open>Access\<close>
    (\<open>internal/cli/access.go\<close>): the probe of a data centre, the checks of the command line and the links it prints.

  \<^bold>\<open>How the code is modelled.\<close> A struct is a record, an operation a function from the state to the new state and its
  result, an error a value of a datatype with one constructor per error of the source, a panic a constructor of its
  own. Goroutines that share state are an inductive step relation whose steps are the critical sections and atomic
  operations; results about them hold for every interleaving. Time, random numbers, timers and the outcomes of the
  network are arguments or parts of a step, so a result holds for all of them. Loops are recursive functions with a
  termination proof; no fuel is used. Loops that wait for the network run over the finite list of events to come.

  \<^bold>\<open>Code outside the repository\<close> is an argument with its documented behaviour as a hypothesis: AES, SHA and MD5 and
  curve25519, xxhash, the trie of networks, the TOML decoder, byte units, the worker pool, and the tables of Unicode
  and the parsers for URLs and instants. Every theorem with such a hypothesis is instantiated with concrete functions.

  \<^bold>\<open>What is shown\<close>, by group.
  \<^item> Secrets: a swap closes exactly the stale and barred streams; the snapshot is canonical; every
    management request keeps the invariant, and one that is refused changes nothing; the token guards every route.
  \<^item> Streams: counters, registry and pending slots are exact in every interleaving. One run shows a stream that
    outlives its key.
  \<^item> Wire formats: records, frames, handshakes and obfuscation read back what was written, whatever the sizes of reads
    and writes; hellos are accepted exactly for the first secret that signed them. The handshake with a middle proxy leaves
    a channel on which both sides read what the other one writes.
  \<^item> The way to Telegram: bytes and data centre of the client arrive; addresses obey the preference; the first usable
    middle proxy carries the stream; the fronting domain sees every byte.
  \<^item> The relay doubles and reorders nothing and loses at most the one buffer whose write fails; shaping changes no byte; a
    half-close ends both directions. The fit of the delays stays in
    its limits, and a single very short gap makes it useless.
  \<^item> Dialing, accepting, metrics, address lists: state machines of the breaker, the accept loop survives temporary
    errors, gauges equal the open streams in every
    interleaving of their events, lists contain what their files say.
  \<^item> Start and end: a configuration that was read starts exactly when everything outside works, and a failed start names
    what did not; the usage file is complete after an orderly end, and otherwise the contents it can end up with are those
    of the two flushes that race; a stream can begin after \<open>Shutdown\<close> has returned.
  \<^item> Process and command line: several listeners behind one \<open>Accept\<close> deliver everything once and in order, the exit
    status tells a failed accept loop from an ordinary stop, the probe accepts exactly the peers that answer its nonce,
    and a printed link reads back to a configured secret.
  \<^item> Configuration: ranges of all settings, and a configuration that was read always builds a proxy in the state the
    other results start from.

  \<^bold>\<open>Not modelled\<close>: printed reports and the flag library of the command line, logging, socket options and HTTP transports
  (system calls and third-party code whose outcome is an argument), the Bloom filter of the anti-replay cache and the
  encoding of SOCKS5 messages (third-party; their answers are arguments), interface declarations, tests and benchmarks.
\<close>

end
